(* ===== verification/Prelude.thy ===== *)
theory Prelude
  imports Main "HOL-Library.Word" "HOL-Library.Signed_Division"
begin

text \<open>
  Vocabulary shared by every component of the model: bytes and C strings, the C
  conversions the sources use (\<open>atol\<close>, truncation to \<open>int\<close>), the error numbers the
  functions of \<open>core/\<close> return, and generic facts on lists and words that the component
  proofs use through the simplifier.
\<close>

unbundle bit_operations_syntax

type_synonym byte = "8 word"
type_synonym bytes = "8 word list"
type_synonym u16 = "16 word"
type_synonym u32 = "32 word"
type_synonym u64 = "64 word"

named_theorems wire_defs \<comment> \<open>definitions of the wire formats\<close>

section \<open>C strings and bytes\<close>

text \<open>
  A C string is a list of characters without its terminating 0. Buffers that carry binary
  data are lists of bytes.
\<close>

definition bytes_of :: "string \<Rightarrow> bytes" where
  "bytes_of s = map of_char s"

definition string_of :: "bytes \<Rightarrow> string" where
  "string_of bs = map (\<lambda>b. char_of (unat b)) bs"

lemma length_bytes_of [simp]: "length (bytes_of s) = length s"
  by (simp add: bytes_of_def)

lemma bytes_of_Nil [simp]: "bytes_of [] = []"
  by (simp add: bytes_of_def)

lemma bytes_of_append [simp]: "bytes_of (s @ t) = bytes_of s @ bytes_of t"
  by (simp add: bytes_of_def)

lemma unat_of_char_byte: "unat (of_char c :: byte) = of_char c"
proof -
  have "(of_char c :: byte) = of_nat (of_char c)" by (simp add: of_nat_of_char)
  then have "unat (of_char c :: byte) = of_char c mod 256"
    by (simp add: unat_of_nat del: of_nat_of_char)
  then show ?thesis by simp
qed

lemma string_of_bytes_of [simp]: "string_of (bytes_of s) = s"
  by (simp add: string_of_def bytes_of_def unat_of_char_byte comp_def)

lemma bytes_of_inject [simp]: "bytes_of s = bytes_of t \<longleftrightarrow> s = t"
  by (metis string_of_bytes_of)

lemma take4: "i + 4 \<le> length xs \<Longrightarrow> take 4 (drop i xs) = [xs ! i, xs ! (i + 1), xs ! (i + 2), xs ! (i + 3)]"
  by (rule nth_equalityI) (auto simp: less_Suc_eq numeral_eq_Suc)

section \<open>C integers\<close>

text \<open>
  Conversion of a \<open>long\<close> to \<open>int\<close> (32 bits, two's complement), as in
  \<open>int j = atol(colon)\<close>.
\<close>

definition to_int :: "int \<Rightarrow> int" where
  "to_int x = signed_take_bit 31 x"

lemma to_int_small [simp]: "- (2 ^ 31) \<le> x \<Longrightarrow> x < 2 ^ 31 \<Longrightarrow> to_int x = x"
  by (simp add: to_int_def signed_take_bit_int_eq_self)

lemma to_int_range: "- (2 ^ 31) \<le> to_int x \<and> to_int x < 2 ^ 31"
  unfolding to_int_def
  by (metis signed_take_bit_int_greater_eq_minus_exp signed_take_bit_int_less_exp)


definition in_range :: "char \<Rightarrow> nat \<Rightarrow> nat \<Rightarrow> bool" where
  "in_range c lo hi \<longleftrightarrow> lo \<le> (of_char c :: nat) \<and> (of_char c :: nat) \<le> hi"

definition is_digit :: "char \<Rightarrow> bool" where
  "is_digit c \<longleftrightarrow> 48 \<le> (of_char c :: nat) \<and> (of_char c :: nat) \<le> 57"

definition digit_val :: "char \<Rightarrow> int" where
  "digit_val c = of_char c - 48"

definition is_space :: "char \<Rightarrow> bool" where
  "is_space c \<longleftrightarrow> c = CHR '' '' \<or> 9 \<le> (of_char c :: nat) \<and> (of_char c :: nat) \<le> 13"

definition to_lower :: "char \<Rightarrow> char" where
  "to_lower c = (let n = of_char c :: nat in if 65 \<le> n \<and> n \<le> 90 then char_of (n + 32) else c)"

definition strcaseeq :: "string \<Rightarrow> string \<Rightarrow> bool" where
  "strcaseeq s t \<longleftrightarrow> map to_lower s = map to_lower t"

text \<open>
  \<open>strtol(s, NULL, 10)\<close>, which is \<open>atol\<close>: leading white space, an optional sign, then the
  longest run of digits; the value saturates at the limits of a 64-bit \<open>long\<close>.
\<close>

fun digits_val :: "int \<Rightarrow> string \<Rightarrow> int" where
  "digits_val a [] = a"
| "digits_val a (c # cs) = (if is_digit c then digits_val (10 * a + digit_val c) cs else a)"

definition clamp_long :: "int \<Rightarrow> int" where
  "clamp_long x = max (- (2 ^ 63)) (min (2 ^ 63 - 1) x)"

fun atol_signed :: "string \<Rightarrow> int" where
  "atol_signed (CHR ''-'' # cs) = - digits_val 0 cs"
| "atol_signed (CHR ''+'' # cs) = digits_val 0 cs"
| "atol_signed cs = digits_val 0 cs"

definition atol :: "string \<Rightarrow> int" where
  "atol s = clamp_long (atol_signed (dropWhile is_space s))"

text \<open>\<open>int j = atol(s)\<close>\<close>

definition atoi :: "string \<Rightarrow> int" where
  "atoi s = to_int (atol s)"

text \<open>\<open>printf("%d", n)\<close> for a non-negative value, and for any \<open>int\<close>.\<close>

fun dec_nat :: "nat \<Rightarrow> string" where
  "dec_nat n = (if n < 10 then [char_of (48 + n)] else dec_nat (n div 10) @ [char_of (48 + n mod 10)])"

declare dec_nat.simps [simp del]

definition dec_int :: "int \<Rightarrow> string" where
  "dec_int x = (if x < 0 then CHR ''-'' # dec_nat (nat (- x)) else dec_nat (nat x))"

lemma digits_val_append:
  "\<forall>c \<in> set xs. is_digit c \<Longrightarrow> digits_val a (xs @ ys) = digits_val (digits_val a xs) ys"
  by (induction xs arbitrary: a) auto

lemma of_char_char_of_nat: "n < 256 \<Longrightarrow> (of_char (char_of n :: char) :: nat) = n"
  by simp

lemma is_digit_char_of: "n < 10 \<Longrightarrow> is_digit (char_of (48 + n :: nat))"
  by (simp add: is_digit_def)

lemma digit_val_char_of:
  assumes "n < 10"
  shows "digit_val (char_of (48 + n :: nat)) = int n"
proof -
  have "(of_char (char_of (48 + n) :: char) :: int) = int (of_char (char_of (48 + n) :: char))"
    by (rule of_nat_of_char [symmetric])
  also have "\<dots> = int (48 + n)"
    using assms by (subst of_char_char_of_nat) simp_all
  finally show ?thesis by (simp add: digit_val_def)
qed

lemma dec_nat_digits: "\<forall>c \<in> set (dec_nat n). is_digit c"
proof (induction n rule: dec_nat.induct)
  case (1 n)
  then show ?case
    by (subst dec_nat.simps) (auto intro: is_digit_char_of simp del: char_of_nat)
qed

lemma digits_val_dec_nat: "digits_val 0 (dec_nat n) = int n"
proof (induction n rule: dec_nat.induct)
  case (1 n)
  show ?case
  proof (cases "n < 10")
    case True
    then show ?thesis
      by (subst dec_nat.simps) (simp add: is_digit_char_of digit_val_char_of del: char_of_nat)
  next
    case False
    with 1 have IH: "digits_val 0 (dec_nat (n div 10)) = int (n div 10)" by simp
    from False show ?thesis
      by (subst dec_nat.simps)
        (simp add: digits_val_append dec_nat_digits IH is_digit_char_of digit_val_char_of
          zdiv_int zmod_int del: char_of_nat)
  qed
qed

lemma dec_nat_nonempty [simp]: "dec_nat n \<noteq> []"
  by (subst dec_nat.simps) simp

section \<open>Error numbers\<close>

text \<open>
  Errors are returned as negative numbers; \<open>err\<close> gives the code of the target system
  (Darwin). Only their sign and their being distinct matter to the callers.
\<close>

datatype errno = E2BIG | EPERM | ENOENT | EINTR | EIO | ENOMEM | EACCES | EINVAL | EPIPE | EAGAIN
  | EOPNOTSUPP | ECONNABORTED | ECONNRESET | EPROTONOSUPPORT | ENOSPC | EEXIST

fun err :: "errno \<Rightarrow> int" where
  "err E2BIG = -7"
| "err EPERM = -1"
| "err ENOENT = -2"
| "err EINTR = -4"
| "err EIO = -5"
| "err ENOMEM = -12"
| "err EACCES = -13"
| "err EINVAL = -22"
| "err EPIPE = -32"
| "err EAGAIN = -35"
| "err EOPNOTSUPP = -102"
| "err ECONNABORTED = -53"
| "err ECONNRESET = -54"
| "err EPROTONOSUPPORT = -43"
| "err ENOSPC = -28"
| "err EEXIST = -17"

lemma err_neg [simp]: "err e < 0"
  by (cases e) auto

lemma err_nonzero [simp]: "err e \<noteq> 0"
  by (cases e) auto

lemma err_inject [simp]: "err e = err f \<longleftrightarrow> e = f"
  by (cases e; cases f) auto

end
