(* ===== verification/Pkt_Queue.thy ===== *)
theory Pkt_Queue
  imports Prelude
begin

text \<open>
  The packet queues of \<open>core/mainloop.c\<close> (\<open>queue_packet\<close>, \<open>queue_new_packet\<close>) twice: as
  the pointer program that walks \<open>struct pkt **q\<close> to the end of a linked list, and as
  lists. The refinement lemma relates the two; the locale \<open>fifo\<close> states what the tunnel
  loops rely on and is interpreted on the list model.
\<close>

section \<open>Packets\<close>

text \<open>
  \<open>struct pkt\<close>: eight bytes of header space and the payload; \<open>len\<close> is the length of
  the payload list.
\<close>

record pkt =
  pkt_hdr :: bytes
  pkt_data :: bytes

abbreviation pkt_len :: "pkt \<Rightarrow> int" where
  "pkt_len p \<equiv> int (length (pkt_data p))"

abbreviation new_pkt :: "bytes \<Rightarrow> pkt" where
  "new_pkt d \<equiv> \<lparr>pkt_hdr = replicate 8 0, pkt_data = d\<rparr>"

section \<open>The pointer program\<close>

type_synonym addr = nat

record node =
  node_pkt :: pkt
  node_next :: "addr option"

type_synonym heap = "addr \<rightharpoonup> node"

text \<open>
  What \<open>struct pkt **q\<close> can point to: the variable that holds the head of the queue, or the
  \<open>next\<close> field of a node.
\<close>

datatype ptrloc = Head | Next addr

text \<open>\<open>*q\<close>; \<open>None\<close> for a dangling pointer.\<close>

fun deref :: "heap \<Rightarrow> addr option \<Rightarrow> ptrloc \<Rightarrow> addr option option" where
  "deref h hd0 Head = Some hd0"
| "deref h hd0 (Next a) = map_option node_next (h a)"

text \<open>\<open>while (*q) q = &(*q)->next\<close>: \<open>None\<close> when the walk does not end.\<close>

partial_function (option) walk :: "heap \<Rightarrow> addr option \<Rightarrow> ptrloc \<Rightarrow> ptrloc option" where
  "walk h hd0 q =
     (case deref h hd0 q of
        None \<Rightarrow> None
      | Some None \<Rightarrow> Some q
      | Some (Some a) \<Rightarrow> walk h hd0 (Next a))"

definition set_next :: "heap \<Rightarrow> addr \<Rightarrow> addr option \<Rightarrow> heap" where
  "set_next h a n = (case h a of None \<Rightarrow> h | Some nd \<Rightarrow> h(a \<mapsto> nd\<lparr>node_next := n\<rparr>))"

definition queue_packet_ptr :: "heap \<Rightarrow> addr option \<Rightarrow> addr \<Rightarrow> (heap \<times> addr option) option" where
  "queue_packet_ptr h hd0 new =
     (case walk h hd0 Head of
        None \<Rightarrow> None
      | Some q \<Rightarrow>
          let h1 = set_next h new None in
          Some (case q of
                  Head \<Rightarrow> (h1, Some new)
                | Next a \<Rightarrow> (set_next h1 a (Some new), hd0)))"

text \<open>\<open>lseg h p as\<close>: following \<open>next\<close> from \<open>p\<close> visits exactly the nodes \<open>as\<close>.\<close>

fun lseg :: "heap \<Rightarrow> addr option \<Rightarrow> addr list \<Rightarrow> bool" where
  "lseg h p [] \<longleftrightarrow> p = None"
| "lseg h p (a # as) \<longleftrightarrow> p = Some a \<and> (\<exists>nd. h a = Some nd \<and> lseg h (node_next nd) as)"

definition end_loc :: "addr list \<Rightarrow> ptrloc" where
  "end_loc as = (if as = [] then Head else Next (last as))"

lemma set_next_same [simp]: "h a = Some nd \<Longrightarrow> set_next h a n a = Some (nd\<lparr>node_next := n\<rparr>)"
  by (simp add: set_next_def)

lemma set_next_other [simp]: "b \<noteq> a \<Longrightarrow> set_next h a n b = h b"
  by (simp add: set_next_def split: option.split)

lemma set_next_pkt [simp]: "map_option node_pkt (set_next h a n b) = map_option node_pkt (h b)"
  by (simp add: set_next_def split: option.split)

lemma lseg_cong: "\<forall>a \<in> set as. h' a = h a \<Longrightarrow> lseg h' p as = lseg h p as"
  by (induction as arbitrary: p) auto

lemma lseg_mem: "lseg h p as \<Longrightarrow> a \<in> set as \<Longrightarrow> \<exists>nd. h a = Some nd"
  by (induction as arbitrary: p) auto

lemma walk_next:
  "h a = Some nd \<Longrightarrow> lseg h (node_next nd) as \<Longrightarrow>
     walk h hd0 (Next a) = Some (Next (last (a # as)))"
proof (induction as arbitrary: a nd)
  case Nil
  then show ?case by (subst walk.simps) simp
next
  case (Cons b as)
  then obtain nb where "node_next nd = Some b" "h b = Some nb" "lseg h (node_next nb) as"
    by auto
  with Cons show ?case by (subst walk.simps) simp
qed

lemma walk_empty [simp]: "walk h None Head = Some Head"
  by (subst walk.simps) simp

lemma walk_head: "lseg h hd0 as \<Longrightarrow> walk h hd0 Head = Some (end_loc as)"
proof (cases as)
  case Nil
  assume "lseg h hd0 as"
  with Nil show ?thesis by (subst walk.simps) (simp add: end_loc_def)
next
  case (Cons a as')
  assume "lseg h hd0 as"
  with Cons obtain nd where "hd0 = Some a" "h a = Some nd" "lseg h (node_next nd) as'"
    by auto
  with Cons walk_next show ?thesis by (subst walk.simps) (simp add: end_loc_def)
qed

lemma lseg_snoc:
  assumes "lseg h p (as @ [a])" and "h new = Some nd" "node_next nd = None"
    and "new \<notin> set (as @ [a])" and "distinct (as @ [a])"
  shows "lseg (set_next h a (Some new)) p (as @ [a, new])"
  using assms
proof (induction as arbitrary: p)
  case Nil
  then show ?case by auto
next
  case (Cons b as)
  then obtain nb where "p = Some b" "h b = Some nb" "lseg h (node_next nb) (as @ [a])"
    by auto
  with Cons show ?case by (auto simp: set_next_def split: option.split)
qed

lemma queue_packet_ptr_lseg:
  assumes q: "lseg h hd0 as" and d: "distinct as" and n: "h new = Some nd" and f: "new \<notin> set as"
  shows "\<exists>h' hd0'. queue_packet_ptr h hd0 new = Some (h', hd0') \<and> lseg h' hd0' (as @ [new]) \<and>
           (\<forall>a. map_option node_pkt (h' a) = map_option node_pkt (h a))"
proof (cases as rule: rev_cases)
  case Nil
  with q n show ?thesis
    by (auto simp: queue_packet_ptr_def Let_def)
next
  case (snoc bs b)
  let ?h1 = "set_next h new None"
  have "\<forall>a \<in> set as. ?h1 a = h a" using f by (metis set_next_other)
  then have "lseg ?h1 hd0 as" using q lseg_cong by blast
  then have "lseg (set_next ?h1 b (Some new)) hd0 (bs @ [b, new])"
    using snoc n d f by (intro lseg_snoc [where nd = "nd\<lparr>node_next := None\<rparr>"]) auto
  with snoc q show ?thesis
    by (auto simp: queue_packet_ptr_def walk_head end_loc_def Let_def)
qed

section \<open>Queues as lists\<close>

definition queue_packet :: "pkt list \<Rightarrow> pkt \<Rightarrow> pkt list" where
  "queue_packet q new = q @ [new]"

text \<open>\<open>this = q; q = this->next\<close>, as the three loops take a packet off a queue.\<close>

fun unqueue :: "'p list \<Rightarrow> ('p \<times> 'p list) option" where
  "unqueue [] = None"
| "unqueue (p # q) = Some (p, q)"

text \<open>\<open>malloc_ok\<close> is what the allocator answers.\<close>

definition queue_new_packet :: "bool \<Rightarrow> pkt list \<Rightarrow> bytes \<Rightarrow> int \<times> pkt list" where
  "queue_new_packet malloc_ok q buf =
     (if \<not> malloc_ok then (err ENOMEM, q) else (0, queue_packet q (new_pkt buf)))"

section \<open>The queue contract\<close>

datatype 'p qop = Enq 'p | Deq

fun enqueued :: "'p qop list \<Rightarrow> 'p list" where
  "enqueued [] = []"
| "enqueued (Enq p # ops) = p # enqueued ops"
| "enqueued (Deq # ops) = enqueued ops"

text \<open>A history of queue operations: what was taken off, and the queue that is left.\<close>

fun qrun :: "('q \<Rightarrow> 'p \<Rightarrow> 'q) \<Rightarrow> ('q \<Rightarrow> ('p \<times> 'q) option) \<Rightarrow> 'p qop list \<Rightarrow> 'q \<Rightarrow> 'p list \<times> 'q" where
  "qrun enq deq [] q = ([], q)"
| "qrun enq deq (Enq p # ops) q = qrun enq deq ops (enq q p)"
| "qrun enq deq (Deq # ops) q =
     (case deq q of
        None \<Rightarrow> qrun enq deq ops q
      | Some (p, q') \<Rightarrow> (let (ps, q'') = qrun enq deq ops q' in (p # ps, q'')))"

locale fifo =
  fixes enq :: "'q \<Rightarrow> 'p \<Rightarrow> 'q"
    and deq :: "'q \<Rightarrow> ('p \<times> 'q) option"
    and items :: "'q \<Rightarrow> 'p list"
  assumes items_enq: "items (enq q p) = items q @ [p]"
    and deq_empty: "deq q = None \<longleftrightarrow> items q = []"
    and deq_first: "deq q = Some (p, q') \<Longrightarrow> items q = p # items q'"
begin

lemma fifo_history:
  "qrun enq deq ops q = (ps, q') \<Longrightarrow> ps @ items q' = items q @ enqueued ops"
proof (induction ops arbitrary: q ps)
  case (Cons op ops)
  show ?case
  proof (cases op)
    case (Enq p)
    with Cons show ?thesis by (simp add: items_enq)
  next
    case Deq
    show ?thesis
    proof (cases "deq q")
      case None
      with Deq Cons show ?thesis by simp
    next
      case (Some r)
      obtain p q1 where r: "r = (p, q1)" by (cases r)
      with Some Deq Cons.prems obtain ps1
        where "qrun enq deq ops q1 = (ps1, q')" "ps = p # ps1"
        by (auto split: prod.splits)
      with Cons.IH Some Deq r show ?thesis by (simp add: deq_first)
    qed
  qed
qed simp

lemma items_foldl_enq: "items (foldl enq q ps) = items q @ ps"
  by (induction ps arbitrary: q) (auto simp: items_enq)

end

interpretation pq: fifo queue_packet unqueue "\<lambda>q. q"
proof unfold_locales
  show "unqueue q = None \<longleftrightarrow> q = []" for q :: "pkt list"
    by (cases q) auto
  show "unqueue q = Some (p, q') \<Longrightarrow> q = p # q'" for q q' :: "pkt list" and p
    by (cases q) auto
qed (simp add: queue_packet_def)

lemma length_queue_packet [simp]: "length (queue_packet q p) = Suc (length q)"
  by (simp add: queue_packet_def)

section \<open>Properties\<close>

text \<open>
  The abstraction relation between the linked list and the list of its packets.
\<close>

definition represents :: "heap \<Rightarrow> addr option \<Rightarrow> addr list \<Rightarrow> pkt list \<Rightarrow> bool" where
  "represents h hd0 as q \<longleftrightarrow>
     lseg h hd0 as \<and> distinct as \<and> map (\<lambda>a. map_option node_pkt (h a)) as = map Some q"

definition sample_heap :: heap where
  "sample_heap = [1 \<mapsto> \<lparr>node_pkt = new_pkt [7], node_next = Some 2\<rparr>,
                  2 \<mapsto> \<lparr>node_pkt = new_pkt [8], node_next = None\<rparr>,
                  3 \<mapsto> \<lparr>node_pkt = new_pkt [9], node_next = Some 1\<rparr>]"

text \<open>
  C27 (queue_packet_refines): The pointer walk of \<open>queue_packet\<close> always ends on a well-formed queue, and
  the linked list it leaves is the old list with the new packet appended: the pointer
  program refines list append, whatever the new node's stale \<open>next\<close> field held.
\<close>

theorem queue_packet_refines:
  assumes "represents h hd0 as q" and "h new = Some nd" and "new \<notin> set as"
  shows "\<exists>h' hd0'. queue_packet_ptr h hd0 new = Some (h', hd0') \<and>
           represents h' hd0' (as @ [new]) (queue_packet q (node_pkt nd))"
proof -
  from assms queue_packet_ptr_lseg [of h hd0 as new nd] obtain h' hd0'
    where r: "queue_packet_ptr h hd0 new = Some (h', hd0')" "lseg h' hd0' (as @ [new])"
      and same: "\<forall>a. map_option node_pkt (h' a) = map_option node_pkt (h a)"
    by (auto simp: represents_def)
  from assms same have "represents h' hd0' (as @ [new]) (queue_packet q (node_pkt nd))"
    by (simp add: represents_def r queue_packet_def)
  with r show ?thesis by blast
qed

theorem queue_packet_refines_witness:
  "\<exists>h' hd0'. queue_packet_ptr sample_heap (Some 1) 3 = Some (h', hd0') \<and>
     represents h' hd0' [1, 2, 3] (queue_packet [new_pkt [7], new_pkt [8]] (new_pkt [9]))"
  using queue_packet_refines [of sample_heap "Some 1" "[1, 2]" "[new_pkt [7], new_pkt [8]]" 3
      "\<lparr>node_pkt = new_pkt [9], node_next = Some 1\<rparr>"]
  by (simp add: represents_def sample_heap_def)

text \<open>
  Over any history of enqueue and dequeue operations a packet queue neither loses,
  duplicates nor reorders a packet: what was taken off, followed by what is still queued,
  is what was queued before followed by what was added.
\<close>

theorem queue_fifo:
  assumes "qrun queue_packet unqueue ops q = (ps, q')"
  shows "ps @ q' = q @ enqueued ops"
  using assms by (rule pq.fifo_history)

theorem queue_fifo_witness:
  "qrun queue_packet unqueue [Enq (new_pkt [2]), Deq, Deq, Deq] [new_pkt [1]]
     = ([new_pkt [1], new_pkt [2]], []) \<and>
   [new_pkt [1], new_pkt [2]] @ [] =
     [new_pkt [1]] @ enqueued [Enq (new_pkt [2]), Deq, Deq, Deq]"
proof -
  have "qrun queue_packet unqueue [Enq (new_pkt [2]), Deq, Deq, Deq] [new_pkt [1]]
     = ([new_pkt [1], new_pkt [2]], [])"
    by (simp add: queue_packet_def)
  with queue_fifo [OF this] show ?thesis by blast
qed

end
