(* ===== verification/Keepalive.thy ===== *)
theory Keepalive
  imports Prelude
begin

text \<open>
  The keepalive, dead-peer-detection and rekey timers of \<open>core/mainloop.c\<close>
  (\<open>ka_check_deadline\<close>, \<open>ka_stalled_action\<close>, \<open>keepalive_action\<close>) over
  \<open>struct keepalive_info\<close>. Times are seconds (\<open>time_t\<close>), the poll timeout is in
  milliseconds; \<open>now\<close> is what \<open>time(NULL)\<close> returned.
\<close>

datatype rekey_method = REKEY_NONE | REKEY_TUNNEL | REKEY_SSL

record keepalive_info =
  ka_dpd :: int
  ka_keepalive :: int
  ka_rekey :: int
  ka_rekey_method :: rekey_method
  ka_last_rekey :: int
  ka_last_tx :: int
  ka_last_rx :: int
  ka_last_dpd :: int

datatype ka_action = KA_NONE | KA_DPD | KA_DPD_DEAD | KA_KEEPALIVE | KA_REKEY

text \<open>\<open>*timeout\<close> is passed in and returned.\<close>

definition ka_check_deadline :: "int \<Rightarrow> int \<Rightarrow> int \<Rightarrow> bool \<times> int" where
  "ka_check_deadline timeout now due =
     (if now \<ge> due then (True, timeout)
      else if timeout > (due - now) * 1000 then (False, (due - now) * 1000)
      else (False, timeout))"

text \<open>The rekey check that both functions begin with.\<close>

definition rekey_check :: "keepalive_info \<Rightarrow> int \<Rightarrow> int \<Rightarrow> bool \<times> int" where
  "rekey_check ka timeout now =
     (if ka_rekey_method ka \<noteq> REKEY_NONE
      then ka_check_deadline timeout now (ka_last_rekey ka + ka_rekey ka)
      else (False, timeout))"

definition ka_stalled_action ::
  "keepalive_info \<Rightarrow> int \<Rightarrow> int \<Rightarrow> ka_action \<times> keepalive_info \<times> int" where
  "ka_stalled_action ka timeout now =
     (let (due, timeout) = rekey_check ka timeout now in
      if due then (KA_REKEY, ka\<lparr>ka_last_rekey := now\<rparr>, timeout)
      else
        let (dead, timeout) =
          (if ka_dpd ka \<noteq> 0 then ka_check_deadline timeout now (ka_last_rx ka + 2 * ka_dpd ka)
           else (False, timeout)) in
        if dead then (KA_DPD_DEAD, ka, timeout)
        else (KA_NONE, ka, timeout))"

definition dpd_due :: "keepalive_info \<Rightarrow> int" where
  "dpd_due ka =
     (if ka_last_dpd ka > ka_last_rx ka then ka_last_dpd ka + ka_dpd ka sdiv 2
      else ka_last_rx ka + ka_dpd ka)"

definition keepalive_tail ::
  "keepalive_info \<Rightarrow> int \<Rightarrow> int \<Rightarrow> ka_action \<times> keepalive_info \<times> int" where
  "keepalive_tail ka timeout now =
     (let (due, timeout) =
        (if ka_keepalive ka \<noteq> 0
         then ka_check_deadline timeout now (ka_last_tx ka + ka_keepalive ka)
         else (False, timeout)) in
      if due then (KA_KEEPALIVE, ka, timeout) else (KA_NONE, ka, timeout))"

definition keepalive_action ::
  "keepalive_info \<Rightarrow> int \<Rightarrow> int \<Rightarrow> ka_action \<times> keepalive_info \<times> int" where
  "keepalive_action ka timeout now =
     (let (due, timeout) = rekey_check ka timeout now in
      if due then (KA_REKEY, ka\<lparr>ka_last_rekey := now\<rparr>, timeout)
      else if ka_dpd ka \<noteq> 0 then
        (if now > ka_last_rx ka + 2 * ka_dpd ka then (KA_DPD_DEAD, ka, timeout)
         else
           let (due, timeout) = ka_check_deadline timeout now (dpd_due ka) in
           if due then (KA_DPD, ka\<lparr>ka_last_dpd := now\<rparr>, timeout)
           else keepalive_tail ka timeout now)
      else keepalive_tail ka timeout now)"

section \<open>The timers against a list of deadlines\<close>

text \<open>
  The specification: the times at which something is due, given the timers. The poll
  timeout must be lowered to the nearest of them, in milliseconds.
\<close>

definition deadlines :: "keepalive_info \<Rightarrow> int list" where
  "deadlines ka =
     (if ka_rekey_method ka \<noteq> REKEY_NONE then [ka_last_rekey ka + ka_rekey ka] else []) @
     (if ka_dpd ka \<noteq> 0 then [dpd_due ka] else []) @
     (if ka_keepalive ka \<noteq> 0 then [ka_last_tx ka + ka_keepalive ka] else [])"

definition stalled_deadlines :: "keepalive_info \<Rightarrow> int list" where
  "stalled_deadlines ka =
     (if ka_rekey_method ka \<noteq> REKEY_NONE then [ka_last_rekey ka + ka_rekey ka] else []) @
     (if ka_dpd ka \<noteq> 0 then [ka_last_rx ka + 2 * ka_dpd ka] else [])"

definition poll_until :: "int \<Rightarrow> int \<Rightarrow> int list \<Rightarrow> int" where
  "poll_until timeout now ds = foldl (\<lambda>t d. min t ((d - now) * 1000)) timeout ds"

lemma poll_until_Nil [simp]: "poll_until t now [] = t"
  by (simp add: poll_until_def)

lemma poll_until_le: "poll_until t now ds \<le> t"
proof (induction ds arbitrary: t)
  case (Cons d ds)
  have "poll_until t now (d # ds) = poll_until (min t ((d - now) * 1000)) now ds"
    by (simp add: poll_until_def)
  also have "\<dots> \<le> min t ((d - now) * 1000)" by (rule Cons.IH)
  finally show ?case by simp
qed (simp add: poll_until_def)

lemma poll_until_pos:
  "0 < t \<Longrightarrow> \<forall>d \<in> set ds. now < d \<Longrightarrow> 0 < poll_until t now ds"
proof (induction ds arbitrary: t)
  case (Cons d ds)
  have "poll_until t now (d # ds) = poll_until (min t ((d - now) * 1000)) now ds"
    by (simp add: poll_until_def)
  moreover have "0 < min t ((d - now) * 1000)" using Cons.prems by simp
  ultimately show ?case using Cons.IH Cons.prems by simp
qed (simp add: poll_until_def)

text \<open>
  The characteristic equations: \<open>ka_check_deadline\<close> and \<open>rekey_check\<close> on either side of
  their deadline.
\<close>

definition rekey_due :: "keepalive_info \<Rightarrow> int \<Rightarrow> bool" where
  "rekey_due ka now \<longleftrightarrow>
     ka_rekey_method ka \<noteq> REKEY_NONE \<and> ka_last_rekey ka + ka_rekey ka \<le> now"

definition rekey_timeout :: "keepalive_info \<Rightarrow> int \<Rightarrow> int \<Rightarrow> int" where
  "rekey_timeout ka t now =
     (if ka_rekey_method ka \<noteq> REKEY_NONE
      then min t ((ka_last_rekey ka + ka_rekey ka - now) * 1000) else t)"

lemma ka_check_deadline_simps:
  "due \<le> now \<Longrightarrow> ka_check_deadline t now due = (True, t)"
  "\<not> due \<le> now \<Longrightarrow> ka_check_deadline t now due = (False, min t ((due - now) * 1000))"
  by (simp_all add: ka_check_deadline_def min_def)

lemma rekey_check_simps:
  "rekey_due ka now \<Longrightarrow> rekey_check ka t now = (True, t)"
  "\<not> rekey_due ka now \<Longrightarrow> rekey_check ka t now = (False, rekey_timeout ka t now)"
  by (auto simp: rekey_check_def rekey_due_def rekey_timeout_def ka_check_deadline_simps)

lemma keepalive_tail_simps:
  "ka_keepalive ka \<noteq> 0 \<Longrightarrow> ka_last_tx ka + ka_keepalive ka \<le> now \<Longrightarrow>
     keepalive_tail ka t now = (KA_KEEPALIVE, ka, t)"
  "ka_keepalive ka \<noteq> 0 \<Longrightarrow> \<not> ka_last_tx ka + ka_keepalive ka \<le> now \<Longrightarrow>
     keepalive_tail ka t now = (KA_NONE, ka, min t ((ka_last_tx ka + ka_keepalive ka - now) * 1000))"
  "ka_keepalive ka = 0 \<Longrightarrow> keepalive_tail ka t now = (KA_NONE, ka, t)"
  by (simp_all add: keepalive_tail_def ka_check_deadline_simps)

lemma keepalive_action_simps:
  "rekey_due ka now \<Longrightarrow> keepalive_action ka t now = (KA_REKEY, ka\<lparr>ka_last_rekey := now\<rparr>, t)"
  "\<not> rekey_due ka now \<Longrightarrow> ka_dpd ka = 0 \<Longrightarrow>
     keepalive_action ka t now = keepalive_tail ka (rekey_timeout ka t now) now"
  "\<not> rekey_due ka now \<Longrightarrow> ka_dpd ka \<noteq> 0 \<Longrightarrow> ka_last_rx ka + 2 * ka_dpd ka < now \<Longrightarrow>
     keepalive_action ka t now = (KA_DPD_DEAD, ka, rekey_timeout ka t now)"
  "\<not> rekey_due ka now \<Longrightarrow> ka_dpd ka \<noteq> 0 \<Longrightarrow> \<not> ka_last_rx ka + 2 * ka_dpd ka < now \<Longrightarrow>
     dpd_due ka \<le> now \<Longrightarrow>
     keepalive_action ka t now = (KA_DPD, ka\<lparr>ka_last_dpd := now\<rparr>, rekey_timeout ka t now)"
  "\<not> rekey_due ka now \<Longrightarrow> ka_dpd ka \<noteq> 0 \<Longrightarrow> \<not> ka_last_rx ka + 2 * ka_dpd ka < now \<Longrightarrow>
     \<not> dpd_due ka \<le> now \<Longrightarrow>
     keepalive_action ka t now =
       keepalive_tail ka (min (rekey_timeout ka t now) ((dpd_due ka - now) * 1000)) now"
  by (simp_all add: keepalive_action_def rekey_check_simps ka_check_deadline_simps)

lemma ka_stalled_action_simps:
  "rekey_due ka now \<Longrightarrow> ka_stalled_action ka t now = (KA_REKEY, ka\<lparr>ka_last_rekey := now\<rparr>, t)"
  "\<not> rekey_due ka now \<Longrightarrow> ka_dpd ka = 0 \<Longrightarrow>
     ka_stalled_action ka t now = (KA_NONE, ka, rekey_timeout ka t now)"
  "\<not> rekey_due ka now \<Longrightarrow> ka_dpd ka \<noteq> 0 \<Longrightarrow> ka_last_rx ka + 2 * ka_dpd ka \<le> now \<Longrightarrow>
     ka_stalled_action ka t now = (KA_DPD_DEAD, ka, rekey_timeout ka t now)"
  "\<not> rekey_due ka now \<Longrightarrow> ka_dpd ka \<noteq> 0 \<Longrightarrow> \<not> ka_last_rx ka + 2 * ka_dpd ka \<le> now \<Longrightarrow>
     ka_stalled_action ka t now =
       (KA_NONE, ka, min (rekey_timeout ka t now) ((ka_last_rx ka + 2 * ka_dpd ka - now) * 1000))"
  by (simp_all add: ka_stalled_action_def rekey_check_simps ka_check_deadline_simps)

text \<open>The five ways through \<open>keepalive_action\<close>, as a case rule.\<close>

lemma keepalive_cases [case_names rekey no_dpd dead dpd quiet]:
  assumes "rekey_due ka now \<Longrightarrow> P"
    and "\<not> rekey_due ka now \<Longrightarrow> ka_dpd ka = 0 \<Longrightarrow> P"
    and "\<not> rekey_due ka now \<Longrightarrow> ka_dpd ka \<noteq> 0 \<Longrightarrow> ka_last_rx ka + 2 * ka_dpd ka < now \<Longrightarrow> P"
    and "\<not> rekey_due ka now \<Longrightarrow> ka_dpd ka \<noteq> 0 \<Longrightarrow> \<not> ka_last_rx ka + 2 * ka_dpd ka < now \<Longrightarrow>
           dpd_due ka \<le> now \<Longrightarrow> P"
    and "\<not> rekey_due ka now \<Longrightarrow> ka_dpd ka \<noteq> 0 \<Longrightarrow> \<not> ka_last_rx ka + 2 * ka_dpd ka < now \<Longrightarrow>
           \<not> dpd_due ka \<le> now \<Longrightarrow> P"
  shows P
  using assms by blast

lemma keepalive_tail_none_iff:
  "fst (keepalive_tail ka t now) = KA_NONE \<longleftrightarrow>
     (ka_keepalive ka \<noteq> 0 \<longrightarrow> now < ka_last_tx ka + ka_keepalive ka)"
  by (simp add: keepalive_tail_def ka_check_deadline_def split: prod.split)

lemma keepalive_tail_none:
  "fst (keepalive_tail ka t now) = KA_NONE \<Longrightarrow> keepalive_tail ka t now =
     (KA_NONE, ka, poll_until t now (if ka_keepalive ka \<noteq> 0 then [ka_last_tx ka + ka_keepalive ka] else []))"
  by (cases "ka_keepalive ka = 0")
    (simp_all add: keepalive_tail_none_iff keepalive_tail_simps poll_until_def)

lemma deadlines_later:
  "(\<forall>d \<in> set (deadlines ka). now < d) \<longleftrightarrow>
     \<not> rekey_due ka now \<and> (ka_dpd ka \<noteq> 0 \<longrightarrow> now < dpd_due ka) \<and>
     (ka_keepalive ka \<noteq> 0 \<longrightarrow> now < ka_last_tx ka + ka_keepalive ka)"
  by (auto simp: deadlines_def rekey_due_def)

lemma keepalive_action_none:
  assumes "fst (keepalive_action ka t now) = KA_NONE"
  shows "keepalive_action ka t now = (KA_NONE, ka, poll_until t now (deadlines ka))
     \<and> (\<forall>d \<in> set (deadlines ka). now < d)"
proof (cases rule: keepalive_cases [of ka now])
  case no_dpd
  with assms have "fst (keepalive_tail ka (rekey_timeout ka t now) now) = KA_NONE"
    by (simp add: keepalive_action_simps)
  with no_dpd show ?thesis unfolding deadlines_later
    by (simp add: keepalive_action_simps keepalive_tail_none keepalive_tail_none_iff)
      (simp add: deadlines_def poll_until_def rekey_timeout_def)
next
  case quiet
  with assms have "fst (keepalive_tail ka
      (min (rekey_timeout ka t now) ((dpd_due ka - now) * 1000)) now) = KA_NONE"
    by (simp add: keepalive_action_simps)
  with quiet show ?thesis unfolding deadlines_later
    by (simp add: keepalive_action_simps keepalive_tail_none keepalive_tail_none_iff)
      (simp add: deadlines_def poll_until_def rekey_timeout_def)
qed (use assms in \<open>simp_all add: keepalive_action_simps\<close>)

lemma keepalive_action_none_iff:
  "fst (keepalive_action ka t now) = KA_NONE \<longleftrightarrow>
     (\<forall>d \<in> set (deadlines ka). now < d) \<and>
     (ka_dpd ka \<noteq> 0 \<longrightarrow> now \<le> ka_last_rx ka + 2 * ka_dpd ka)"
  unfolding deadlines_later
  by (cases rule: keepalive_cases [of ka now])
    (simp_all add: keepalive_action_simps keepalive_tail_none_iff not_less not_le)

lemma keepalive_tail_action:
  "keepalive_tail ka t now = (a, ka', t') \<Longrightarrow> ka' = ka \<and> (a = KA_NONE \<or> a = KA_KEEPALIVE)"
  by (auto simp: keepalive_tail_def split: prod.splits if_splits)

lemma keepalive_action_dpd:
  assumes "keepalive_action ka t now = (KA_DPD, ka', t')"
  shows "ka' = ka\<lparr>ka_last_dpd := now\<rparr> \<and> ka_dpd ka \<noteq> 0 \<and> \<not> rekey_due ka now \<and>
         now \<le> ka_last_rx ka + 2 * ka_dpd ka \<and> dpd_due ka \<le> now"
  using assms
  by (cases rule: keepalive_cases [of ka now])
    (auto simp: keepalive_action_simps dest: keepalive_tail_action)

lemma keepalive_action_dead_iff:
  "fst (keepalive_action ka t now) = KA_DPD_DEAD \<longleftrightarrow>
     \<not> rekey_due ka now \<and> ka_dpd ka \<noteq> 0 \<and> ka_last_rx ka + 2 * ka_dpd ka < now"
  by (cases rule: keepalive_cases [of ka now])
    (auto simp: keepalive_action_simps keepalive_tail_def split: prod.splits)

lemma half_period: "2 \<le> d \<Longrightarrow> 0 < d sdiv (2 :: int)"
  by (simp add: signed_divide_int_def)

section \<open>Properties\<close>

definition sample_ka :: keepalive_info where
  "sample_ka = \<lparr>ka_dpd = 30, ka_keepalive = 20, ka_rekey = 3600, ka_rekey_method = REKEY_SSL,
     ka_last_rekey = 1000, ka_last_tx = 1010, ka_last_rx = 1005, ka_last_dpd = 0\<rparr>"

text \<open>
  C18 (keepalive_quiet): \<open>keepalive_action\<close> reports that nothing is to do exactly when no timer has
  expired; then it changes no timer, and it lowers a positive poll timeout to the nearest
  deadline and keeps it positive, so the main loop neither oversleeps nor spins.
\<close>

theorem keepalive_quiet:
  "(fst (keepalive_action ka t now) = KA_NONE \<longleftrightarrow>
     (\<forall>d \<in> set (deadlines ka). now < d) \<and>
     (ka_dpd ka \<noteq> 0 \<longrightarrow> now \<le> ka_last_rx ka + 2 * ka_dpd ka)) \<and>
   (fst (keepalive_action ka t now) = KA_NONE \<longrightarrow>
     keepalive_action ka t now = (KA_NONE, ka, poll_until t now (deadlines ka)) \<and>
     (0 < t \<longrightarrow> 0 < poll_until t now (deadlines ka)))"
  using keepalive_action_none_iff keepalive_action_none poll_until_pos by metis

theorem keepalive_quiet_witness:
  "keepalive_action sample_ka 60000 1012 = (KA_NONE, sample_ka, 18000)"
proof -
  have "fst (keepalive_action sample_ka 60000 1012) = KA_NONE"
    by (simp add: keepalive_action_none_iff deadlines_def dpd_due_def sample_ka_def)
  with keepalive_quiet [of sample_ka 60000 1012]
  have "keepalive_action sample_ka 60000 1012
      = (KA_NONE, sample_ka, poll_until 60000 1012 (deadlines sample_ka))" by blast
  then show ?thesis
    by (simp add: poll_until_def deadlines_def dpd_due_def sample_ka_def)
qed

text \<open>
  With a dead-peer-detection period of at least two seconds the client does not
  flood the peer: after it has asked for a DPD packet at time \<open>now\<close>, it does not ask for
  another one within half a period.
\<close>

theorem dpd_not_flooded:
  assumes "keepalive_action ka t now = (KA_DPD, ka', t')" and "2 \<le> ka_dpd ka"
    and "now \<le> now'" and "now' < now + ka_dpd ka sdiv 2"
  shows "fst (keepalive_action ka' t'' now') \<noteq> KA_DPD"
proof
  assume again: "fst (keepalive_action ka' t'' now') = KA_DPD"
  from keepalive_action_dpd [OF assms(1)] have ka': "ka' = ka\<lparr>ka_last_dpd := now\<rparr>"
    and due: "dpd_due ka \<le> now" by auto
  have rx: "ka_last_rx ka < now"
    using due assms(2) half_period [of "ka_dpd ka"] by (auto simp: dpd_due_def split: if_splits)
  from again keepalive_action_dpd [of ka' t'' now'] have "dpd_due ka' \<le> now'"
    by (metis prod.collapse)
  with rx assms(4) show False by (simp add: ka' dpd_due_def)
qed

theorem dpd_not_flooded_witness:
  "fst (keepalive_action (sample_ka\<lparr>ka_keepalive := 0, ka_last_dpd := 1040\<rparr>) 60000 1054) \<noteq> KA_DPD"
proof (rule dpd_not_flooded)
  show "keepalive_action (sample_ka\<lparr>ka_keepalive := 0\<rparr>) 60000 1040
      = (KA_DPD, sample_ka\<lparr>ka_keepalive := 0, ka_last_dpd := 1040\<rparr>, 60000)"
    by (simp add: keepalive_action_simps rekey_due_def dpd_due_def sample_ka_def rekey_timeout_def)
qed (simp_all add: sample_ka_def signed_divide_int_def)

text \<open>
  With a period of one second, which \<open>openconnect_set_dpd\<close> never sets but
  the header \<open>X-CSTP-DPD: 1\<close> does, half a period is zero: every further call within the
  same second asks for another DPD packet, so the client floods the peer.
\<close>

theorem dpd_period_one_floods:
  assumes "keepalive_action ka t now = (KA_DPD, ka', t')" and "ka_dpd ka = 1"
  shows "fst (keepalive_action ka' t'' now) = KA_DPD \<and>
         fst (snd (keepalive_action ka' t'' now)) = ka'"
proof -
  from keepalive_action_dpd [OF assms(1)] assms(2)
  have ka': "ka' = ka\<lparr>ka_last_dpd := now\<rparr>" and nr: "\<not> rekey_due ka now"
    and alive: "now \<le> ka_last_rx ka + 2" and due: "dpd_due ka \<le> now"
    by auto
  from due assms(2) have "dpd_due ka' \<le> now"
    by (auto simp: ka' dpd_due_def signed_divide_int_def split: if_splits)
  with nr alive assms(2) show ?thesis
    by (simp add: ka' keepalive_action_simps rekey_due_def)
qed

theorem dpd_period_one_floods_witness:
  "fst (keepalive_action (sample_ka\<lparr>ka_dpd := 1, ka_last_dpd := 1006\<rparr>) 100 1006) = KA_DPD \<and>
   fst (snd (keepalive_action (sample_ka\<lparr>ka_dpd := 1, ka_last_dpd := 1006\<rparr>) 100 1006))
     = sample_ka\<lparr>ka_dpd := 1, ka_last_dpd := 1006\<rparr>"
proof (rule dpd_period_one_floods)
  show "keepalive_action (sample_ka\<lparr>ka_dpd := 1\<rparr>) 100 1006
      = (KA_DPD, sample_ka\<lparr>ka_dpd := 1, ka_last_dpd := 1006\<rparr>, 100)"
    by (simp add: keepalive_action_simps rekey_due_def dpd_due_def sample_ka_def rekey_timeout_def)
qed (simp add: sample_ka_def)

text \<open>
  The peer is declared dead exactly when DPD is on, no rekey is due first, and
  nothing has been received for more than two DPD periods.
\<close>

theorem dead_peer_detected:
  "fst (keepalive_action ka t now) = KA_DPD_DEAD \<longleftrightarrow>
     \<not> rekey_due ka now \<and> ka_dpd ka \<noteq> 0 \<and> ka_last_rx ka + 2 * ka_dpd ka < now"
  by (rule keepalive_action_dead_iff)

end
