(* ===== verification/Text_Buf.thy ===== *)
theory Text_Buf
  imports Prelude
begin

text \<open>
  The growing text buffer \<open>struct oc_text_buf\<close> of \<open>core/http.c\<close>: \<open>buf_alloc\<close>,
  \<open>buf_ensure_space\<close>, \<open>buf_append\<close>, \<open>buf_append_bytes\<close>, \<open>buf_error\<close>, \<open>buf_free\<close>.
  \<open>mem n\<close> is whether \<open>realloc\<close> can provide \<open>n\<close> bytes. The locale \<open>sink\<close> states the
  contract its clients use: errors are sticky, and without an error the contents are the
  appended pieces. It is interpreted on both append operations.
\<close>

section \<open>The buffer\<close>

text \<open>
  \<open>tb_data\<close> is the text written so far (\<open>pos\<close> is its length), \<open>tb_len\<close> the size of the
  allocation. The element type is \<open>char\<close> for text and \<open>byte\<close> for binary messages. A buffer
  pointer is an option: \<open>None\<close> is \<open>NULL\<close>, which every operation accepts. After a failed
  \<open>realloc\<close> the data pointer is \<open>NULL\<close> and the error is set; nothing reads the data then.
\<close>

record 'a text_buf =
  tb_data :: "'a list"
  tb_len :: nat
  tb_error :: "errno option"

abbreviation tb_pos :: "'a text_buf \<Rightarrow> nat" where
  "tb_pos b \<equiv> length (tb_data b)"

abbreviation MAX_BUF_LEN :: nat where
  "MAX_BUF_LEN \<equiv> 131072"

abbreviation BUF_CHUNK_SIZE :: nat where
  "BUF_CHUNK_SIZE \<equiv> 4096"

definition empty_buf :: "'a text_buf" where
  "empty_buf = \<lparr>tb_data = [], tb_len = 0, tb_error = None\<rparr>"

definition buf_alloc :: "bool \<Rightarrow> 'a text_buf option" where
  "buf_alloc calloc_ok = (if calloc_ok then Some empty_buf else None)"

text \<open>\<open>(n + 4095) & ~4095\<close>\<close>

definition round_chunk :: "nat \<Rightarrow> nat" where
  "round_chunk n = (n + BUF_CHUNK_SIZE - 1) div BUF_CHUNK_SIZE * BUF_CHUNK_SIZE"

definition buf_ensure_space :: "(nat \<Rightarrow> bool) \<Rightarrow> 'a text_buf \<Rightarrow> nat \<Rightarrow> errno option \<times> 'a text_buf" where
  "buf_ensure_space mem b n =
     (let new_len = round_chunk (tb_pos b + n) in
      if new_len \<le> tb_len b then (None, b)
      else if new_len > MAX_BUF_LEN then
        let b = b\<lparr>tb_error := Some E2BIG\<rparr> in (tb_error b, b)
      else if \<not> mem new_len then
        let b = b\<lparr>tb_error := Some ENOMEM\<rparr> in (tb_error b, b)
      else
        let b = b\<lparr>tb_len := new_len\<rparr> in (tb_error b, b))"

text \<open>
  The \<open>while (1)\<close> loop of \<open>buf_append\<close>. \<open>fmt\<close> is the formatted text, \<open>None\<close> when
  \<open>vsnprintf\<close> fails; \<open>vsnprintf\<close> needs one byte more than the text. The value is
  \<open>None\<close> when the loop does not end.
\<close>

partial_function (option) append_loop ::
  "(nat \<Rightarrow> bool) \<Rightarrow> 'a text_buf \<Rightarrow> 'a list option \<Rightarrow> 'a text_buf option" where
  "append_loop mem b fmt =
     (case fmt of
        None \<Rightarrow> Some (b\<lparr>tb_error := Some EIO\<rparr>)
      | Some s \<Rightarrow>
          if length s < tb_len b - tb_pos b then Some (b\<lparr>tb_data := tb_data b @ s\<rparr>)
          else (case buf_ensure_space mem b (length s) of
                  (Some e, b) \<Rightarrow> Some b
                | (None, b) \<Rightarrow> append_loop mem b fmt))"

definition buf_vappend ::
  "(nat \<Rightarrow> bool) \<Rightarrow> 'a text_buf option \<Rightarrow> 'a list option \<Rightarrow> 'a text_buf option option" where
  "buf_vappend mem buf fmt =
     (case buf of
        None \<Rightarrow> Some None
      | Some b \<Rightarrow>
          if tb_error b \<noteq> None then Some (Some b)
          else (case buf_ensure_space mem b 1 of
                  (Some e, b) \<Rightarrow> Some (Some b)
                | (None, b) \<Rightarrow> map_option Some (append_loop mem b fmt)))"

abbreviation buf_append where
  "buf_append mem buf s \<equiv> buf_vappend mem buf (Some s)"

definition buf_append_bytes ::
  "(nat \<Rightarrow> bool) \<Rightarrow> 'a text_buf option \<Rightarrow> 'a list \<Rightarrow> 'a text_buf option" where
  "buf_append_bytes mem buf xs =
     (case buf of
        None \<Rightarrow> None
      | Some b \<Rightarrow>
          if tb_error b \<noteq> None then Some b
          else (case buf_ensure_space mem b (length xs + 1) of
                  (Some e, b) \<Rightarrow> Some b
                | (None, b) \<Rightarrow> Some (b\<lparr>tb_data := tb_data b @ xs\<rparr>)))"

definition buf_error :: "'a text_buf option \<Rightarrow> errno option" where
  "buf_error buf = (case buf of None \<Rightarrow> Some ENOMEM | Some b \<Rightarrow> tb_error b)"

text \<open>\<open>buf_free\<close> returns the error; the buffer is gone.\<close>

definition buf_free :: "'a text_buf option \<Rightarrow> errno option" where
  "buf_free buf = (let error = buf_error buf in error)"

section \<open>The buffer's invariant\<close>

text \<open>
  The allocation is a multiple of the chunk size and within the limit, and there is always
  room for the terminating 0.
\<close>

definition buf_ok :: "'a text_buf \<Rightarrow> bool" where
  "buf_ok b \<longleftrightarrow> BUF_CHUNK_SIZE dvd tb_len b \<and> tb_len b \<le> MAX_BUF_LEN \<and>
     (if tb_len b = 0 then tb_data b = [] else tb_pos b < tb_len b)"

lemma round_chunk_dvd [simp]: "BUF_CHUNK_SIZE dvd round_chunk n"
  by (simp add: round_chunk_def)

lemma round_chunk_bounds: "n \<le> round_chunk n \<and> round_chunk n < n + BUF_CHUNK_SIZE"
proof -
  let ?q = "(n + 4095) div 4096 * (4096 :: nat)"
  have "?q \<le> n + 4095"
    by (rule div_times_less_eq_dividend)
  moreover have "n + 4095 < 4096 + ?q"
    by (rule dividend_less_div_times) simp
  ultimately have "n \<le> ?q \<and> ?q < n + 4096" by linarith
  moreover have "round_chunk n = ?q" by (simp add: round_chunk_def add.commute)
  ultimately show ?thesis by simp
qed

lemma round_chunk_ge: "n \<le> round_chunk n"
  using round_chunk_bounds by blast

lemma round_chunk_least:
  assumes "BUF_CHUNK_SIZE dvd m" and "n \<le> m"
  shows "round_chunk n \<le> m"
proof -
  from assms(1) obtain k where k: "m = 4096 * k" by (auto elim: dvdE)
  have "(n + 4095) div 4096 \<le> (4096 * k + 4095) div (4096 :: nat)"
    using assms(2) k by (intro div_le_mono) simp
  also have "\<dots> = k" by simp
  finally show ?thesis by (simp add: round_chunk_def k)
qed

lemma round_chunk_eq: "BUF_CHUNK_SIZE dvd n \<Longrightarrow> round_chunk n = n"
  using round_chunk_least [of n n] round_chunk_ge [of n] by simp

lemma buf_ok_empty [simp]: "buf_ok empty_buf"
  by (simp add: buf_ok_def empty_buf_def)

lemma buf_ensure_space_None:
  "buf_ensure_space mem b n = (None, b') \<Longrightarrow> tb_error b = None \<Longrightarrow>
     tb_data b' = tb_data b \<and> tb_error b' = None \<and> round_chunk (tb_pos b + n) \<le> tb_len b' \<and>
     tb_len b' = max (tb_len b) (round_chunk (tb_pos b + n)) \<and>
     (tb_len b' = tb_len b \<or> tb_len b' \<le> MAX_BUF_LEN)"
  by (auto simp: buf_ensure_space_def Let_def split: if_splits)

lemma buf_ensure_space_Some:
  "buf_ensure_space mem b n = (Some e, b') \<Longrightarrow> tb_error b' = Some e"
  by (auto simp: buf_ensure_space_def Let_def split: if_splits)

lemma buf_ensure_space_ok:
  assumes "buf_ok b" and "tb_error b = None" and "buf_ensure_space mem b n = (r, b')"
  shows "buf_ok b'"
proof -
  have "tb_len b \<le> m \<Longrightarrow> tb_len b = 0 \<or> tb_pos b < m" for m
    using assms(1) by (auto simp: buf_ok_def split: if_splits)
  moreover have "\<not> round_chunk (tb_pos b + n) \<le> tb_len b \<Longrightarrow> 0 < round_chunk (tb_pos b + n)"
    by simp
  ultimately show ?thesis
    using assms by (auto simp: buf_ensure_space_def Let_def buf_ok_def split: if_splits)
qed

text \<open>With room asked for \<open>n > 0\<close> bytes, \<open>n\<close> bytes fit (and no more may).\<close>

lemma buf_ensure_space_room:
  assumes "buf_ensure_space mem b n = (None, b')" and "tb_error b = None"
  shows "tb_pos b' + n \<le> tb_len b'"
proof -
  from assms buf_ensure_space_None [of mem b n b']
  have "tb_data b' = tb_data b" "round_chunk (tb_pos b + n) \<le> tb_len b'" by blast+
  with round_chunk_ge [of "tb_pos b + n"] show ?thesis by simp
qed

lemma buf_append_bytes_ok:
  assumes "buf_ok b" and "buf_append_bytes mem (Some b) xs = Some b'"
  shows "buf_ok b'"
proof (cases "tb_error b")
  case (Some e)
  with assms show ?thesis by (simp add: buf_append_bytes_def)
next
  case None
  obtain r b1 where e: "buf_ensure_space mem b (length xs + 1) = (r, b1)" by fastforce
  from assms(1) None e have ok: "buf_ok b1" by (rule buf_ensure_space_ok)
  show ?thesis
  proof (cases r)
    case (Some er)
    with assms None e ok show ?thesis by (simp add: buf_append_bytes_def)
  next
    case rN: None
    with e None have "tb_pos b1 + (length xs + 1) \<le> tb_len b1"
      using buf_ensure_space_room by blast
    with assms None e ok rN show ?thesis by (auto simp: buf_append_bytes_def buf_ok_def)
  qed
qed

section \<open>The append loop\<close>

lemma append_loop_fits:
  "length s < tb_len b - tb_pos b \<Longrightarrow> append_loop mem b (Some s) = Some (b\<lparr>tb_data := tb_data b @ s\<rparr>)"
  by (subst append_loop.simps) simp

text \<open>
  When the text does not fit and making room changes nothing, the loop calls itself with the
  same arguments: it never returns.
\<close>

lemma append_loop_stuck:
  assumes full: "\<not> length s < tb_len b - tb_pos b"
    and same: "buf_ensure_space mem b (length s) = (None, b)"
  shows "append_loop mem b (Some s) = None"
proof (rule ccontr)
  assume "append_loop mem b (Some s) \<noteq> None"
  then obtain r where r: "append_loop mem b (Some s) = Some r" by blast
  have "mem = mem \<longrightarrow> b = b \<longrightarrow> Some s = Some s \<longrightarrow> False"
  proof (rule append_loop.raw_induct
      [where P = "\<lambda>m b' f r. m = mem \<longrightarrow> b' = b \<longrightarrow> f = Some s \<longrightarrow> False", OF _ r])
    fix f m b' fmt r
    assume IH: "\<And>m b' fmt r. f m b' fmt = Some r \<Longrightarrow> m = mem \<longrightarrow> b' = b \<longrightarrow> fmt = Some s \<longrightarrow> False"
      and eq: "(case fmt of None \<Rightarrow> Some (b'\<lparr>tb_error := Some EIO\<rparr>)
        | Some s \<Rightarrow> if length s < tb_len b' - tb_pos b' then Some (b'\<lparr>tb_data := tb_data b' @ s\<rparr>)
            else case buf_ensure_space m b' (length s) of
              (None, b) \<Rightarrow> f m b fmt | (Some e, b) \<Rightarrow> Some b) = Some r"
    show "m = mem \<longrightarrow> b' = b \<longrightarrow> fmt = Some s \<longrightarrow> False"
    proof (intro impI)
      assume "m = mem" "b' = b" "fmt = Some s"
      with eq full same have "f mem b (Some s) = Some r" by simp
      with IH show False by blast
    qed
  qed
  then show False by simp
qed

text \<open>
  The loop from a state with room for at least one byte: it appends when the text fits after
  at most one call of \<open>buf_ensure_space\<close>, fails with that call's error, or hangs when the text
  ends exactly at the end of a chunk-aligned allocation.
\<close>

lemma append_loop_cases:
  assumes ok: "buf_ok b" and e: "tb_error b = None" and pos: "0 < tb_len b"
  shows "append_loop mem b (Some s) =
     (let end = tb_pos b + length s; new_len = max (tb_len b) (round_chunk end) in
      if end < tb_len b then Some (b\<lparr>tb_data := tb_data b @ s\<rparr>)
      else if tb_len b < new_len \<and> MAX_BUF_LEN < new_len then Some (b\<lparr>tb_error := Some E2BIG\<rparr>)
      else if tb_len b < new_len \<and> \<not> mem new_len then Some (b\<lparr>tb_error := Some ENOMEM\<rparr>)
      else if BUF_CHUNK_SIZE dvd end then None
      else Some (b\<lparr>tb_data := tb_data b @ s, tb_len := new_len\<rparr>))"
    (is "_ = ?spec")
proof -
  let ?fin = "tb_pos b + length s"
  from ok pos have dvd: "BUF_CHUNK_SIZE dvd tb_len b" and lt: "tb_pos b < tb_len b"
    by (auto simp: buf_ok_def)
  consider (fits) "?fin < tb_len b"
    | (edge) "\<not> ?fin < tb_len b" "round_chunk ?fin \<le> tb_len b"
    | (grow) "\<not> ?fin < tb_len b" "tb_len b < round_chunk ?fin" by linarith
  then show ?thesis
  proof cases
    case fits
    then show ?thesis by (simp add: append_loop_fits Let_def)
  next
    case edge
    with round_chunk_ge [of ?fin] have eq: "?fin = tb_len b" by simp
    with edge have "buf_ensure_space mem b (length s) = (None, b)"
      by (simp add: buf_ensure_space_def)
    with eq have "append_loop mem b (Some s) = None"
      by (intro append_loop_stuck) simp_all
    with edge eq dvd show ?thesis by (simp add: Let_def)
  next
    case grow
    let ?n = "round_chunk ?fin"
    let ?b1 = "b\<lparr>tb_len := ?n\<rparr>"
    from grow have unfold: "append_loop mem b (Some s) =
       (case buf_ensure_space mem b (length s) of
          (Some e, b) \<Rightarrow> Some b | (None, b) \<Rightarrow> append_loop mem b (Some s))"
      by (subst append_loop.simps) (use grow lt in auto)
    show ?thesis
    proof (cases "?n > MAX_BUF_LEN \<or> \<not> mem ?n")
      case True
      with grow unfold show ?thesis by (auto simp: buf_ensure_space_def Let_def max_def)
    next
      case False
      with grow e have es: "buf_ensure_space mem b (length s) = (None, ?b1)"
        by (simp add: buf_ensure_space_def Let_def)
      show ?thesis
      proof (cases "BUF_CHUNK_SIZE dvd ?fin")
        case True
        then have "?n = ?fin" by (rule round_chunk_eq)
        then have "append_loop mem ?b1 (Some s) = None"
          by (intro append_loop_stuck) (simp_all add: buf_ensure_space_def)
        with unfold es grow False True show ?thesis by (simp add: Let_def max_def)
      next
        case ndvd: False
        have "?fin \<noteq> ?n" using ndvd round_chunk_dvd [of ?fin] by metis
        with round_chunk_ge [of ?fin] have "?fin < ?n" by simp
        then have "append_loop mem ?b1 (Some s) = Some (?b1\<lparr>tb_data := tb_data b @ s\<rparr>)"
          using append_loop_fits [of s ?b1] by simp
        with unfold es grow False ndvd show ?thesis by (simp add: Let_def max_def)
      qed
    qed
  qed
qed

section \<open>The contract of a text sink\<close>

text \<open>
  What the request builders rely on: appending to a failed sink changes nothing, and if an
  append leaves the sink unfailed, the text was added. A run of appends then needs a single
  check at its end, as every caller does.
\<close>

locale sink =
  fixes app :: "'b \<Rightarrow> 'a list \<Rightarrow> 'b"
    and failed :: "'b \<Rightarrow> bool"
    and written :: "'b \<Rightarrow> 'a list"
  assumes app_failed: "failed b \<Longrightarrow> app b x = b"
    and app_written: "\<not> failed (app b x) \<Longrightarrow> written (app b x) = written b @ x"
begin

lemma failed_app: "failed b \<Longrightarrow> failed (app b x)"
  by (simp add: app_failed)

lemma failed_foldl: "failed b \<Longrightarrow> failed (foldl app b xs)"
  by (induction xs arbitrary: b) (auto simp: failed_app)

lemma written_foldl: "\<not> failed (foldl app b xs) \<Longrightarrow> written (foldl app b xs) = written b @ concat xs"
proof (induction xs arbitrary: b)
  case (Cons x xs)
  then have "\<not> failed (app b x)" using failed_foldl by auto
  with Cons show ?case by (simp add: app_written)
qed simp

lemma no_failure_before: "\<not> failed (foldl app b (xs @ ys)) \<Longrightarrow> \<not> failed (foldl app b xs)"
  using failed_foldl by auto

end

definition buf_failed :: "'a text_buf option \<Rightarrow> bool" where
  "buf_failed buf \<longleftrightarrow> buf_error buf \<noteq> None"

definition buf_written :: "'a text_buf option \<Rightarrow> 'a list" where
  "buf_written buf = (case buf of None \<Rightarrow> [] | Some b \<Rightarrow> tb_data b)"

lemma buf_append_bytes_failed: "buf_failed buf \<Longrightarrow> buf_append_bytes mem buf xs = buf"
  by (auto simp: buf_failed_def buf_error_def buf_append_bytes_def split: option.splits)

lemma buf_append_bytes_written:
  assumes "\<not> buf_failed (buf_append_bytes mem buf xs)"
  shows "buf_written (buf_append_bytes mem buf xs) = buf_written buf @ xs"
proof (cases buf)
  case (Some b)
  show ?thesis
  proof (cases "tb_error b")
    case None
    obtain r b1 where e: "buf_ensure_space mem b (length xs + 1) = (r, b1)" by fastforce
    show ?thesis
    proof (cases r)
      case rN: None
      with e None have "tb_data b1 = tb_data b" using buf_ensure_space_None by blast
      with Some None e rN show ?thesis by (simp add: buf_append_bytes_def buf_written_def)
    next
      case (Some er)
      with e have "tb_error b1 = Some er" using buf_ensure_space_Some by blast
      with assms \<open>buf = Some b\<close> None e Some show ?thesis
        by (simp add: buf_append_bytes_def buf_failed_def buf_error_def)
    qed
  qed (use assms Some in \<open>simp add: buf_append_bytes_def buf_failed_def buf_error_def\<close>)
qed (use assms in \<open>simp add: buf_append_bytes_def buf_failed_def buf_error_def\<close>)

interpretation bytes_sink: sink "buf_append_bytes mem" buf_failed buf_written
  by unfold_locales (simp_all add: buf_append_bytes_failed buf_append_bytes_written)

text \<open>
  \<open>buf_append\<close> may also hang. A chain of calls is a chain in the option monad, whose failure
  is the buffer's error or not returning.
\<close>

definition buf_put :: "(nat \<Rightarrow> bool) \<Rightarrow> 'a text_buf option option \<Rightarrow> 'a list \<Rightarrow> 'a text_buf option option" where
  "buf_put mem r s = (case r of None \<Rightarrow> None | Some buf \<Rightarrow> buf_append mem buf s)"

definition put_failed :: "'a text_buf option option \<Rightarrow> bool" where
  "put_failed r \<longleftrightarrow> (case r of None \<Rightarrow> True | Some buf \<Rightarrow> buf_failed buf)"

definition put_written :: "'a text_buf option option \<Rightarrow> 'a list" where
  "put_written r = (case r of None \<Rightarrow> [] | Some buf \<Rightarrow> buf_written buf)"

lemma buf_ensure_one:
  assumes "buf_ensure_space mem b 1 = (None, b')" and "tb_error b = None"
  shows "tb_data b' = tb_data b \<and> tb_error b' = None \<and> 0 < tb_len b'"
  using buf_ensure_space_None [OF assms] buf_ensure_space_room [OF assms] by auto

lemma append_loop_written:
  assumes "append_loop mem b fmt = Some b'"
  shows "tb_error b' = None \<longrightarrow> tb_error b = None \<longrightarrow>
    (\<exists>s. fmt = Some s \<and> tb_data b' = tb_data b @ s)"
proof (rule append_loop.raw_induct
    [where P = "\<lambda>m b f b'. tb_error b' = None \<longrightarrow> tb_error b = None \<longrightarrow>
        (\<exists>s. f = Some s \<and> tb_data b' = tb_data b @ s)", OF _ assms])
  fix f m b fmt b'
  assume IH: "\<And>m b fmt b'. f m b fmt = Some b' \<Longrightarrow> tb_error b' = None \<longrightarrow> tb_error b = None \<longrightarrow>
        (\<exists>s. fmt = Some s \<and> tb_data b' = tb_data b @ s)"
    and eq: "(case fmt of None \<Rightarrow> Some (b\<lparr>tb_error := Some EIO\<rparr>)
        | Some s \<Rightarrow> if length s < tb_len b - tb_pos b then Some (b\<lparr>tb_data := tb_data b @ s\<rparr>)
            else case buf_ensure_space m b (length s) of
              (None, b) \<Rightarrow> f m b fmt | (Some e, b) \<Rightarrow> Some b) = Some b'"
  show "tb_error b' = None \<longrightarrow> tb_error b = None \<longrightarrow>
        (\<exists>s. fmt = Some s \<and> tb_data b' = tb_data b @ s)"
  proof (intro impI)
    assume ok: "tb_error b' = None" "tb_error b = None"
    with eq obtain s where s: "fmt = Some s" by (cases fmt) auto
    obtain r b1 where e: "buf_ensure_space m b (length s) = (r, b1)" by fastforce
    show "\<exists>s. fmt = Some s \<and> tb_data b' = tb_data b @ s"
    proof (cases "length s < tb_len b - tb_pos b")
      case True
      with eq s show ?thesis by auto
    next
      case False
      show ?thesis
      proof (cases r)
        case None
        with e ok have b1: "tb_data b1 = tb_data b" "tb_error b1 = None"
          using buf_ensure_space_None by blast+
        from False None e eq s have "f m b1 fmt = Some b'" by simp
        from IH [OF this] b1 ok show ?thesis by simp
      next
        case (Some er)
        with False e eq s ok have False using buf_ensure_space_Some by fastforce
        then show ?thesis ..
      qed
    qed
  qed
qed

lemma buf_put_failed: "put_failed r \<Longrightarrow> buf_put mem r s = r"
  by (auto simp: put_failed_def buf_put_def buf_failed_def buf_error_def buf_vappend_def
      split: option.splits)

lemma buf_put_written:
  assumes "\<not> put_failed (buf_put mem r s)"
  shows "put_written (buf_put mem r s) = put_written r @ s"
proof -
  from assms obtain b b' where b: "r = Some (Some b)" and b': "buf_append mem (Some b) s = Some (Some b')"
    and ok': "tb_error b' = None"
    by (auto simp: put_failed_def buf_put_def buf_failed_def buf_error_def buf_vappend_def
        split: option.splits if_splits prod.splits)
  from b' ok' have ok: "tb_error b = None"
    by (auto simp: buf_vappend_def split: if_splits)
  obtain e b1 where e: "buf_ensure_space mem b 1 = (e, b1)" by fastforce
  from e b' ok ok' have eN: "e = None"
    using buf_ensure_space_Some [of mem b 1] by (auto simp: buf_vappend_def split: option.splits)
  with e b' ok have "append_loop mem b1 (Some s) = Some b'"
    by (auto simp: buf_vappend_def)
  with append_loop_written buf_ensure_one e eN ok ok' have "tb_data b' = tb_data b @ s"
    by (metis option.inject)
  with b b' show ?thesis by (simp add: put_written_def buf_put_def buf_written_def)
qed

interpretation text_sink: sink "buf_put mem" put_failed put_written
  by unfold_locales (simp_all add: buf_put_failed buf_put_written)

text \<open>A message of less than one chunk is built without a hitch when there is memory for it.\<close>

lemma buf_put_fits:
  assumes "tb_error b = None" "tb_len b = 0 \<or> tb_len b = BUF_CHUNK_SIZE" "mem BUF_CHUNK_SIZE"
    and "length (tb_data b @ s) < BUF_CHUNK_SIZE"
  shows "buf_put mem (Some (Some b)) s = Some (Some (b\<lparr>tb_data := tb_data b @ s, tb_len := BUF_CHUNK_SIZE\<rparr>))"
proof -
  have r: "round_chunk (Suc (tb_pos b)) = BUF_CHUNK_SIZE"
    using assms(4) by (simp add: round_chunk_def div_nat_eqI)
  have "buf_ensure_space mem b 1 = (None, b\<lparr>tb_len := BUF_CHUNK_SIZE\<rparr>)"
    using assms by (auto simp: buf_ensure_space_def r)
  then show ?thesis
    using assms by (simp add: buf_put_def buf_vappend_def append_loop_fits)
qed

lemma buf_puts_fit:
  assumes "mem BUF_CHUNK_SIZE"
  shows "tb_error b = None \<Longrightarrow> tb_len b = 0 \<or> tb_len b = BUF_CHUNK_SIZE \<Longrightarrow>
    length (tb_data b @ concat parts) < BUF_CHUNK_SIZE \<Longrightarrow>
    \<exists>b'. foldl (buf_put mem) (Some (Some b)) parts = Some (Some b') \<and> tb_error b' = None \<and>
      tb_data b' = tb_data b @ concat parts"
proof (induction parts arbitrary: b)
  case (Cons s parts)
  then have "buf_put mem (Some (Some b)) s = Some (Some (b\<lparr>tb_data := tb_data b @ s, tb_len := BUF_CHUNK_SIZE\<rparr>))"
    by (intro buf_put_fits assms) auto
  then show ?case
    using Cons.IH [of "b\<lparr>tb_data := tb_data b @ s, tb_len := BUF_CHUNK_SIZE\<rparr>"] Cons.prems by simp
qed simp

text \<open>What was written when no part failed.\<close>

lemma buf_puts_written:
  assumes "foldl (buf_put mem) (Some (buf_alloc calloc_ok)) parts = Some buf" "buf_error buf = None"
  shows "buf_written buf = concat parts"
proof -
  have "\<not> put_failed (foldl (buf_put mem) (Some (buf_alloc calloc_ok)) parts)"
    using assms by (simp add: put_failed_def buf_failed_def)
  from text_sink.written_foldl [OF this] assms(1) show ?thesis
    by (simp add: put_written_def buf_written_def buf_alloc_def empty_buf_def split: if_splits)
qed

section \<open>Properties\<close>

text \<open>
  A message built by any sequence of \<open>buf_append\<close> calls and checked once
  with \<open>buf_error\<close> is exactly the concatenation of its parts: no part is lost, truncated or
  appended after a failed part, whatever the allocator answers.
\<close>

theorem buf_appends_written:
  assumes "\<not> put_failed (foldl (buf_put mem) (Some (buf_alloc calloc_ok)) parts)"
  shows "put_written (foldl (buf_put mem) (Some (buf_alloc calloc_ok)) parts) = concat parts"
proof -
  have "put_written (Some (buf_alloc calloc_ok)) = ([] :: 'a list)"
    by (simp add: put_written_def buf_written_def buf_alloc_def empty_buf_def)
  with text_sink.written_foldl [OF assms] show ?thesis by simp
qed

theorem buf_appends_written_witness:
  "put_written (foldl (buf_put (\<lambda>_. True)) (Some (buf_alloc True)) [''Host: '', ''vpn'']) = ''Host: vpn''"
proof -
  have "\<not> put_failed (foldl (buf_put (\<lambda>_. True)) (Some (buf_alloc True)) [''Host: '', ''vpn''])"
    by (simp add: put_failed_def buf_put_def buf_vappend_def buf_alloc_def empty_buf_def
        buf_ensure_space_def round_chunk_def append_loop_fits buf_failed_def buf_error_def)
  from buf_appends_written [OF this] show ?thesis by simp
qed

text \<open>
  The \<open>while (1)\<close> loop of \<open>buf_append\<close> does not end exactly when the text
  would fill the buffer up to a multiple of the chunk size without leaving room for the
  terminating 0, and the buffer is not already larger: \<open>buf_ensure_space\<close> is asked for
  \<open>ret\<close> bytes where \<open>vsnprintf\<close> needs \<open>ret + 1\<close>. In every other case it returns.
\<close>

theorem buf_append_hangs:
  assumes ok: "buf_ok b" and e: "tb_error b = None"
  shows "buf_append (\<lambda>_. True) (Some b) s = None \<longleftrightarrow>
     (let end = tb_pos b + length s in
      BUF_CHUNK_SIZE dvd end \<and> max BUF_CHUNK_SIZE (tb_len b) \<le> end \<and> end \<le> MAX_BUF_LEN)"
proof -
  let ?fin = "tb_pos b + length s" and ?b1 = "b\<lparr>tb_len := max BUF_CHUNK_SIZE (tb_len b)\<rparr>"
  have rc1: "round_chunk (Suc 0) = 4096" by (simp add: round_chunk_def)
  have es: "buf_ensure_space (\<lambda>_. True) b 1 = (None, ?b1)"
  proof (cases "tb_len b = 0")
    case True
    with ok e rc1 show ?thesis by (simp add: buf_ok_def buf_ensure_space_def)
  next
    case False
    with ok have "4096 \<le> tb_len b" and "round_chunk (tb_pos b + 1) \<le> tb_len b"
      using dvd_imp_le [of 4096 "tb_len b"] round_chunk_least [of "tb_len b" "tb_pos b + 1"]
      by (simp_all add: buf_ok_def)
    then show ?thesis by (simp add: buf_ensure_space_def max_def)
  qed
  have ok1: "buf_ok ?b1" using buf_ensure_space_ok [OF ok e es] .
  have M: "BUF_CHUNK_SIZE dvd MAX_BUF_LEN" by simp
  have big: "MAX_BUF_LEN < round_chunk ?fin \<longleftrightarrow> MAX_BUF_LEN < ?fin"
    using round_chunk_ge [of ?fin] round_chunk_least [OF M, of ?fin] by linarith
  have "buf_append (\<lambda>_. True) (Some b) s = map_option Some (append_loop (\<lambda>_. True) ?b1 (Some s))"
    using e es by (simp add: buf_vappend_def)
  also have "\<dots> = None \<longleftrightarrow> append_loop (\<lambda>_. True) ?b1 (Some s) = None" by simp
  also have "\<dots> \<longleftrightarrow> BUF_CHUNK_SIZE dvd ?fin \<and> max BUF_CHUNK_SIZE (tb_len b) \<le> ?fin \<and> ?fin \<le> MAX_BUF_LEN"
    using append_loop_cases [OF ok1, of "\<lambda>_. True" s] e ok1 big round_chunk_eq [of ?fin]
    by (auto simp: Let_def buf_ok_def)
  finally show ?thesis by (simp add: Let_def)
qed

theorem buf_append_hangs_witness:
  "buf_append (\<lambda>_. True) (Some empty_buf) (replicate 4096 CHR ''a'') = None"
  using buf_append_hangs [of empty_buf "replicate 4096 CHR ''a''"]
  by (simp add: empty_buf_def buf_ok_def)

text \<open>
  \<open>buf_append_bytes\<close> always returns and keeps the buffer well formed: the
  bytes are added whenever they and the terminating 0 fit below the limit of 128 KiB, and
  otherwise the buffer is marked as too big and left as it was.
\<close>

theorem buf_append_bytes_total:
  assumes ok: "buf_ok b" and e: "tb_error b = None"
  shows "\<exists>b'. buf_append_bytes (\<lambda>_. True) (Some b) xs = Some b' \<and> buf_ok b' \<and>
     (if tb_pos b + length xs < MAX_BUF_LEN then tb_error b' = None \<and> tb_data b' = tb_data b @ xs
      else tb_error b' = Some E2BIG \<and> tb_data b' = tb_data b)"
proof -
  let ?n = "tb_pos b + (length xs + 1)"
  have M: "BUF_CHUNK_SIZE dvd MAX_BUF_LEN" by simp
  have le: "round_chunk ?n \<le> MAX_BUF_LEN \<longleftrightarrow> tb_pos b + length xs < MAX_BUF_LEN"
    using round_chunk_ge [of ?n] round_chunk_least [OF M, of ?n] by linarith
  obtain b' where b': "buf_append_bytes (\<lambda>_. True) (Some b) xs = Some b'"
    using e by (cases "buf_ensure_space (\<lambda>_. True) b (length xs + 1)"; cases "fst (buf_ensure_space (\<lambda>_. True) b (length xs + 1))")
      (auto simp: buf_append_bytes_def)
  moreover have "buf_ok b'" by (rule buf_append_bytes_ok [OF ok b'])
  moreover have "if tb_pos b + length xs < MAX_BUF_LEN
      then tb_error b' = None \<and> tb_data b' = tb_data b @ xs
      else tb_error b' = Some E2BIG \<and> tb_data b' = tb_data b"
    using b' e le ok
    by (auto simp: buf_append_bytes_def buf_ensure_space_def buf_ok_def Let_def split: if_splits)
  ultimately show ?thesis by blast
qed

theorem buf_append_bytes_total_witness:
  "\<exists>b'. buf_append_bytes (\<lambda>_. True) (Some (empty_buf :: byte text_buf)) [1, 2] = Some b' \<and> buf_ok b' \<and>
     tb_error b' = None \<and> tb_data b' = [1, 2]"
  using buf_append_bytes_total [of "empty_buf :: byte text_buf" "[1, 2]"]
  by (simp add: empty_buf_def buf_ok_def)

end
