(* ===== verification/Base64.thy ===== *)
theory Base64
  imports Text_Buf
begin

text \<open>
  Base64 in \<open>core/http.c\<close>: \<open>b64_char\<close>, \<open>openconnect_base64_decode\<close> and
  \<open>buf_append_base64\<close>, used for the HTTP proxy's NTLM, GSSAPI and Basic tokens.
\<close>

section \<open>Decoding\<close>

text \<open>\<open>None\<close> is the result -1.\<close>

definition b64_char :: "char \<Rightarrow> nat option" where
  "b64_char c =
     (if in_range c 65 90 then Some (of_char c - 65)
      else if in_range c 97 122 then Some (of_char c - 97 + 26)
      else if in_range c 48 57 then Some (of_char c - 48 + 52)
      else if c = CHR ''+'' then Some 62
      else if c = CHR ''/'' then Some 63
      else None)"

text \<open>
  The outcome of the decoder. On an error the code frees its moving output pointer \<open>buf\<close>:
  that is the block \<open>malloc\<close> returned only if nothing was written yet; otherwise
  \<open>free\<close> is called on a pointer into the block, which is undefined behaviour.
\<close>

datatype b64_result = Decoded bytes | Rejected | Bad_Free | No_Memory

definition b64_fail :: "bytes \<Rightarrow> b64_result" where
  "b64_fail out = (if out = [] then Rejected else Bad_Free)"

definition b64_word :: "nat \<Rightarrow> byte" where
  "b64_word n = of_nat n"

text \<open>The loop; \<open>out\<close> is what has been written through \<open>buf\<close> so far.\<close>

fun b64_loop :: "bytes \<Rightarrow> string \<Rightarrow> b64_result" where
  "b64_loop out [] = Decoded out"
| "b64_loop out (c0 # c1 # c2 # c3 # rest) =
     (case (b64_char c0, b64_char c1) of
        (Some b0, Some b1) \<Rightarrow>
          let out = out @ [push_bit 2 (b64_word b0) OR drop_bit 4 (b64_word b1)] in
          if c2 = CHR ''='' then
            (if c3 \<noteq> CHR ''='' \<or> rest \<noteq> [] then b64_fail out else Decoded out)
          else (case b64_char c2 of
            None \<Rightarrow> b64_fail out
          | Some b2 \<Rightarrow>
              let out = out @ [push_bit 4 (b64_word b1) OR drop_bit 2 (b64_word b2)] in
              if c3 = CHR ''='' then
                (if rest \<noteq> [] then b64_fail out else Decoded out)
              else (case b64_char c3 of
                None \<Rightarrow> b64_fail out
              | Some b3 \<Rightarrow> b64_loop (out @ [push_bit 6 (b64_word b2) OR b64_word b3]) rest))
      | _ \<Rightarrow> b64_fail out)"
| "b64_loop out cs = b64_fail out"

definition openconnect_base64_decode :: "bool \<Rightarrow> string \<Rightarrow> b64_result" where
  "openconnect_base64_decode malloc_ok s =
     (if length s mod 4 \<noteq> 0 then Rejected
      else if \<not> malloc_ok then No_Memory
      else b64_loop [] s)"

section \<open>Encoding\<close>

definition b64_table :: string where
  "b64_table = ''ABCDEFGHIJKLMNOPQRSTUVWXYZabcdefghijklmnopqrstuvwxyz0123456789+/''"

definition b64_digit :: "byte \<Rightarrow> char" where
  "b64_digit w = b64_table ! unat w"

fun b64_text :: "bytes \<Rightarrow> string" where
  "b64_text [] = []"
| "b64_text [a] =
     [b64_digit (drop_bit 2 a), b64_digit (push_bit 4 a AND 0x30), CHR ''='', CHR ''='']"
| "b64_text [a, b] =
     [b64_digit (drop_bit 2 a),
      b64_digit ((push_bit 4 a AND 0x30) OR drop_bit 4 b),
      b64_digit (push_bit 2 b AND 0x3c), CHR ''='']"
| "b64_text (a # b # c # rest) =
     b64_digit (drop_bit 2 a) #
     b64_digit ((push_bit 4 a AND 0x30) OR drop_bit 4 b) #
     b64_digit ((push_bit 2 b AND 0x3c) OR drop_bit 6 c) #
     b64_digit (c AND 0x3f) # b64_text rest"

definition buf_append_base64 ::
  "(nat \<Rightarrow> bool) \<Rightarrow> char text_buf option \<Rightarrow> bytes \<Rightarrow> char text_buf option" where
  "buf_append_base64 mem buf bytes =
     (case buf of
        None \<Rightarrow> None
      | Some b \<Rightarrow>
          if tb_error b \<noteq> None then Some b
          else (case buf_ensure_space mem b (4 * (length bytes + 2) div 3 + 1) of
                  (Some e, b) \<Rightarrow> Some b
                | (None, b) \<Rightarrow> Some (b\<lparr>tb_data := tb_data b @ b64_text bytes\<rparr>)))"

section \<open>The table and its inverse\<close>

lemma b64_table_check: "map b64_char b64_table = map Some [0..<64] \<and> CHR ''='' \<notin> set b64_table"
  by (simp add: b64_table_def b64_char_def in_range_def upt_rec)

lemma b64_char_digit:
  assumes "unat w < 64"
  shows "b64_char (b64_digit w) = Some (unat w)" and "b64_digit w \<noteq> CHR ''=''"
proof -
  have len: "length b64_table = 64" by (simp add: b64_table_def)
  have "map b64_char b64_table ! unat w = map Some [0..<64] ! unat w"
    using b64_table_check by simp
  with assms len show "b64_char (b64_digit w) = Some (unat w)" by (simp add: b64_digit_def)
  have "b64_table ! unat w \<in> set b64_table" using assms len by simp
  with b64_table_check show "b64_digit w \<noteq> CHR ''=''" by (auto simp: b64_digit_def)
qed

lemma b64_word_unat [simp]: "b64_word (unat w) = w"
  by (simp add: b64_word_def)

lemma byte_cases:
  fixes n :: nat
  assumes "n < 8"
  obtains "n = 0" | "n = 1" | "n = 2" | "n = 3" | "n = 4" | "n = 5" | "n = 6" | "n = 7"
  using assms by linarith

lemma byte_eqI:
  fixes v w :: byte
  assumes "\<And>n. n < 8 \<Longrightarrow> bit v n = bit w n"
  shows "v = w"
  by (rule bit_word_eqI) (use assms in simp)

lemma sextets:
  fixes a b c :: byte
  shows "unat (drop_bit 2 a) < 64" "unat (push_bit 4 a AND 0x30) < 64"
    "unat ((push_bit 4 a AND 0x30) OR drop_bit 4 b) < 64"
    "unat (push_bit 2 b AND 0x3c) < 64"
    "unat ((push_bit 2 b AND 0x3c) OR drop_bit 6 c) < 64"
    "unat (c AND 0x3f) < 64"
proof -
  have less: "unat w < 64" if "\<not> bit w 6" "\<not> bit w 7" for w :: byte
  proof -
    have "take_bit 6 w = w"
    proof (rule byte_eqI)
      fix n :: nat assume "n < 8"
      then show "bit (take_bit 6 w) n = bit w n"
        by (cases n rule: byte_cases) (use that in \<open>simp_all add: bit_simps\<close>)
    qed
    then have "unat w = take_bit 6 (unat w)" by (metis unsigned_take_bit_eq)
    moreover have "take_bit 6 (unat w) < 2 ^ 6" by (rule take_bit_nat_less_exp)
    ultimately show ?thesis by simp
  qed
  show "unat (drop_bit 2 a) < 64" by (rule less) (auto simp: bit_simps dest: bit_imp_le_length)
  show "unat (push_bit 4 a AND 0x30) < 64" by (rule less) (auto simp: bit_simps dest: bit_imp_le_length)
  show "unat ((push_bit 4 a AND 0x30) OR drop_bit 4 b) < 64" by (rule less) (auto simp: bit_simps dest: bit_imp_le_length)
  show "unat (push_bit 2 b AND 0x3c) < 64" by (rule less) (auto simp: bit_simps dest: bit_imp_le_length)
  show "unat ((push_bit 2 b AND 0x3c) OR drop_bit 6 c) < 64" by (rule less) (auto simp: bit_simps dest: bit_imp_le_length)
  show "unat (c AND 0x3f) < 64" by (rule less) (auto simp: bit_simps dest: bit_imp_le_length)
qed

text \<open>The three bytes the decoder reassembles from four encoded sextets.\<close>

lemma reassemble:
  fixes a b c :: byte
  shows "push_bit 2 (drop_bit 2 a) OR drop_bit 4 ((push_bit 4 a AND 0x30) OR drop_bit 4 b) = a"
    "push_bit 2 (drop_bit 2 a) OR drop_bit 4 (push_bit 4 a AND 0x30) = a"
    "push_bit 4 ((push_bit 4 a AND 0x30) OR drop_bit 4 b) OR
       drop_bit 2 ((push_bit 2 b AND 0x3c) OR drop_bit 6 c) = b"
    "push_bit 4 ((push_bit 4 a AND 0x30) OR drop_bit 4 b) OR drop_bit 2 (push_bit 2 b AND 0x3c) = b"
    "push_bit 6 ((push_bit 2 b AND 0x3c) OR drop_bit 6 c) OR (c AND 0x3f) = c"
proof -
  show "push_bit 2 (drop_bit 2 a) OR drop_bit 4 ((push_bit 4 a AND 0x30) OR drop_bit 4 b) = a"
    by (rule byte_eqI, elim byte_cases) (simp_all add: bit_simps)
  show "push_bit 2 (drop_bit 2 a) OR drop_bit 4 (push_bit 4 a AND 0x30) = a"
    by (rule byte_eqI, elim byte_cases) (simp_all add: bit_simps)
  show "push_bit 4 ((push_bit 4 a AND 0x30) OR drop_bit 4 b) OR
       drop_bit 2 ((push_bit 2 b AND 0x3c) OR drop_bit 6 c) = b"
    by (rule byte_eqI, elim byte_cases) (simp_all add: bit_simps)
  show "push_bit 4 ((push_bit 4 a AND 0x30) OR drop_bit 4 b) OR drop_bit 2 (push_bit 2 b AND 0x3c) = b"
    by (rule byte_eqI, elim byte_cases) (simp_all add: bit_simps)
  show "push_bit 6 ((push_bit 2 b AND 0x3c) OR drop_bit 6 c) OR (c AND 0x3f) = c"
    by (rule byte_eqI, elim byte_cases) (simp_all add: bit_simps)
qed

section \<open>Encoder and decoder\<close>

lemma b64_loop_text: "b64_loop out (b64_text bytes) = Decoded (out @ bytes)"
proof (induction bytes arbitrary: out rule: b64_text.induct)
  case (2 a)
  then show ?case by (simp add: b64_char_digit sextets reassemble reassemble [simplified])
next
  case (3 a b)
  then show ?case by (simp add: b64_char_digit sextets reassemble reassemble [simplified])
next
  case (4 a b c rest)
  then show ?case by (simp add: b64_char_digit sextets reassemble reassemble [simplified])
qed simp

lemma length_b64_text: "length (b64_text bytes) = 4 * ((length bytes + 2) div 3)"
proof (induction bytes rule: b64_text.induct)
  case (4 a b c rest)
  have "(length (a # b # c # rest) + 2) div 3 = Suc ((length rest + 2) div 3)"
    by simp
  with 4 show ?case by simp
qed simp_all

lemma buf_append_base64_room:
  assumes "buf_ensure_space mem b (4 * (length bytes + 2) div 3 + 1) = (None, b')"
    and "tb_error b = None"
  shows "tb_data b' = tb_data b" and "tb_pos b' + length (b64_text bytes) < tb_len b'"
proof -
  let ?m = "length bytes + 2"
  have "?m div 3 * 3 \<le> ?m" by (rule div_times_less_eq_dividend)
  then have "4 * (?m div 3) * 3 div 3 \<le> 4 * ?m div 3" by (intro div_le_mono) simp
  then have "4 * (?m div 3) \<le> 4 * ?m div 3" by simp
  moreover have "tb_pos b' + (4 * ?m div 3 + 1) \<le> tb_len b'"
    by (rule buf_ensure_space_room [OF assms])
  ultimately show "tb_pos b' + length (b64_text bytes) < tb_len b'"
    unfolding length_b64_text by linarith
  show "tb_data b' = tb_data b" using buf_ensure_space_None [OF assms] by simp
qed

lemma buf_append_base64_ok:
  assumes "buf_ok b" and "buf_append_base64 mem (Some b) bytes = Some b'"
  shows "buf_ok b'"
proof (cases "tb_error b")
  case (Some e)
  with assms show ?thesis by (simp add: buf_append_base64_def)
next
  case None
  obtain r b1 where e: "buf_ensure_space mem b (4 * (length bytes + 2) div 3 + 1) = (r, b1)"
    by fastforce
  from assms(1) None e have ok: "buf_ok b1" by (rule buf_ensure_space_ok)
  show ?thesis
  proof (cases r)
    case (Some er)
    with assms None e ok show ?thesis by (simp add: buf_append_base64_def)
  next
    case rN: None
    from buf_append_base64_room [OF e [unfolded rN] None]
    show ?thesis using assms None e ok rN by (auto simp: buf_append_base64_def buf_ok_def)
  qed
qed

lemma buf_append_base64_failed: "buf_failed buf \<Longrightarrow> buf_append_base64 mem buf xs = buf"
  by (auto simp: buf_failed_def buf_error_def buf_append_base64_def split: option.splits)

lemma buf_append_base64_written:
  assumes "\<not> buf_failed (buf_append_base64 mem buf bytes)"
  shows "buf_written (buf_append_base64 mem buf bytes) = buf_written buf @ b64_text bytes"
proof -
  from assms obtain b where b: "buf = Some b" and ok: "tb_error b = None"
    using buf_append_base64_failed [of buf mem bytes]
    by (cases "buf_failed buf"; cases buf) (auto simp: buf_failed_def buf_error_def)
  obtain r b1 where e: "buf_ensure_space mem b (4 * (length bytes + 2) div 3 + 1) = (r, b1)"
    by fastforce
  show ?thesis
  proof (cases r)
    case None
    with e ok buf_ensure_space_None b show ?thesis
      by (auto simp: buf_append_base64_def buf_written_def)
  next
    case (Some er)
    with e buf_ensure_space_Some assms b ok show ?thesis
      by (fastforce simp: buf_append_base64_def buf_failed_def buf_error_def)
  qed
qed

section \<open>Properties\<close>

lemma buf_append_base64_fits:
  assumes "tb_error b = None" "\<not> buf_failed (buf_append_base64 mem (Some b) bytes)"
  shows "\<exists>b'. buf_append_base64 mem (Some b) bytes = Some b' \<and> tb_data b' = tb_data b @ b64_text bytes \<and> tb_pos b' + 1 \<le> tb_len b'"
proof -
  obtain r c where c: "buf_ensure_space mem b (4 * (length bytes + 2) div 3 + 1) = (r, c)" by fastforce
  have "r = None"
    using assms c buf_ensure_space_Some [of mem b _ _ c]
    by (cases r) (auto simp: buf_append_base64_def buf_failed_def buf_error_def)
  with c assms(1) show ?thesis
    using buf_append_base64_room [of mem b bytes c] by (simp add: buf_append_base64_def)
qed

text \<open>
  C37 (base64_roundtrip): Base64: what \<open>buf_append_base64\<close> writes, \<open>openconnect_base64_decode\<close> reads back
  as the same bytes, for every byte string; the text has the padded length; and when the encoder does not fail, the text is
  added to the buffer and the space it has reserved covers the text and the terminating 0.
\<close>

theorem base64_roundtrip:
  "openconnect_base64_decode True (b64_text bytes) = Decoded bytes \<and>
   length (b64_text bytes) = 4 * ((length bytes + 2) div 3) \<and>
   (tb_error b = None \<and> \<not> buf_failed (buf_append_base64 mem (Some b) bytes) \<longrightarrow>
     (\<exists>b'. buf_append_base64 mem (Some b) bytes = Some b' \<and> tb_data b' = tb_data b @ b64_text bytes \<and> tb_pos b' + 1 \<le> tb_len b'))"
  using buf_append_base64_fits by (auto simp: openconnect_base64_decode_def length_b64_text b64_loop_text)

theorem base64_roundtrip_witness:
  "openconnect_base64_decode True (b64_text [0xff, 0x00]) = Decoded [0xff, 0x00] \<and>
   (\<exists>b. buf_append_base64 (\<lambda>_. True) (Some empty_buf) [0xff, 0x00] = Some b \<and> tb_data b = ''/wA='' \<and> 5 \<le> tb_len b)"
proof -
  have ok: "\<not> buf_failed (buf_append_base64 (\<lambda>_. True) (Some empty_buf) [0xff, 0x00])"
    by (simp add: buf_append_base64_def empty_buf_def buf_ensure_space_def round_chunk_def
        buf_failed_def buf_error_def)
  have t: "b64_text [0xff, 0x00] = ''/wA=''" by code_simp
  show ?thesis
    using base64_roundtrip [of "[0xff, 0x00]" empty_buf "\<lambda>_. True"] ok t
    by (auto simp: empty_buf_def)
qed

text \<open>
  The decoder's error path frees the wrong pointer: an input of full length that is
  rejected after at least one byte was decoded makes \<open>openconnect_base64_decode\<close> call
  \<open>free\<close> on a pointer into the block; only an error in the first two characters is
  handled as intended.
\<close>

theorem base64_bad_free:
  assumes "length s mod 4 = 0" and "b64_char (s ! 0) = Some b0" and "b64_char (s ! 1) = Some b1"
    and "s ! 2 \<noteq> CHR ''=''" and "b64_char (s ! 2) = None" and "s \<noteq> []"
  shows "openconnect_base64_decode True s = Bad_Free"
proof -
  from assms(1,6) obtain c0 c1 c2 c3 rest where s: "s = c0 # c1 # c2 # c3 # rest"
    by (cases "([] :: bytes, s)" rule: b64_loop.cases) auto
  with assms show ?thesis
    by (simp add: openconnect_base64_decode_def b64_fail_def Let_def)
qed

theorem base64_bad_free_witness: "openconnect_base64_decode True ''QQ!='' = Bad_Free"
  by (rule base64_bad_free [of "''QQ!=''" 16 16]) (simp_all add: b64_char_def in_range_def)

end
