(* ===== verification/Vpn_State.thy ===== *)
theory Vpn_State
  imports Pkt_Queue Keepalive
begin

unbundle bit_operations_syntax

text \<open>
  The part of \<open>struct openconnect_info\<close> (\<open>core/openconnect-internal.h\<close>) that the tunnel
  loops work on, and the world outside the program.

  The world is a record of scripted answers: each call that leaves the program (the clock,
  \<open>malloc\<close>, \<open>SSL_read\<close>, \<open>SSL_write\<close>, \<open>read\<close> and \<open>write\<close> on the tun device, socket calls)
  takes the next answer of its list, and what the program sends is appended to a log. The
  theorems hold for every list of answers. An empty list stands for: no data, the socket is
  full, the set-up call succeeds, the device accepts the packet, no connection, no command.
  \<open>e_stack\<close> is what an uninitialised buffer holds, \<open>s_complained\<close> the static variable of \<open>os_write_tun\<close>. zlib is a parameter.

  Operations have the type \<open>vpninfo \<Rightarrow> (result \<times> vpninfo) option\<close> where the code can run into
  undefined behaviour, which is \<open>None\<close>: a read through a null pointer or past the end of a buffer.
\<close>

section \<open>The world\<close>

text \<open>One answer of \<open>SSL_read\<close>: bytes, or the class of \<open>SSL_get_error\<close>.\<close>

datatype ssl_rd = Rd bytes | Rd_Closed | Rd_Again

text \<open>
  One answer of \<open>SSL_write\<close>: everything was written; only \<open>n + 1\<close> bytes were; or the class
  of \<open>SSL_get_error\<close>.
\<close>

datatype ssl_wr = Wr_All | Wr_Part nat | Want_Write | Want_Read | Wr_Err

text \<open>\<open>SSL_do_handshake\<close> on the DTLS session.\<close>

datatype handshake = Hs_Done | Hs_Want | Hs_Failed

text \<open>\<open>write\<close> on the tun device; \<open>Tun_Not_Conn\<close> is \<open>ENOTCONN\<close>.\<close>

datatype tun_wr = Tun_Ok | Tun_Not_Conn | Tun_Err

text \<open>One answer of \<open>ssl_gets\<close>: a line without its end, or a negative error.\<close>

datatype gets = Line string | Gets_Err errno

text \<open>
  What is done to the environment of the tunnel: the variable \<open>reason\<close> is set for the script, the process
  group of the script is killed, the tun device is closed.
\<close>

datatype tun_act = Reason string | Hangup | Close_Tun

record oc_stats =
  tx_pkts :: u64
  tx_bytes :: u64
  rx_pkts :: u64
  rx_bytes :: u64

record env =
  e_clock :: "nat \<Rightarrow> int"
  e_ticks :: nat
  e_calls :: "bool list"
  e_mem :: "nat \<Rightarrow> bool"
  e_stack :: bytes
  e_rand :: "bytes option list"
  e_ssl_rd :: "ssl_rd list"
  e_ssl_wr :: "ssl_wr list"
  e_dtls_rd :: "bytes list"
  e_dtls_wr :: "ssl_wr list"
  e_dtls_hs :: "handshake list"
  e_tun_rd :: "bytes list"
  e_tun_wr :: "tun_wr list"
  e_open :: "int list"
  e_gets :: "gets list"
  e_mss :: "int option list"
  e_cmd :: "char option list"
  o_ssl :: "bytes list"
  o_dtls :: "bytes list"
  o_tun :: "bytes list"
  o_http :: "string list"
  o_script :: "tun_act list"
  o_stats :: "oc_stats list"
  s_complained :: bool

text \<open>
  zlib: the states after \<open>inflateInit2\<close> and \<open>deflateInit2\<close>, and one call of \<open>inflate\<close> or
  \<open>deflate\<close> with the input and the room for output, which returns the code, what it wrote and the new
  state.
\<close>

record 'z zlib =
  z_inflate_init :: 'z
  z_deflate_init :: 'z
  z_inflate :: "'z \<Rightarrow> bytes \<Rightarrow> nat \<Rightarrow> int \<times> bytes \<times> 'z"
  z_deflate :: "'z \<Rightarrow> bytes \<Rightarrow> nat \<Rightarrow> int \<times> bytes \<times> 'z"
  z_adler32 :: "u32 \<Rightarrow> bytes \<Rightarrow> u32"

text \<open>What is documented of a call: it writes no more than the room it is given.\<close>

definition zlib_ok :: "'z zlib \<Rightarrow> bool" where
  "zlib_ok Z \<longleftrightarrow>
     (\<forall>s i n. length (fst (snd (z_inflate Z s i n))) \<le> n) \<and>
     (\<forall>s i n. length (fst (snd (z_deflate Z s i n))) \<le> n)"

section \<open>\<open>struct openconnect_info\<close>\<close>

text \<open>The packet types.\<close>

abbreviation (input) AC_PKT_DATA :: byte where "AC_PKT_DATA \<equiv> 0"
abbreviation (input) AC_PKT_DPD_OUT :: byte where "AC_PKT_DPD_OUT \<equiv> 3"
abbreviation (input) AC_PKT_DPD_RESP :: byte where "AC_PKT_DPD_RESP \<equiv> 4"
abbreviation (input) AC_PKT_DISCONN :: byte where "AC_PKT_DISCONN \<equiv> 5"
abbreviation (input) AC_PKT_KEEPALIVE :: byte where "AC_PKT_KEEPALIVE \<equiv> 7"
abbreviation (input) AC_PKT_COMPRESSED :: byte where "AC_PKT_COMPRESSED \<equiv> 8"
abbreviation (input) AC_PKT_TERM_SERVER :: byte where "AC_PKT_TERM_SERVER \<equiv> 9"


datatype dtls_status = DTLS_NOSECRET | DTLS_DISABLED | DTLS_SLEEPING | DTLS_CONNECTING | DTLS_CONNECTED

datatype sa_family = AF_INET | AF_INET6 | AF_OTHER

record oc_ip_info =
  ip_addr :: "string option"
  ip_netmask :: "string option"
  ip_addr6 :: "string option"
  ip_netmask6 :: "string option"
  ip_dns :: "string option list"
  ip_nbns :: "string option list"
  ip_domain :: "string option"
  ip_proxy_pac :: "string option"
  ip_mtu :: int
  ip_split_dns :: "string list"
  ip_split_includes :: "string list"
  ip_split_excludes :: "string list"

text \<open>
  What \<open>current_ssl_pkt\<close> can point to: one of the static packets of \<open>core/cstp.c\<close>, the deflate
  buffer, or a packet taken off the queue.
\<close>

datatype ssl_ptr = P_Keepalive | P_Dpd | P_Dpd_Resp | P_Deflate | P_Data pkt

text \<open>The file descriptors in the three \<open>select\<close> sets.\<close>

record monitored =
  mon_ssl_rd :: bool
  mon_ssl_wr :: bool
  mon_ssl_ex :: bool
  mon_dtls_rd :: bool
  mon_dtls_wr :: bool
  mon_dtls_ex :: bool
  mon_tun_rd :: bool
  mon_cmd_rd :: bool

text \<open>What the application sets before the tunnel is started and the loops only read.\<close>

record vpn_config =
  c_hostname :: string
  c_useragent :: string
  c_cookie :: string
  c_localname :: string
  c_disable_ipv6 :: bool
  c_dtls_ciphers :: "string option"
  c_reqmtu :: int
  c_basemtu :: int
  c_proxy :: bool
  c_peer_family :: sa_family
  c_dtls_local_port :: int
  c_vpnc_script :: bool
  c_script_tun :: bool
  c_cmd_fd :: bool
  c_cmd_fd_write :: bool
  c_stats_handler :: bool
  c_max_qlen :: int

record 'z vpninfo =
  env :: env
  config :: vpn_config
  ip_info :: oc_ip_info
  stats :: oc_stats
  mon :: monitored
  quit_reason :: "string option"
  incoming_queue :: "pkt list"
  outgoing_queue :: "pkt list"
  outgoing_qlen :: int
  ssl_open :: bool
  ssl_times :: keepalive_info
  owe_ssl_dpd_response :: bool
  current_ssl_pkt :: "ssl_ptr option"
  pending_deflated_pkt :: "pkt option"
  deflate_pkt :: "pkt option"
  deflate :: bool
  inflate_strm :: "'z option"
  deflate_strm :: "'z option"
  inflate_adler32 :: u32
  deflate_adler32 :: u32
  dtls_state :: dtls_status
  dtls_times :: keepalive_info
  dtls_ctx :: bool
  dtls_session :: bool
  dtls_ssl :: bool
  dtls_fd :: bool
  dtls_pkt_max :: "int option"
  new_dtls_started :: int
  dtls_attempt_period :: int
  dtls_addr :: "(sa_family \<times> int) option"
  dtls_cipher :: "string option"
  dtls_secret :: bytes
  dtls_session_id :: bytes
  cstp_options :: "(string \<times> string) list"
  dtls_options :: "(string \<times> string) list"
  banner :: "string option"
  reconnect_timeout :: int
  reconnect_interval :: int
  got_cancel_cmd :: bool
  got_pause_cmd :: bool
  cancel_type :: char
  tun_fd :: bool
  out_pkt :: "int option"

section \<open>Calls that leave the program\<close>

definition upd_env :: "(env \<Rightarrow> env) \<Rightarrow> 'z vpninfo \<Rightarrow> 'z vpninfo" where
  "upd_env f v = v\<lparr>env := f (env v)\<rparr>"

text \<open>\<open>time(NULL)\<close>\<close>

definition time_now :: "'z vpninfo \<Rightarrow> int \<times> 'z vpninfo" where
  "time_now v = (e_clock (env v) (e_ticks (env v)), upd_env (\<lambda>e. e\<lparr>e_ticks := Suc (e_ticks e)\<rparr>) v)"

text \<open>Whether the next \<open>malloc\<close>, socket or OpenSSL set-up call succeeds.\<close>

definition ask :: "'z vpninfo \<Rightarrow> bool \<times> 'z vpninfo" where
  "ask v = (case e_calls (env v) of
      [] \<Rightarrow> (True, v)
    | b # bs \<Rightarrow> (b, upd_env (\<lambda>e. e\<lparr>e_calls := bs\<rparr>) v))"

definition log_ssl :: "bytes \<Rightarrow> 'z vpninfo \<Rightarrow> 'z vpninfo" where
  "log_ssl bs v = upd_env (\<lambda>e. e\<lparr>o_ssl := o_ssl e @ [bs]\<rparr>) v"

definition log_dtls :: "bytes \<Rightarrow> 'z vpninfo \<Rightarrow> 'z vpninfo" where
  "log_dtls bs v = upd_env (\<lambda>e. e\<lparr>o_dtls := o_dtls e @ [bs]\<rparr>) v"

definition log_tun :: "bytes \<Rightarrow> 'z vpninfo \<Rightarrow> 'z vpninfo" where
  "log_tun bs v = upd_env (\<lambda>e. e\<lparr>o_tun := o_tun e @ [bs]\<rparr>) v"

definition log_http :: "string \<Rightarrow> 'z vpninfo \<Rightarrow> 'z vpninfo" where
  "log_http s v = upd_env (\<lambda>e. e\<lparr>o_http := o_http e @ [s]\<rparr>) v"

definition tun_log :: "tun_act \<Rightarrow> 'z vpninfo \<Rightarrow> 'z vpninfo" where
  "tun_log a v = upd_env (\<lambda>e. e\<lparr>o_script := o_script e @ [a]\<rparr>) v"

text \<open>
  \<open>script_config_tun\<close> of \<open>core/script.c\<close>: the call of the script is commented out and its status
  replaced by 1, which is not the status of a process that has exited.
\<close>

definition script_config_tun :: "string \<Rightarrow> 'z vpninfo \<Rightarrow> int \<times> 'z vpninfo" where
  "script_config_tun reason v =
     (if \<not> c_vpnc_script (config v) \<or> c_script_tun (config v) then (0, v)
      else (err EIO, tun_log (Reason reason) v))"

named_theorems world_defs

lemmas [world_defs] = upd_env_def time_now_def ask_def log_ssl_def log_dtls_def log_tun_def
  log_http_def tun_log_def script_config_tun_def

text \<open>What the program has sent through the tunnels, and the answers the tun device has still to give.\<close>

definition tun_out :: "env \<Rightarrow> bytes list \<times> tun_wr list" where
  "tun_out e = (o_tun e, e_tun_wr e)"

definition outs :: "env \<Rightarrow> bytes list \<times> bytes list \<times> bytes list \<times> tun_wr list" where
  "outs e = (o_ssl e, o_dtls e, o_tun e, e_tun_wr e)"

lemma outs_simps [simp]:
  "outs (e\<lparr>e_ticks := a\<rparr>) = outs e" "outs (e\<lparr>e_calls := b\<rparr>) = outs e" "outs (e\<lparr>e_gets := c\<rparr>) = outs e"
  "outs (e\<lparr>e_mss := d\<rparr>) = outs e" "outs (e\<lparr>e_open := f\<rparr>) = outs e" "outs (e\<lparr>e_cmd := g\<rparr>) = outs e"
  "outs (e\<lparr>e_rand := h\<rparr>) = outs e" "outs (e\<lparr>o_http := i\<rparr>) = outs e" "outs (e\<lparr>o_script := j\<rparr>) = outs e"
  "outs (e\<lparr>o_stats := k\<rparr>) = outs e" "outs (e\<lparr>s_complained := m\<rparr>) = outs e" "outs (e\<lparr>e_dtls_hs := l\<rparr>) = outs e"
  by (simp_all add: outs_def)

text \<open>
  What a call that leaves the program cannot change: everything but \<open>env\<close>, and, unless it
  sends, what was sent.
\<close>

definition same_state :: "'z vpninfo \<Rightarrow> 'z vpninfo \<Rightarrow> bool" where
  "same_state v w \<longleftrightarrow> w = v\<lparr>env := env w\<rparr> \<and> outs (env w) = outs (env v)"

lemma same_state_refl [simp]: "same_state v v"
  by (simp add: same_state_def)

lemma same_state_upd_env [simp]: "outs (f (env v)) = outs (env v) \<Longrightarrow> same_state v (upd_env f v)"
  by (simp add: same_state_def upd_env_def)

lemma same_state_trans: "same_state u v \<Longrightarrow> same_state v w \<Longrightarrow> same_state u w"
  by (cases u; cases v; cases w) (simp add: same_state_def)

lemma same_state_ask: "same_state v (snd (ask v))"
  by (simp add: ask_def split: list.split)

lemma same_state_time: "same_state v (snd (time_now v))"
  by (simp add: time_now_def)

lemma outs_tun: "outs (e'::env) = outs e \<Longrightarrow> tun_out e' = tun_out e"
  by (simp add: outs_def tun_out_def)

lemma time_now_eq: "time_now v = (fst (time_now v), upd_env (\<lambda>e. e\<lparr>e_ticks := Suc (e_ticks e)\<rparr>) v)"
  by (simp add: time_now_def)

section \<open>A state at rest\<close>

text \<open>An example: a client before it connects, as \<open>openconnect_vpninfo_new\<close> leaves it.\<close>

definition idle_env :: env where
  "idle_env = \<lparr>e_clock = (\<lambda>n. int n), e_ticks = 0, e_calls = [], e_mem = (\<lambda>_. True), e_stack = [], e_rand = [], e_ssl_rd = [], e_ssl_wr = [],
     e_dtls_rd = [], e_dtls_wr = [], e_dtls_hs = [], e_tun_rd = [], e_tun_wr = [], e_open = [],
     e_gets = [], e_mss = [], e_cmd = [], o_ssl = [], o_dtls = [], o_tun = [], o_http = [], o_script = [], o_stats = [], s_complained = False\<rparr>"

definition no_timers :: keepalive_info where
  "no_timers = \<lparr>ka_dpd = 0, ka_keepalive = 0, ka_rekey = 0, ka_rekey_method = REKEY_NONE,
     ka_last_rekey = 0, ka_last_tx = 0, ka_last_rx = 0, ka_last_dpd = 0\<rparr>"

definition no_ip_info :: oc_ip_info where
  "no_ip_info = \<lparr>ip_addr = None, ip_netmask = None, ip_addr6 = None, ip_netmask6 = None,
     ip_dns = [None, None, None], ip_nbns = [None, None, None], ip_domain = None, ip_proxy_pac = None,
     ip_mtu = 0, ip_split_dns = [], ip_split_includes = [], ip_split_excludes = []\<rparr>"

definition idle_config :: vpn_config where
  "idle_config = \<lparr>c_hostname = ''vpn.example.com'', c_useragent = ''AnyConnect'', c_cookie = ''c0ffee'',
     c_localname = ''localhost'', c_disable_ipv6 = False, c_dtls_ciphers = None, c_reqmtu = 0,
     c_basemtu = 0, c_proxy = False, c_peer_family = AF_INET, c_dtls_local_port = 0,
     c_vpnc_script = True, c_script_tun = True, c_cmd_fd = True, c_cmd_fd_write = True, c_stats_handler = False, c_max_qlen = 10\<rparr>"

definition idle_mon :: monitored where
  "idle_mon = \<lparr>mon_ssl_rd = False, mon_ssl_wr = False, mon_ssl_ex = False, mon_dtls_rd = False,
     mon_dtls_wr = False, mon_dtls_ex = False, mon_tun_rd = False, mon_cmd_rd = False\<rparr>"

definition idle_vpn :: "'z vpninfo" where
  "idle_vpn = \<lparr>env = idle_env, config = idle_config, ip_info = no_ip_info,
     stats = \<lparr>tx_pkts = 0, tx_bytes = 0, rx_pkts = 0, rx_bytes = 0\<rparr>,
     mon = idle_mon,
     quit_reason = None, incoming_queue = [], outgoing_queue = [], outgoing_qlen = 0, ssl_open = False,
     ssl_times = no_timers, owe_ssl_dpd_response = False, current_ssl_pkt = None,
     pending_deflated_pkt = None, deflate_pkt = None, deflate = True, inflate_strm = None,
     deflate_strm = None, inflate_adler32 = 0, deflate_adler32 = 0, dtls_state = DTLS_NOSECRET,
     dtls_times = no_timers, dtls_ctx = False, dtls_session = False, dtls_ssl = False, dtls_fd = False,
     dtls_pkt_max = None, new_dtls_started = 0, dtls_attempt_period = 0, dtls_addr = None,
     dtls_cipher = None, dtls_secret = replicate 48 0, dtls_session_id = replicate 32 0,
     cstp_options = [], dtls_options = [], banner = None, reconnect_timeout = 0,
     reconnect_interval = 0, got_cancel_cmd = False, got_pause_cmd = False, cancel_type = CHR 0x00,
     tun_fd = False, out_pkt = None\<rparr>"

text \<open>A compressor that stores its input.\<close>

definition stored :: "unit zlib" where
  "stored = \<lparr>z_inflate_init = (), z_deflate_init = (), z_inflate = (\<lambda>_ x _. (0, x, ())),
     z_deflate = (\<lambda>_ x _. (0, x, ())), z_adler32 = (\<lambda>a x. a + of_nat (length x))\<rparr>"

end
