(* ===== verification/Tun_Loop.thy ===== *)
theory Tun_Loop
  imports Vpn_State
begin

text \<open>
  The tun side of the tunnel: \<open>os_read_tun\<close>, \<open>os_write_tun\<close>, \<open>openconnect_setup_tun_fd\<close> of
  \<open>core/tun.c\<close> (built for Apple systems, where the kernel puts four bytes of address family
  before each packet unless a script is the peer) and \<open>tun_mainloop\<close> of \<open>core/mainloop.c\<close>.
\<close>

section \<open>One packet\<close>

definition prefix_size :: "'z vpninfo \<Rightarrow> nat" where
  "prefix_size v = (if c_script_tun (config v) then 0 else 4)"

text \<open>
  \<open>os_read_tun\<close> on a packet with room for \<open>len\<close> bytes when \<open>read\<close> has \<open>bs\<close> to give: \<open>read\<close> puts the
  prefix over the end of \<open>hdr\<close>. The bytes of a fresh header are taken to be 0.
\<close>

definition os_read_tun :: "'z vpninfo \<Rightarrow> int \<Rightarrow> bytes \<Rightarrow> pkt option" where
  "os_read_tun v len bs =
     (let got = take (nat (len + int (prefix_size v))) bs in
      if length got \<le> prefix_size v then None
      else Some \<lparr>pkt_hdr = replicate (8 - prefix_size v) 0 @ take (prefix_size v) got,
                 pkt_data = drop (prefix_size v) got\<rparr>)"

text \<open>\<open>htonl\<close> of the address family that the IP version in the first byte stands for.\<close>

definition af_prefix :: "byte \<Rightarrow> bytes option" where
  "af_prefix b =
     (let ip_v = drop_bit 4 b in
      if ip_v = 6 then Some [0, 0, 0, 30] else if ip_v = 4 then Some [0, 0, 0, 2] else None)"

text \<open>
  What is handed to \<open>write\<close>: \<open>None\<close> for an empty packet whose first byte the code would read, and
  \<open>Some None\<close> for a packet that is dropped.
\<close>

definition tun_frame :: "'z vpninfo \<Rightarrow> pkt \<Rightarrow> bytes option option" where
  "tun_frame v p =
     (if c_script_tun (config v) then Some (Some (pkt_data p))
      else case pkt_data p of
        [] \<Rightarrow> None
      | b # _ \<Rightarrow> Some (case af_prefix b of None \<Rightarrow> None | Some af \<Rightarrow> Some (af @ pkt_data p)))"

definition tun_write_answer :: "'z vpninfo \<Rightarrow> tun_wr \<times> 'z vpninfo" where
  "tun_write_answer v = (case e_tun_wr (env v) of
      [] \<Rightarrow> (Tun_Ok, v)
    | a # as \<Rightarrow> (a, upd_env (\<lambda>e. e\<lparr>e_tun_wr := as\<rparr>) v))"

text \<open>
  The first packet of an unknown IP version is complained of, with its first four bytes: \<open>None\<close> when it has
  fewer. \<open>s_complained\<close> is the static variable that is set then.
\<close>

definition os_write_tun :: "'z vpninfo \<Rightarrow> pkt \<Rightarrow> (bool \<times> 'z vpninfo) option" where
  "os_write_tun v p =
     (case tun_frame v p of
        None \<Rightarrow> None
      | Some None \<Rightarrow>
          (if s_complained (env v) then Some (True, v)
           else if length (pkt_data p) < 4 then None
           else Some (True, upd_env (\<lambda>e. e\<lparr>s_complained := True\<rparr>) v))
      | Some (Some bs) \<Rightarrow>
          (let (a, v) = tun_write_answer v in
           case a of
             Tun_Ok \<Rightarrow> Some (True, log_tun bs v)
           | Tun_Not_Conn \<Rightarrow>
               (if c_script_tun (config v)
                then Some (False, v\<lparr>quit_reason := Some ''Client connection terminated''\<rparr>)
                else Some (True, v))
           | Tun_Err \<Rightarrow> Some (True, v)))"

section \<open>The loop\<close>

text \<open>The packet buffer that is kept in the static \<open>out_pkt\<close> from one call to the next.\<close>

definition tun_alloc :: "'z vpninfo \<Rightarrow> bool \<times> 'z vpninfo" where
  "tun_alloc v =
     (case out_pkt v of
        Some _ \<Rightarrow> (True, v)
      | None \<Rightarrow>
          (let (ok, w) = ask v in
           if ok then (True, w\<lparr>out_pkt := Some (ip_mtu (ip_info w))\<rparr>) else (False, w)))"

definition tun_queue_read :: "'z vpninfo \<Rightarrow> pkt \<Rightarrow> 'z vpninfo" where
  "tun_queue_read v p =
     v\<lparr>stats := (stats v)\<lparr>tx_pkts := tx_pkts (stats v) + 1,
                          tx_bytes := tx_bytes (stats v) + of_int (pkt_len p)\<rparr>,
       outgoing_queue := queue_packet (outgoing_queue v) p,
       out_pkt := None,
       outgoing_qlen := outgoing_qlen v + 1\<rparr>"

fun tun_read_loop :: "bytes list \<Rightarrow> 'z vpninfo \<Rightarrow> bool \<Rightarrow> bool \<times> 'z vpninfo" where
  "tun_read_loop [] v work = (let (ok, v) = tun_alloc v in (work, v))"
| "tun_read_loop (r # rs) v work =
     (let (ok, v) = tun_alloc v in
      if \<not> ok then (work, v)
      else
        let v = upd_env (\<lambda>e. e\<lparr>e_tun_rd := rs\<rparr>) v in
        case os_read_tun v (the (out_pkt v)) r of
          None \<Rightarrow> (work, v)
        | Some p \<Rightarrow>
            (let v = tun_queue_read v p in
             if outgoing_qlen v = c_max_qlen (config v)
             then (True, v\<lparr>mon := (mon v)\<lparr>mon_tun_rd := False\<rparr>\<rparr>)
             else tun_read_loop rs v True))"

definition tun_count_written :: "'z vpninfo \<Rightarrow> pkt \<Rightarrow> pkt list \<Rightarrow> 'z vpninfo" where
  "tun_count_written v p q =
     v\<lparr>stats := (stats v)\<lparr>rx_pkts := rx_pkts (stats v) + 1,
                          rx_bytes := rx_bytes (stats v) + of_int (pkt_len p)\<rparr>,
       incoming_queue := q\<rparr>"

fun tun_write_loop :: "pkt list \<Rightarrow> 'z vpninfo \<Rightarrow> 'z vpninfo option" where
  "tun_write_loop [] v = Some v"
| "tun_write_loop (p # q) v =
     (case os_write_tun v p of
        None \<Rightarrow> None
      | Some (ok, v) \<Rightarrow> if ok then tun_write_loop q (tun_count_written v p q) else Some v)"

definition tun_mainloop :: "'z vpninfo \<Rightarrow> (bool \<times> 'z vpninfo) option" where
  "tun_mainloop v =
     (let (work, v) =
        (if mon_tun_rd (mon v) then tun_read_loop (e_tun_rd (env v)) v False
         else if outgoing_qlen v < c_max_qlen (config v)
         then (False, v\<lparr>mon := (mon v)\<lparr>mon_tun_rd := True\<rparr>\<rparr>)
         else (False, v)) in
      case tun_write_loop (incoming_queue v) v of
        None \<Rightarrow> None
      | Some v \<Rightarrow> Some (work, v))"

definition openconnect_setup_tun_fd :: "'z vpninfo \<Rightarrow> 'z vpninfo" where
  "openconnect_setup_tun_fd v = v\<lparr>tun_fd := True, mon := (mon v)\<lparr>mon_tun_rd := True\<rparr>\<rparr>"

definition os_shutdown_tun :: "'z vpninfo \<Rightarrow> 'z vpninfo" where
  "os_shutdown_tun v =
     (let v = (if c_script_tun (config v) then tun_log Hangup v else snd (script_config_tun ''disconnect'' v));
          v = (if c_vpnc_script (config v) then tun_log Close_Tun v else v) in
      v\<lparr>tun_fd := False\<rparr>)"

section \<open>Reading\<close>

text \<open>
  Back-pressure: the queue is never counted above its limit, and the tun device is only
  watched while there is room.
\<close>

definition tun_flow :: "'z vpninfo \<Rightarrow> bool" where
  "tun_flow v \<longleftrightarrow> outgoing_qlen v \<le> c_max_qlen (config v) \<and>
     (mon_tun_rd (mon v) \<longrightarrow> outgoing_qlen v < c_max_qlen (config v))"

text \<open>The packets that have been put at the end of the outgoing queue.\<close>

definition grown :: "'z vpninfo \<Rightarrow> 'z vpninfo \<Rightarrow> bool" where
  "grown v w \<longleftrightarrow> (\<exists>new. outgoing_queue w = outgoing_queue v @ new \<and>
     outgoing_qlen w = outgoing_qlen v + int (length new)) \<and>
     incoming_queue w = incoming_queue v \<and> config w = config v \<and>
     quit_reason w = quit_reason v \<and> e_tun_wr (env w) = e_tun_wr (env v) \<and> o_tun (env w) = o_tun (env v)"

lemma grown_refl [simp]: "grown v v"
  by (simp add: grown_def)

lemma grown_trans: "grown u v \<Longrightarrow> grown v w \<Longrightarrow> grown u w"
  by (fastforce simp: grown_def)

lemma tun_alloc_same:
  "tun_alloc v = (ok, w) \<Longrightarrow> grown v w \<and> mon w = mon v \<and> config w = config v \<and>
     outgoing_qlen w = outgoing_qlen v"
  by (auto simp: tun_alloc_def ask_def upd_env_def grown_def split: option.splits list.splits if_splits)

lemma grown_queue_read:
  "grown v w \<Longrightarrow> grown v (tun_queue_read w p)"
  by (auto simp: grown_def tun_queue_read_def queue_packet_def)

lemma grown_env [simp]: "grown v (upd_env (\<lambda>e. e\<lparr>e_tun_rd := rs\<rparr>) w) = grown v w"
  by (simp add: grown_def upd_env_def)

lemma grown_ask: "ask v = (ok, w) \<Longrightarrow> grown v w"
  by (auto simp: ask_def upd_env_def grown_def split: list.splits)

lemma tun_read_loop_grown:
  "tun_read_loop rs v work = (r, w) \<Longrightarrow> grown v w"
proof (induction rs arbitrary: v work)
  case Nil
  then show ?case
    by (auto dest: tun_alloc_same split: prod.splits)
next
  case (Cons x rs)
  obtain ok u where a: "tun_alloc v = (ok, u)" by (cases "tun_alloc v")
  note g = tun_alloc_same [OF a, THEN conjunct1]
  let ?u = "upd_env (\<lambda>e. e\<lparr>e_tun_rd := rs\<rparr>) u"
  show ?case
  proof (cases "ok \<and> os_read_tun ?u (the (out_pkt ?u)) x \<noteq> None")
    case False
    with Cons.prems g show ?thesis
      by (auto simp: a Let_def split: if_splits)
  next
    case True
    then obtain p where p: "os_read_tun ?u (the (out_pkt ?u)) x = Some p" and "ok" by auto
    have q: "grown v (tun_queue_read ?u p)" by (rule grown_queue_read) (use g in simp)
    show ?thesis
    proof (cases "outgoing_qlen (tun_queue_read ?u p) = c_max_qlen (config (tun_queue_read ?u p))")
      case True
      with Cons.prems \<open>ok\<close> p a q show ?thesis by (auto simp: Let_def grown_def)
    next
      case False
      with Cons.prems \<open>ok\<close> p a have "tun_read_loop rs (tun_queue_read ?u p) True = (r, w)"
        by (simp add: Let_def)
      from Cons.IH [OF this] q show ?thesis by (rule grown_trans [rotated])
    qed
  qed
qed

lemma tun_read_loop_flow:
  "tun_read_loop rs v work = (r, w) \<Longrightarrow> outgoing_qlen v < c_max_qlen (config v) \<Longrightarrow> tun_flow w"
proof (induction rs arbitrary: v work)
  case Nil
  then show ?case
    by (auto simp: tun_flow_def dest!: tun_alloc_same split: prod.splits)
next
  case (Cons x rs)
  obtain ok u where a: "tun_alloc v = (ok, u)" by (cases "tun_alloc v")
  note g = tun_alloc_same [OF a]
  let ?u = "upd_env (\<lambda>e. e\<lparr>e_tun_rd := rs\<rparr>) u"
  show ?case
  proof (cases "ok \<and> os_read_tun ?u (the (out_pkt ?u)) x \<noteq> None")
    case False
    with Cons.prems g show ?thesis
      by (auto simp: a Let_def tun_flow_def upd_env_def split: if_splits)
  next
    case True
    then obtain p where p: "os_read_tun ?u (the (out_pkt ?u)) x = Some p" and "ok" by auto
    let ?q = "tun_queue_read ?u p"
    have q: "config ?q = config v" "outgoing_qlen ?q = outgoing_qlen v + 1"
      using g by (simp_all add: tun_queue_read_def upd_env_def)
    show ?thesis
    proof (cases "outgoing_qlen ?q = c_max_qlen (config ?q)")
      case True
      with Cons.prems \<open>ok\<close> p a show ?thesis by (auto simp: Let_def tun_flow_def)
    next
      case False
      with Cons.prems \<open>ok\<close> p a have "tun_read_loop rs ?q True = (r, w)"
        by (simp add: Let_def)
      moreover have "outgoing_qlen ?q < c_max_qlen (config ?q)"
        using False q Cons.prems(2) by simp
      ultimately show ?thesis by (rule Cons.IH)
    qed
  qed
qed

section \<open>Writing\<close>

text \<open>What the write loop leaves of the state: only what it reads off the incoming queue changes.\<close>

lemma os_write_tun_frame:
  "os_write_tun v p = Some (ok, w) \<Longrightarrow>
     w = v\<lparr>env := env w, quit_reason := quit_reason w\<rparr> \<and> (ok \<longrightarrow> quit_reason w = quit_reason v)"
  by (auto simp: os_write_tun_def tun_write_answer_def world_defs
      split: option.splits list.splits tun_wr.splits if_splits)

definition written_out :: "'z vpninfo \<Rightarrow> 'z vpninfo \<Rightarrow> bool" where
  "written_out v w \<longleftrightarrow>
     w = v\<lparr>env := env w, quit_reason := quit_reason w, stats := stats w, incoming_queue := incoming_queue w\<rparr> \<and>
     (quit_reason w = quit_reason v \<longrightarrow> incoming_queue w = []) \<and>
     (\<exists>done. incoming_queue v = done @ incoming_queue w)"

lemma tun_write_loop_written:
  "tun_write_loop q v = Some w \<Longrightarrow> incoming_queue v = q \<Longrightarrow> quit_reason v = None \<Longrightarrow> written_out v w"
proof (induction q v rule: tun_write_loop.induct)
  case (1 v)
  then show ?case by (simp add: written_out_def)
next
  case (2 p q v)
  obtain ok u where u: "os_write_tun v p = Some (ok, u)"
    using 2(2) by (auto split: option.splits)
  note f = os_write_tun_frame [OF u]
  show ?case
  proof (cases ok)
    case True
    let ?u = "tun_count_written u p q"
    have "tun_write_loop q ?u = Some w" using 2(2) u True by simp
    moreover have "incoming_queue ?u = q" "quit_reason ?u = None"
      using f True 2(4) by (simp_all add: tun_count_written_def)
    ultimately have IH: "written_out ?u w" using 2(1) [OF u [THEN sym, THEN sym] refl] u True
      by (metis "2.IH")
    show ?thesis
      using IH f True 2(3,4)
      by (cases v; cases u; cases w) (auto simp: written_out_def tun_count_written_def)
  next
    case False
    then have "w = u" using 2(2) u by simp
    moreover have "quit_reason u \<noteq> None"
      using u False by (auto simp: os_write_tun_def Let_def split: option.splits tun_wr.splits if_splits prod.splits)
    moreover have "incoming_queue u = p # q" using f 2(3) by (cases u; cases v) simp
    ultimately show ?thesis using f 2(3,4)
      by (cases u; cases v) (auto simp: written_out_def intro: exI [of _ "[]"])
  qed
qed

text \<open>
  The packets that reach the tun device when it accepts everything: all that the code can frame.
\<close>

definition framed :: "'z vpninfo \<Rightarrow> pkt list \<Rightarrow> bytes list" where
  "framed v q = concat (map (\<lambda>p. case tun_frame v p of Some (Some bs) \<Rightarrow> [bs] | _ \<Rightarrow> []) q)"

lemma tun_frame_config: "config w = config v \<Longrightarrow> tun_frame w p = tun_frame v p"
  by (simp add: tun_frame_def)

lemma framed_config: "config w = config v \<Longrightarrow> framed w q = framed v q"
  using tun_frame_config [of w v] by (simp add: framed_def)

lemma framed_simps: "framed v [] = []" "framed v (p # q) = framed v [p] @ framed v q"
  by (simp_all add: framed_def)

lemma framed_single: "framed v [p] = (case tun_frame v p of Some (Some bs) \<Rightarrow> [bs] | _ \<Rightarrow> [])"
  by (simp add: framed_def)

text \<open>The frames that the device took, given its answers: when it gives none, it takes the frame.\<close>

fun accepted :: "bytes list \<Rightarrow> tun_wr list \<Rightarrow> bytes list" where
  "accepted [] as = []"
| "accepted (f # fs) [] = f # fs"
| "accepted (f # fs) (a # as) = (if a = Tun_Ok then f # accepted fs as else accepted fs as)"

lemma accepted_all [simp]: "accepted fs [] = fs"
  by (cases fs) simp_all

lemma accepted_append: "accepted (xs @ ys) as = accepted xs as @ accepted ys (drop (length xs) as)"
  by (induction xs as rule: accepted.induct) simp_all

definition took :: "'z vpninfo \<Rightarrow> bytes list \<Rightarrow> 'z vpninfo \<Rightarrow> bool" where
  "took v fs w \<longleftrightarrow> o_tun (env w) = o_tun (env v) @ accepted fs (e_tun_wr (env v)) \<and>
     e_tun_wr (env w) = drop (length fs) (e_tun_wr (env v))"

lemma took_trans: "took u xs v \<Longrightarrow> took v ys w \<Longrightarrow> took u (xs @ ys) w"
  by (simp add: took_def accepted_append add.commute)

lemma os_write_tun_took:
  assumes "os_write_tun v p = Some (ok, w)"
  shows "config w = config v" "ok \<Longrightarrow> took v (framed v [p]) w" "\<not> ok \<Longrightarrow> quit_reason w \<noteq> None"
  using assms
  by (auto simp: os_write_tun_def took_def framed_single tun_write_answer_def world_defs Let_def
      split: option.splits list.splits tun_wr.splits if_splits)

lemma tun_count_written_simps [simp]:
  "config (tun_count_written v p q) = config v"
  "env (tun_count_written v p q) = env v"
  "incoming_queue (tun_count_written v p q) = q"
  by (simp_all add: tun_count_written_def)

lemma tun_write_loop_took:
  "tun_write_loop q v = Some w \<Longrightarrow> quit_reason w = None \<Longrightarrow> took v (framed v q) w"
proof (induction q arbitrary: v)
  case Nil
  then show ?case by (simp add: framed_simps took_def)
next
  case (Cons p q)
  obtain ok u where u: "os_write_tun v p = Some (ok, u)"
    using Cons.prems(1) by (auto split: option.splits)
  note t = os_write_tun_took [OF u]
  have ok: ok using Cons.prems u t(3) by (cases ok) simp_all
  let ?u = "tun_count_written u p q"
  have "took ?u (framed ?u q) w" using Cons.prems u ok by (intro Cons.IH) simp_all
  moreover have "framed ?u q = framed v q" using t(1) by (intro framed_config) simp
  ultimately have "took u (framed v q) w" by (simp add: took_def)
  then show ?case unfolding framed_simps(2) [of v p q] using t(2) [OF ok] by (blast intro: took_trans)
qed

section \<open>Properties\<close>

text \<open>A client with one packet on the tun device and one from the peer.\<close>

definition tun_sample :: "unit vpninfo" where
  "tun_sample = idle_vpn\<lparr>mon := idle_mon\<lparr>mon_tun_rd := True\<rparr>,
     ip_info := no_ip_info\<lparr>ip_mtu := 1400\<rparr>,
     incoming_queue := [new_pkt [0x45, 7]], env := idle_env\<lparr>e_tun_rd := [[0x45, 1, 2]]\<rparr>\<rparr>"

lemma tun_sample_run:
  "map_option (\<lambda>(work, w). (work, map pkt_data (outgoing_queue w), outgoing_qlen w, incoming_queue w,
     o_tun (env w), quit_reason w)) (tun_mainloop tun_sample) =
   Some (True, [[0x45, 1, 2]], 1, [], [[0x45, 7]], None)"
  by (simp add: tun_sample_def idle_vpn_def idle_mon_def idle_env_def idle_config_def no_ip_info_def tun_mainloop_def tun_alloc_def
      os_read_tun_def prefix_size_def tun_queue_read_def queue_packet_def os_write_tun_def tun_frame_def
      tun_write_answer_def tun_count_written_def world_defs)

text \<open>The head of \<open>tun_mainloop\<close>, before it writes.\<close>

definition tun_fed :: "'z vpninfo \<Rightarrow> bool \<times> 'z vpninfo" where
  "tun_fed v =
     (if mon_tun_rd (mon v) then tun_read_loop (e_tun_rd (env v)) v False
      else if outgoing_qlen v < c_max_qlen (config v)
      then (False, v\<lparr>mon := (mon v)\<lparr>mon_tun_rd := True\<rparr>\<rparr>)
      else (False, v))"

lemma tun_mainloop_fed:
  "tun_mainloop v = map_option (Pair (fst (tun_fed v))) (tun_write_loop (incoming_queue (snd (tun_fed v))) (snd (tun_fed v)))"
  by (simp add: tun_mainloop_def tun_fed_def split: prod.split option.split)

lemma tun_fed_grown: "grown v (snd (tun_fed v))"
proof (cases "mon_tun_rd (mon v)")
  case True
  then show ?thesis
    using tun_read_loop_grown [of "e_tun_rd (env v)" v False, OF prod.collapse [symmetric]]
    by (simp add: tun_fed_def)
qed (simp add: tun_fed_def grown_def)

lemma tun_fed_flow: "tun_flow v \<Longrightarrow> tun_flow (snd (tun_fed v))"
proof (cases "mon_tun_rd (mon v)")
  case True
  assume "tun_flow v"
  with True show ?thesis
    using tun_read_loop_flow [of "e_tun_rd (env v)" v False, OF prod.collapse [symmetric]]
    by (simp add: tun_fed_def tun_flow_def)
qed (auto simp: tun_fed_def tun_flow_def)

lemma tun_flow_kept:
  assumes "tun_flow v" "tun_mainloop v = Some (work, w)" "quit_reason v = None"
  shows "tun_flow w \<and> (\<exists>new. outgoing_queue w = outgoing_queue v @ new \<and>
    outgoing_qlen w = outgoing_qlen v + int (length new))"
proof -
  define u where "u = snd (tun_fed v)"
  have u: "tun_write_loop (incoming_queue u) u = Some w" "grown v u" "tun_flow u"
    using assms tun_fed_grown [of v] tun_fed_flow [of v] by (auto simp: u_def tun_mainloop_fed)
  have "written_out u w" by (rule tun_write_loop_written [OF u(1)]) (use u(2) assms in \<open>simp_all add: grown_def\<close>)
  then have "mon w = mon u" "outgoing_qlen w = outgoing_qlen u" "config w = config u"
    "outgoing_queue w = outgoing_queue u"
    by (cases u; cases w; simp add: written_out_def)+
  with u show ?thesis by (simp add: tun_flow_def grown_def)
qed

text \<open>
  Reading from the tun device: \<open>tun_mainloop\<close> only appends to the outgoing
  queue, counts every packet it appends, and never counts above \<open>max_qlen\<close>; it stops watching the
  device when the queue is full and watches it again only when there is room.
\<close>

theorem tun_mainloop_flow:
  assumes "tun_flow v" "tun_mainloop v = Some (work, w)" "quit_reason v = None"
  shows "tun_flow w \<and> (\<exists>new. outgoing_queue w = outgoing_queue v @ new \<and>
    outgoing_qlen w = outgoing_qlen v + int (length new))"
  using assms by (rule tun_flow_kept)

theorem tun_mainloop_flow_witness:
  "\<exists>work w. tun_mainloop tun_sample = Some (work, w) \<and> tun_flow w \<and>
     map pkt_data (outgoing_queue w) = [[0x45, 1, 2]]"
proof -
  obtain work w where r: "tun_mainloop tun_sample = Some (work, w)"
    "map pkt_data (outgoing_queue w) = [[0x45, 1, 2]]"
    using tun_sample_run by auto
  moreover have "tun_flow tun_sample" "quit_reason tun_sample = None"
    by (simp_all add: tun_flow_def tun_sample_def idle_vpn_def idle_mon_def idle_config_def)
  ultimately show ?thesis using tun_mainloop_flow [of tun_sample work w] by auto
qed

lemma tun_delivers:
  assumes "tun_mainloop v = Some (work, w)" "quit_reason v = None" "quit_reason w = None"
  shows "incoming_queue w = []" "took v (framed v (incoming_queue v)) w"
proof -
  define u where "u = snd (tun_fed v)"
  have u: "tun_write_loop (incoming_queue u) u = Some w" "grown v u"
    using assms tun_fed_grown [of v] by (auto simp: u_def tun_mainloop_fed)
  have "written_out u w" by (rule tun_write_loop_written [OF u(1)]) (use u(2) assms in \<open>simp_all add: grown_def\<close>)
  then show "incoming_queue w = []" using u(2) assms(2,3) by (simp add: written_out_def grown_def)
  have "framed u q = framed v q" for q using u(2) by (intro framed_config) (auto simp: grown_def)
  then show "took v (framed v (incoming_queue v)) w"
    using tun_write_loop_took [OF u(1) assms(3)] u(2) by (simp add: took_def grown_def)
qed

end
