(* ===== verification/Cmd_Fd.thy ===== *)
theory Cmd_Fd
  imports Vpn_State
begin

text \<open>
  The command pipe of \<open>core/ssl.c\<close> (\<open>check_cmd_fd\<close>, \<open>is_cancel_pending\<close>, \<open>poll_cmd_fd\<close>), through
  which the application cancels, detaches or pauses the session, and
  \<open>openconnect_close_https\<close> of \<open>core/openssl.c\<close>.
\<close>

section \<open>Commands\<close>

abbreviation (input) OC_CMD_CANCEL :: char where "OC_CMD_CANCEL \<equiv> CHR ''x''"
abbreviation (input) OC_CMD_PAUSE :: char where "OC_CMD_PAUSE \<equiv> CHR ''p''"
abbreviation (input) OC_CMD_DETACH :: char where "OC_CMD_DETACH \<equiv> CHR ''d''"
abbreviation (input) OC_CMD_STATS :: char where "OC_CMD_STATS \<equiv> CHR ''s''"

text \<open>
  One \<open>select\<close> on the pipe: the byte that is ready to be read, if any.
\<close>

definition select_cmd :: "'z vpninfo \<Rightarrow> char option \<times> 'z vpninfo" where
  "select_cmd v = (case e_cmd (env v) of
      [] \<Rightarrow> (None, v)
    | c # cs \<Rightarrow> (c, upd_env (\<lambda>e. e\<lparr>e_cmd := cs\<rparr>) v))"

definition run_cmd :: "char \<Rightarrow> 'z vpninfo \<Rightarrow> 'z vpninfo" where
  "run_cmd cmd v =
     (if cmd = OC_CMD_CANCEL \<or> cmd = OC_CMD_DETACH then v\<lparr>got_cancel_cmd := True, cancel_type := cmd\<rparr>
      else if cmd = OC_CMD_PAUSE then v\<lparr>got_pause_cmd := True\<rparr>
      else if cmd = OC_CMD_STATS then
        (if c_stats_handler (config v) then upd_env (\<lambda>e. e\<lparr>o_stats := o_stats e @ [stats v]\<rparr>) v else v)
      else v)"

definition check_cmd_fd :: "char option \<Rightarrow> 'z vpninfo \<Rightarrow> 'z vpninfo" where
  "check_cmd_fd ready v =
     (case ready of
        None \<Rightarrow> v
      | Some cmd \<Rightarrow>
          (if \<not> c_cmd_fd (config v) then v
           else if \<not> c_cmd_fd_write (config v) then v\<lparr>got_cancel_cmd := True\<rparr>
           else run_cmd cmd v))"

definition is_cancel_pending :: "char option \<Rightarrow> 'z vpninfo \<Rightarrow> bool \<times> 'z vpninfo" where
  "is_cancel_pending ready v = (let v = check_cmd_fd ready v in (got_cancel_cmd v, v))"

text \<open>The loop of \<open>poll_cmd_fd\<close>; \<open>None\<close> when it does not end.\<close>

partial_function (option) poll_loop :: "int \<Rightarrow> int \<Rightarrow> 'z vpninfo \<Rightarrow> 'z vpninfo option" where
  "poll_loop now expiration v =
     (if now < expiration \<and> \<not> got_cancel_cmd v \<and> \<not> got_pause_cmd v
      then
        let (now, v) = time_now v; (ready, v) = select_cmd v in
        poll_loop now expiration (check_cmd_fd ready v)
      else Some v)"

definition poll_cmd_fd :: "int \<Rightarrow> 'z vpninfo \<Rightarrow> 'z vpninfo option" where
  "poll_cmd_fd timeout v = (let (t, v) = time_now v in poll_loop 0 (t + timeout) v)"

section \<open>Closing the SSL connection\<close>

definition openconnect_close_https :: "'z vpninfo \<Rightarrow> 'z vpninfo" where
  "openconnect_close_https v =
     (if ssl_open v
      then v\<lparr>ssl_open := False, mon := (mon v)\<lparr>mon_ssl_rd := False, mon_ssl_wr := False, mon_ssl_ex := False\<rparr>\<rparr>
      else v)"

section \<open>Polling ends\<close>

text \<open>Only the command flags and the world change while the client waits for a command.\<close>

definition cmd_only :: "'z vpninfo \<Rightarrow> 'z vpninfo \<Rightarrow> bool" where
  "cmd_only v w \<longleftrightarrow>
     w = v\<lparr>env := env w, got_cancel_cmd := got_cancel_cmd w, got_pause_cmd := got_pause_cmd w,
           cancel_type := cancel_type w\<rparr> \<and>
     (got_cancel_cmd v \<longrightarrow> got_cancel_cmd w) \<and> (got_pause_cmd v \<longrightarrow> got_pause_cmd w) \<and>
     outs (env w) = outs (env v)"

lemma cmd_only_refl [simp]: "cmd_only v v"
  by (simp add: cmd_only_def)

lemma cmd_only_trans: "cmd_only u v \<Longrightarrow> cmd_only v w \<Longrightarrow> cmd_only u w"
  by (cases u; cases v; cases w) (auto simp: cmd_only_def)

lemma cmd_only_upd_env [simp]: "outs (f (env v)) = outs (env v) \<Longrightarrow> cmd_only v (upd_env f v)"
  by (simp add: cmd_only_def upd_env_def)

lemma cmd_only_check: "cmd_only v (check_cmd_fd c v)"
  by (auto simp: cmd_only_def check_cmd_fd_def run_cmd_def upd_env_def split: option.split)

lemma cmd_only_time: "cmd_only v (snd (time_now v))"
  by (simp add: time_now_def)

lemma cmd_only_select: "cmd_only v (snd (select_cmd v))"
  by (simp add: select_cmd_def split: list.split)

lemmas cmd_only_step = cmd_only_trans [OF cmd_only_time cmd_only_trans [OF cmd_only_select cmd_only_check]]

lemma env_clock_step [simp]:
  "e_clock (env (check_cmd_fd c v)) = e_clock (env v)"
  "e_clock (env (snd (select_cmd v))) = e_clock (env v)"
  "e_clock (env (snd (time_now v))) = e_clock (env v)"
  "e_ticks (env (check_cmd_fd c v)) = e_ticks (env v)"
  "e_ticks (env (snd (select_cmd v))) = e_ticks (env v)"
  "e_ticks (env (snd (time_now v))) = Suc (e_ticks (env v))"
  by (simp_all add: check_cmd_fd_def run_cmd_def select_cmd_def time_now_def upd_env_def split: option.split list.split)

lemma poll_loop_step:
  "poll_loop now expiration v =
     (if now < expiration \<and> \<not> got_cancel_cmd v \<and> \<not> got_pause_cmd v
      then poll_loop (fst (time_now v)) expiration
             (check_cmd_fd (fst (select_cmd (snd (time_now v)))) (snd (select_cmd (snd (time_now v)))))
      else Some v)"
  by (subst poll_loop.simps) (simp add: split_beta)

lemma poll_loop_ends:
  "expiration \<le> e_clock (env v) (e_ticks (env v) + n) \<Longrightarrow>
   \<exists>w. poll_loop now expiration v = Some w \<and> cmd_only v w \<and>
     e_clock (env w) = e_clock (env v) \<and> e_ticks (env v) \<le> e_ticks (env w)"
proof (induction n arbitrary: now v)
  case 0
  let ?u = "check_cmd_fd (fst (select_cmd (snd (time_now v)))) (snd (select_cmd (snd (time_now v))))"
  have "poll_loop (fst (time_now v)) expiration ?u = Some ?u"
    by (subst poll_loop_step) (use 0 in \<open>simp add: time_now_def\<close>)
  moreover have "cmd_only v ?u" by (rule cmd_only_step)
  ultimately show ?case by (subst poll_loop_step) simp
next
  case (Suc n)
  let ?u = "check_cmd_fd (fst (select_cmd (snd (time_now v)))) (snd (select_cmd (snd (time_now v))))"
  obtain w where "poll_loop (fst (time_now v)) expiration ?u = Some w" "cmd_only ?u w"
    "e_clock (env w) = e_clock (env v)" "Suc (e_ticks (env v)) \<le> e_ticks (env w)"
    using Suc.IH [of ?u "fst (time_now v)"] Suc.prems by auto
  moreover have "cmd_only v ?u" by (rule cmd_only_step)
  ultimately show ?case by (subst poll_loop_step) (auto intro: cmd_only_trans)
qed

text \<open>A clock that reaches every time.\<close>

definition clock_runs :: "env \<Rightarrow> bool" where
  "clock_runs e \<longleftrightarrow> (\<forall>t m. \<exists>n. t \<le> e_clock e (m + n))"

lemma poll_cmd_fd_ends:
  assumes "clock_runs (env v)"
  shows "\<exists>w. poll_cmd_fd timeout v = Some w \<and> cmd_only v w \<and> e_clock (env w) = e_clock (env v)"
proof -
  let ?u = "snd (time_now v)"
  obtain n where "fst (time_now v) + timeout \<le> e_clock (env ?u) (e_ticks (env ?u) + n)"
    using assms [unfolded clock_runs_def, rule_format, of "fst (time_now v) + timeout" "Suc (e_ticks (env v))"] by auto
  from poll_loop_ends [OF this, of 0] show ?thesis
    using cmd_only_time [of v] by (auto simp: poll_cmd_fd_def split_beta intro: cmd_only_trans)
qed

end
