(* ===== verification/Cstp_Connect.thy ===== *)
theory Cstp_Connect
  imports Text_Buf Cmd_Fd
begin

text \<open>
  Setting up the CSTP tunnel: \<open>calculate_mtu\<close> and \<open>start_cstp_connection\<close> of
  \<open>core/cstp.c\<close>, and the hex decoder of \<open>core/dtls.c\<close>. The request is built with the text buffers of \<open>Text_Buf\<close>; the answer
  is read line by line with \<open>ssl_gets\<close>.
\<close>

section \<open>The request\<close>

definition nybble :: "char \<Rightarrow> byte" where
  "nybble c =
     (let n = of_char c :: byte in
      if in_range c 48 57 then n - 48
      else if in_range c 65 70 then n - 55
      else if in_range c 97 102 then n - 87
      else 0)"

definition unhex :: "char \<Rightarrow> char \<Rightarrow> byte" where
  "unhex a b = push_bit 4 (nybble a) OR nybble b"

fun unhex_all :: "string \<Rightarrow> bytes" where
  "unhex_all (a # b # cs) = unhex a b # unhex_all cs"
| "unhex_all cs = []"

text \<open>\<open>printf ("%02X")\<close>\<close>

definition hex_digit :: "byte \<Rightarrow> char" where
  "hex_digit n = (if n < 10 then char_of (unat n + 48) else char_of (unat n + 55))"

definition hex2 :: "byte \<Rightarrow> string" where
  "hex2 b = [hex_digit (drop_bit 4 b), hex_digit (b AND 15)]"

definition get_mss :: "'z vpninfo \<Rightarrow> int option \<times> 'z vpninfo" where
  "get_mss v = (case e_mss (env v) of
      [] \<Rightarrow> (None, v)
    | m # ms \<Rightarrow> (m, upd_env (\<lambda>e. e\<lparr>e_mss := ms\<rparr>) v))"

text \<open>As built for Apple systems, which have \<open>TCP_MAXSEG\<close> but not \<open>TCP_INFO\<close>.\<close>

definition calculate_mtu :: "'z vpninfo \<Rightarrow> (int \<times> int) \<times> 'z vpninfo" where
  "calculate_mtu v =
     (let mtu = c_reqmtu (config v); base_mtu = c_basemtu (config v);
          (mtu, v) =
            (if mtu = 0 then
               let (mss, v) = get_mss v in (case mss of None \<Rightarrow> mtu | Some m \<Rightarrow> m - 13, v)
             else (mtu, v));
          mtu = (if mtu = 0 then 1406 else mtu);
          mtu = (if mtu < 1280 then 1280 else mtu) in
      ((base_mtu, mtu), v))"

abbreviation (input) crlf :: string where
  "crlf \<equiv> [CHR 0x0D, CHR 0x0A]"

definition default_cipher_list :: string where
  "default_cipher_list = ''AES256-SHA:AES128-SHA:DES-CBC3-SHA:DES-CBC-SHA''"

text \<open>
  The \<open>buf_append\<close> calls up to the DTLS secret, and after it. \<open>i\<close> is the loop variable that the code
  reuses for the result of \<open>ssl_gets\<close>.
\<close>

definition connect_head :: "'z vpninfo \<Rightarrow> int \<Rightarrow> int \<Rightarrow> int \<Rightarrow> string list" where
  "connect_head v i base_mtu mtu =
     [''CONNECT /CSCOSSLC/tunnel HTTP/1.1'' @ crlf,
      ''Host: '' @ c_hostname (config v) @ crlf,
      ''User-Agent: '' @ c_useragent (config v) @ crlf,
      ''Cookie: webvpn='' @ c_cookie (config v) @ crlf,
      ''X-CSTP-Version: 1'' @ crlf,
      ''X-CSTP-Hostname: '' @ c_localname (config v) @ crlf] @
     (if deflate v \<and> 0 \<le> i \<and> i < 65536
      then [''X-CSTP-Accept-Encoding: deflate;q=1.0'' @ crlf] else []) @
     (if base_mtu \<noteq> 0 then [''X-CSTP-Base-MTU: '' @ dec_int base_mtu @ crlf] else []) @
     [''X-CSTP-MTU: '' @ dec_int mtu @ crlf,
      ''X-CSTP-Address-Type: '' @ (if c_disable_ipv6 (config v) then ''IPv4'' else ''IPv6,IPv4'') @ crlf] @
     (if \<not> c_disable_ipv6 (config v) then [''X-CSTP-Full-IPv6-Capability: true'' @ crlf] else []) @
     [''X-DTLS-Master-Secret: '']"

definition connect_tail :: "'z vpninfo \<Rightarrow> string list" where
  "connect_tail v =
     [crlf @ ''X-DTLS-CipherSuite: '' @
        (case c_dtls_ciphers (config v) of None \<Rightarrow> default_cipher_list | Some c \<Rightarrow> c) @ crlf @ crlf]"

definition connect_parts :: "'z vpninfo \<Rightarrow> int \<Rightarrow> int \<Rightarrow> int \<Rightarrow> string list" where
  "connect_parts v i base_mtu mtu =
     connect_head v i base_mtu mtu @ map hex2 (dtls_secret v) @ connect_tail v"

text \<open>
  Building and sending the request: \<open>None\<close> when a \<open>buf_append\<close> does not return, and otherwise an error
  or nothing.
\<close>

definition send_connect :: "int \<Rightarrow> 'z vpninfo \<Rightarrow> (int option \<times> 'z vpninfo) option" where
  "send_connect i v =
     (let ((base_mtu, mtu), v) = calculate_mtu v; (ok, v) = ask v;
          mem = e_mem (env v);
          parts = (if \<forall>b\<in>set (dtls_secret v). b = 0
                   then connect_head v i base_mtu mtu @ map hex2 (dtls_secret v)
                   else connect_parts v i base_mtu mtu) in
      case foldl (buf_put mem) (Some (buf_alloc ok)) parts of
        None \<Rightarrow> None
      | Some reqbuf \<Rightarrow>
          (if \<forall>b\<in>set (dtls_secret v). b = 0 then Some (Some (err EINVAL), v)
           else case buf_error reqbuf of
             Some e \<Rightarrow> Some (Some (err e), v)
           | None \<Rightarrow> Some (None, log_http (buf_written reqbuf) v)))"

section \<open>The response\<close>

definition ssl_gets :: "'z vpninfo \<Rightarrow> gets \<times> 'z vpninfo" where
  "ssl_gets v = (case e_gets (env v) of
      [] \<Rightarrow> (Gets_Err EIO, v)
    | g # gs \<Rightarrow> (g, upd_env (\<lambda>e. e\<lparr>e_gets := gs\<rparr>) v))"

text \<open>The header name, and the value after the colon and at most one space.\<close>

definition split_header :: "string \<Rightarrow> (string \<times> string) option" where
  "split_header line =
     (case dropWhile (\<lambda>c. c \<noteq> CHR '':'') line of
        [] \<Rightarrow> None
      | _ # rest \<Rightarrow> Some (takeWhile (\<lambda>c. c \<noteq> CHR '':'') line,
                        (case rest of [] \<Rightarrow> [] | c # cs \<Rightarrow> if c = CHR '' '' then cs else rest)))"

fun put_first :: "'a option list \<Rightarrow> 'a \<Rightarrow> 'a option list" where
  "put_first [] a = []"
| "put_first (None # xs) a = Some a # xs"
| "put_first (Some b # xs) a = Some b # put_first xs a"

definition upd_ip :: "(oc_ip_info \<Rightarrow> oc_ip_info) \<Rightarrow> 'z vpninfo \<Rightarrow> 'z vpninfo" where
  "upd_ip f v = v\<lparr>ip_info := f (ip_info v)\<rparr>"

definition upd_ssl :: "(keepalive_info \<Rightarrow> keepalive_info) \<Rightarrow> 'z vpninfo \<Rightarrow> 'z vpninfo" where
  "upd_ssl f v = v\<lparr>ssl_times := f (ssl_times v)\<rparr>"

definition lower_dpd :: "int \<Rightarrow> keepalive_info \<Rightarrow> keepalive_info" where
  "lower_dpd j ka = (if j \<noteq> 0 \<and> (ka_dpd ka = 0 \<or> j < ka_dpd ka) then ka\<lparr>ka_dpd := j\<rparr> else ka)"

definition rekey_method_of :: "string \<Rightarrow> rekey_method" where
  "rekey_method_of s =
     (if s = ''new-tunnel'' then REKEY_TUNNEL else if s = ''ssl'' then REKEY_SSL else REKEY_NONE)"

text \<open>
  One \<open>X-DTLS-\<close> header (name without the prefix): an error, or the MTU so far and whether a session
  id was found.
\<close>

definition dtls_header ::
  "string \<Rightarrow> string \<Rightarrow> int \<Rightarrow> bool \<Rightarrow> 'z vpninfo \<Rightarrow> (int + int \<times> bool) \<times> 'z vpninfo" where
  "dtls_header name value mtu sessid v =
     (if name = ''MTU'' then (Inr (if atoi value > mtu then atoi value else mtu, sessid), v)
      else if name = ''Session-ID'' then
        (if length value \<noteq> 64 then (Inl (err EINVAL), v\<lparr>dtls_attempt_period := 0\<rparr>)
         else (Inr (mtu, True), v\<lparr>dtls_session_id := unhex_all value\<rparr>))
      else (Inr (mtu, sessid), v))"

text \<open>An \<open>X-CSTP-\<close> header that adds an element to one of the split lists, if \<open>malloc\<close> allows.\<close>

definition add_split ::
  "(string list \<Rightarrow> oc_ip_info \<Rightarrow> oc_ip_info) \<Rightarrow> (oc_ip_info \<Rightarrow> string list) \<Rightarrow> string \<Rightarrow> 'z vpninfo \<Rightarrow> 'z vpninfo" where
  "add_split put get value v =
     (let (ok, v) = ask v in if ok then upd_ip (\<lambda>i. put (value # get i) i) v else v)"

definition cstp_ip_header :: "string \<Rightarrow> string \<Rightarrow> 'z vpninfo \<Rightarrow> 'z vpninfo" where
  "cstp_ip_header name value v =
     (if name = ''Address-IP6'' then upd_ip (\<lambda>i. i\<lparr>ip_netmask6 := Some value\<rparr>) v
      else if name = ''Address'' then
        (if CHR '':'' \<in> set value then
           (if \<not> c_disable_ipv6 (config v) then upd_ip (\<lambda>i. i\<lparr>ip_addr6 := Some value\<rparr>) v else v)
         else upd_ip (\<lambda>i. i\<lparr>ip_addr := Some value\<rparr>) v)
      else if name = ''Netmask'' then
        (if CHR '':'' \<in> set value then
           (if \<not> c_disable_ipv6 (config v) then upd_ip (\<lambda>i. i\<lparr>ip_netmask6 := Some value\<rparr>) v else v)
         else upd_ip (\<lambda>i. i\<lparr>ip_netmask := Some value\<rparr>) v)
      else if name = ''DNS'' then upd_ip (\<lambda>i. i\<lparr>ip_dns := put_first (ip_dns i) value\<rparr>) v
      else if name = ''NBNS'' then upd_ip (\<lambda>i. i\<lparr>ip_nbns := put_first (ip_nbns i) value\<rparr>) v
      else if name = ''Default-Domain'' then upd_ip (\<lambda>i. i\<lparr>ip_domain := Some value\<rparr>) v
      else if name = ''MSIE-Proxy-PAC-URL'' then upd_ip (\<lambda>i. i\<lparr>ip_proxy_pac := Some value\<rparr>) v
      else if name = ''Banner'' then v\<lparr>banner := Some value\<rparr>
      else if name = ''Split-DNS'' then add_split (\<lambda>l i. i\<lparr>ip_split_dns := l\<rparr>) ip_split_dns value v
      else if name = ''Split-Include'' \<or> name = ''Split-Include-IP6''
      then add_split (\<lambda>l i. i\<lparr>ip_split_includes := l\<rparr>) ip_split_includes value v
      else if name = ''Split-Exclude'' \<or> name = ''Split-Exclude-IP6''
      then add_split (\<lambda>l i. i\<lparr>ip_split_excludes := l\<rparr>) ip_split_excludes value v
      else v)"

definition cstp_header ::
  "string \<Rightarrow> string \<Rightarrow> int \<Rightarrow> bool \<Rightarrow> 'z vpninfo \<Rightarrow> (int + int \<times> bool) \<times> 'z vpninfo" where
  "cstp_header name value mtu sessid v =
     (if name = ''Keepalive'' then (Inr (mtu, sessid), upd_ssl (\<lambda>k. k\<lparr>ka_keepalive := atoi value\<rparr>) v)
      else if name = ''DPD'' then (Inr (mtu, sessid), upd_ssl (lower_dpd (atoi value)) v)
      else if name = ''Rekey-Time'' then (Inr (mtu, sessid), upd_ssl (\<lambda>k. k\<lparr>ka_rekey := atoi value\<rparr>) v)
      else if name = ''Rekey-Method''
      then (Inr (mtu, sessid), upd_ssl (\<lambda>k. k\<lparr>ka_rekey_method := rekey_method_of value\<rparr>) v)
      else if name = ''Content-Encoding'' then
        (if value = ''deflate'' then (Inr (mtu, sessid), v\<lparr>deflate := True\<rparr>) else (Inl (err EINVAL), v))
      else if name = ''MTU'' then (Inr (if atoi value > mtu then atoi value else mtu, sessid), v)
      else (Inr (mtu, sessid), cstp_ip_header name value v))"

text \<open>The option that is allocated for the header: three allocations.\<close>

definition new_option :: "'z vpninfo \<Rightarrow> bool \<times> 'z vpninfo" where
  "new_option v =
     (let (ok, v) = ask v in
      if \<not> ok then (False, v)
      else let (ok1, v) = ask v; (ok2, v) = ask v in (ok1 \<and> ok2, v))"

definition header_line ::
  "string \<Rightarrow> int \<Rightarrow> bool \<Rightarrow> 'z vpninfo \<Rightarrow> (int + int \<times> bool) \<times> 'z vpninfo" where
  "header_line line mtu sessid v =
     (case split_header line of
        None \<Rightarrow> (Inr (mtu, sessid), v)
      | Some (name, value) \<Rightarrow>
          (if take 7 name \<noteq> ''X-DTLS-'' \<and> take 7 name \<noteq> ''X-CSTP-'' then (Inr (mtu, sessid), v)
           else
             let (ok, v) = new_option v in
             if \<not> ok then (Inl (err ENOMEM), v)
             else if take 7 name = ''X-DTLS-''
             then dtls_header (drop 7 name) value mtu sessid
                    (v\<lparr>dtls_options := dtls_options v @ [(name, value)]\<rparr>)
             else cstp_header (drop 7 name) value mtu sessid
                    (v\<lparr>cstp_options := cstp_options v @ [(name, value)]\<rparr>)))"

fun header_loop :: "gets list \<Rightarrow> int \<Rightarrow> bool \<Rightarrow> 'z vpninfo \<Rightarrow> (int + int \<times> bool) \<times> 'z vpninfo" where
  "header_loop [] mtu sessid v = (Inl (err EIO), v)"
| "header_loop (g # gs) mtu sessid v =
     (let v = upd_env (\<lambda>e. e\<lparr>e_gets := gs\<rparr>) v in
      case g of
        Gets_Err e \<Rightarrow> (Inl (err e), v)
      | Line [] \<Rightarrow> (Inr (mtu, sessid), v)
      | Line line \<Rightarrow>
          (case header_line line mtu sessid v of
             (Inl e, v) \<Rightarrow> (Inl e, v)
           | (Inr (mtu, sessid), v) \<Rightarrow> header_loop gs mtu sessid v))"

text \<open>
  The search for \<open>X-Reason\<close> after a 503: it goes on after an error, so it only ends at an empty line
  or a reason; \<open>None\<close> when it does not end.
\<close>

fun reason_loop :: "gets list \<Rightarrow> 'z vpninfo \<Rightarrow> 'z vpninfo option" where
  "reason_loop [] v = None"
| "reason_loop (g # gs) v =
     (let v = upd_env (\<lambda>e. e\<lparr>e_gets := gs\<rparr>) v in
      case g of
        Gets_Err e \<Rightarrow> reason_loop gs v
      | Line l \<Rightarrow> (if l = [] \<or> take 10 l = ''X-Reason: '' then Some v else reason_loop gs v))"

section \<open>The connection\<close>

definition clear_old :: "'z vpninfo \<Rightarrow> 'z vpninfo" where
  "clear_old v =
     v\<lparr>ip_info := (ip_info v)\<lparr>ip_addr := None, ip_netmask := None, ip_addr6 := None, ip_netmask6 := None,
          ip_domain := None, ip_proxy_pac := None, ip_dns := [None, None, None], ip_nbns := [None, None, None],
          ip_split_dns := [], ip_split_includes := [], ip_split_excludes := []\<rparr>,
       cstp_options := [], dtls_options := [], banner := None\<rparr>"

text \<open>
  \<open>old && strcmp (old, new)\<close>: \<open>None\<close> when \<open>new\<close> is a null pointer.
\<close>

definition changed :: "string option \<Rightarrow> string option \<Rightarrow> bool option" where
  "changed old new = (case old of None \<Rightarrow> Some False
     | Some a \<Rightarrow> (case new of None \<Rightarrow> None | Some b \<Rightarrow> Some (a \<noteq> b)))"

fun any_changed :: "(string option \<times> string option) list \<Rightarrow> bool option" where
  "any_changed [] = Some False"
| "any_changed ((old, new) # rest) =
     (case changed old new of None \<Rightarrow> None | Some True \<Rightarrow> Some True | Some False \<Rightarrow> any_changed rest)"

definition same_addresses :: "oc_ip_info \<Rightarrow> oc_ip_info \<Rightarrow> bool option" where
  "same_addresses old new =
     map_option Not (any_changed [(ip_addr old, ip_addr new), (ip_netmask old, ip_netmask new),
       (ip_addr6 old, ip_addr6 new), (ip_netmask6 old, ip_netmask6 new)])"

text \<open>What follows the last header. \<open>old\<close> is \<open>ip_info\<close> as it was before.\<close>

definition finish_connection ::
  "oc_ip_info \<Rightarrow> int \<Rightarrow> bool \<Rightarrow> 'z vpninfo \<Rightarrow> (int \<times> 'z vpninfo) option" where
  "finish_connection old mtu sessid v =
     (if mtu = 0 then Some (err EINVAL, v)
      else
        let v = upd_ip (\<lambda>i. i\<lparr>ip_mtu := mtu\<rparr>) v in
        if ip_addr (ip_info v) = None \<and> ip_addr6 (ip_info v) = None then Some (err EINVAL, v)
        else case same_addresses old (ip_info v) of
          None \<Rightarrow> None
        | Some False \<Rightarrow> Some (err EINVAL, v)
        | Some True \<Rightarrow>
            (let v = v\<lparr>mon := (mon v)\<lparr>mon_ssl_rd := True, mon_ssl_ex := True\<rparr>\<rparr>;
                 v = (if sessid then v else v\<lparr>dtls_attempt_period := 0\<rparr>);
                 v = upd_ssl (\<lambda>k. if ka_rekey k \<le> 0 then k\<lparr>ka_rekey_method := REKEY_NONE\<rparr> else k) v;
                 (t, v) = time_now v in
             Some (0, upd_ssl (\<lambda>k. k\<lparr>ka_last_tx := t, ka_last_rx := t, ka_last_rekey := t\<rparr>) v)))"

text \<open>From the status line on.\<close>

definition read_response :: "oc_ip_info \<Rightarrow> string \<Rightarrow> 'z vpninfo \<Rightarrow> (int \<times> 'z vpninfo) option" where
  "read_response old status v =
     (if take 13 status \<noteq> ''HTTP/1.1 200 '' then
        (if take 13 status = ''HTTP/1.1 503 ''
         then map_option (Pair (err EINVAL)) (reason_loop (e_gets (env v)) v)
         else if take 13 status = ''HTTP/1.1 401 '' then Some (err EPERM, v)
         else Some (err EINVAL, v))
      else
        case header_loop (e_gets (env v)) 0 False (v\<lparr>deflate := False\<rparr>) of
          (Inl e, v) \<Rightarrow> Some (e, v)
        | (Inr (mtu, sessid), v) \<Rightarrow> finish_connection old mtu sessid v)"

text \<open>
  \<open>openconnect_open_https\<close>: nothing when the connection is open; otherwise its result, which is
  an answer of the world (sockets, the TLS handshake and the check of the peer's certificate).
\<close>

definition openconnect_open_https :: "'z vpninfo \<Rightarrow> int \<times> 'z vpninfo" where
  "openconnect_open_https v =
     (if ssl_open v then (0, v)
      else case e_open (env v) of
        [] \<Rightarrow> (err EINVAL, v)
      | r # rs \<Rightarrow>
          (let v = upd_env (\<lambda>e. e\<lparr>e_open := rs\<rparr>) v in
           (r, if r = 0 then v\<lparr>ssl_open := True\<rparr> else v)))"

text \<open>The request and the status line; \<open>i\<close> as in \<open>connect_head\<close>, and a retry at most once.\<close>

definition request_once :: "int \<Rightarrow> 'z vpninfo \<Rightarrow> ((int + gets) \<times> 'z vpninfo) option" where
  "request_once i v =
     (case send_connect i v of
        None \<Rightarrow> None
      | Some (Some e, v) \<Rightarrow> Some (Inl e, v)
      | Some (None, v) \<Rightarrow> Some (let (g, v) = ssl_gets v in (Inr g, v)))"

definition start_cstp_connection :: "'z vpninfo \<Rightarrow> (int \<times> 'z vpninfo) option" where
  "start_cstp_connection v =
     (let old = ip_info v in
      case request_once 3 (clear_old v) of
        None \<Rightarrow> None
      | Some (Inl e, v) \<Rightarrow> Some (e, v)
      | Some (Inr (Line status), v) \<Rightarrow> read_response old status v
      | Some (Inr (Gets_Err e), v) \<Rightarrow>
          (if e = EINTR then Some (err e, v)
           else
             let (r, v) = openconnect_open_https (openconnect_close_https v) in
             if r \<noteq> 0 then Some (err EIO, v)
             else case request_once (err e) v of
               None \<Rightarrow> None
             | Some (Inl e, v) \<Rightarrow> Some (e, v)
             | Some (Inr (Line status), v) \<Rightarrow> read_response old status v
             | Some (Inr (Gets_Err e), v) \<Rightarrow> Some (if e = EINTR then err e else err EINVAL, v)))"

section \<open>What connecting leaves alone\<close>

definition connect_frame :: "'z vpninfo \<Rightarrow> 'z vpninfo \<Rightarrow> bool" where
  "connect_frame v w \<longleftrightarrow>
     w = v\<lparr>env := env w, ip_info := ip_info w, ssl_times := ssl_times w, mon := mon w, ssl_open := ssl_open w,
           deflate := deflate w, dtls_attempt_period := dtls_attempt_period w,
           dtls_session_id := dtls_session_id w, dtls_options := dtls_options w,
           cstp_options := cstp_options w, banner := banner w\<rparr> \<and>
     mon_tun_rd (mon w) = mon_tun_rd (mon v) \<and> outs (env w) = outs (env v)"

lemma connect_frame_refl [simp]: "connect_frame v v"
  by (simp add: connect_frame_def)

lemma connect_frame_trans: "connect_frame u v \<Longrightarrow> connect_frame v w \<Longrightarrow> connect_frame u w"
  by (cases u; cases v; cases w) (simp add: connect_frame_def)

named_theorems frame_step

lemma connect_frame_upd [frame_step]:
  assumes "connect_frame u v"
  shows "(\<And>e. outs (f e) = outs e) \<Longrightarrow> connect_frame u (upd_env f v)"
    and "connect_frame u (upd_ip g v)"
    and "connect_frame u (upd_ssl h v)"
    and "connect_frame u (v\<lparr>banner := b\<rparr>)"
    and "connect_frame u (v\<lparr>deflate := d\<rparr>)"
    and "connect_frame u (v\<lparr>dtls_options := os\<rparr>)"
    and "connect_frame u (v\<lparr>cstp_options := os\<rparr>)"
    and "connect_frame u (v\<lparr>dtls_attempt_period := n\<rparr>)"
    and "connect_frame u (v\<lparr>dtls_session_id := i\<rparr>)"
    and "connect_frame u (v\<lparr>ssl_open := z\<rparr>)"
    and "mon_tun_rd m = mon_tun_rd (mon v) \<Longrightarrow> connect_frame u (v\<lparr>mon := m\<rparr>)"
    and "connect_frame u (openconnect_close_https v)"
    and "connect_frame u (clear_old v)"
    and "connect_frame u (snd (ask v))"
    and "connect_frame u (snd (time_now v))"
  by (rule connect_frame_trans [OF assms],
      simp add: connect_frame_def upd_env_def upd_ip_def upd_ssl_def openconnect_close_https_def
        clear_old_def ask_def time_now_def split: list.split)+

lemma connect_frame_add_split [frame_step]:
  "connect_frame u v \<Longrightarrow> connect_frame u (add_split put get x v)"
  by (simp add: add_split_def split_beta Let_def frame_step)

lemma connect_frame_cstp_ip_header [frame_step]:
  "connect_frame u v \<Longrightarrow> connect_frame u (cstp_ip_header name value v)"
  by (simp add: cstp_ip_header_def frame_step)

lemma connect_frame_cstp_header [frame_step]:
  "connect_frame u v \<Longrightarrow> connect_frame u (snd (cstp_header name value mtu sessid v))"
  by (simp add: cstp_header_def frame_step)

lemma connect_frame_dtls_header [frame_step]:
  "connect_frame u v \<Longrightarrow> connect_frame u (snd (dtls_header name value mtu sessid v))"
  by (simp add: dtls_header_def frame_step)

lemma connect_frame_new_option [frame_step]:
  "connect_frame u v \<Longrightarrow> connect_frame u (snd (new_option v))"
  by (simp add: new_option_def split_beta Let_def frame_step)

lemma connect_frame_header_line [frame_step]:
  "connect_frame u v \<Longrightarrow> connect_frame u (snd (header_line line mtu sessid v))"
  by (simp add: header_line_def split_beta Let_def frame_step split: option.split)

text \<open>The equations of the header loop.\<close>

lemma header_loop_simps:
  "header_loop (Gets_Err e # gs) mtu sessid v = (Inl (err e), upd_env (\<lambda>x. x\<lparr>e_gets := gs\<rparr>) v)"
  "header_loop (Line [] # gs) mtu sessid v = (Inr (mtu, sessid), upd_env (\<lambda>x. x\<lparr>e_gets := gs\<rparr>) v)"
  "line \<noteq> [] \<Longrightarrow> header_line line mtu sessid (upd_env (\<lambda>x. x\<lparr>e_gets := gs\<rparr>) v) = (Inl n, w) \<Longrightarrow>
   header_loop (Line line # gs) mtu sessid v = (Inl n, w)"
  "line \<noteq> [] \<Longrightarrow> header_line line mtu sessid (upd_env (\<lambda>x. x\<lparr>e_gets := gs\<rparr>) v) = (Inr (m, s), w) \<Longrightarrow>
   header_loop (Line line # gs) mtu sessid v = header_loop gs m s w"
  by (auto simp: neq_Nil_conv Let_def)

declare header_loop.simps(2) [simp del]

lemma header_loop_cases:
  obtains (broken) e gs' where "gs = Gets_Err e # gs'" | (eof) "gs = []" | (stop) gs' where "gs = Line [] # gs'"
  | (fail) line gs' n w where "gs = Line line # gs'" "line \<noteq> []"
      "header_line line mtu sessid (upd_env (\<lambda>x. x\<lparr>e_gets := gs'\<rparr>) v) = (Inl n, w)"
  | (more) line gs' m s w where "gs = Line line # gs'" "line \<noteq> []"
      "header_line line mtu sessid (upd_env (\<lambda>x. x\<lparr>e_gets := gs'\<rparr>) v) = (Inr (m, s), w)"
proof (cases gs)
  case (Cons g gs')
  show thesis
  proof (cases g)
    case (Line line)
    show thesis
      using that(3) [of gs'] that(4,5) [of line gs'] Cons Line
      by (cases "line = []"; cases "header_line line mtu sessid (upd_env (\<lambda>x. x\<lparr>e_gets := gs'\<rparr>) v)";
          cases "fst (header_line line mtu sessid (upd_env (\<lambda>x. x\<lparr>e_gets := gs'\<rparr>) v))") auto
  qed (use that(1) Cons in auto)
qed (use that(2) in auto)

lemma connect_frame_header_loop [frame_step]:
  "connect_frame u v \<Longrightarrow> connect_frame u (snd (header_loop gs mtu sessid v))"
proof (induction gs arbitrary: mtu sessid v)
  case (Cons g gs)
  have v': "connect_frame u (upd_env (\<lambda>x. x\<lparr>e_gets := gs\<rparr>) v)"
    using Cons.prems by (simp add: frame_step)
  show ?case
  proof (cases rule: header_loop_cases [where gs = "g # gs" and mtu = mtu and sessid = sessid and v = v])
    case (fail line gs' n w)
    with connect_frame_header_line [OF v', of line mtu sessid] show ?thesis by (simp add: header_loop_simps)
  next
    case (more line gs' m s w)
    with connect_frame_header_line [OF v', of line mtu sessid] Cons.IH [of w] show ?thesis
      by (simp add: header_loop_simps)
  qed (use v' in \<open>simp_all add: header_loop_simps\<close>)
qed simp

lemma connect_frame_reason_loop: "reason_loop gs v = Some w \<Longrightarrow> connect_frame u v \<Longrightarrow> connect_frame u w"
  by (induction gs v rule: reason_loop.induct) (auto simp: Let_def frame_step split: gets.splits if_splits)

lemma connect_frame_open_https [frame_step]:
  "connect_frame u v \<Longrightarrow> connect_frame u (snd (openconnect_open_https v))"
  by (simp add: openconnect_open_https_def Let_def frame_step split: list.split)

lemma connect_frame_ssl_gets [frame_step]:
  "connect_frame u v \<Longrightarrow> connect_frame u (snd (ssl_gets v))"
  by (simp add: ssl_gets_def frame_step split: list.split)

lemma connect_frame_calculate_mtu [frame_step]:
  "connect_frame u v \<Longrightarrow> connect_frame u (snd (calculate_mtu v))"
  by (simp add: calculate_mtu_def get_mss_def split_beta Let_def frame_step split: list.split)

lemma connect_frame_send_connect:
  "send_connect i v = Some (r, w) \<Longrightarrow> connect_frame u v \<Longrightarrow> connect_frame u w"
  by (auto simp: send_connect_def split_beta Let_def frame_step log_http_def split: option.splits if_splits)

lemma connect_frame_request_once:
  "request_once i v = Some (r, w) \<Longrightarrow> connect_frame u v \<Longrightarrow> connect_frame u w"
  by (auto simp: request_once_def split_beta Let_def frame_step split: option.splits dest: connect_frame_send_connect)

lemma connect_frame_finish:
  "finish_connection old mtu sessid v = Some (r, w) \<Longrightarrow> connect_frame u v \<Longrightarrow> connect_frame u w"
  by (auto simp: finish_connection_def split_beta Let_def frame_step split: option.splits if_splits bool.splits)

lemma connect_frame_read_response:
  assumes "read_response old status v = Some (r, w)" "connect_frame u v"
  shows "connect_frame u w"
proof (cases "take 13 status = ''HTTP/1.1 200 ''")
  case True
  have f: "connect_frame u (snd (header_loop (e_gets (env v)) 0 False (v\<lparr>deflate := False\<rparr>)))"
    using assms(2) by (simp add: frame_step)
  show ?thesis
  proof (cases "header_loop (e_gets (env v)) 0 False (v\<lparr>deflate := False\<rparr>)")
    case (Pair x z)
    with True assms(1) f show ?thesis
      by (cases x) (auto simp: read_response_def split_beta dest: connect_frame_finish)
  qed
next
  case False
  with assms show ?thesis
    by (auto simp: read_response_def dest: connect_frame_reason_loop split: if_splits)
qed

text \<open>Up to the status line only the world changes.\<close>

lemma same_state_step:
  assumes "same_state u v"
  shows "(\<And>e. outs (f e) = outs e) \<Longrightarrow> same_state u (upd_env f v)" "same_state u (snd (ask v))" "same_state u (snd (time_now v))"
    "same_state u (snd (get_mss v))" "same_state u (log_http s v)" "same_state u (snd (ssl_gets v))"
  by (rule same_state_trans [OF assms],
      simp add: same_state_ask same_state_time log_http_def get_mss_def ssl_gets_def split: list.split)+

lemma same_state_calculate_mtu: "same_state u v \<Longrightarrow> same_state u (snd (calculate_mtu v))"
  by (simp add: calculate_mtu_def split_beta Let_def same_state_step)

lemma same_state_send_connect: "send_connect i v = Some (r, w) \<Longrightarrow> same_state v w"
  by (auto simp: send_connect_def split_beta Let_def same_state_step same_state_calculate_mtu
      split: option.splits if_splits)

lemma send_connect_error: "send_connect i v = Some (Some e, w) \<Longrightarrow> e < 0"
  by (auto simp: send_connect_def split_beta Let_def split: option.splits if_splits)

lemma request_once_Inl: "request_once i v = Some (Inl e, w) \<Longrightarrow> e < 0 \<and> same_state v w"
  by (auto simp: request_once_def split_beta split: option.splits
      dest: send_connect_error same_state_send_connect)

lemma request_once_Inr: "request_once i v = Some (Inr g, w) \<Longrightarrow> same_state v w"
  by (auto simp: request_once_def split_beta split: option.splits
      dest!: same_state_send_connect intro: same_state_step)

text \<open>The paths through \<open>start_cstp_connection\<close> to a status line, and those that end before one.\<close>

definition reopen :: "'z vpninfo \<Rightarrow> int \<times> 'z vpninfo" where
  "reopen v = openconnect_open_https (openconnect_close_https v)"

lemma reopen_state:
  "ip_info (snd (reopen v)) = ip_info v" "deflate (snd (reopen v)) = deflate v"
  "fst (reopen v) = 0 \<Longrightarrow> ssl_open (snd (reopen v))"
  by (cases "ssl_open v"; cases "e_open (env v)";
      simp add: reopen_def openconnect_open_https_def openconnect_close_https_def upd_env_def Let_def split: if_splits)+

lemma same_state_simps:
  assumes "same_state v w"
  shows "ip_info w = ip_info v" "deflate w = deflate v" "ssl_open w = ssl_open v"
    "connect_frame v w" "config w = config v" "mon w = mon v" "dtls_secret w = dtls_secret v"
  using assms by (cases v; cases w; simp add: same_state_def connect_frame_def)+

text \<open>What a failed attempt leaves when it did not get as far as the headers.\<close>

definition attempt_failed :: "'z vpninfo \<Rightarrow> int \<Rightarrow> 'z vpninfo \<Rightarrow> bool" where
  "attempt_failed v r w \<longleftrightarrow>
     r < 0 \<and> ip_info w = ip_info (clear_old v) \<and> deflate w = deflate v \<and> connect_frame v w"

lemma start_cases:
  assumes "start_cstp_connection v = Some (r, w)"
  obtains (refused) "attempt_failed v r w"
  | (response) status u where "ip_info u = ip_info (clear_old v)" "deflate u = deflate v"
      "ssl_open v \<longrightarrow> ssl_open u" "connect_frame v u" "read_response (ip_info v) status u = Some (r, w)"
proof -
  have deflate_clear: "deflate (clear_old v) = deflate v" "ssl_open (clear_old v) = ssl_open v"
    by (simp_all add: clear_old_def)
  have cf: "connect_frame v (clear_old v)" by (simp add: frame_step)
  obtain x u1 where one: "request_once 3 (clear_old v) = Some (x, u1)"
    using assms by (cases "request_once 3 (clear_old v)") (auto simp: start_cstp_connection_def)
  show thesis
  proof (cases x)
    case (Inl e)
    with one assms request_once_Inl [of 3 "clear_old v" e u1] show thesis
      by (intro refused) (auto simp: start_cstp_connection_def attempt_failed_def deflate_clear
          dest: same_state_simps intro: connect_frame_trans [OF cf])
  next
    case (Inr g)
    note s1 = same_state_simps [OF request_once_Inr [OF one [unfolded Inr]]]
    have c1: "connect_frame v u1" by (rule connect_frame_trans [OF cf s1(4)])
    then have c2: "connect_frame v (snd (reopen u1))" by (simp add: reopen_def frame_step)
    show thesis
    proof (cases g)
      case (Line status)
      with one assms Inr s1 cf show thesis
        by (intro response [of u1 status])
           (auto simp: start_cstp_connection_def deflate_clear intro: connect_frame_trans)
    next
      case (Gets_Err e)
      let ?u2 = "snd (reopen u1)"
      show thesis
      proof (cases "e = EINTR \<or> fst (reopen u1) \<noteq> 0")
        case True
        with one assms Inr Gets_Err s1 c1 c2 show thesis
          by (intro refused) (auto simp: start_cstp_connection_def attempt_failed_def deflate_clear
              reopen_state [of u1] reopen_def [symmetric] split_beta split: if_splits)
      next
        case False
        obtain y u3 where two: "request_once (err e) ?u2 = Some (y, u3)"
          using False one assms Inr Gets_Err
          by (cases "request_once (err e) ?u2")
             (auto simp: start_cstp_connection_def reopen_def [symmetric] split_beta)
        show thesis
        proof (cases y)
          case (Inl e')
          with False one two assms Inr Gets_Err s1 request_once_Inl [of "err e" ?u2 e' u3] show thesis
            by (intro refused) (auto simp: start_cstp_connection_def attempt_failed_def deflate_clear
              reopen_state [of u1] reopen_def [symmetric] split_beta
              dest: same_state_simps intro: connect_frame_trans [OF c2])
        next
          case (Inr g')
          note s3 = same_state_simps [OF request_once_Inr [OF two [unfolded Inr]]]
          have run: "start_cstp_connection v =
              (case g' of Line s \<Rightarrow> read_response (ip_info v) s u3
               | Gets_Err e \<Rightarrow> Some (if e = EINTR then err e else err EINVAL, u3))"
            using False one two \<open>x = Inr g\<close> Gets_Err Inr
            by (simp add: start_cstp_connection_def reopen_def [symmetric] split_beta split: gets.split)
          show thesis
          proof (cases g')
            case (Line s)
            with run assms s1 s3 False c2 show thesis
              by (intro response [of u3 s]) (auto simp: reopen_state deflate_clear intro: connect_frame_trans)
          next
            case (Gets_Err e')
            with run assms s1 s3 show thesis
              by (intro refused)
                 (auto simp: attempt_failed_def reopen_state deflate_clear intro: connect_frame_trans [OF c2])
          qed
        qed
      qed
    qed
  qed
qed

section \<open>What a connection guarantees\<close>

lemma header_line_mtu:
  "header_line line mtu sessid v = (Inr (m, s), w) \<Longrightarrow> mtu \<le> m"
  by (auto simp: header_line_def dtls_header_def cstp_header_def split_beta Let_def
      split: option.splits if_splits)

lemma header_loop_mtu: "header_loop gs mtu sessid v = (Inr (m, s), w) \<Longrightarrow> mtu \<le> m"
proof (induction gs arbitrary: mtu sessid v)
  case (Cons g gs)
  show ?case
  proof (cases rule: header_loop_cases [where gs = "g # gs" and mtu = mtu and sessid = sessid and v = v])
    case (more line gs' m' s' w')
    with Cons header_line_mtu [OF more(3)] show ?thesis by (force simp: header_loop_simps)
  qed (use Cons.prems in \<open>auto simp: header_loop_simps\<close>)
qed simp

lemma header_line_ssl_open: "ssl_open (snd (header_line line mtu sessid v)) = ssl_open v"
proof -
  have a: "ssl_open (snd (ask v)) = ssl_open v" for v :: "'a vpninfo"
    by (simp add: ask_def upd_env_def split: list.split)
  have "ssl_open (cstp_ip_header n x v) = ssl_open v" for n x and v :: "'a vpninfo"
    by (simp add: cstp_ip_header_def upd_ip_def add_split_def split_beta a)
  then show ?thesis
    by (simp add: header_line_def cstp_header_def dtls_header_def new_option_def upd_ssl_def a
        split_beta Let_def split: option.split)
qed

lemma header_loop_ssl_open: "ssl_open (snd (header_loop gs mtu sessid v)) = ssl_open v"
proof (induction gs arbitrary: mtu sessid v)
  case (Cons g gs)
  show ?case
  proof (cases rule: header_loop_cases [where gs = "g # gs" and mtu = mtu and sessid = sessid and v = v])
    case (fail line gs' n w')
    with header_line_ssl_open [of line mtu sessid "upd_env (\<lambda>x. x\<lparr>e_gets := gs'\<rparr>) v"] show ?thesis
      by (simp add: header_loop_simps upd_env_def)
  next
    case (more line gs' m' s' w')
    with Cons.IH [of m' s' w'] header_line_ssl_open [of line mtu sessid "upd_env (\<lambda>x. x\<lparr>e_gets := gs'\<rparr>) v"]
    show ?thesis by (simp add: header_loop_simps upd_env_def)
  qed (simp_all add: header_loop_simps upd_env_def)
qed simp

definition keeps :: "string option \<Rightarrow> string option \<Rightarrow> bool" where
  "keeps old new \<longleftrightarrow> (case old of None \<Rightarrow> True | Some a \<Rightarrow> new = Some a)"

lemma same_addresses_iff:
  "same_addresses old new = Some True \<longleftrightarrow>
     keeps (ip_addr old) (ip_addr new) \<and> keeps (ip_netmask old) (ip_netmask new) \<and>
     keeps (ip_addr6 old) (ip_addr6 new) \<and> keeps (ip_netmask6 old) (ip_netmask6 new)"
  by (auto simp: same_addresses_def changed_def keeps_def split: option.splits bool.splits)

text \<open>A tunnel that is up.\<close>

definition tunnel_up :: "oc_ip_info \<Rightarrow> 'z vpninfo \<Rightarrow> bool" where
  "tunnel_up old w \<longleftrightarrow>
     0 < ip_mtu (ip_info w) \<and> (ip_addr (ip_info w) \<noteq> None \<or> ip_addr6 (ip_info w) \<noteq> None) \<and>
     same_addresses old (ip_info w) = Some True \<and>
     mon_ssl_rd (mon w) \<and> ka_last_rx (ssl_times w) = ka_last_tx (ssl_times w) \<and>
     ka_last_rekey (ssl_times w) = ka_last_tx (ssl_times w) \<and>
     (\<exists>n. e_ticks (env w) = Suc n \<and> ka_last_tx (ssl_times w) = e_clock (env w) n) \<and>
     (ka_rekey (ssl_times w) \<le> 0 \<longrightarrow> ka_rekey_method (ssl_times w) = REKEY_NONE)"

lemma finish_connection_up:
  "finish_connection old mtu sessid v = Some (0, w) \<Longrightarrow> 0 \<le> mtu \<Longrightarrow> tunnel_up old w \<and> ssl_open w = ssl_open v"
  by (auto simp: finish_connection_def tunnel_up_def Let_def upd_ip_def upd_ssl_def time_now_def upd_env_def
      split: if_splits option.splits bool.splits)

lemma finish_connection_nonpos: "finish_connection old mtu sessid v = Some (r, w) \<Longrightarrow> r \<le> 0"
  by (auto simp: finish_connection_def Let_def split_beta order_less_imp_le [OF err_neg]
      split: if_splits option.splits bool.splits)

lemma header_loop_error: "header_loop gs mtu sessid v = (Inl e, w) \<Longrightarrow> e < 0"
proof (induction gs arbitrary: mtu sessid v)
  case (Cons g gs)
  have line: "header_line l m s u = (Inl e', z) \<Longrightarrow> e' < 0" for l m s u e' and z :: "'a vpninfo"
    by (auto simp: header_line_def dtls_header_def cstp_header_def split_beta Let_def
        split: option.splits if_splits)
  show ?case
  proof (cases rule: header_loop_cases [where gs = "g # gs" and mtu = mtu and sessid = sessid and v = v])
    case (fail l gs' n w')
    with Cons.prems line [OF fail(3)] show ?thesis by (simp add: header_loop_simps)
  next
    case (more l gs' m' s' w')
    with Cons show ?thesis by (simp add: header_loop_simps)
  qed (use Cons.prems in \<open>auto simp: header_loop_simps\<close>)
qed auto

lemma read_response_result:
  assumes "read_response old status v = Some (r, w)"
  shows "r \<le> 0" "r = 0 \<Longrightarrow> tunnel_up old w \<and> ssl_open w = ssl_open v"
proof -
  have "r \<le> 0 \<and> (r = 0 \<longrightarrow> tunnel_up old w \<and> ssl_open w = ssl_open v)"
  proof (cases "take 13 status = ''HTTP/1.1 200 ''")
    case True
    obtain x u where l: "header_loop (e_gets (env v)) 0 False (v\<lparr>deflate := False\<rparr>) = (x, u)"
      by (cases "header_loop (e_gets (env v)) 0 False (v\<lparr>deflate := False\<rparr>)")
    show ?thesis
    proof (cases x)
      case (Inl e)
      with True l assms header_loop_error [OF l [unfolded Inl]] show ?thesis
        by (auto simp: read_response_def)
    next
      case (Inr p)
      obtain m s where p: "p = (m, s)" by (cases p)
      have f: "finish_connection old m s u = Some (r, w)"
        using True l assms Inr p by (simp add: read_response_def)
      have "0 \<le> m" using header_loop_mtu [OF l [unfolded Inr p]] .
      moreover have "ssl_open u = ssl_open v"
        using header_loop_ssl_open [of "e_gets (env v)" 0 False "v\<lparr>deflate := False\<rparr>"] l by simp
      ultimately show ?thesis
        using finish_connection_up [of old m s u w] finish_connection_nonpos [OF f] f by auto
    qed
  next
    case False
    with assms show ?thesis
      by (auto simp: read_response_def order_less_imp_le [OF err_neg] split: if_splits)
  qed
  then show "r \<le> 0" "r = 0 \<Longrightarrow> tunnel_up old w \<and> ssl_open w = ssl_open v" by auto
qed

lemma start_result:
  assumes "start_cstp_connection v = Some (r, w)"
  shows "r \<le> 0" "r = 0 \<Longrightarrow> tunnel_up (ip_info v) w" "r = 0 \<Longrightarrow> ssl_open v \<Longrightarrow> ssl_open w" "connect_frame v w"
proof -
  have "r \<le> 0 \<and> (r = 0 \<longrightarrow> tunnel_up (ip_info v) w \<and> (ssl_open v \<longrightarrow> ssl_open w)) \<and> connect_frame v w"
    using assms
  proof (cases rule: start_cases)
    case refused
    then show ?thesis by (simp add: attempt_failed_def)
  next
    case (response status u)
    with read_response_result [OF response(5)] connect_frame_read_response [OF response(5,4)]
    show ?thesis by auto
  qed
  then show "r \<le> 0" "r = 0 \<Longrightarrow> tunnel_up (ip_info v) w" "r = 0 \<Longrightarrow> ssl_open v \<Longrightarrow> ssl_open w" "connect_frame v w"
    by auto
qed

section \<open>The request that is sent\<close>

text \<open>The MTU that \<open>calculate_mtu\<close> gives is at least 1280, the minimum of IPv6.\<close>

lemma calculate_mtu_min: "1280 \<le> snd (fst (calculate_mtu v))"
  by (simp add: calculate_mtu_def split_beta Let_def split: option.split)

lemma send_connect_sent:
  assumes "send_connect i v = Some (None, w)"
  shows "\<exists>mtu\<ge>1280. o_http (env w) = o_http (env v) @ [concat (connect_parts v i (c_basemtu (config v)) mtu)]"
    and "\<exists>b\<in>set (dtls_secret v). b \<noteq> 0"
proof -
  obtain bm mtu u0 where c: "calculate_mtu v = ((bm, mtu), u0)" by (metis surj_pair)
  obtain ok u where a: "ask u0 = (ok, u)" by (metis surj_pair)
  have bm: "bm = c_basemtu (config v)" using c by (simp add: calculate_mtu_def split_beta Let_def)
  have "same_state v u"
    using same_state_step(2) [OF same_state_calculate_mtu [OF same_state_refl [of v]]] c a by simp
  note su = same_state_simps [OF this]
  have p: "connect_parts u i b m = connect_parts v i b m" for b m
    using su by (simp add: connect_parts_def connect_head_def connect_tail_def)
  have o0: "o_http (env u0) = o_http (env v)"
    using arg_cong [OF c, of "\<lambda>x. o_http (env (snd x))"]
    by (simp add: calculate_mtu_def get_mss_def upd_env_def split_beta Let_def split: list.splits if_splits)
  have o: "o_http (env u) = o_http (env v)"
    using a o0 by (auto simp: ask_def upd_env_def split: list.splits)
  have run: "send_connect i v =
      (let parts = (if \<forall>b\<in>set (dtls_secret u). b = 0
                    then connect_head u i bm mtu @ map hex2 (dtls_secret u) else connect_parts u i bm mtu) in
       case foldl (buf_put (e_mem (env u))) (Some (buf_alloc ok)) parts of
        None \<Rightarrow> None
      | Some reqbuf \<Rightarrow>
          (if \<forall>b\<in>set (dtls_secret u). b = 0 then Some (Some (err EINVAL), u)
           else case buf_error reqbuf of
             Some e \<Rightarrow> Some (Some (err e), u)
           | None \<Rightarrow> Some (None, log_http (buf_written reqbuf) u)))"
    by (simp add: send_connect_def c a)
  have nz': "\<not> (\<forall>b\<in>set (dtls_secret u). b = 0)"
    using assms by (auto simp: run Let_def simp del: ball_simps split: option.splits)
  then show "\<exists>b\<in>set (dtls_secret v). b \<noteq> 0" using su(7) by simp
  obtain buf where b: "foldl (buf_put (e_mem (env u))) (Some (buf_alloc ok)) (connect_parts u i bm mtu) = Some buf"
      "buf_error buf = None" "w = log_http (buf_written buf) u"
    using assms nz' by (auto simp: run Let_def split: option.splits if_splits)
  have "1280 \<le> mtu" using calculate_mtu_min [of v] c by simp
  then show "\<exists>mtu\<ge>1280. o_http (env w) = o_http (env v) @ [concat (connect_parts v i (c_basemtu (config v)) mtu)]"
    using b buf_puts_written [OF b(1,2)] o p bm by (auto simp: log_http_def upd_env_def)
qed

text \<open>
  A short request is built without a hitch, when there is memory and the MTU is given.
\<close>

lemma send_connect_fits:
  assumes "length (concat (connect_parts v i (c_basemtu (config v)) (c_reqmtu (config v)))) < BUF_CHUNK_SIZE"
    and "1280 \<le> c_reqmtu (config v)" "e_mem (env v) BUF_CHUNK_SIZE" "e_calls (env v) = []"
    and "\<exists>b\<in>set (dtls_secret v). b \<noteq> 0"
  shows "send_connect i v =
    Some (None, log_http (concat (connect_parts v i (c_basemtu (config v)) (c_reqmtu (config v)))) v)"
proof -
  have c: "calculate_mtu v = ((c_basemtu (config v), c_reqmtu (config v)), v)" and a: "ask v = (True, v)"
    using assms by (simp_all add: calculate_mtu_def ask_def)
  obtain b where "foldl (buf_put (e_mem (env v))) (Some (buf_alloc True))
      (connect_parts v i (c_basemtu (config v)) (c_reqmtu (config v))) = Some (Some b)"
    "tb_error b = None" "tb_data b = concat (connect_parts v i (c_basemtu (config v)) (c_reqmtu (config v)))"
    using buf_puts_fit [where mem = "e_mem (env v)" and b = empty_buf
        and parts = "connect_parts v i (c_basemtu (config v)) (c_reqmtu (config v))"] assms
    by (auto simp: empty_buf_def buf_alloc_def)
  then show ?thesis
    using assms(5) by (auto simp: send_connect_def c a buf_error_def buf_written_def)
qed

text \<open>An example: a client that is connected and has an address, and the lines of an answer.\<close>

definition connect_sample :: "gets list \<Rightarrow> unit vpninfo" where
  "connect_sample gs = idle_vpn\<lparr>ssl_open := True, dtls_state := DTLS_DISABLED, dtls_secret := replicate 48 7,
     deflate := False, config := idle_config\<lparr>c_reqmtu := 1400\<rparr>,
     ip_info := no_ip_info\<lparr>ip_addr := Some ''10.1.2.3''\<rparr>, env := idle_env\<lparr>e_gets := gs\<rparr>\<rparr>"

definition sample_request :: string where
  "sample_request = concat (connect_parts (clear_old (connect_sample [])) 3 0 1400)"

lemma sample_request_length: "length sample_request < BUF_CHUNK_SIZE"
  by (simp add: sample_request_def connect_parts_def connect_head_def connect_tail_def clear_old_def
      connect_sample_def idle_vpn_def idle_config_def default_cipher_list_def dec_int_def hex2_def
      dec_nat.simps [of 1400] dec_nat.simps [of 140] dec_nat.simps [of 14] dec_nat.simps [of "Suc 0"]
      length_concat sum_list_replicate)

lemma sample_request_once:
  "request_once 3 (clear_old (connect_sample (g # gs))) =
   Some (Inr g, upd_env (\<lambda>e. e\<lparr>e_gets := gs\<rparr>) (log_http sample_request (clear_old (connect_sample (g # gs)))))"
proof -
  let ?v = "clear_old (connect_sample (g # gs))"
  have p: "connect_parts ?v 3 (c_basemtu (config ?v)) (c_reqmtu (config ?v)) =
      connect_parts (clear_old (connect_sample [])) 3 0 1400"
    by (simp add: connect_parts_def connect_head_def connect_tail_def clear_old_def connect_sample_def idle_config_def)
  have "send_connect 3 ?v = Some (None, log_http sample_request ?v)"
    unfolding sample_request_def p [symmetric]
    by (rule send_connect_fits)
       (use sample_request_length in \<open>simp_all only: p sample_request_def\<close>,
        simp_all add: clear_old_def connect_sample_def idle_vpn_def idle_config_def idle_env_def)
  then show ?thesis
    by (simp add: request_once_def ssl_gets_def log_http_def upd_env_def clear_old_def connect_sample_def)
qed

section \<open>Properties\<close>

lemma and_15: "b AND 15 = take_bit 4 (b :: byte)"
  by (simp add: take_bit_eq_mask mask_numeral)

lemma of_char_byte: "(of_char c :: byte) = of_nat (of_char c)"
  by (simp only: of_nat_of_char)

lemma nybble_range: "unat (drop_bit 4 b :: byte) < 16" "unat (b AND 15 :: byte) < 16"
proof -
  have "unat b < 256" using unsigned_less [of b] by simp
  then show "unat (drop_bit 4 b :: byte) < 16" by (simp add: drop_bit_eq_div unat_div)
  show "unat (b AND 15 :: byte) < 16" by (simp add: and_15 take_bit_eq_mod unat_mod)
qed

lemma nybble_cases:
  assumes "unat (n :: byte) < 16"
  shows "n \<in> set [0, 1, 2, 3, 4, 5, 6, 7, 8, 9, 10, 11, 12, 13, 14, 15]"
proof -
  have "unat n \<in> set [0..<16]" using assms by simp
  then have "word_of_nat (unat n) \<in> set (map word_of_nat [0..<16] :: byte list)"
    unfolding set_map by (rule imageI)
  then show ?thesis by (simp add: upt_rec)
qed

lemma hex_digit_nybble: "unat n < 16 \<Longrightarrow> nybble (hex_digit n) = n"
  using nybble_cases [of n] by (auto simp: nybble_def hex_digit_def in_range_def of_char_byte)

lemma unhex_hex2: "unhex (hex_digit (drop_bit 4 b)) (hex_digit (b AND 15)) = b"
  by (simp add: unhex_def hex_digit_nybble nybble_range)
     (rule bit_eqI, auto simp: and_15 bit_simps)

text \<open>
  The hex text of the DTLS master secret that the request carries, decoded
  with the \<open>unhex\<close> that the client uses on session ids, gives the bytes back.
\<close>

theorem unhex_hex_roundtrip: "unhex_all (concat (map hex2 bs)) = bs"
  by (induction bs) (simp_all add: hex2_def unhex_hex2)

text \<open>
  When the CONNECT request is sent, it is sent once and is exactly the
  concatenation of its header lines, with an MTU of at least 1280; it is never sent with an
  all-zero DTLS master secret.
\<close>

theorem cstp_request_sent:
  assumes "send_connect i v = Some (None, w)"
  shows "(\<exists>mtu. 1280 \<le> mtu \<and> o_http (env w) = o_http (env v) @ [concat (connect_parts v i (c_basemtu (config v)) mtu)]) \<and>
    (\<exists>b. b \<in> set (dtls_secret v) \<and> b \<noteq> 0)"
  using send_connect_sent [OF assms] by blast

theorem cstp_request_sent_witness:
  "\<exists>mtu\<ge>1280. sample_request = concat (connect_parts (clear_old (connect_sample [])) 3 0 mtu)"
proof -
  let ?v = "clear_old (connect_sample [])"
  have c: "connect_parts ?v 3 (c_basemtu (config ?v)) (c_reqmtu (config ?v)) = connect_parts ?v 3 0 1400"
    by (simp add: clear_old_def connect_sample_def idle_config_def)
  have "send_connect 3 ?v = Some (None, log_http sample_request ?v)"
    unfolding sample_request_def c [symmetric]
    by (rule send_connect_fits)
       (use sample_request_length in \<open>simp_all only: c sample_request_def\<close>,
        simp_all add: clear_old_def connect_sample_def idle_vpn_def idle_config_def idle_env_def)
  from cstp_request_sent [OF this] show ?thesis
    by (auto simp: log_http_def upd_env_def clear_old_def connect_sample_def idle_config_def)
qed

text \<open>
  The status line: the first line that is read, or the second when the first read failed, but not for an interruption.
\<close>

definition status_line :: "gets list \<Rightarrow> string \<Rightarrow> bool" where
  "status_line gs status \<longleftrightarrow>
     (\<exists>rest. gs = Line status # rest \<or> (\<exists>e. e \<noteq> EINTR \<and> gs = Gets_Err e # Line status # rest))"

lemma send_connect_gets: "send_connect i v = Some (r, w) \<Longrightarrow> e_gets (env w) = e_gets (env v)"
  by (auto simp: send_connect_def calculate_mtu_def get_mss_def ask_def log_http_def upd_env_def split_beta Let_def
      split: option.splits if_splits list.splits)

lemma request_once_gets:
  "request_once i v = Some (Inr (Line s), w) \<Longrightarrow> e_gets (env v) = Line s # e_gets (env w)"
  "request_once i v = Some (Inr (Gets_Err e), w) \<Longrightarrow> e_gets (env v) = Gets_Err e # e_gets (env w) \<or> e_gets (env w) = []"
  by (auto simp: request_once_def ssl_gets_def upd_env_def split_beta Let_def split: option.splits list.splits
      dest!: send_connect_gets)

lemma reopen_gets: "e_gets (env (snd (reopen v))) = e_gets (env v)"
  by (simp add: reopen_def openconnect_open_https_def openconnect_close_https_def upd_env_def Let_def split: list.split)

lemma read_response_200: "read_response old status v = Some (0, w) \<Longrightarrow> take 13 status = ''HTTP/1.1 200 ''"
  by (auto simp: read_response_def split: if_splits)

lemma start_status:
  assumes "start_cstp_connection v = Some (0, w)"
  shows "\<exists>status. status_line (e_gets (env v)) status \<and> take 13 status = ''HTTP/1.1 200 ''"
proof -
  have c: "e_gets (env (clear_old v)) = e_gets (env v)" by (simp add: clear_old_def)
  obtain x u where one: "request_once 3 (clear_old v) = Some (x, u)"
    using assms by (cases "request_once 3 (clear_old v)") (auto simp: start_cstp_connection_def)
  show ?thesis
  proof (cases x)
    case (Inl e)
    with assms one request_once_Inl [of 3 "clear_old v" e u] show ?thesis by (simp add: start_cstp_connection_def)
  next
    case (Inr g)
    show ?thesis
    proof (cases g)
      case (Line s)
      with assms one Inr request_once_gets(1) [of 3 "clear_old v" s u] read_response_200 [of "ip_info v" s u w] show ?thesis
        by (auto simp: start_cstp_connection_def status_line_def c)
    next
      case (Gets_Err e)
      then have e: "e \<noteq> EINTR" "fst (reopen u) = 0"
        using assms one Inr by (auto simp: start_cstp_connection_def reopen_def split_beta split: if_splits)
      with assms one Inr Gets_Err obtain y u2 where two: "request_once (err e) (snd (reopen u)) = Some (y, u2)"
        by (cases "request_once (err e) (snd (reopen u))") (auto simp: start_cstp_connection_def reopen_def [symmetric] split_beta)
      with assms one Inr Gets_Err e have run:
        "Some (0, w) = (case y of Inl e \<Rightarrow> Some (e, u2) | Inr (Line s) \<Rightarrow> read_response (ip_info v) s u2
           | Inr (Gets_Err e) \<Rightarrow> Some (if e = EINTR then err e else err EINVAL, u2))"
        by (simp add: start_cstp_connection_def reopen_def [symmetric] split_beta)
      then obtain s where s: "y = Inr (Line s)" "read_response (ip_info v) s u2 = Some (0, w)"
        using request_once_Inl [of "err e" "snd (reopen u)" _ u2] two by (auto split: sum.splits gets.splits if_splits)
      have "e_gets (env u) = Line s # e_gets (env u2)"
        using request_once_gets(1) [of "err e" "snd (reopen u)" s u2] two s(1) by (simp add: reopen_gets)
      with request_once_gets(2) [of 3 "clear_old v" e u] one Inr Gets_Err e(1) read_response_200 [OF s(2)] show ?thesis
        by (auto simp: status_line_def c)
    qed
  qed
qed

text \<open>
  C20 (cstp_connected): \<open>start_cstp_connection\<close> returns 0 only after a status line ''HTTP/1.1 200 '' (the first line
  read, or the second after a failed read and a new connection), and then the tunnel is up (\<open>tunnel_up\<close>): it has a
  positive MTU and an address, keeps every address and netmask that the client had before, is watched for input,
  and the times of the last rekey, sending and receiving are the last reading of the clock. Every other result is a negative error.
\<close>

theorem cstp_connected:
  assumes "start_cstp_connection v = Some (r, w)"
  shows "r \<le> 0 \<and> (r = 0 \<longrightarrow>
    (\<exists>status. status_line (e_gets (env v)) status \<and> take 13 status = ''HTTP/1.1 200 '') \<and> tunnel_up (ip_info v) w \<and>
    keeps (ip_addr (ip_info v)) (ip_addr (ip_info w)) \<and> keeps (ip_netmask (ip_info v)) (ip_netmask (ip_info w)) \<and>
    keeps (ip_addr6 (ip_info v)) (ip_addr6 (ip_info w)) \<and> keeps (ip_netmask6 (ip_info v)) (ip_netmask6 (ip_info w)))"
  using start_result [OF assms] start_status [of v w] assms by (auto simp: tunnel_up_def same_addresses_iff)

definition sample_answer :: "gets list" where
  "sample_answer = [Line ''HTTP/1.1 200 CONNECTED'', Line ''X-CSTP-Address: 10.1.2.3'',
     Line ''X-CSTP-MTU: 1406'', Line ''X-CSTP-DPD: 30'', Line []]"

lemmas connect_eval = header_loop.simps header_line_def split_header_def new_option_def ask_def time_now_def
  upd_env_def clear_old_def cstp_header_def cstp_ip_header_def dtls_header_def add_split_def upd_ip_def upd_ssl_def
  lower_dpd_def finish_connection_def same_addresses_def changed_def
  atoi_def atol_def is_space_def is_digit_def digit_val_def clamp_long_def to_int_def
  connect_sample_def log_http_def idle_vpn_def idle_env_def no_ip_info_def no_timers_def

lemma sample_answer_run:
  "map_option (\<lambda>(r, w). (r, ip_addr (ip_info w), ip_mtu (ip_info w), ka_dpd (ssl_times w)))
     (start_cstp_connection (connect_sample sample_answer)) = Some (0, Some ''10.1.2.3'', 1406, 30)"
  by (simp add: start_cstp_connection_def sample_answer_def sample_request_once read_response_def)
     (simp add: connect_eval)

theorem cstp_connected_witness:
  "\<exists>w. start_cstp_connection (connect_sample sample_answer) = Some (0, w) \<and>
     tunnel_up (ip_info (connect_sample sample_answer)) w \<and> ip_addr (ip_info w) = Some ''10.1.2.3''"
proof -
  obtain w where w: "start_cstp_connection (connect_sample sample_answer) = Some (0, w)"
      "ip_addr (ip_info w) = Some ''10.1.2.3''"
    using sample_answer_run by auto
  from cstp_connected [OF w(1)] w show ?thesis by auto
qed

text \<open>
  The check that a reconnect keeps the address holds for one attempt only:
  when it rejects what the server offers, the rejected addresses are already in \<open>ip_info\<close>, and the
  next attempt of \<open>cstp_reconnect\<close>, which compares with those, accepts the same offer.
\<close>

theorem cstp_address_check_once:
  assumes "finish_connection old mtu sessid v = Some (err EINVAL, w)" "0 < mtu"
    and "ip_addr (ip_info v) \<noteq> None \<or> ip_addr6 (ip_info v) \<noteq> None" "ip_info v' = ip_info v"
  shows "same_addresses old (ip_info w) = Some False \<and>
    (\<exists>u. finish_connection (ip_info w) mtu sessid v' = Some (0, u) \<and> ip_info u = ip_info w)"
proof -
  have w: "w = upd_ip (\<lambda>i. i\<lparr>ip_mtu := mtu\<rparr>) v \<and> same_addresses old (ip_info w) = Some False"
    using assms(1-3) by (auto simp: finish_connection_def Let_def split_beta upd_ip_def
        split: if_splits option.splits bool.splits)
  then have i: "ip_info w = ip_info v\<lparr>ip_mtu := mtu\<rparr>" by (simp add: upd_ip_def)
  have "same_addresses (ip_info w) (ip_info w) = Some True"
    by (auto simp: same_addresses_iff keeps_def split: option.split)
  then have "\<exists>u. finish_connection (ip_info w) mtu sessid v' = Some (0, u) \<and> ip_info u = ip_info w"
    using assms(2-4) i by (auto simp: finish_connection_def upd_ip_def upd_ssl_def time_now_def upd_env_def Let_def)
  with w show ?thesis by blast
qed

theorem cstp_address_check_once_witness:
  "\<exists>w u. finish_connection (no_ip_info\<lparr>ip_addr := Some ''10.1.2.3''\<rparr>) 1400 True
           ((connect_sample [])\<lparr>ip_info := no_ip_info\<lparr>ip_addr := Some ''10.9.9.9''\<rparr>\<rparr>) = Some (err EINVAL, w) \<and>
     finish_connection (ip_info w) 1400 True
           ((connect_sample [])\<lparr>ip_info := no_ip_info\<lparr>ip_addr := Some ''10.9.9.9''\<rparr>\<rparr>) = Some (0, u) \<and>
     ip_addr (ip_info u) = Some ''10.9.9.9''"
proof -
  let ?v = "(connect_sample [])\<lparr>ip_info := no_ip_info\<lparr>ip_addr := Some ''10.9.9.9''\<rparr>\<rparr>"
  obtain w where w: "finish_connection (no_ip_info\<lparr>ip_addr := Some ''10.1.2.3''\<rparr>) 1400 True ?v = Some (err EINVAL, w)"
      "ip_addr (ip_info w) = Some ''10.9.9.9''"
    by (simp add: connect_eval)
  from cstp_address_check_once [OF w(1), of ?v] w show ?thesis by (auto simp: no_ip_info_def)
qed

lemma reason_loop_None:
  "reason_loop gs u = None \<longleftrightarrow> \<not> (\<exists>l. Line l \<in> set gs \<and> (l = [] \<or> take 10 l = ''X-Reason: ''))"
proof (induction gs arbitrary: u)
  case (Cons g gs)
  then show ?case by (cases g) (auto simp: Let_def)
qed simp

text \<open>
  After \<open>HTTP/1.1 503\<close> the search for the reason ignores errors of \<open>ssl_gets\<close>:
  when the connection ends before an empty line or an \<open>X-Reason\<close> header, \<open>start_cstp_connection\<close> never
  returns; otherwise it returns an error.
\<close>

theorem cstp_503_hangs:
  assumes "request_once 3 (clear_old v) = Some (Inr (Line status), u)" "take 13 status = ''HTTP/1.1 503 ''"
  shows "if \<exists>l. Line l \<in> set (e_gets (env u)) \<and> (l = [] \<or> take 10 l = ''X-Reason: '')
    then \<exists>w. start_cstp_connection v = Some (err EINVAL, w) else start_cstp_connection v = None"
proof -
  have "start_cstp_connection v = map_option (Pair (err EINVAL)) (reason_loop (e_gets (env u)) u)"
    using assms by (simp add: start_cstp_connection_def read_response_def)
  with reason_loop_None [of "e_gets (env u)" u] show ?thesis by auto
qed

theorem cstp_503_hangs_witness:
  "start_cstp_connection (connect_sample [Line ''HTTP/1.1 503 Unavailable'', Gets_Err EIO]) = None"
  using cstp_503_hangs [OF sample_request_once, of "''HTTP/1.1 503 Unavailable''" "[Gets_Err EIO]"]
  by (simp add: upd_env_def log_http_def clear_old_def connect_sample_def)

end
