(* ===== verification/Cstp_Reconnect.thy ===== *)
theory Cstp_Reconnect
  imports Cstp_Connect
begin

text \<open>
  \<open>openconnect_make_cstp_connection\<close> with the set-up of the zlib streams, and
  \<open>cstp_reconnect\<close>, of \<open>core/cstp.c\<close>.
\<close>

section \<open>Compression and reconnection\<close>

text \<open>The eight bytes before a packet: \<open>STF\<close>, 1, a length, the type, 0.\<close>

definition data_hdr :: "byte \<Rightarrow> nat \<Rightarrow> bytes" where
  "data_hdr type len = [0x53, 0x54, 0x46, 1, of_nat (len div 256), of_nat len, type, 0]"

text \<open>\<open>inflateInit2\<close> and, if it succeeds, \<open>deflateInit2\<close>.\<close>

definition init_streams :: "'z zlib \<Rightarrow> 'z vpninfo \<Rightarrow> bool \<times> 'z vpninfo" where
  "init_streams Z v =
     (let v = v\<lparr>deflate_adler32 := 1, inflate_adler32 := 1, inflate_strm := None\<rparr>; (ok, v) = ask v in
      if \<not> ok then (False, v)
      else
        let v = v\<lparr>inflate_strm := Some (z_inflate_init Z), deflate_strm := None\<rparr>; (ok, v) = ask v in
        if \<not> ok then (False, v) else (True, v\<lparr>deflate_strm := Some (z_deflate_init Z)\<rparr>))"

definition setup_compression :: "'z zlib \<Rightarrow> 'z vpninfo \<Rightarrow> 'z vpninfo" where
  "setup_compression Z v =
     (if \<not> deflate v then v
      else
        let (ok, v) = init_streams Z v; v = (if ok then v else v\<lparr>deflate := False\<rparr>) in
        if deflate_pkt v \<noteq> None then v
        else
          let (ok, v) = ask v in
          if \<not> ok then v\<lparr>inflate_strm := None, deflate_strm := None, deflate := False\<rparr>
          else v\<lparr>deflate_pkt := Some \<lparr>pkt_hdr = data_hdr AC_PKT_COMPRESSED 0, pkt_data = []\<rparr>\<rparr>)"

text \<open>\<open>openconnect_random\<close> on the DTLS secret.\<close>

definition setup_secret :: "'z vpninfo \<Rightarrow> bool \<times> 'z vpninfo" where
  "setup_secret v =
     (if dtls_state v \<noteq> DTLS_NOSECRET then (True, v)
      else case e_rand (env v) of
        Some bs # rs \<Rightarrow> (True, (upd_env (\<lambda>e. e\<lparr>e_rand := rs\<rparr>) v)\<lparr>dtls_secret := bs, dtls_state := DTLS_DISABLED\<rparr>)
      | None # rs \<Rightarrow> (False, upd_env (\<lambda>e. e\<lparr>e_rand := rs\<rparr>) v)
      | [] \<Rightarrow> (False, v))"

definition openconnect_make_cstp_connection :: "'z zlib \<Rightarrow> 'z vpninfo \<Rightarrow> (int \<times> 'z vpninfo) option" where
  "openconnect_make_cstp_connection Z v =
     (let (ok, v) = setup_secret v in
      if \<not> ok then Some (err EINVAL, v)
      else
        let (r, v) = openconnect_open_https v in
        if r \<noteq> 0 then Some (r, v)
        else case start_cstp_connection (setup_compression Z v) of
          None \<Rightarrow> None
        | Some (r, v) \<Rightarrow> Some (r, if r < 0 then openconnect_close_https v else v))"

abbreviation (input) RECONNECT_INTERVAL_MAX :: int where
  "RECONNECT_INTERVAL_MAX \<equiv> 100"

text \<open>
  The packet that was being sent compressed goes back to the end of the queue: \<open>None\<close> when
  \<open>queue_packet\<close> is given a null pointer.
\<close>

definition current_is_deflate :: "'z vpninfo \<Rightarrow> bool" where
  "current_is_deflate v \<longleftrightarrow>
     (case deflate_pkt v of None \<Rightarrow> current_ssl_pkt v = None | Some _ \<Rightarrow> current_ssl_pkt v = Some P_Deflate)"

definition end_streams :: "'z vpninfo \<Rightarrow> 'z vpninfo option" where
  "end_streams v =
     (if \<not> deflate v then Some v
      else
        map_option (\<lambda>v. v\<lparr>inflate_strm := None, deflate_strm := None\<rparr>)
          (if current_is_deflate v then
             (case pending_deflated_pkt v of
                None \<Rightarrow> None
              | Some p \<Rightarrow> Some (v\<lparr>current_ssl_pkt := None,
                                outgoing_queue := queue_packet (outgoing_queue v) p,
                                pending_deflated_pkt := None\<rparr>))
           else Some v))"

partial_function (option) reconnect_loop ::
  "'z zlib \<Rightarrow> int \<Rightarrow> int \<Rightarrow> 'z vpninfo \<Rightarrow> (int \<times> 'z vpninfo) option" where
  "reconnect_loop Z timeout interval v =
     (case openconnect_make_cstp_connection Z v of
        None \<Rightarrow> None
      | Some (ret, v) \<Rightarrow>
          (if ret = 0 then Some (0, snd (script_config_tun ''reconnect'' v))
           else if timeout \<le> 0 then Some (ret, v)
           else if ret = err EPERM then Some (ret, v)
           else case poll_cmd_fd interval v of
             None \<Rightarrow> None
           | Some v \<Rightarrow>
               (if got_cancel_cmd v then Some (err EINTR, v)
                else if got_pause_cmd v then Some (0, v)
                else reconnect_loop Z (timeout - interval)
                       (min (interval + reconnect_interval v) RECONNECT_INTERVAL_MAX) v)))"

definition cstp_reconnect :: "'z zlib \<Rightarrow> 'z vpninfo \<Rightarrow> (int \<times> 'z vpninfo) option" where
  "cstp_reconnect Z v =
     (case end_streams (openconnect_close_https v) of
        None \<Rightarrow> None
      | Some v \<Rightarrow> reconnect_loop Z (reconnect_timeout v) (reconnect_interval v) v)"

section \<open>What reconnecting leaves alone\<close>

text \<open>The queues, the packet being sent and the command flags, through one attempt.\<close>

definition make_frame :: "'z vpninfo \<Rightarrow> 'z vpninfo \<Rightarrow> bool" where
  "make_frame v w \<longleftrightarrow>
     w = v\<lparr>env := env w, ip_info := ip_info w, ssl_times := ssl_times w, mon := mon w, ssl_open := ssl_open w,
           deflate := deflate w, dtls_attempt_period := dtls_attempt_period w,
           dtls_session_id := dtls_session_id w, dtls_options := dtls_options w,
           cstp_options := cstp_options w, banner := banner w,
           dtls_secret := dtls_secret w, dtls_state := dtls_state w, deflate_pkt := deflate_pkt w,
           inflate_strm := inflate_strm w, deflate_strm := deflate_strm w,
           inflate_adler32 := inflate_adler32 w, deflate_adler32 := deflate_adler32 w\<rparr> \<and>
     mon_tun_rd (mon w) = mon_tun_rd (mon v) \<and> outs (env w) = outs (env v)"

lemma make_frame_refl [simp]: "make_frame v v"
  by (simp add: make_frame_def)

lemma make_frame_trans: "make_frame u v \<Longrightarrow> make_frame v w \<Longrightarrow> make_frame u w"
  by (cases u; cases v; cases w) (simp add: make_frame_def)

lemma make_frame_connect: "connect_frame v w \<Longrightarrow> make_frame v w"
  by (cases v; cases w) (simp add: make_frame_def connect_frame_def)

lemma make_frame_upd:
  assumes "make_frame u v"
  shows "make_frame u (v\<lparr>inflate_strm := x\<rparr>)" "make_frame u (v\<lparr>deflate_strm := y\<rparr>)"
    "make_frame u (v\<lparr>deflate_pkt := p\<rparr>)" "make_frame u (v\<lparr>deflate_adler32 := a\<rparr>)"
    "make_frame u (v\<lparr>inflate_adler32 := b\<rparr>)" "make_frame u (v\<lparr>dtls_secret := c\<rparr>)"
    "make_frame u (v\<lparr>dtls_state := s\<rparr>)"
  by (rule make_frame_trans [OF assms], simp add: make_frame_def)+

lemma make_frame_upd_connect:
  assumes "make_frame u v"
  shows "make_frame u (snd (ask v))" "(\<And>e. outs (f e) = outs e) \<Longrightarrow> make_frame u (upd_env f v)" "make_frame u (v\<lparr>deflate := d\<rparr>)"
    "make_frame u (snd (openconnect_open_https v))" "make_frame u (openconnect_close_https v)"
  by (rule make_frame_trans [OF assms make_frame_connect], simp add: frame_step)+

lemmas make_frame_step = make_frame_upd make_frame_upd_connect

lemma make_frame_init_streams: "make_frame u v \<Longrightarrow> make_frame u (snd (init_streams Z v))"
  by (simp add: init_streams_def split_beta Let_def make_frame_step)

lemma make_frame_setup_compression: "make_frame u v \<Longrightarrow> make_frame u (setup_compression Z v)"
  by (simp add: setup_compression_def split_beta Let_def make_frame_step make_frame_init_streams)

lemma make_frame_setup_secret: "make_frame u v \<Longrightarrow> make_frame u (snd (setup_secret v))"
  by (simp add: setup_secret_def make_frame_step split: list.split option.split)

text \<open>The two ways an attempt ends.\<close>

lemma setup_state:
  "ssl_open (setup_compression Z v) = ssl_open v" "ip_info (setup_compression Z v) = ip_info v"
  "ssl_open (snd (setup_secret v)) = ssl_open v" "ip_info (snd (setup_secret v)) = ip_info v"
  by (simp_all add: setup_compression_def init_streams_def ask_def upd_env_def setup_secret_def split_beta Let_def
      split: list.split option.split)

lemma open_https_state:
  "fst (openconnect_open_https v) = 0 \<Longrightarrow> ssl_open (snd (openconnect_open_https v))"
  "fst (openconnect_open_https v) \<noteq> 0 \<Longrightarrow> \<not> ssl_open (snd (openconnect_open_https v))"
  "ip_info (snd (openconnect_open_https v)) = ip_info v"
  by (auto simp: openconnect_open_https_def Let_def upd_env_def split: list.splits if_splits)

lemma close_https_state [simp]:
  "\<not> ssl_open (openconnect_close_https v)" "ip_info (openconnect_close_https v) = ip_info v"
  by (simp_all add: openconnect_close_https_def)

lemma make_result:
  assumes "openconnect_make_cstp_connection Z v = Some (r, w)"
  shows "make_frame v w" "r = 0 \<Longrightarrow> tunnel_up (ip_info v) w \<and> ssl_open w"
    "r \<noteq> 0 \<Longrightarrow> \<not> ssl_open v \<Longrightarrow> \<not> ssl_open w"
proof -
  obtain ok v1 where v1: "setup_secret v = (ok, v1)" by (metis surj_pair)
  obtain r2 v2 where v2: "openconnect_open_https v1 = (r2, v2)" by (metis surj_pair)
  have f1: "make_frame v v1" using make_frame_setup_secret [OF make_frame_refl [of v]] v1 by simp
  have f2: "make_frame v v2" using make_frame_upd_connect(4) [OF f1] v2 by simp
  let ?v3 = "setup_compression Z v2"
  have f3: "make_frame v ?v3" by (rule make_frame_setup_compression [OF f2])
  have st: "ssl_open v1 = ssl_open v" "ip_info ?v3 = ip_info v" "ssl_open ?v3 = ssl_open v2"
    using setup_state(1,2) [of Z v2] setup_state(3,4) [of v] open_https_state(3) [of v1] v1 v2 by simp_all
  have "make_frame v w \<and> (r = 0 \<longrightarrow> tunnel_up (ip_info v) w \<and> ssl_open w) \<and>
    (r \<noteq> 0 \<longrightarrow> \<not> ssl_open v \<longrightarrow> \<not> ssl_open w)"
  proof (cases "ok \<and> r2 = 0")
    case False
    then show ?thesis
      using assms v1 v2 f1 f2 st(1) open_https_state(2) [of v1]
      by (auto simp: openconnect_make_cstp_connection_def split: if_splits)
  next
    case True
    obtain r4 v4 where v4: "start_cstp_connection ?v3 = Some (r4, v4)"
      using assms v1 v2 True by (auto simp: openconnect_make_cstp_connection_def split: option.splits)
    have "r = r4" "w = (if r4 < 0 then openconnect_close_https v4 else v4)"
      using assms v1 v2 v4 True by (auto simp: openconnect_make_cstp_connection_def)
    moreover have "make_frame v v4"
      by (rule make_frame_trans [OF f3 make_frame_connect [OF start_result(4) [OF v4]]])
    moreover have "ssl_open ?v3" using st(3) open_https_state(1) [of v1] v2 True by simp
    ultimately show ?thesis
      using start_result(1-3) [OF v4] st(2) by (auto simp: make_frame_step)
  qed
  then show "make_frame v w" "r = 0 \<Longrightarrow> tunnel_up (ip_info v) w \<and> ssl_open w"
    "r \<noteq> 0 \<Longrightarrow> \<not> ssl_open v \<Longrightarrow> \<not> ssl_open w" by auto
qed

text \<open>The requeued packet, and what a reconnection leaves alone.\<close>

definition reconnect_frame :: "'z vpninfo \<Rightarrow> 'z vpninfo \<Rightarrow> bool" where
  "reconnect_frame v w \<longleftrightarrow>
     incoming_queue w = incoming_queue v \<and> outgoing_queue w = outgoing_queue v \<and>
     outgoing_qlen w = outgoing_qlen v \<and> current_ssl_pkt w = current_ssl_pkt v \<and>
     pending_deflated_pkt w = pending_deflated_pkt v \<and> quit_reason w = quit_reason v \<and>
     config w = config v \<and> stats w = stats v \<and> owe_ssl_dpd_response w = owe_ssl_dpd_response v \<and>
     reconnect_interval w = reconnect_interval v \<and> reconnect_timeout w = reconnect_timeout v \<and>
     dtls_ssl w = dtls_ssl v \<and> dtls_fd w = dtls_fd v \<and> dtls_times w = dtls_times v \<and>
     out_pkt w = out_pkt v \<and> mon_tun_rd (mon w) = mon_tun_rd (mon v) \<and> outs (env w) = outs (env v)"

lemma reconnect_frame_refl [simp]: "reconnect_frame v v"
  by (simp add: reconnect_frame_def)

lemma reconnect_frame_trans: "reconnect_frame u v \<Longrightarrow> reconnect_frame v w \<Longrightarrow> reconnect_frame u w"
  by (simp add: reconnect_frame_def)

lemma reconnect_frame_make: "make_frame v w \<Longrightarrow> reconnect_frame v w"
  by (cases v; cases w) (simp add: make_frame_def reconnect_frame_def)

lemma reconnect_frame_cmd: "cmd_only v w \<Longrightarrow> reconnect_frame v w"
  by (cases v; cases w) (simp add: cmd_only_def reconnect_frame_def)

lemma poll_loop_cmd_only:
  assumes "poll_loop now expiration v = Some w"
  shows "cmd_only v w"
proof (rule poll_loop.raw_induct [where P = "\<lambda>_ _ v w. cmd_only v w", OF _ assms])
  fix f :: "int \<Rightarrow> int \<Rightarrow> 'a vpninfo \<Rightarrow> 'a vpninfo option" and now e v w
  assume IH: "\<And>now e v w. f now e v = Some w \<Longrightarrow> cmd_only v w"
    and eq: "(if now < e \<and> \<not> got_cancel_cmd v \<and> \<not> got_pause_cmd v
      then let (now, v) = time_now v; (ready, v) = select_cmd v in f now e (check_cmd_fd ready v)
      else Some v) = Some w"
  show "cmd_only v w"
    using eq IH [of "fst (time_now v)" e "check_cmd_fd (fst (select_cmd (snd (time_now v)))) (snd (select_cmd (snd (time_now v))))" w]
      cmd_only_step [of v "fst (select_cmd (snd (time_now v)))"]
    by (auto simp: split_beta Let_def split: if_splits intro: cmd_only_trans)
qed

lemma poll_cmd_fd_cmd_only: "poll_cmd_fd timeout v = Some w \<Longrightarrow> cmd_only v w"
  using cmd_only_trans [OF cmd_only_time poll_loop_cmd_only] by (auto simp: poll_cmd_fd_def split_beta)

text \<open>Whether \<open>script_config_tun\<close> does anything.\<close>

definition scripted :: "vpn_config \<Rightarrow> bool" where
  "scripted c \<longleftrightarrow> c_vpnc_script c \<and> \<not> c_script_tun c"

text \<open>What a call of \<open>cstp_reconnect\<close> that returns \<open>r\<close> achieved.\<close>

definition reconnected :: "'z vpninfo \<Rightarrow> int \<Rightarrow> 'z vpninfo \<Rightarrow> bool" where
  "reconnected v r w \<longleftrightarrow> reconnect_frame v w \<and>
     (if r = 0 then got_pause_cmd w \<and> \<not> ssl_open w \<or>
        ssl_open w \<and> 0 < ip_mtu (ip_info w) \<and> (ip_addr (ip_info w) \<noteq> None \<or> ip_addr6 (ip_info w) \<noteq> None) \<and>
        (scripted (config w) \<longrightarrow> o_script (env w) \<noteq> [] \<and> last (o_script (env w)) = Reason ''reconnect'')
      else \<not> ssl_open w) \<and>
     (got_cancel_cmd w \<and> \<not> got_cancel_cmd v \<longrightarrow> r = err EINTR)"

lemma reconnected_step: "reconnect_frame v u \<Longrightarrow> \<not> got_cancel_cmd u \<Longrightarrow> reconnected u r w \<Longrightarrow> reconnected v r w"
  by (auto simp: reconnected_def intro: reconnect_frame_trans)

lemma make_frame_cancel: "make_frame v w \<Longrightarrow> got_cancel_cmd w = got_cancel_cmd v"
  by (cases v; cases w) (simp add: make_frame_def)

lemma cmd_only_ssl_open: "cmd_only v w \<Longrightarrow> ssl_open w = ssl_open v"
  by (cases v; cases w) (simp add: cmd_only_def)

lemma reconnect_loop_reconnected:
  assumes "reconnect_loop Z timeout interval v = Some x"
  shows "\<not> ssl_open v \<longrightarrow> reconnected v (fst x) (snd x)"
proof (rule reconnect_loop.raw_induct
    [where P = "\<lambda>Z timeout interval v x. \<not> ssl_open v \<longrightarrow> reconnected v (fst x) (snd x)", OF _ assms])
  fix f :: "'a zlib \<Rightarrow> int \<Rightarrow> int \<Rightarrow> 'a vpninfo \<Rightarrow> (int \<times> 'a vpninfo) option" and Z t i v x
  assume IH: "\<And>Z t i v x. f Z t i v = Some x \<Longrightarrow> \<not> ssl_open v \<longrightarrow> reconnected v (fst x) (snd x)"
    and eq: "(case openconnect_make_cstp_connection Z v of None \<Rightarrow> None
      | Some (ret, v) \<Rightarrow>
          if ret = 0 then Some (0, snd (script_config_tun ''reconnect'' v))
          else if t \<le> 0 then Some (ret, v)
          else if ret = err EPERM then Some (ret, v)
          else case poll_cmd_fd i v of None \<Rightarrow> None
            | Some v \<Rightarrow>
                if got_cancel_cmd v then Some (err EINTR, v)
                else if got_pause_cmd v then Some (0, v)
                else f Z (t - i) (min (i + reconnect_interval v) 100) v) = Some x"
  show "\<not> ssl_open v \<longrightarrow> reconnected v (fst x) (snd x)"
  proof
    assume closed: "\<not> ssl_open v"
    obtain ret u where m: "openconnect_make_cstp_connection Z v = Some (ret, u)"
      using eq by (auto split: option.splits)
    note mr = make_result [OF m]
    have fu: "reconnect_frame v u" "got_cancel_cmd u = got_cancel_cmd v"
      using mr(1) by (simp_all add: reconnect_frame_make make_frame_cancel)
    consider (up) "ret = 0" | (stop) "ret \<noteq> 0" "t \<le> 0 \<or> ret = err EPERM" | (wait) "ret \<noteq> 0" "0 < t" "ret \<noteq> err EPERM"
      by linarith
    then show "reconnected v (fst x) (snd x)"
    proof cases
      case up
      with eq m have "x = (0, snd (script_config_tun ''reconnect'' u))" by simp
      with up mr(2) fu closed show ?thesis
        by (auto simp: reconnected_def tunnel_up_def script_config_tun_def scripted_def tun_log_def upd_env_def
            reconnect_frame_def outs_def)
    next
      case stop
      with eq m have "x = (ret, u)" by (auto split: if_splits)
      with stop mr(3) fu closed show ?thesis by (auto simp: reconnected_def)
    next
      case wait
      then obtain w where w: "poll_cmd_fd i u = Some w" using eq m by (auto split: option.splits)
      note c = poll_cmd_fd_cmd_only [OF w]
      have fw: "reconnect_frame v w" by (rule reconnect_frame_trans [OF fu(1) reconnect_frame_cmd [OF c]])
      have nw: "\<not> ssl_open w" using mr(3) wait(1) closed cmd_only_ssl_open [OF c] by simp
      show ?thesis
      proof (cases "got_cancel_cmd w \<or> got_pause_cmd w")
        case True
        with eq m wait w fw nw show ?thesis by (auto simp: reconnected_def split: if_splits)
      next
        case False
        with eq m wait w have "f Z (t - i) (min (i + reconnect_interval w) 100) w = Some x" by simp
        with IH nw have "reconnected w (fst x) (snd x)" by blast
        with fw False show ?thesis by (blast intro: reconnected_step)
      qed
    qed
  qed
qed

section \<open>Giving up\<close>

text \<open>When no connection can be opened, an attempt only uses up an answer.\<close>

definition unreachable :: "'z vpninfo \<Rightarrow> bool" where
  "unreachable v \<longleftrightarrow> \<not> ssl_open v \<and> dtls_state v \<noteq> DTLS_NOSECRET \<and> (\<forall>r\<in>set (e_open (env v)). r \<noteq> 0)"

lemma make_unreachable:
  assumes "unreachable v"
  shows "\<exists>r w. openconnect_make_cstp_connection Z v = Some (r, w) \<and> r \<noteq> 0 \<and> unreachable w \<and>
    e_clock (env w) = e_clock (env v) \<and> o_http (env w) = o_http (env v) \<and> reconnect_interval w = reconnect_interval v"
  using assms
  by (cases "e_open (env v)")
     (auto simp: openconnect_make_cstp_connection_def setup_secret_def openconnect_open_https_def unreachable_def
       upd_env_def)

lemma check_cmd_fd_world:
  "e_open (env (check_cmd_fd c v)) = e_open (env v)" "o_http (env (check_cmd_fd c v)) = o_http (env v)"
  "e_open (env (snd (select_cmd v))) = e_open (env v)" "o_http (env (snd (select_cmd v))) = o_http (env v)"
  "e_open (env (snd (time_now v))) = e_open (env v)" "o_http (env (snd (time_now v))) = o_http (env v)"
  by (simp_all add: check_cmd_fd_def run_cmd_def select_cmd_def time_now_def upd_env_def split: option.split list.split)

lemma poll_loop_world:
  assumes "poll_loop now expiration v = Some w"
  shows "e_open (env w) = e_open (env v) \<and> o_http (env w) = o_http (env v)"
proof (rule poll_loop.raw_induct
    [where P = "\<lambda>_ _ v w. e_open (env w) = e_open (env v) \<and> o_http (env w) = o_http (env v)", OF _ assms])
  fix f :: "int \<Rightarrow> int \<Rightarrow> 'a vpninfo \<Rightarrow> 'a vpninfo option" and now e v w
  assume IH: "\<And>now e v w. f now e v = Some w \<Longrightarrow> e_open (env w) = e_open (env v) \<and> o_http (env w) = o_http (env v)"
    and eq: "(if now < e \<and> \<not> got_cancel_cmd v \<and> \<not> got_pause_cmd v
      then let (now, v) = time_now v; (ready, v) = select_cmd v in f now e (check_cmd_fd ready v)
      else Some v) = Some w"
  show "e_open (env w) = e_open (env v) \<and> o_http (env w) = o_http (env v)"
    using eq IH [of "fst (time_now v)" e "check_cmd_fd (fst (select_cmd (snd (time_now v)))) (snd (select_cmd (snd (time_now v))))" w]
    by (auto simp: split_beta Let_def check_cmd_fd_world split: if_splits)
qed

lemma poll_unreachable:
  assumes "unreachable v" "clock_runs (env v)"
  shows "\<exists>w. poll_cmd_fd t v = Some w \<and> unreachable w \<and> clock_runs (env w) \<and>
    o_http (env w) = o_http (env v) \<and> reconnect_interval w = reconnect_interval v"
proof -
  obtain w where w: "poll_cmd_fd t v = Some w" "cmd_only v w" "e_clock (env w) = e_clock (env v)"
    using poll_cmd_fd_ends [OF assms(2)] by blast
  have "e_open (env w) = e_open (env v) \<and> o_http (env w) = o_http (env v)"
    using w(1) poll_loop_world [of 0 "fst (time_now v) + t" "snd (time_now v)" w]
    by (simp add: poll_cmd_fd_def split_beta check_cmd_fd_world)
  moreover have "ssl_open w = ssl_open v" "dtls_state w = dtls_state v" "reconnect_interval w = reconnect_interval v"
    using w(2) by (cases v; cases w; simp add: cmd_only_def)+
  ultimately show ?thesis using w assms by (auto simp: unreachable_def clock_runs_def)
qed

lemma reconnect_loop_gives_up:
  assumes "0 < interval" "0 < reconnect_interval v" "unreachable v" "clock_runs (env v)"
  shows "\<exists>r w. reconnect_loop Z timeout interval v = Some (r, w) \<and> (r \<noteq> 0 \<or> got_pause_cmd w) \<and>
    o_http (env w) = o_http (env v)"
  using assms
proof (induction "nat timeout" arbitrary: timeout interval v rule: less_induct)
  case less
  obtain r u where u: "openconnect_make_cstp_connection Z v = Some (r, u)" "r \<noteq> 0" "unreachable u"
      "e_clock (env u) = e_clock (env v)" "o_http (env u) = o_http (env v)" "reconnect_interval u = reconnect_interval v"
    using make_unreachable [OF less.prems(3), of Z] by blast
  then have "clock_runs (env u)" using less.prems(4) by (simp add: clock_runs_def)
  then obtain w where w: "poll_cmd_fd interval u = Some w" "unreachable w" "clock_runs (env w)"
      "o_http (env w) = o_http (env u)" "reconnect_interval w = reconnect_interval u"
    using poll_unreachable [OF u(3)] by blast
  show ?case
  proof (cases "timeout \<le> 0 \<or> r = err EPERM \<or> got_cancel_cmd w \<or> got_pause_cmd w")
    case True
    with u w show ?thesis by (subst reconnect_loop.simps) auto
  next
    case False
    have "\<exists>r' w'. reconnect_loop Z (timeout - interval) (min (interval + reconnect_interval w) 100) w = Some (r', w') \<and>
        (r' \<noteq> 0 \<or> got_pause_cmd w') \<and> o_http (env w') = o_http (env w)"
      using False less.prems u w by (intro less.hyps) auto
    with False u w show ?thesis by (subst reconnect_loop.simps) auto
  qed
qed

section \<open>Properties\<close>

text \<open>A connected client that loses its server, while it sends a compressed packet.\<close>

definition lost_sample :: "bool \<Rightarrow> unit vpninfo" where
  "lost_sample d = idle_vpn\<lparr>ssl_open := True, dtls_state := DTLS_DISABLED, deflate := d,
     deflate_pkt := Some (new_pkt [1]), current_ssl_pkt := Some P_Deflate,
     pending_deflated_pkt := Some (new_pkt [0x45, 3]), reconnect_interval := 10, reconnect_timeout := 60,
     env := idle_env\<lparr>e_open := [-22, -22]\<rparr>\<rparr>"

lemma clock_runs_idle: "e_clock e = (\<lambda>n. int n) \<Longrightarrow> clock_runs e"
  unfolding clock_runs_def
proof (intro allI)
  fix t m
  assume "e_clock e = (\<lambda>n. int n)"
  then show "\<exists>n. t \<le> e_clock e (m + n)" by (intro exI [of _ "nat t"]) simp
qed

lemma lost_sample_reconnects:
  "\<exists>r w. cstp_reconnect Z (lost_sample d) = Some (r, w) \<and> (r \<noteq> 0 \<or> got_pause_cmd w)"
proof -
  obtain u where u: "end_streams (openconnect_close_https (lost_sample d)) = Some u" "unreachable u"
      "e_clock (env u) = (\<lambda>n. int n)" "reconnect_interval u = 10"
    by (cases d) (simp_all add: lost_sample_def end_streams_def current_is_deflate_def openconnect_close_https_def
        unreachable_def idle_vpn_def idle_env_def)
  then show ?thesis
    using reconnect_loop_gives_up [of 10 u Z "reconnect_timeout u", OF _ _ _ clock_runs_idle]
    by (auto simp: cstp_reconnect_def)
qed

definition deflate_answer :: "gets list" where
  "deflate_answer = [Line ''HTTP/1.1 200 CONNECTED'', Line ''X-CSTP-Address: 10.1.2.3'',
     Line ''X-CSTP-MTU: 1406'', Line ''X-CSTP-Content-Encoding: deflate'', Line []]"

lemma deflate_answer_run:
  "map_option (\<lambda>(r, w). (r, deflate w)) (start_cstp_connection (connect_sample deflate_answer)) = Some (0, True)"
  by (simp add: start_cstp_connection_def deflate_answer_def sample_request_once read_response_def)
     (simp add: connect_eval)

lemma end_streams_state:
  assumes "end_streams v = Some u"
  shows "ssl_open u = ssl_open v" "env u = env v" "got_cancel_cmd u = got_cancel_cmd v"
    "dtls_state u = dtls_state v" "reconnect_interval u = reconnect_interval v"
  using assms by (auto simp: end_streams_def split: if_splits option.splits)

text \<open>The packet that \<open>cstp_reconnect\<close> takes back because its compressed form was being sent.\<close>

definition requeued :: "'z vpninfo \<Rightarrow> pkt list" where
  "requeued v = (if deflate v \<and> current_is_deflate v then [the (pending_deflated_pkt v)] else [])"

lemma end_streams_queue:
  assumes "end_streams v = Some u"
  shows "outgoing_queue u = outgoing_queue v @ requeued v" "incoming_queue u = incoming_queue v"
    "current_ssl_pkt u = (if requeued v = [] then current_ssl_pkt v else None)"
  using assms by (auto simp: end_streams_def requeued_def queue_packet_def split: if_splits option.splits)

lemma close_https_queue [simp]:
  "requeued (openconnect_close_https v) = requeued v"
  "outgoing_queue (openconnect_close_https v) = outgoing_queue v" "incoming_queue (openconnect_close_https v) = incoming_queue v"
  "current_ssl_pkt (openconnect_close_https v) = current_ssl_pkt v" "env (openconnect_close_https v) = env v"
  "got_cancel_cmd (openconnect_close_https v) = got_cancel_cmd v"
  by (simp_all add: requeued_def current_is_deflate_def openconnect_close_https_def split: option.split)

text \<open>
  C24 (cstp_reconnect_outcome): When \<open>cstp_reconnect\<close> returns 0, the tunnel is up with an address and an MTU, and when a
  script is configured and tun packets do not go to it, the last thing done to the environment is that
  its variable \<open>reason\<close> was set to ''reconnect''; or the application has paused the session and the connection is closed.
  When it returns an error, the connection is closed; and when the application cancels or detaches while it
  waits, that error is \<open>-EINTR\<close>. Whatever it returns, nothing went to a tunnel or the tun device and no packet
  was lost: the queues are as before, but for the packet that was being sent in compressed form, which is now the last of
  the outgoing queue; a packet that was being sent otherwise is still the current one.
\<close>

theorem cstp_reconnect_outcome:
  assumes "cstp_reconnect Z v = Some (r, w)"
  shows "(if r = 0 then got_pause_cmd w \<and> \<not> ssl_open w \<or>
      ssl_open w \<and> 0 < ip_mtu (ip_info w) \<and> (ip_addr (ip_info w) \<noteq> None \<or> ip_addr6 (ip_info w) \<noteq> None) \<and>
      (scripted (config w) \<longrightarrow> o_script (env w) \<noteq> [] \<and> last (o_script (env w)) = Reason ''reconnect'')
    else \<not> ssl_open w \<and> (got_cancel_cmd w \<and> \<not> got_cancel_cmd v \<longrightarrow> r = err EINTR)) \<and>
    o_ssl (env w) = o_ssl (env v) \<and> o_dtls (env w) = o_dtls (env v) \<and> o_tun (env w) = o_tun (env v) \<and>
    incoming_queue w = incoming_queue v \<and> outgoing_queue w = outgoing_queue v @ requeued v \<and>
    current_ssl_pkt w = (if requeued v = [] then current_ssl_pkt v else None)"
proof -
  obtain u where u: "end_streams (openconnect_close_https v) = Some u"
      "reconnect_loop Z (reconnect_timeout u) (reconnect_interval u) u = Some (r, w)"
    using assms by (auto simp: cstp_reconnect_def split: option.splits)
  have s: "\<not> ssl_open u" "got_cancel_cmd u = got_cancel_cmd v" "env u = env v"
    using end_streams_state [OF u(1)] by simp_all
  with reconnect_loop_reconnected [OF u(2)] have r: "reconnected u r w" by simp
  then have "reconnect_frame u w" by (simp add: reconnected_def)
  then have "o_ssl (env w) = o_ssl (env v) \<and> o_dtls (env w) = o_dtls (env v) \<and> o_tun (env w) = o_tun (env v) \<and>
    incoming_queue w = incoming_queue v \<and> outgoing_queue w = outgoing_queue v @ requeued v \<and>
    current_ssl_pkt w = (if requeued v = [] then current_ssl_pkt v else None)"
    using end_streams_queue [OF u(1)] s(3) by (simp add: reconnect_frame_def outs_def)
  with r s(2) show ?thesis by (auto simp: reconnected_def)
qed

theorem cstp_reconnect_outcome_witness:
  "\<exists>w. cstp_reconnect stored ((lost_sample False)\<lparr>reconnect_timeout := 0\<rparr>) = Some (-22, w) \<and> \<not> ssl_open w"
proof -
  obtain w where w: "cstp_reconnect stored ((lost_sample False)\<lparr>reconnect_timeout := 0\<rparr>) = Some (-22, w)"
    by (simp add: cstp_reconnect_def end_streams_def openconnect_close_https_def lost_sample_def idle_vpn_def
        reconnect_loop.simps openconnect_make_cstp_connection_def setup_secret_def openconnect_open_https_def
        upd_env_def)
  from cstp_reconnect_outcome [OF w] w show ?thesis by auto
qed

text \<open>
  \<open>cstp_reconnect\<close> returns: when the server cannot be reached, the clock runs and
  the retry interval is positive, it stops after finitely many attempts, with an error or because the
  application paused the session, and has sent nothing.
\<close>

theorem cstp_reconnect_gives_up:
  assumes "clock_runs (env v)" "0 < reconnect_interval v" "\<forall>r\<in>set (e_open (env v)). r \<noteq> 0"
    and "dtls_state v \<noteq> DTLS_NOSECRET" "\<not> deflate v"
  shows "\<exists>r w. cstp_reconnect Z v = Some (r, w) \<and> (r \<noteq> 0 \<or> got_pause_cmd w) \<and> o_http (env w) = o_http (env v)"
proof -
  let ?u = "openconnect_close_https v"
  have u: "end_streams ?u = Some ?u" "unreachable ?u" "env ?u = env v" "reconnect_interval ?u = reconnect_interval v"
    using assms by (auto simp: end_streams_def unreachable_def openconnect_close_https_def)
  show ?thesis
    using reconnect_loop_gives_up [of "reconnect_interval ?u" ?u Z "reconnect_timeout ?u"] u assms
    by (simp add: cstp_reconnect_def)
qed

theorem cstp_reconnect_gives_up_witness:
  "\<exists>r w. cstp_reconnect stored (lost_sample False) = Some (r, w) \<and> (r \<noteq> 0 \<or> got_pause_cmd w) \<and> o_http (env w) = []"
proof -
  have "clock_runs (env (lost_sample False))" by (rule clock_runs_idle) (simp add: lost_sample_def idle_env_def)
  from cstp_reconnect_gives_up [OF this, of stored] show ?thesis by (simp add: lost_sample_def idle_env_def)
qed

text \<open>
  The packet that was being sent in compressed form when the connection broke is not
  lost: \<open>cstp_reconnect\<close> puts it at the end of the outgoing queue. But it does not count it, so
  from then on the queue is longer than \<open>outgoing_qlen\<close> says.
\<close>

theorem requeue_not_counted:
  assumes "cstp_reconnect Z v = Some (r, w)" "deflate v" "current_ssl_pkt v = Some P_Deflate"
    and "deflate_pkt v \<noteq> None" "pending_deflated_pkt v = Some p"
    and "outgoing_qlen v = int (length (outgoing_queue v))"
  shows "outgoing_queue w = outgoing_queue v @ [p] \<and> current_ssl_pkt w = None \<and>
    outgoing_qlen w = int (length (outgoing_queue w)) - 1"
proof -
  obtain u where u: "end_streams (openconnect_close_https v) = Some u"
      "reconnect_loop Z (reconnect_timeout u) (reconnect_interval u) u = Some (r, w)"
    using assms(1) by (auto simp: cstp_reconnect_def split: option.splits)
  have "\<not> ssl_open u" using end_streams_state [OF u(1)] by simp
  with reconnect_loop_reconnected [OF u(2)] have f: "reconnect_frame u w" by (simp add: reconnected_def)
  have "outgoing_queue u = outgoing_queue v @ [p]" "current_ssl_pkt u = None" "outgoing_qlen u = outgoing_qlen v"
    using u(1) assms by (auto simp: end_streams_def current_is_deflate_def queue_packet_def openconnect_close_https_def
        split: if_splits)
  with f assms(6) show ?thesis by (simp add: reconnect_frame_def)
qed

theorem requeue_not_counted_witness:
  "\<exists>r w. cstp_reconnect stored (lost_sample True) = Some (r, w) \<and> outgoing_queue w = [new_pkt [0x45, 3]] \<and>
     outgoing_qlen w = 0"
proof -
  obtain r w where w: "cstp_reconnect stored (lost_sample True) = Some (r, w)"
    using lost_sample_reconnects by blast
  from requeue_not_counted [OF w, of "new_pkt [0x45, 3]"] w show ?thesis
    by (auto simp: lost_sample_def idle_vpn_def)
qed

text \<open>
  The answer may turn compression on although the client, whose
  application disabled it, never offered it and has no deflate buffer; the next time the
  connection breaks, \<open>cstp_reconnect\<close> takes the null \<open>current_ssl_pkt\<close> for the null \<open>deflate_pkt\<close>
  and hands the null \<open>pending_deflated_pkt\<close> to \<open>queue_packet\<close>.
\<close>

theorem unoffered_deflate_crashes:
  assumes "start_cstp_connection v = Some (0, w)" "\<not> deflate v" "deflate w"
    and "deflate_pkt v = None" "current_ssl_pkt v = None" "pending_deflated_pkt v = None"
  shows "cstp_reconnect Z w = None"
proof -
  have "connect_frame v w" using start_result(4) [OF assms(1)] .
  then have "deflate_pkt w = None" "current_ssl_pkt w = None" "pending_deflated_pkt w = None"
    using assms(4-6) by (cases v; cases w; simp add: connect_frame_def)+
  then show ?thesis
    using assms(3) by (simp add: cstp_reconnect_def end_streams_def current_is_deflate_def openconnect_close_https_def)
qed

theorem unoffered_deflate_crashes_witness:
  "\<exists>w. start_cstp_connection (connect_sample deflate_answer) = Some (0, w) \<and> cstp_reconnect stored w = None"
proof -
  obtain w where w: "start_cstp_connection (connect_sample deflate_answer) = Some (0, w)" "deflate w"
    using deflate_answer_run by auto
  moreover have "\<not> deflate (connect_sample deflate_answer)" "deflate_pkt (connect_sample deflate_answer) = None"
    "current_ssl_pkt (connect_sample deflate_answer) = None" "pending_deflated_pkt (connect_sample deflate_answer) = None"
    by (simp_all add: connect_sample_def idle_vpn_def)
  ultimately show ?thesis using unoffered_deflate_crashes by blast
qed

end
