(* ===== verification/Dtls.thy ===== *)
theory Dtls
  imports Cstp_Connect
begin

text \<open>
  The DTLS tunnel of \<open>core/dtls.c\<close> as built with OpenSSL: the handshake, the socket, the
  options of the server and the loop that moves packets. An OpenSSL or socket call that can fail
  takes its result from the world.
\<close>

section \<open>The session\<close>

definition upd_dtls :: "(keepalive_info \<Rightarrow> keepalive_info) \<Rightarrow> 'z vpninfo \<Rightarrow> 'z vpninfo" where
  "upd_dtls f v = v\<lparr>dtls_times := f (dtls_times v)\<rparr>"

definition dtls_close :: "'z vpninfo \<Rightarrow> 'z vpninfo" where
  "dtls_close v =
     (if dtls_ssl v
      then v\<lparr>dtls_ssl := False, dtls_fd := False,
             mon := (mon v)\<lparr>mon_dtls_rd := False, mon_dtls_wr := False, mon_dtls_ex := False\<rparr>\<rparr>
      else v)"

definition no_attempts :: "'z vpninfo \<Rightarrow> int \<times> 'z vpninfo" where
  "no_attempts v = (err EINVAL, v\<lparr>dtls_attempt_period := 0\<rparr>)"

text \<open>\<open>SSL_CTX_new\<close> and \<open>SSL_CTX_set_cipher_list\<close>, unless there is a context.\<close>

definition dtls_context :: "'z vpninfo \<Rightarrow> bool \<times> 'z vpninfo" where
  "dtls_context v =
     (if dtls_ctx v then (True, v)
      else
        let (ok, v) = ask v in
        if \<not> ok then (False, v)
        else
          let v = v\<lparr>dtls_ctx := True\<rparr>; (ok, v) = ask v in
          if \<not> ok then (False, v\<lparr>dtls_ctx := False\<rparr>) else (True, v))"

definition start_dtls_handshake :: "'z vpninfo \<Rightarrow> int \<times> 'z vpninfo" where
  "start_dtls_handshake v =
     (let (ok, v) = dtls_context v in
      if \<not> ok then no_attempts v
      else
        let (ok, v) = (if dtls_session v then (True, v) else ask v) in
        if \<not> ok then no_attempts v
        else
          let v = v\<lparr>dtls_session := True\<rparr>; (one_cipher, v) = ask v in
          if \<not> one_cipher then no_attempts (v\<lparr>dtls_ctx := False, dtls_session := False\<rparr>)
          else
            let (ok, v) = ask v in
            if \<not> ok then no_attempts v else (0, v\<lparr>dtls_ssl := True\<rparr>))"

definition do_handshake :: "'z vpninfo \<Rightarrow> handshake \<times> 'z vpninfo" where
  "do_handshake v = (case e_dtls_hs (env v) of
      [] \<Rightarrow> (Hs_Want, v)
    | h # hs \<Rightarrow> (h, upd_env (\<lambda>e. e\<lparr>e_dtls_hs := hs\<rparr>) v))"

definition handshake_failed :: "'z vpninfo \<Rightarrow> int \<times> 'z vpninfo" where
  "handshake_failed v =
     (let v = (dtls_close v)\<lparr>dtls_state := DTLS_SLEEPING\<rparr>; (t, v) = time_now v in
      (err EINVAL, v\<lparr>new_dtls_started := t\<rparr>))"

definition dtls_try_handshake :: "'z vpninfo \<Rightarrow> int \<times> 'z vpninfo" where
  "dtls_try_handshake v =
     (let (h, v) = do_handshake v in
      case h of
        Hs_Done \<Rightarrow>
          (let (t, v) = time_now (v\<lparr>dtls_state := DTLS_CONNECTED\<rparr>) in
           (0, upd_dtls (\<lambda>k. k\<lparr>ka_last_tx := t, ka_last_rx := t, ka_last_rekey := t\<rparr>) v))
      | Hs_Want \<Rightarrow>
          (let (t, v) = time_now v in
           if t < new_dtls_started v + 12 then (0, v) else handshake_failed v)
      | Hs_Failed \<Rightarrow> handshake_failed v)"

section \<open>The socket\<close>

text \<open>\<open>bind\<close> to the local port, when one is set.\<close>

definition dtls_bind :: "'z vpninfo \<Rightarrow> int \<times> 'z vpninfo" where
  "dtls_bind v =
     (if c_dtls_local_port (config v) = 0 then (0, v)
      else if c_peer_family (config v) = AF_OTHER then no_attempts v
      else let (ok, v) = ask v in (if ok then 0 else err EINVAL, v))"

definition connect_dtls_socket :: "'z vpninfo \<Rightarrow> int \<times> 'z vpninfo" where
  "connect_dtls_socket v =
     (if dtls_fd v \<or> dtls_addr v = None \<or> dtls_cipher v = None \<or> c_proxy (config v) then no_attempts v
      else
        let (ok, v) = ask v in
        if \<not> ok then (err EINVAL, v)
        else
          let (r, v) = dtls_bind v in
          if r \<noteq> 0 then (r, v)
          else
            let (ok, v) = ask v in
            if \<not> ok then (err EINVAL, v)
            else
              let (r, v) = start_dtls_handshake v in
              if r \<noteq> 0 then (r, v)
              else
                let v = v\<lparr>dtls_state := DTLS_CONNECTING, dtls_fd := True,
                          mon := (mon v)\<lparr>mon_dtls_rd := True, mon_dtls_ex := True\<rparr>\<rparr>;
                    (t, v) = time_now v in
                dtls_try_handshake (v\<lparr>new_dtls_started := t\<rparr>))"

definition dtls_reconnect :: "'z vpninfo \<Rightarrow> int \<times> 'z vpninfo" where
  "dtls_reconnect v = connect_dtls_socket ((dtls_close v)\<lparr>dtls_state := DTLS_SLEEPING\<rparr>)"

definition dtls_shutdown :: "'z vpninfo \<Rightarrow> 'z vpninfo" where
  "dtls_shutdown v = dtls_close v"

section \<open>The options\<close>

definition dtls_option :: "string \<Rightarrow> string \<Rightarrow> int \<Rightarrow> 'z vpninfo \<Rightarrow> int \<times> 'z vpninfo" where
  "dtls_option name value port v =
     (if name = ''Port'' then (atoi value, v)
      else if name = ''Keepalive'' then (port, upd_dtls (\<lambda>k. k\<lparr>ka_keepalive := atoi value\<rparr>) v)
      else if name = ''DPD'' then (port, upd_dtls (lower_dpd (atoi value)) v)
      else if name = ''Rekey-Method''
      then (port, upd_dtls (\<lambda>k. k\<lparr>ka_rekey_method := rekey_method_of value\<rparr>) v)
      else if name = ''Rekey-Time'' then (port, upd_dtls (\<lambda>k. k\<lparr>ka_rekey := atoi value\<rparr>) v)
      else if name = ''CipherSuite''
      then let (ok, v) = ask v in (port, v\<lparr>dtls_cipher := (if ok then Some value else None)\<rparr>)
      else (port, v))"

fun dtls_option_loop :: "(string \<times> string) list \<Rightarrow> int \<Rightarrow> 'z vpninfo \<Rightarrow> int \<times> 'z vpninfo" where
  "dtls_option_loop [] port v = (port, v)"
| "dtls_option_loop ((option, value) # os) port v =
     (let (port, v) = dtls_option (drop 7 option) value port v in dtls_option_loop os port v)"

text \<open>\<open>htons\<close> takes 16 bits of the port.\<close>

definition openconnect_setup_dtls :: "int \<Rightarrow> 'z vpninfo \<Rightarrow> int \<times> 'z vpninfo" where
  "openconnect_setup_dtls attempt_period v =
     (let v = v\<lparr>dtls_attempt_period := attempt_period\<rparr> in
      if attempt_period = 0 then (0, v)
      else
        let (port, v) = dtls_option_loop (dtls_options v) 0 v in
        if port = 0 then no_attempts v
        else
          let v = upd_dtls (\<lambda>k. if ka_rekey k \<le> 0 then k\<lparr>ka_rekey_method := REKEY_NONE\<rparr> else k) v;
              (ok, v) = ask v in
          if \<not> ok then (err ENOMEM, v\<lparr>dtls_addr := None, dtls_attempt_period := 0\<rparr>)
          else
            let v = v\<lparr>dtls_addr := Some (c_peer_family (config v), port mod 65536)\<rparr> in
            if c_peer_family (config v) = AF_OTHER then no_attempts v
            else let (r, v) = connect_dtls_socket v in (if r \<noteq> 0 then err EINVAL else 0, v))"

section \<open>Receiving\<close>

text \<open>
  \<open>DTLS_SEND\<close>: whether the result is positive; the caller counts a short write as a success.
\<close>

definition dtls_answer :: "'z vpninfo \<Rightarrow> ssl_wr \<times> 'z vpninfo" where
  "dtls_answer v = (case e_dtls_wr (env v) of
      [] \<Rightarrow> (Want_Write, v)
    | a # as \<Rightarrow> (a, upd_env (\<lambda>e. e\<lparr>e_dtls_wr := as\<rparr>) v))"

definition dtls_send :: "bytes \<Rightarrow> 'z vpninfo \<Rightarrow> ssl_wr \<times> 'z vpninfo" where
  "dtls_send bs v =
     (let (a, v) = dtls_answer v in
      case a of
        Wr_All \<Rightarrow> (a, log_dtls bs v)
      | Wr_Part n \<Rightarrow> (a, log_dtls (take (Suc n) bs) v)
      | _ \<Rightarrow> (a, v))"

text \<open>The static buffer \<open>dtls_pkt\<close>, which grows when the MTU does.\<close>

definition dtls_alloc :: "'z vpninfo \<Rightarrow> bool \<times> 'z vpninfo" where
  "dtls_alloc v =
     (let len = ip_mtu (ip_info v) in
      if (case dtls_pkt_max v of None \<Rightarrow> True | Some m \<Rightarrow> len > m)
      then let (ok, v) = ask v in (ok, v\<lparr>dtls_pkt_max := (if ok then Some len else None)\<rparr>)
      else (True, v))"

text \<open>One packet, whose first byte is its type.\<close>

definition dtls_receive :: "byte \<Rightarrow> bytes \<Rightarrow> 'z vpninfo \<Rightarrow> bool \<Rightarrow> bool \<times> 'z vpninfo" where
  "dtls_receive type payload v work =
     (if type = AC_PKT_DATA then
        (True, v\<lparr>incoming_queue := queue_packet (incoming_queue v)
                    \<lparr>pkt_hdr = replicate 7 0 @ [type], pkt_data = payload\<rparr>,
                 dtls_pkt_max := None\<rparr>)
      else if type = AC_PKT_DPD_OUT then (work, snd (dtls_send [AC_PKT_DPD_RESP] v))
      else (work, v))"

fun dtls_read_loop :: "bytes list \<Rightarrow> 'z vpninfo \<Rightarrow> bool \<Rightarrow> bool \<times> 'z vpninfo" where
  "dtls_read_loop [] v work = (let (ok, v) = dtls_alloc v in (work, v))"
| "dtls_read_loop (r # rs) v work =
     (let (ok, v) = dtls_alloc v in
      if \<not> ok then (work, v)
      else
        let v = upd_env (\<lambda>e. e\<lparr>e_dtls_rd := rs\<rparr>) v in
        case take (nat (ip_mtu (ip_info v) + 1)) r of
          [] \<Rightarrow> (work, v)
        | type # payload \<Rightarrow>
            (let (t, v) = time_now v;
                 (work, v) = dtls_receive type payload (upd_dtls (\<lambda>k. k\<lparr>ka_last_rx := t\<rparr>) v) work in
             dtls_read_loop rs v work))"

section \<open>Sending\<close>

fun dtls_send_loop :: "pkt list \<Rightarrow> 'z vpninfo \<Rightarrow> bool \<Rightarrow> bool \<times> 'z vpninfo" where
  "dtls_send_loop [] v work = (work, v)"
| "dtls_send_loop (p # q) v work =
     (let v = v\<lparr>outgoing_queue := q, outgoing_qlen := outgoing_qlen v - 1\<rparr>;
          p = p\<lparr>pkt_hdr := (pkt_hdr p)[7 := AC_PKT_DATA]\<rparr>;
          (a, v) = dtls_send (AC_PKT_DATA # pkt_data p) v in
      case a of
        Want_Write \<Rightarrow>
          (work, v\<lparr>mon := (mon v)\<lparr>mon_dtls_wr := True\<rparr>, outgoing_queue := p # q,
                   outgoing_qlen := outgoing_qlen v + 1\<rparr>)
      | Want_Read \<Rightarrow> (work, v)
      | Wr_Err \<Rightarrow>
          (let v = snd (dtls_reconnect v) in
           (True, v\<lparr>outgoing_queue := p # q, outgoing_qlen := outgoing_qlen v + 1\<rparr>))
      | _ \<Rightarrow>
          (let (t, v) = time_now v in
           dtls_send_loop q (upd_dtls (\<lambda>k. k\<lparr>ka_last_tx := t\<rparr>) v) work))"

definition dtls_service_queue :: "'z vpninfo \<Rightarrow> bool \<Rightarrow> bool \<times> 'z vpninfo" where
  "dtls_service_queue v work =
     (let v = v\<lparr>mon := (mon v)\<lparr>mon_dtls_wr := False\<rparr>\<rparr> in dtls_send_loop (outgoing_queue v) v work)"

section \<open>The loop\<close>

abbreviation int_of_bool :: "bool \<Rightarrow> int" where
  "int_of_bool b \<equiv> (if b then 1 else 0)"

definition dtls_rekey_ssl :: "'z vpninfo \<Rightarrow> int \<times> 'z vpninfo" where
  "dtls_rekey_ssl v =
     (let (t, v) = time_now v;
          (ret, v) = dtls_try_handshake (v\<lparr>new_dtls_started := t, dtls_state := DTLS_CONNECTING\<rparr>) in
      if ret \<noteq> 0 then connect_dtls_socket v else (1, v))"

text \<open>What follows the read loop.\<close>

definition dtls_act :: "bool \<Rightarrow> int \<Rightarrow> 'z vpninfo \<Rightarrow> int \<times> int \<times> 'z vpninfo" where
  "dtls_act work timeout v =
     (let (now, v) = time_now v;
          (action, ka, timeout) = keepalive_action (dtls_times v) timeout now;
          v = v\<lparr>dtls_times := ka\<rparr> in
      case action of
        KA_REKEY \<Rightarrow>
          (let (r, v) = (if ka_rekey_method (dtls_times v) = REKEY_SSL then dtls_rekey_ssl v else (1, v)) in
           (r, timeout, v))
      | KA_DPD_DEAD \<Rightarrow> (1, timeout, snd (dtls_reconnect v))
      | KA_DPD \<Rightarrow>
          (let v = upd_dtls (\<lambda>k. k\<lparr>ka_last_tx := ka_last_dpd k\<rparr>) (snd (dtls_send [AC_PKT_DPD_OUT] v));
               (work, v) = dtls_service_queue v True in
           (int_of_bool work, timeout, v))
      | KA_KEEPALIVE \<Rightarrow>
          (let (work, v) =
             (if outgoing_queue v \<noteq> [] then (work, v)
              else let (t, v) = time_now (snd (dtls_send [AC_PKT_KEEPALIVE] v)) in
                   (True, upd_dtls (\<lambda>k. k\<lparr>ka_last_tx := t\<rparr>) v));
               (work, v) = dtls_service_queue v work in
           (int_of_bool work, timeout, v))
      | KA_NONE \<Rightarrow> (let (work, v) = dtls_service_queue v work in (int_of_bool work, timeout, v)))"

text \<open>The product is an \<open>int\<close>: it is taken to wrap around when the attempt period is of weeks.\<close>

definition dtls_sleep :: "int \<Rightarrow> 'z vpninfo \<Rightarrow> int \<times> 'z vpninfo" where
  "dtls_sleep timeout v =
     (let (t, v) = time_now v; w = to_int (new_dtls_started v + dtls_attempt_period v - t) in
      if w \<le> 0 then (timeout, snd (connect_dtls_socket v))
      else if to_int (w * 1000) < timeout then (to_int (w * 1000), v) else (timeout, v))"

text \<open>\<open>None\<close> when \<open>SSL_read\<close> is called on a null pointer.\<close>

definition dtls_mainloop :: "int \<Rightarrow> 'z vpninfo \<Rightarrow> (int \<times> int \<times> 'z vpninfo) option" where
  "dtls_mainloop timeout v =
     (if dtls_state v = DTLS_CONNECTING then Some (0, timeout, snd (dtls_try_handshake v))
      else if dtls_state v = DTLS_SLEEPING then Some (0, dtls_sleep timeout v)
      else if \<not> dtls_ssl v then None
      else
        let (work, v) = dtls_read_loop (e_dtls_rd (env v)) v False in
        Some (dtls_act work timeout v))"

section \<open>The session state\<close>

text \<open>
  There is a session and a socket that is watched exactly while the state is connecting or
  connected.
\<close>

definition dtls_ok :: "'z vpninfo \<Rightarrow> bool" where
  "dtls_ok v \<longleftrightarrow> (dtls_ssl v \<longleftrightarrow> dtls_state v = DTLS_CONNECTING \<or> dtls_state v = DTLS_CONNECTED) \<and>
     dtls_fd v = dtls_ssl v \<and> mon_dtls_rd (mon v) = dtls_ssl v"

definition dtls_view :: "'z vpninfo \<Rightarrow> dtls_status \<times> bool \<times> bool \<times> bool" where
  "dtls_view v = (dtls_state v, dtls_ssl v, dtls_fd v, mon_dtls_rd (mon v))"

lemma dtls_ok_view: "dtls_view w = dtls_view v \<Longrightarrow> dtls_ok w = dtls_ok v"
  by (simp add: dtls_ok_def dtls_view_def)

lemma dtls_view_simps [simp]:
  "dtls_view (upd_env f v) = dtls_view v"
  "dtls_view (upd_dtls g v) = dtls_view v"
  "dtls_view (snd (ask v)) = dtls_view v"
  "dtls_view (snd (time_now v)) = dtls_view v"
  "dtls_view (snd (do_handshake v)) = dtls_view v"
  "dtls_view (snd (dtls_send bs v)) = dtls_view v"
  "dtls_view (snd (dtls_alloc v)) = dtls_view v"
  "dtls_view (snd (dtls_bind v)) = dtls_view v"
  "dtls_view (snd (no_attempts v)) = dtls_view v"
  "dtls_view (v\<lparr>dtls_attempt_period := n\<rparr>) = dtls_view v"
  "dtls_view (v\<lparr>new_dtls_started := n\<rparr>) = dtls_view v"
  "dtls_view (v\<lparr>dtls_pkt_max := m\<rparr>) = dtls_view v"
  "dtls_view (v\<lparr>dtls_times := ka\<rparr>) = dtls_view v"
  "dtls_view (v\<lparr>dtls_addr := x\<rparr>) = dtls_view v"
  "dtls_view (v\<lparr>dtls_cipher := c\<rparr>) = dtls_view v"
  "dtls_view (v\<lparr>dtls_ctx := b\<rparr>) = dtls_view v"
  "dtls_view (v\<lparr>dtls_session := b\<rparr>) = dtls_view v"
  "dtls_view (v\<lparr>incoming_queue := q\<rparr>) = dtls_view v"
  "dtls_view (v\<lparr>outgoing_queue := q\<rparr>) = dtls_view v"
  "dtls_view (v\<lparr>outgoing_qlen := n\<rparr>) = dtls_view v"
  "dtls_view (v\<lparr>mon := (mon v)\<lparr>mon_dtls_wr := b\<rparr>\<rparr>) = dtls_view v"
  by (simp_all add: dtls_view_def upd_dtls_def world_defs do_handshake_def dtls_send_def dtls_answer_def
      dtls_alloc_def dtls_bind_def no_attempts_def split_beta Let_def split: list.split ssl_wr.split)

lemma dtls_view_context [simp]: "dtls_view (snd (dtls_context v)) = dtls_view v"
  by (simp add: dtls_context_def split_beta Let_def)

lemma dtls_close_ok: "dtls_ok v \<Longrightarrow> dtls_view ((dtls_close v)\<lparr>dtls_state := s\<rparr>) = (s, False, False, False)"
  by (simp add: dtls_ok_def dtls_view_def dtls_close_def)

lemma dtls_view_set:
  "dtls_view (v\<lparr>dtls_ssl := b\<rparr>) = (case dtls_view v of (s, _, f, m) \<Rightarrow> (s, b, f, m))"
  "dtls_view (v\<lparr>dtls_state := s'\<rparr>) = (case dtls_view v of (s, b, f, m) \<Rightarrow> (s', b, f, m))"
  "dtls_view (v\<lparr>dtls_state := DTLS_CONNECTING, dtls_fd := True,
      mon := (mon v)\<lparr>mon_dtls_rd := True, mon_dtls_ex := True\<rparr>\<rparr>) =
   (case dtls_view v of (s, b, f, m) \<Rightarrow> (DTLS_CONNECTING, b, True, True))"
  by (simp_all add: dtls_view_def)

lemma dtls_ok_iff:
  "dtls_ok v \<longleftrightarrow> (case dtls_view v of (s, b, f, m) \<Rightarrow>
     (b \<longleftrightarrow> s = DTLS_CONNECTING \<or> s = DTLS_CONNECTED) \<and> f = b \<and> m = b)"
  by (simp add: dtls_ok_def dtls_view_def)

lemma no_attempts_result [simp]: "fst (no_attempts v) \<noteq> 0"
  by (simp add: no_attempts_def)

lemma start_handshake_view:
  "dtls_view (snd (start_dtls_handshake v)) =
     (if fst (start_dtls_handshake v) = 0 then (case dtls_view v of (s, _, f, m) \<Rightarrow> (s, True, f, m)) else dtls_view v)"
  by (simp add: start_dtls_handshake_def split_beta Let_def dtls_view_set)

text \<open>A handshake keeps the invariant, whatever it returns.\<close>

lemma handshake_failed_ok: "dtls_ok v \<Longrightarrow> dtls_view (snd (handshake_failed v)) = (DTLS_SLEEPING, False, False, False)"
  by (simp add: handshake_failed_def split_beta Let_def dtls_close_ok)

lemma try_handshake_ok: "dtls_ok v \<Longrightarrow> dtls_ssl v \<Longrightarrow> dtls_ok (snd (dtls_try_handshake v))"
proof -
  assume ok: "dtls_ok v" "dtls_ssl v"
  have h: "dtls_view (snd (do_handshake v)) = dtls_view v" by simp
  have t: "dtls_view (snd (time_now (snd (do_handshake v)))) = dtls_view v" by simp
  have f: "dtls_view (snd (handshake_failed w)) = (DTLS_SLEEPING, False, False, False)" if "dtls_view w = dtls_view v" for w :: "'a vpninfo"
    using handshake_failed_ok [of w] dtls_ok_view [OF that] ok by simp
  have c: "dtls_view (snd (do_handshake v)\<lparr>dtls_state := DTLS_CONNECTED\<rparr>) = (DTLS_CONNECTED, True, True, True)"
    using ok by (simp add: dtls_view_set) (auto simp: dtls_ok_iff dtls_view_def)
  show ?thesis
    using ok f [OF h] f [OF t] c
    by (simp add: dtls_try_handshake_def split_beta Let_def dtls_ok_iff split: handshake.split)
qed

lemma try_handshake_failed: "dtls_ok v \<Longrightarrow> fst (dtls_try_handshake v) \<noteq> 0 \<Longrightarrow>
    dtls_view (snd (dtls_try_handshake v)) = (DTLS_SLEEPING, False, False, False)"
proof -
  assume ok: "dtls_ok v" and r: "fst (dtls_try_handshake v) \<noteq> 0"
  have "dtls_view (snd (handshake_failed w)) = (DTLS_SLEEPING, False, False, False)" if "dtls_view w = dtls_view v" for w :: "'a vpninfo"
    using handshake_failed_ok [of w] dtls_ok_view [OF that] ok by simp
  then show ?thesis
    using r by (simp add: dtls_try_handshake_def split_beta Let_def split: handshake.split_asm if_splits)
qed

lemma connect_socket_ok: "dtls_ok v \<Longrightarrow> dtls_ok (snd (connect_dtls_socket v))"
proof -
  assume ok: "dtls_ok v"
  let ?v1 = "snd (ask v)" let ?v2 = "snd (dtls_bind ?v1)" let ?v3 = "snd (ask ?v2)"
  let ?h = "start_dtls_handshake ?v3"
  have same: "dtls_view w = dtls_view v \<Longrightarrow> dtls_ok w" for w :: "'a vpninfo"
    using ok dtls_ok_view [of w v] by simp
  let ?v5 = "snd ?h\<lparr>dtls_state := DTLS_CONNECTING, dtls_fd := True,
                 mon := (mon (snd ?h))\<lparr>mon_dtls_rd := True, mon_dtls_ex := True\<rparr>\<rparr>"
  have v5: "fst ?h = 0 \<Longrightarrow> dtls_view ?v5 = (DTLS_CONNECTING, True, True, True)"
    by (simp add: dtls_view_set start_handshake_view split: prod.split)
  have ready: "dtls_ok w \<and> dtls_ssl w" if "dtls_view w = (DTLS_CONNECTING, True, True, True)" for w :: "'a vpninfo"
    using that by (simp add: dtls_ok_iff dtls_view_def)
  have fin: "fst ?h = 0 \<Longrightarrow> dtls_ok (snd (dtls_try_handshake (snd (time_now ?v5)\<lparr>new_dtls_started := t\<rparr>)))" for t
  proof -
    assume "fst ?h = 0"
    with v5 have "dtls_view (snd (time_now ?v5)\<lparr>new_dtls_started := t\<rparr>) = (DTLS_CONNECTING, True, True, True)"
      by (simp only: dtls_view_simps)
    from ready [OF this] show "dtls_ok (snd (dtls_try_handshake (snd (time_now ?v5)\<lparr>new_dtls_started := t\<rparr>)))"
      by (blast intro: try_handshake_ok)
  qed
  have h: "fst ?h \<noteq> 0 \<Longrightarrow> dtls_ok (snd ?h)"
    by (rule same) (simp add: start_handshake_view)
  show ?thesis
    using fin h by (simp add: connect_dtls_socket_def split_beta Let_def same)
qed

lemma dtls_reconnect_ok: "dtls_ok v \<Longrightarrow> dtls_ok (snd (dtls_reconnect v))"
  using dtls_close_ok [of v DTLS_SLEEPING] connect_socket_ok [of "(dtls_close v)\<lparr>dtls_state := DTLS_SLEEPING\<rparr>"]
  by (simp add: dtls_reconnect_def dtls_ok_iff)

lemma dtls_receive_view [simp]: "dtls_view (snd (dtls_receive type payload v work)) = dtls_view v"
proof -
  have "dtls_view (v\<lparr>incoming_queue := q, dtls_pkt_max := m\<rparr>) = dtls_view v" for q m
    by (simp add: dtls_view_def)
  then show ?thesis by (simp add: dtls_receive_def)
qed

lemma dtls_read_loop_view: "dtls_view (snd (dtls_read_loop rs v work)) = dtls_view v"
  by (induction rs arbitrary: v work) (simp_all add: split_beta Let_def split: list.split)

lemma dtls_send_loop_ok: "dtls_ok v \<Longrightarrow> dtls_ok (snd (dtls_send_loop q v work))"
proof (induction q arbitrary: v work)
  case (Cons p q)
  let ?v1 = "v\<lparr>outgoing_queue := q, outgoing_qlen := outgoing_qlen v - 1\<rparr>"
  let ?v2 = "snd (dtls_send (AC_PKT_DATA # pkt_data p) ?v1)"
  have v1: "dtls_view ?v1 = dtls_view v" by (simp add: dtls_view_def)
  have v2: "dtls_view ?v2 = dtls_view v" by (simp only: dtls_view_simps v1)
  have ok: "dtls_ok w" if "dtls_view w = dtls_view v" for w :: "'a vpninfo"
    using Cons.prems dtls_ok_view [OF that] by simp
  have q: "dtls_view (w\<lparr>mon := (mon w)\<lparr>mon_dtls_wr := True\<rparr>, outgoing_queue := y, outgoing_qlen := n\<rparr>) = dtls_view w"
    "dtls_view (w\<lparr>outgoing_queue := y, outgoing_qlen := n\<rparr>) = dtls_view w" for w :: "'a vpninfo" and y n
    by (simp_all add: dtls_view_def)
  have r: "dtls_ok (snd (dtls_reconnect ?v2))" by (intro dtls_reconnect_ok ok v2)
  have s: "dtls_ok (snd (dtls_send_loop q (upd_dtls f (snd (time_now ?v2))) work))" for f
    by (intro Cons.IH ok) (simp only: dtls_view_simps v2)
  show ?case
    using r s ok [OF v2] by (simp add: split_beta Let_def dtls_ok_iff q v2 split: ssl_wr.split)
qed simp

lemma dtls_service_queue_ok: "dtls_ok v \<Longrightarrow> dtls_ok (snd (dtls_service_queue v work))"
proof -
  assume "dtls_ok v"
  then have "dtls_ok (v\<lparr>mon := (mon v)\<lparr>mon_dtls_wr := False\<rparr>\<rparr>)" by (simp add: dtls_ok_def)
  then show ?thesis by (simp add: dtls_service_queue_def Let_def dtls_send_loop_ok)
qed

lemma dtls_rekey_ssl_ok: "dtls_ok v \<Longrightarrow> dtls_ssl v \<Longrightarrow> dtls_ok (snd (dtls_rekey_ssl v))"
proof -
  assume ok: "dtls_ok v" "dtls_ssl v"
  let ?u = "snd (time_now v)\<lparr>new_dtls_started := fst (time_now v), dtls_state := DTLS_CONNECTING\<rparr>"
  have "dtls_view ?u = (DTLS_CONNECTING, True, True, True)"
    using ok by (simp add: dtls_view_def dtls_ok_def time_now_def upd_env_def)
  then have "dtls_ok ?u" "dtls_ssl ?u" by (simp_all add: dtls_ok_iff dtls_view_def)
  from try_handshake_ok [OF this] have "dtls_ok (snd (dtls_try_handshake ?u))" .
  then show ?thesis by (simp add: dtls_rekey_ssl_def split_beta Let_def connect_socket_ok)
qed

lemma dtls_act_ok:
  assumes "dtls_ok v" "dtls_ssl v"
  shows "dtls_ok (snd (snd (dtls_act work timeout v)))"
proof -
  obtain now u where t: "time_now v = (now, u)" by (metis surj_pair)
  obtain a ka t' where k: "keepalive_action (dtls_times u) timeout now = (a, ka, t')" by (metis surj_pair)
  let ?w = "u\<lparr>dtls_times := ka\<rparr>"
  have w: "dtls_ok ?w" "dtls_ssl ?w"
    using assms arg_cong [OF t, of snd] by (auto simp: dtls_ok_def time_now_def upd_env_def)
  have ok: "dtls_ok x" if "dtls_view x = dtls_view ?w" for x :: "'a vpninfo"
    using w dtls_ok_view [OF that] by simp
  show ?thesis
  proof (cases a)
    case KA_REKEY
    then show ?thesis using w by (simp add: dtls_act_def t k split_beta Let_def dtls_rekey_ssl_ok)
  next
    case KA_DPD_DEAD
    then show ?thesis using w by (simp add: dtls_act_def t k dtls_reconnect_ok)
  next
    case KA_DPD
    then show ?thesis
      by (simp add: dtls_act_def t k split_beta Let_def) (intro dtls_service_queue_ok ok, simp only: dtls_view_simps)
  next
    case KA_KEEPALIVE
    have "dtls_ok (snd (dtls_service_queue (upd_dtls f (snd (time_now (snd (dtls_send bs ?w))))) b))" for f bs b
      by (intro dtls_service_queue_ok ok) (simp only: dtls_view_simps)
    then show ?thesis
      using KA_KEEPALIVE w by (simp add: dtls_act_def t k split_beta Let_def dtls_service_queue_ok)
  next
    case KA_NONE
    then show ?thesis using w by (simp add: dtls_act_def t k split_beta Let_def dtls_service_queue_ok)
  qed
qed

lemma dtls_sleep_ok: "dtls_ok v \<Longrightarrow> dtls_ok (snd (dtls_sleep timeout v))"
proof -
  assume "dtls_ok v"
  then have "dtls_ok (snd (time_now v))" using dtls_ok_view [of "snd (time_now v)" v] by simp
  then show ?thesis by (simp add: dtls_sleep_def split_beta Let_def connect_socket_ok)
qed

lemma dtls_mainloop_ok:
  assumes "dtls_ok v" "dtls_state v \<notin> {DTLS_NOSECRET, DTLS_DISABLED}"
  shows "\<exists>r t w. dtls_mainloop timeout v = Some (r, t, w) \<and> dtls_ok w"
proof -
  consider (connecting) "dtls_state v = DTLS_CONNECTING" | (sleeping) "dtls_state v = DTLS_SLEEPING"
    | (connected) "dtls_state v = DTLS_CONNECTED"
    using assms(2) by (cases "dtls_state v") auto
  then show ?thesis
  proof cases
    case connecting
    then show ?thesis
      using assms(1) try_handshake_ok [OF assms(1)] by (simp add: dtls_mainloop_def dtls_ok_def)
  next
    case sleeping
    then show ?thesis
      using dtls_sleep_ok [OF assms(1), of timeout]
      by (cases "dtls_sleep timeout v") (simp add: dtls_mainloop_def)
  next
    case connected
    obtain work u where u: "dtls_read_loop (e_dtls_rd (env v)) v False = (work, u)" by (metis surj_pair)
    have "dtls_view u = dtls_view v" using dtls_read_loop_view [of "e_dtls_rd (env v)" v False] u by simp
    then have "dtls_ok u" "dtls_ssl u" "dtls_ssl v"
      using assms(1) connected dtls_ok_view [of u v] by (auto simp: dtls_view_def dtls_ok_def)
    with dtls_act_ok [of u work timeout] connected u show ?thesis
      by (cases "dtls_act work timeout u") (simp add: dtls_mainloop_def)
  qed
qed

section \<open>The outgoing queue\<close>

text \<open>
  What connecting and closing leave alone: everything but the DTLS session, the watched
  descriptors and the answers that are used up.
\<close>

definition dtls_frame :: "'z vpninfo \<Rightarrow> 'z vpninfo \<Rightarrow> bool" where
  "dtls_frame v w \<longleftrightarrow>
     w = v\<lparr>env := env w, mon := mon w, dtls_state := dtls_state w, dtls_times := dtls_times w,
           dtls_ctx := dtls_ctx w, dtls_session := dtls_session w, dtls_ssl := dtls_ssl w, dtls_fd := dtls_fd w,
           new_dtls_started := new_dtls_started w, dtls_attempt_period := dtls_attempt_period w\<rparr> \<and>
     env w = (env v)\<lparr>e_ticks := e_ticks (env w), e_calls := e_calls (env w), e_dtls_hs := e_dtls_hs (env w)\<rparr>"

lemma dtls_frame_refl [simp]: "dtls_frame v v"
  by (simp add: dtls_frame_def)

lemma dtls_frame_trans: "dtls_frame u v \<Longrightarrow> dtls_frame v w \<Longrightarrow> dtls_frame u w"
  by (cases u; cases v; cases w; cases "env u"; cases "env v"; cases "env w") (simp add: dtls_frame_def)

named_theorems dtls_step

lemma dtls_frame_upd [dtls_step]:
  assumes "dtls_frame u v"
  shows "dtls_frame u (snd (ask v))" "dtls_frame u (snd (time_now v))" "dtls_frame u (snd (do_handshake v))"
    "dtls_frame u (upd_dtls f v)" "dtls_frame u (v\<lparr>dtls_ctx := b\<rparr>)" "dtls_frame u (v\<lparr>dtls_session := b\<rparr>)"
    "dtls_frame u (v\<lparr>dtls_ssl := b\<rparr>)" "dtls_frame u (v\<lparr>dtls_state := s\<rparr>)" "dtls_frame u (v\<lparr>mon := m\<rparr>)"
    "dtls_frame u (v\<lparr>new_dtls_started := n\<rparr>)" "dtls_frame u (v\<lparr>dtls_times := ka\<rparr>)" "dtls_frame u (dtls_close v)"
    "dtls_frame u (snd (no_attempts v))" "dtls_frame u (v\<lparr>dtls_fd := b\<rparr>)"
  by (rule dtls_frame_trans [OF assms],
      simp add: dtls_frame_def ask_def time_now_def do_handshake_def upd_env_def upd_dtls_def dtls_close_def
        no_attempts_def split: list.split)+

lemma dtls_frame_dtls_context [dtls_step]: "dtls_frame u v \<Longrightarrow> dtls_frame u (snd (dtls_context v))"
  by (simp add: dtls_context_def split_beta Let_def dtls_step)

lemma dtls_frame_start [dtls_step]: "dtls_frame u v \<Longrightarrow> dtls_frame u (snd (start_dtls_handshake v))"
  by (simp add: start_dtls_handshake_def split_beta Let_def dtls_step)

lemma dtls_frame_try [dtls_step]: "dtls_frame u v \<Longrightarrow> dtls_frame u (snd (dtls_try_handshake v))"
  by (simp add: dtls_try_handshake_def handshake_failed_def split_beta Let_def dtls_step split: handshake.split)

lemma dtls_frame_bind [dtls_step]: "dtls_frame u v \<Longrightarrow> dtls_frame u (snd (dtls_bind v))"
  by (simp add: dtls_bind_def split_beta Let_def dtls_step)

lemma dtls_frame_up [dtls_step]:
  assumes "dtls_frame u v"
  shows "dtls_frame u (v\<lparr>dtls_state := s, dtls_fd := b, mon := m\<rparr>)"
  by (rule dtls_frame_trans [OF assms]) (simp add: dtls_frame_def)

lemma dtls_frame_connect [dtls_step]: "dtls_frame u v \<Longrightarrow> dtls_frame u (snd (connect_dtls_socket v))"
  by (simp add: connect_dtls_socket_def split_beta Let_def dtls_step)

lemma dtls_frame_reconnect [dtls_step]: "dtls_frame u v \<Longrightarrow> dtls_frame u (snd (dtls_reconnect v))"
  by (simp add: dtls_reconnect_def dtls_step)

lemma dtls_frame_rekey [dtls_step]: "dtls_frame u v \<Longrightarrow> dtls_frame u (snd (dtls_rekey_ssl v))"
proof -
  assume a: "dtls_frame u v"
  have "dtls_frame u (snd (time_now v)\<lparr>new_dtls_started := t, dtls_state := s\<rparr>)" for t s
    by (rule dtls_frame_trans [OF dtls_frame_upd(2) [OF a]]) (simp add: dtls_frame_def)
  then show ?thesis by (simp add: dtls_rekey_ssl_def split_beta Let_def dtls_step)
qed

lemma dtls_frame_sleep [dtls_step]: "dtls_frame u v \<Longrightarrow> dtls_frame u (snd (dtls_sleep timeout v))"
  by (simp add: dtls_sleep_def split_beta Let_def dtls_step)

lemma dtls_frame_simps:
  assumes "dtls_frame v w"
  shows "outgoing_queue w = outgoing_queue v" "outgoing_qlen w = outgoing_qlen v"
    "incoming_queue w = incoming_queue v" "o_dtls (env w) = o_dtls (env v)" "e_dtls_wr (env w) = e_dtls_wr (env v)"
    "quit_reason w = quit_reason v" "config w = config v" "current_ssl_pkt w = current_ssl_pkt v"
    "outs (env w) = outs (env v)"
proof -
  note w = assms [unfolded dtls_frame_def, THEN conjunct1] and e = assms [unfolded dtls_frame_def, THEN conjunct2]
  show "outgoing_queue w = outgoing_queue v" "outgoing_qlen w = outgoing_qlen v"
    "incoming_queue w = incoming_queue v" "quit_reason w = quit_reason v" "config w = config v"
    "current_ssl_pkt w = current_ssl_pkt v"
    by (subst w, simp)+
  show "o_dtls (env w) = o_dtls (env v)" "e_dtls_wr (env w) = e_dtls_wr (env v)" "outs (env w) = outs (env v)"
    by (subst e, simp)+
qed

text \<open>The payloads of the data packets in a log.\<close>

definition dtls_data :: "bytes list \<Rightarrow> bytes list" where
  "dtls_data os = map tl (filter (\<lambda>f. f \<noteq> [] \<and> hd f = AC_PKT_DATA) os)"

lemma dtls_data_simps [simp]:
  "dtls_data [] = []" "dtls_data (xs @ ys) = dtls_data xs @ dtls_data ys"
  "dtls_data [AC_PKT_DATA # bs] = [bs]" "b \<noteq> AC_PKT_DATA \<Longrightarrow> dtls_data [b # bs] = []"
  by (simp_all add: dtls_data_def)

text \<open>
  From \<open>v\<close> to \<open>w\<close>, each packet of the outgoing queue was sent once, in order, or is still queued,
  but for at most one that was lost.
\<close>

definition dtls_conserved :: "'z vpninfo \<Rightarrow> 'z vpninfo \<Rightarrow> bool" where
  "dtls_conserved v w \<longleftrightarrow>
     (\<exists>sent lost. map pkt_data (outgoing_queue v) = sent @ lost @ map pkt_data (outgoing_queue w) \<and>
        dtls_data (o_dtls (env w)) = dtls_data (o_dtls (env v)) @ sent \<and>
        (lost = [] \<or> length lost = 1 \<and> Want_Read \<in> set (e_dtls_wr (env v))) \<and>
        outgoing_qlen w = outgoing_qlen v - int (length sent + length lost))"

lemma dtls_conserved_frame: "dtls_frame v w \<Longrightarrow> dtls_conserved v w"
  unfolding dtls_conserved_def by (rule exI [of _ "[]"], rule exI [of _ "[]"]) (simp add: dtls_frame_simps)

definition whole_writes :: "'z vpninfo \<Rightarrow> bool" where
  "whole_writes v \<longleftrightarrow> (\<forall>n. Wr_Part n \<notin> set (e_dtls_wr (env v)))"

text \<open>The steps of the send loop.\<close>

definition dequeued :: "pkt list \<Rightarrow> 'z vpninfo \<Rightarrow> 'z vpninfo" where
  "dequeued q v = v\<lparr>outgoing_queue := q, outgoing_qlen := outgoing_qlen v - 1\<rparr>"

lemma dtls_send_loop_step:
  "dtls_send_loop (p # q) v work =
     (case dtls_send (AC_PKT_DATA # pkt_data p) (dequeued q v) of (a, u) \<Rightarrow>
      (case a of
        Want_Write \<Rightarrow> (work, u\<lparr>mon := (mon u)\<lparr>mon_dtls_wr := True\<rparr>,
            outgoing_queue := p\<lparr>pkt_hdr := (pkt_hdr p)[7 := AC_PKT_DATA]\<rparr> # q, outgoing_qlen := outgoing_qlen u + 1\<rparr>)
      | Want_Read \<Rightarrow> (work, u)
      | Wr_Err \<Rightarrow> (True, (snd (dtls_reconnect u))\<lparr>outgoing_queue := p\<lparr>pkt_hdr := (pkt_hdr p)[7 := AC_PKT_DATA]\<rparr> # q,
            outgoing_qlen := outgoing_qlen u + 1\<rparr>)
      | _ \<Rightarrow> dtls_send_loop q (upd_dtls (\<lambda>k. k\<lparr>ka_last_tx := fst (time_now u)\<rparr>) (snd (time_now u))) work))"
  by (simp add: dequeued_def Let_def split_beta dtls_frame_simps [OF dtls_frame_reconnect [OF dtls_frame_refl]]
      split: ssl_wr.split)

lemma dtls_send_whole:
  assumes "dtls_send bs v = (a, u)" "whole_writes v"
  shows "a = Wr_All \<and> o_dtls (env u) = o_dtls (env v) @ [bs] \<or>
      a \<in> {Want_Write, Want_Read, Wr_Err} \<and> o_dtls (env u) = o_dtls (env v)"
    and "a = Want_Read \<longrightarrow> Want_Read \<in> set (e_dtls_wr (env v))" and "whole_writes u"
    and "set (e_dtls_wr (env u)) \<subseteq> set (e_dtls_wr (env v))"
    and "outgoing_queue u = outgoing_queue v" "outgoing_qlen u = outgoing_qlen v" "incoming_queue u = incoming_queue v"
  using assms
  by (auto simp: dtls_send_def dtls_answer_def whole_writes_def log_dtls_def upd_env_def split_beta
      split: list.splits ssl_wr.splits)

lemma dtls_send_loop_conserved:
  "dtls_send_loop (outgoing_queue v) v work = (r, w) \<Longrightarrow> whole_writes v \<Longrightarrow> dtls_conserved v w"
proof (induction "outgoing_queue v" arbitrary: v work)
  case Nil
  then show ?case by (simp add: dtls_conserved_def)
next
  case (Cons p q)
  obtain a u where s: "dtls_send (AC_PKT_DATA # pkt_data p) (dequeued q v) = (a, u)" by (metis surj_pair)
  have "whole_writes (dequeued q v)" using Cons.prems(2) by (simp add: whole_writes_def dequeued_def)
  note d = dtls_send_whole [OF s this]
  have run: "dtls_send_loop (p # q) v work = (r, w)" using Cons by simp
  note step = run [unfolded dtls_send_loop_step s prod.case]
  have v: "map pkt_data (outgoing_queue v) = pkt_data p # map pkt_data q"
    using Cons.hyps(2) by (metis list.simps(9))
  have dq: "outgoing_queue u = q" "outgoing_qlen u = outgoing_qlen v - 1" "e_dtls_wr (env (dequeued q v)) = e_dtls_wr (env v)"
    "o_dtls (env (dequeued q v)) = o_dtls (env v)"
    using d(5,6) by (simp_all add: dequeued_def)
  show ?case
  proof (cases a)
    case Wr_All
    let ?x = "upd_dtls (\<lambda>k. k\<lparr>ka_last_tx := fst (time_now u)\<rparr>) (snd (time_now u))"
    have f: "dtls_frame u ?x" by (simp add: dtls_step)
    have "dtls_send_loop (outgoing_queue ?x) ?x work = (r, w)"
      using step Wr_All dq by (simp add: dtls_frame_simps [OF f])
    moreover have "whole_writes ?x" using d(3) by (simp add: whole_writes_def dtls_frame_simps [OF f])
    ultimately have "dtls_conserved ?x w"
      by (intro Cons.hyps(1)) (use dq in \<open>simp_all add: dtls_frame_simps [OF f]\<close>)
    then obtain sent lost where "map pkt_data q = sent @ lost @ map pkt_data (outgoing_queue w)"
      "dtls_data (o_dtls (env w)) = dtls_data (o_dtls (env u)) @ sent"
      "lost = [] \<or> length lost = 1 \<and> Want_Read \<in> set (e_dtls_wr (env u))"
      "outgoing_qlen w = outgoing_qlen u - int (length sent + length lost)"
      using dq by (auto simp: dtls_conserved_def dtls_frame_simps [OF f])
    then show ?thesis
      unfolding dtls_conserved_def v using d(1,4) Wr_All dq
      by (intro exI [of _ "pkt_data p # sent"] exI [of _ lost]) auto
  next
    case Want_Write
    with step have "w = u\<lparr>mon := (mon u)\<lparr>mon_dtls_wr := True\<rparr>,
        outgoing_queue := p\<lparr>pkt_hdr := (pkt_hdr p)[7 := AC_PKT_DATA]\<rparr> # q, outgoing_qlen := outgoing_qlen u + 1\<rparr>" by simp
    then show ?thesis
      unfolding dtls_conserved_def v using d(1) Want_Write dq by (intro exI [of _ "[]"]) simp
  next
    case Want_Read
    with step have "w = u" by simp
    then show ?thesis
      unfolding dtls_conserved_def v using d(1,2) Want_Read dq
      by (intro exI [of _ "[]"] exI [of _ "[pkt_data p]"]) simp
  next
    case Wr_Err
    note f = dtls_frame_simps [OF dtls_frame_reconnect [OF dtls_frame_refl [of u]]]
    from step Wr_Err have "w = (snd (dtls_reconnect u))\<lparr>outgoing_queue := p\<lparr>pkt_hdr := (pkt_hdr p)[7 := AC_PKT_DATA]\<rparr> # q,
        outgoing_qlen := outgoing_qlen u + 1\<rparr>" by simp
    then show ?thesis
      unfolding dtls_conserved_def v using d(1) Wr_Err dq f by (intro exI [of _ "[]"]) simp
  qed (use d(1) in simp)
qed

text \<open>Steps that send no data.\<close>

definition dtls_quiet :: "'z vpninfo \<Rightarrow> 'z vpninfo \<Rightarrow> bool" where
  "dtls_quiet v w \<longleftrightarrow> outgoing_queue w = outgoing_queue v \<and> outgoing_qlen w = outgoing_qlen v \<and>
     dtls_data (o_dtls (env w)) = dtls_data (o_dtls (env v)) \<and>
     set (e_dtls_wr (env w)) \<subseteq> set (e_dtls_wr (env v))"

lemma dtls_quiet_refl [simp]: "dtls_quiet v v"
  by (simp add: dtls_quiet_def)

lemma dtls_quiet_trans: "dtls_quiet u v \<Longrightarrow> dtls_quiet v w \<Longrightarrow> dtls_quiet u w"
  by (auto simp: dtls_quiet_def)

lemma dtls_quiet_frame: "dtls_frame v w \<Longrightarrow> dtls_quiet v w"
  by (simp add: dtls_quiet_def dtls_frame_simps)

lemma dtls_quiet_whole: "dtls_quiet v w \<Longrightarrow> whole_writes v \<Longrightarrow> whole_writes w"
  by (auto simp: dtls_quiet_def whole_writes_def)

lemma dtls_quiet_conserved: "dtls_quiet u v \<Longrightarrow> dtls_conserved v w \<Longrightarrow> dtls_conserved u w"
  unfolding dtls_quiet_def dtls_conserved_def by (elim conjE exE) (intro exI conjI; auto)

lemma dtls_quiet_conserved2: "dtls_conserved u v \<Longrightarrow> dtls_quiet v w \<Longrightarrow> dtls_conserved u w"
  unfolding dtls_quiet_def dtls_conserved_def by (elim conjE exE) (intro exI conjI; auto)

lemma dtls_quiet_control: "b \<noteq> AC_PKT_DATA \<Longrightarrow> dtls_quiet v (snd (dtls_send [b] v))"
  by (auto simp: dtls_quiet_def dtls_send_def dtls_answer_def log_dtls_def upd_env_def split_beta
      split: list.split ssl_wr.split)

lemma dtls_quiet_alloc: "dtls_quiet v (snd (dtls_alloc v))"
  by (auto simp: dtls_quiet_def dtls_alloc_def ask_def upd_env_def Let_def split_beta split: list.split)

lemma dtls_quiet_receive: "dtls_quiet v (snd (dtls_receive type payload v work))"
proof -
  have "dtls_quiet v (v\<lparr>incoming_queue := q, dtls_pkt_max := m\<rparr>)" for q m by (simp add: dtls_quiet_def)
  then show ?thesis by (simp add: dtls_receive_def dtls_quiet_control)
qed

lemma dtls_quiet_read_loop: "dtls_quiet u v \<Longrightarrow> dtls_quiet u (snd (dtls_read_loop rs v work))"
proof (induction rs arbitrary: v work)
  case Nil
  then show ?case by (simp add: split_beta dtls_quiet_trans [OF _ dtls_quiet_alloc])
next
  case (Cons r rs)
  let ?a = "snd (dtls_alloc v)" let ?v = "upd_env (\<lambda>e. e\<lparr>e_dtls_rd := rs\<rparr>) ?a"
  have a: "dtls_quiet u ?a" by (rule dtls_quiet_trans [OF Cons.prems dtls_quiet_alloc])
  have v: "dtls_quiet u ?v"
    by (rule dtls_quiet_trans [OF a]) (simp add: dtls_quiet_def upd_env_def)
  have "dtls_quiet u (snd (dtls_receive b bs (upd_dtls f (snd (time_now ?v))) work))" for b bs f
    by (rule dtls_quiet_trans [OF dtls_quiet_trans [OF v dtls_quiet_frame] dtls_quiet_receive]) (simp add: dtls_step)
  then show ?case using a v Cons.IH by (simp add: split_beta Let_def split: list.split)
qed

lemma dtls_service_conserved:
  assumes "whole_writes v"
  shows "dtls_conserved v (snd (dtls_service_queue v work))"
proof -
  let ?u = "v\<lparr>mon := (mon v)\<lparr>mon_dtls_wr := False\<rparr>\<rparr>"
  have "dtls_frame v ?u" by (simp add: dtls_step)
  then have q: "dtls_quiet v ?u" by (rule dtls_quiet_frame)
  have "dtls_conserved ?u (snd (dtls_send_loop (outgoing_queue ?u) ?u work))"
    by (rule dtls_send_loop_conserved [OF prod.collapse [symmetric] dtls_quiet_whole [OF q assms]])
  from dtls_quiet_conserved [OF q this] show ?thesis by (simp add: dtls_service_queue_def Let_def)
qed

lemma dtls_act_conserved:
  assumes "whole_writes v"
  shows "dtls_conserved v (snd (snd (dtls_act work timeout v)))"
proof -
  obtain now u where t: "time_now v = (now, u)" by (metis surj_pair)
  obtain a ka t' where k: "keepalive_action (dtls_times u) timeout now = (a, ka, t')" by (metis surj_pair)
  let ?w = "u\<lparr>dtls_times := ka\<rparr>"
  have f: "dtls_frame v ?w"
    using dtls_frame_upd(11) [OF dtls_frame_upd(2) [OF dtls_frame_refl [of v]], of ka] t by simp
  have c: "dtls_conserved v (snd (dtls_service_queue x b))" if "dtls_quiet v x" for x b
    by (rule dtls_quiet_conserved [OF that dtls_service_conserved [OF dtls_quiet_whole [OF that assms]]])
  have s: "dtls_quiet v (upd_dtls g (snd (dtls_send [b] ?w)))" "dtls_quiet v (upd_dtls g (snd (time_now (snd (dtls_send [b] ?w)))))"
    if "b \<noteq> AC_PKT_DATA" for b g
    by (rule dtls_quiet_trans [OF dtls_quiet_trans [OF dtls_quiet_frame [OF f] dtls_quiet_control [OF that]] dtls_quiet_frame],
        simp add: dtls_step)+
  show ?thesis
  proof (cases a)
    case KA_REKEY
    then show ?thesis
      using f by (simp add: dtls_act_def t k split_beta Let_def dtls_conserved_frame dtls_step)
  next
    case KA_DPD_DEAD
    then show ?thesis using f by (simp add: dtls_act_def t k dtls_conserved_frame dtls_step)
  next
    case KA_DPD
    then show ?thesis by (simp add: dtls_act_def t k split_beta Let_def c s)
  next
    case KA_KEEPALIVE
    then show ?thesis
      using f by (simp add: dtls_act_def t k split_beta Let_def c s dtls_quiet_frame)
  next
    case KA_NONE
    then show ?thesis using f by (simp add: dtls_act_def t k split_beta Let_def c dtls_quiet_frame)
  qed
qed

section \<open>Properties\<close>

text \<open>A connected session with two packets to send and three to read.\<close>

definition dtls_sample :: "keepalive_info \<Rightarrow> unit vpninfo" where
  "dtls_sample ka = idle_vpn\<lparr>dtls_state := DTLS_CONNECTED, dtls_ssl := True, dtls_fd := True,
     mon := idle_mon\<lparr>mon_dtls_rd := True\<rparr>, ip_info := no_ip_info\<lparr>ip_mtu := 1400\<rparr>, dtls_times := ka,
     outgoing_queue := [new_pkt [0x45, 1], new_pkt [0x45, 2]], outgoing_qlen := 2,
     env := idle_env\<lparr>e_dtls_rd := [[0, 0x45, 8], [3], [0, 0x45, 9]], e_dtls_wr := [Wr_All, Wr_All, Want_Read]\<rparr>\<rparr>"

lemmas dtls_eval = dtls_sample_def idle_vpn_def idle_env_def idle_config_def idle_mon_def no_ip_info_def no_timers_def
  dtls_mainloop_def dtls_alloc_def dtls_receive_def dtls_send_def dtls_answer_def dtls_act_def dtls_service_queue_def
  keepalive_action_def keepalive_tail_def rekey_check_def ka_check_deadline_def world_defs upd_dtls_def queue_packet_def

lemma dtls_sample_run:
  "map_option (\<lambda>(r, t, w). (r, t, o_dtls (env w), map pkt_data (incoming_queue w), outgoing_queue w, outgoing_qlen w))
     (dtls_mainloop 5000 (dtls_sample no_timers)) =
   Some (1, 5000, [[4], [0, 0x45, 1]], [[0x45, 8], [0x45, 9]], [], 0)"
  by (simp add: dtls_eval)

text \<open>
  C28 (dtls_session_invariant): A DTLS session and a watched socket exist exactly while the state is connecting or
  connected. \<open>dtls_mainloop\<close> keeps this, through rekeying, dead peers, write errors and failed
  handshakes, and so never calls OpenSSL with a null session once the tunnel has been set up.
\<close>

theorem dtls_session_invariant:
  assumes "dtls_ok v" "dtls_state v \<notin> {DTLS_NOSECRET, DTLS_DISABLED}"
  shows "\<exists>r t w. dtls_mainloop timeout v = Some (r, t, w) \<and> dtls_ok w"
  by (rule dtls_mainloop_ok [OF assms])

theorem dtls_session_invariant_witness:
  "\<exists>r t w. dtls_mainloop 5000 (dtls_sample no_timers) = Some (r, t, w) \<and> dtls_ok w"
proof -
  have "dtls_ok (dtls_sample no_timers)" "dtls_state (dtls_sample no_timers) \<notin> {DTLS_NOSECRET, DTLS_DISABLED}"
    by (simp_all add: dtls_ok_def dtls_sample_def)
  from dtls_session_invariant [OF this] show ?thesis .
qed

text \<open>
  C4 (dtls_outgoing_conserved): \<open>dtls_mainloop\<close> sends each packet of the outgoing queue once and in order, or
  leaves it queued for the next round or the SSL tunnel, and keeps the count of the queue; the only
  packet that can get lost is one whose \<open>SSL_write\<close> asked to read first.
\<close>

theorem dtls_outgoing_conserved:
  assumes "dtls_mainloop timeout v = Some (r, t, w)" "whole_writes v"
  shows "\<exists>sent lost. map pkt_data (outgoing_queue v) = sent @ lost @ map pkt_data (outgoing_queue w) \<and>
    dtls_data (o_dtls (env w)) = dtls_data (o_dtls (env v)) @ sent \<and>
    (lost = [] \<or> length lost = 1 \<and> Want_Read \<in> set (e_dtls_wr (env v))) \<and>
    outgoing_qlen w = outgoing_qlen v - int (length sent + length lost)"
proof -
  have "dtls_conserved v w"
  proof (cases "dtls_state v = DTLS_CONNECTING \<or> dtls_state v = DTLS_SLEEPING")
    case True
    then have "dtls_frame v w"
      using assms(1) dtls_frame_try [of v v] dtls_frame_sleep [of v v timeout]
      by (auto simp: dtls_mainloop_def split: if_splits dest: arg_cong [where f = snd])
    then show ?thesis by (rule dtls_conserved_frame)
  next
    case False
    obtain work u where u: "dtls_read_loop (e_dtls_rd (env v)) v False = (work, u)" by (metis surj_pair)
    have q: "dtls_quiet v u"
      using dtls_quiet_read_loop [OF dtls_quiet_refl [of v], of "e_dtls_rd (env v)" False] u by simp
    have "dtls_act work timeout u = (r, t, w)"
      using assms(1) False u by (auto simp: dtls_mainloop_def split: if_splits)
    then show ?thesis
      using dtls_quiet_conserved [OF q dtls_act_conserved [OF dtls_quiet_whole [OF q assms(2)], of work timeout]] by simp
  qed
  then show ?thesis by (simp add: dtls_conserved_def)
qed

theorem dtls_outgoing_conserved_witness:
  "\<exists>w. dtls_mainloop 5000 (dtls_sample no_timers) = Some (1, 5000, w) \<and>
     dtls_data (o_dtls (env w)) = [[0x45, 1]] \<and> outgoing_queue w = [] \<and> outgoing_qlen w = 0"
proof -
  obtain w where w: "dtls_mainloop 5000 (dtls_sample no_timers) = Some (1, 5000, w)" "outgoing_queue w = []"
      "dtls_data (o_dtls (env w)) = [[0x45, 1]]"
    using dtls_sample_run by (auto simp: dtls_data_def)
  have "whole_writes (dtls_sample no_timers)" by (simp add: whole_writes_def dtls_sample_def)
  from dtls_outgoing_conserved [OF w(1) this] w have "outgoing_qlen w = 0"
    by (auto simp: dtls_sample_def idle_env_def dtls_data_def)
  with w show ?thesis by blast
qed

text \<open>The read loop when its allocations succeed.\<close>

lemma dtls_read_loop_incoming:
  "e_calls (env v) = [] \<Longrightarrow> 0 \<le> ip_mtu (ip_info v) \<Longrightarrow> [] \<notin> set rs \<Longrightarrow>
   map pkt_data (incoming_queue (snd (dtls_read_loop rs v work))) =
     map pkt_data (incoming_queue v) @ dtls_data (map (take (nat (ip_mtu (ip_info v) + 1))) rs)"
proof (induction rs arbitrary: v work)
  case Nil
  then show ?case by (simp add: dtls_alloc_def ask_def split_beta Let_def)
next
  case (Cons r rs)
  let ?n = "nat (ip_mtu (ip_info v) + 1)"
  let ?a = "snd (dtls_alloc v)" let ?v = "upd_env (\<lambda>e. e\<lparr>e_dtls_rd := rs\<rparr>) ?a"
  let ?t = "snd (time_now ?v)"
  have a: "fst (dtls_alloc v)" "incoming_queue ?a = incoming_queue v" "ip_info ?a = ip_info v" "e_calls (env ?a) = []"
    using Cons.prems(1) by (simp_all add: dtls_alloc_def ask_def Let_def)
  obtain b bs where r: "take ?n r = b # bs"
    using Cons.prems(2,3) by (cases r) (auto simp: take_Cons')
  let ?d = "dtls_receive b bs (upd_dtls (\<lambda>k. k\<lparr>ka_last_rx := fst (time_now ?v)\<rparr>) ?t) work"
  have t: "incoming_queue ?t = incoming_queue v" "ip_info ?t = ip_info v" "e_calls (env ?t) = []"
    using a by (simp_all add: time_now_def upd_env_def)
  have d: "map pkt_data (incoming_queue (snd ?d)) = map pkt_data (incoming_queue v) @ dtls_data [b # bs]"
    "ip_info (snd ?d) = ip_info v" "e_calls (env (snd ?d)) = []"
    using t by (simp_all add: dtls_receive_def upd_dtls_def queue_packet_def dtls_data_def dtls_send_def
        dtls_answer_def log_dtls_def upd_env_def split_beta split: list.split ssl_wr.split)
  have "dtls_read_loop (r # rs) v work = dtls_read_loop rs (snd ?d) (fst ?d)"
    using a r by (simp add: split_beta Let_def upd_env_def)
  then show ?case
    using Cons.IH [of "snd ?d" "fst ?d"] d Cons.prems r by (simp add: dtls_data_def)
qed

text \<open>What acts after the read loop receives nothing.\<close>

lemma dtls_step_incoming:
  "incoming_queue (snd (dtls_send bs v)) = incoming_queue v"
  "incoming_queue (snd (time_now v)) = incoming_queue v"
  "incoming_queue (upd_dtls f v) = incoming_queue v"
  "incoming_queue (snd (dtls_reconnect v)) = incoming_queue v"
  "incoming_queue (snd (dtls_rekey_ssl v)) = incoming_queue v"
  using dtls_frame_simps(3) [OF dtls_frame_reconnect [OF dtls_frame_refl [of v]]]
    dtls_frame_simps(3) [OF dtls_frame_rekey [OF dtls_frame_refl [of v]]]
  by (auto simp: dtls_send_def dtls_answer_def log_dtls_def time_now_def upd_env_def upd_dtls_def split_beta
      split: list.split ssl_wr.split)

lemma dtls_send_loop_incoming: "incoming_queue (snd (dtls_send_loop q v work)) = incoming_queue v"
  by (induction q arbitrary: v work)
     (simp_all add: split_beta Let_def dtls_step_incoming split: ssl_wr.split)

lemma dtls_act_incoming: "incoming_queue (snd (snd (dtls_act work timeout v))) = incoming_queue v"
  by (simp add: dtls_act_def dtls_service_queue_def split_beta Let_def dtls_step_incoming dtls_send_loop_incoming
      split: ka_action.split)

text \<open>
  When its buffers can be allocated, a round of a connected session queues the
  payload of every data packet that was received, cut to the MTU, once and in order, and nothing else.
\<close>

theorem dtls_incoming_complete:
  assumes "dtls_mainloop timeout v = Some (r, t, w)" "dtls_state v = DTLS_CONNECTED"
    and "e_calls (env v) = []" "0 \<le> ip_mtu (ip_info v)" "[] \<notin> set (e_dtls_rd (env v))"
  shows "map pkt_data (incoming_queue w) =
    map pkt_data (incoming_queue v) @ dtls_data (map (take (nat (ip_mtu (ip_info v) + 1))) (e_dtls_rd (env v)))"
proof -
  obtain work u where u: "dtls_read_loop (e_dtls_rd (env v)) v False = (work, u)" by (metis surj_pair)
  have "dtls_act work timeout u = (r, t, w)"
    using assms(1,2) u by (auto simp: dtls_mainloop_def split: if_splits)
  then show ?thesis
    using dtls_act_incoming [of work timeout u] dtls_read_loop_incoming [OF assms(3-5), of False] u by simp
qed

theorem dtls_incoming_complete_witness:
  "\<exists>w. dtls_mainloop 5000 (dtls_sample no_timers) = Some (1, 5000, w) \<and>
     map pkt_data (incoming_queue w) = [[0x45, 8], [0x45, 9]]"
proof -
  obtain w where w: "dtls_mainloop 5000 (dtls_sample no_timers) = Some (1, 5000, w)"
    using dtls_sample_run by auto
  from dtls_incoming_complete [OF w] w show ?thesis
    by (simp add: dtls_sample_def idle_vpn_def idle_env_def no_ip_info_def dtls_data_def)
qed

text \<open>
  A handshake that gets no answer is given up 12 seconds after it was
  started: the session is closed, the state is sleeping, and the time of the failure is noted, from which
  the next attempt is scheduled; before that, nothing changes.
\<close>

theorem dtls_handshake_timeout:
  assumes "dtls_ok v" "dtls_state v = DTLS_CONNECTING" "e_dtls_hs (env v) = []"
  shows "\<exists>w. dtls_mainloop timeout v = Some (0, timeout, w) \<and>
    (if fst (time_now v) < new_dtls_started v + 12 then w = snd (time_now v)
     else dtls_state w = DTLS_SLEEPING \<and> \<not> dtls_ssl w \<and> \<not> dtls_fd w \<and>
       new_dtls_started w = e_clock (env v) (Suc (e_ticks (env v))))"
  using assms
  by (auto simp: dtls_mainloop_def dtls_try_handshake_def do_handshake_def handshake_failed_def time_now_def
      upd_env_def dtls_close_def dtls_ok_def)

theorem dtls_handshake_timeout_witness:
  "\<exists>w. dtls_mainloop 5000 ((dtls_sample no_timers)\<lparr>dtls_state := DTLS_CONNECTING, new_dtls_started := -20\<rparr>) = Some (0, 5000, w) \<and>
     dtls_state w = DTLS_SLEEPING \<and> new_dtls_started w = 1"
proof -
  let ?v = "(dtls_sample no_timers)\<lparr>dtls_state := DTLS_CONNECTING, new_dtls_started := -20\<rparr>"
  have "dtls_ok ?v" "dtls_state ?v = DTLS_CONNECTING" "e_dtls_hs (env ?v) = []"
    by (simp_all add: dtls_ok_def dtls_sample_def idle_env_def)
  from dtls_handshake_timeout [OF this, of 5000] show ?thesis
    by (auto simp: dtls_sample_def idle_env_def time_now_def)
qed

text \<open>
  When the server asks for rekeying by a new tunnel, a rekey that is due does
  nothing to the session: no new one is started, the outgoing queue is not served in this round, and
  only the timer starts again.
\<close>

theorem dtls_rekey_tunnel_ignored:
  assumes "dtls_ok v" "dtls_state v = DTLS_CONNECTED" "ka_rekey_method (dtls_times v) = REKEY_TUNNEL"
    and "ka_last_rekey (dtls_times v) + ka_rekey (dtls_times v) \<le> fst (time_now v)"
    and "e_dtls_rd (env v) = []" "dtls_pkt_max v = Some (ip_mtu (ip_info v))"
  shows "dtls_mainloop timeout v =
    Some (1, timeout, (snd (time_now v))\<lparr>dtls_times := (dtls_times v)\<lparr>ka_last_rekey := fst (time_now v)\<rparr>\<rparr>)"
  using assms
  by (simp add: dtls_mainloop_def dtls_ok_def dtls_alloc_def dtls_act_def keepalive_action_def rekey_check_def
      ka_check_deadline_def time_now_def upd_env_def)

theorem dtls_rekey_tunnel_ignored_witness:
  "\<exists>w. dtls_mainloop 5000 ((dtls_sample (no_timers\<lparr>ka_rekey_method := REKEY_TUNNEL\<rparr>))
           \<lparr>env := idle_env, dtls_pkt_max := Some 1400\<rparr>) = Some (1, 5000, w) \<and>
     outgoing_qlen w = 2 \<and> e_calls (env w) = []"
proof -
  let ?v = "(dtls_sample (no_timers\<lparr>ka_rekey_method := REKEY_TUNNEL\<rparr>))\<lparr>env := idle_env, dtls_pkt_max := Some 1400\<rparr>"
  have "dtls_ok ?v" "dtls_state ?v = DTLS_CONNECTED" "ka_rekey_method (dtls_times ?v) = REKEY_TUNNEL"
    "ka_last_rekey (dtls_times ?v) + ka_rekey (dtls_times ?v) \<le> fst (time_now ?v)"
    "e_dtls_rd (env ?v) = []" "dtls_pkt_max ?v = Some (ip_mtu (ip_info ?v))"
    by (simp_all add: dtls_ok_def dtls_sample_def no_timers_def time_now_def idle_env_def)
  from dtls_rekey_tunnel_ignored [OF this, of 5000] show ?thesis
    by (auto simp: dtls_sample_def time_now_def upd_env_def idle_env_def)
qed

end
