(* ===== verification/Cstp_Loop.thy ===== *)
theory Cstp_Loop
  imports Cstp_Reconnect Dtls
begin

text \<open>
  The CSTP tunnel of \<open>core/cstp.c\<close> as built with OpenSSL: \<open>inflate_and_queue_packet\<close>,
  \<open>cstp_read\<close>, \<open>cstp_write\<close>, \<open>cstp_mainloop\<close> and \<open>cstp_bye\<close>. The labels of \<open>cstp_mainloop\<close> are the
  values of \<open>cstp_goto\<close>; each stretch of code between them is a function that says where it goes
  next.
\<close>

section \<open>Receiving\<close>

definition be32 :: "byte \<Rightarrow> byte \<Rightarrow> byte \<Rightarrow> byte \<Rightarrow> u32" where
  "be32 a b c d = push_bit 24 (ucast a) OR push_bit 16 (ucast b) OR push_bit 8 (ucast c) OR ucast d"

text \<open>The big-endian checksum at the end of a compressed packet.\<close>

definition pkt_sum :: "bytes \<Rightarrow> u32" where
  "pkt_sum buf = (let n = length buf in be32 (buf ! (n - 4)) (buf ! (n - 3)) (buf ! (n - 2)) (buf ! (n - 1)))"

text \<open>
  \<open>buf\<close> is the payload. \<open>None\<close>: with less than four bytes, \<open>avail_in\<close> wraps around and
  \<open>inflate\<close> reads past the buffer. A stream that is not initialised makes \<open>inflate\<close> fail.
\<close>

definition inflate_and_queue_packet :: "'z zlib \<Rightarrow> bytes \<Rightarrow> 'z vpninfo \<Rightarrow> 'z vpninfo option" where
  "inflate_and_queue_packet Z buf v =
     (let (ok, v) = ask v in
      if \<not> ok then Some v
      else case inflate_strm v of
        None \<Rightarrow> Some v
      | Some s \<Rightarrow>
          (if length buf < 4 then None
           else
             let (r, out, s) = z_inflate Z s (take (length buf - 4) buf) (nat (ip_mtu (ip_info v)));
                 v = v\<lparr>inflate_strm := Some s\<rparr> in
             if r \<noteq> 0 then Some v
             else
               let v = v\<lparr>inflate_adler32 := z_adler32 Z (inflate_adler32 v) out\<rparr>;
                   v = (if inflate_adler32 v \<noteq> pkt_sum buf
                        then v\<lparr>quit_reason := Some ''Compression (inflate) adler32 failure''\<rparr> else v) in
               Some (v\<lparr>incoming_queue := queue_packet (incoming_queue v) (new_pkt out)\<rparr>)))"

text \<open>The end of one packet: go on reading, with the work flag; or return.\<close>

datatype 'z cstp_rx = Rx_Next bool "'z vpninfo" | Rx_Return int "'z vpninfo"

definition unknown_pkt :: "'z vpninfo \<Rightarrow> 'z cstp_rx" where
  "unknown_pkt v = Rx_Return 1 (v\<lparr>quit_reason := Some ''Unknown packet received''\<rparr>)"

definition server_request :: "'z vpninfo \<Rightarrow> 'z cstp_rx" where
  "server_request v = Rx_Return (err EPIPE) (v\<lparr>quit_reason := Some ''Server request''\<rparr>)"

abbreviation (input) BUF_SIZE :: nat where "BUF_SIZE \<equiv> 16384"

text \<open>
  The dispatch on the packet type. \<open>AC_PKT_DISCONN\<close> reads and writes \<open>buf[payload_len + 8 + i]\<close> for \<open>i\<close>
  up to \<open>payload_len\<close>, and writes \<open>buf[payload_len + 8]\<close>: \<open>None\<close> when that leaves the buffer.
\<close>

definition cstp_dispatch :: "'z zlib \<Rightarrow> byte \<Rightarrow> bytes \<Rightarrow> bool \<Rightarrow> 'z vpninfo \<Rightarrow> 'z cstp_rx option" where
  "cstp_dispatch Z type payload work v =
     (if type = AC_PKT_DPD_OUT then Some (Rx_Next work (v\<lparr>owe_ssl_dpd_response := True\<rparr>))
      else if type = AC_PKT_DPD_RESP then Some (Rx_Next work v)
      else if type = AC_PKT_KEEPALIVE then Some (Rx_Next work v)
      else if type = AC_PKT_DATA then
        (let (ok, v) = ask v; q = snd (queue_new_packet ok (incoming_queue v) payload) in
         Some (Rx_Next True (v\<lparr>incoming_queue := q\<rparr>)))
      else if type = AC_PKT_DISCONN then
        (if max (length payload + 9) (2 * length payload + 8) \<le> BUF_SIZE then Some (server_request v) else None)
      else if type = AC_PKT_COMPRESSED then
        (if \<not> deflate v then Some (unknown_pkt v)
         else map_option (Rx_Next True) (inflate_and_queue_packet Z payload v))
      else if type = AC_PKT_TERM_SERVER then Some (server_request v)
      else Some (unknown_pkt v))"

text \<open>
  One iteration of the read loop: \<open>buf\<close> is the whole stack buffer, of which the first \<open>len\<close> bytes
  were read.
\<close>

definition cstp_packet :: "'z zlib \<Rightarrow> bytes \<Rightarrow> nat \<Rightarrow> bool \<Rightarrow> 'z vpninfo \<Rightarrow> 'z cstp_rx option" where
  "cstp_packet Z buf len work v =
     (if take 4 buf \<noteq> [0x53, 0x54, 0x46, 1] \<or> buf ! 7 \<noteq> 0 then Some (unknown_pkt v)
      else
        let payload_len = unat (buf ! 4) * 256 + unat (buf ! 5) in
        if len \<noteq> 8 + payload_len then Some (Rx_Next work v)
        else
          let (t, v) = time_now v in
          cstp_dispatch Z (buf ! 6) (take payload_len (drop 8 buf)) work
            (upd_ssl (\<lambda>k. k\<lparr>ka_last_rx := t\<rparr>) v))"

definition fill :: "bytes \<Rightarrow> bytes \<Rightarrow> bytes" where
  "fill buf bs = bs @ drop (length bs) buf"

text \<open>
  The read loop, over the answers of \<open>SSL_read\<close>: it returns; or it ends with an error, or with no
  more to read.
\<close>

datatype 'z cstp_read_end = Read_Return int "'z vpninfo" | Read_Error bool "'z vpninfo" | Read_Done bool "'z vpninfo"

fun cstp_read_loop :: "'z zlib \<Rightarrow> ssl_rd list \<Rightarrow> bytes \<Rightarrow> bool \<Rightarrow> 'z vpninfo \<Rightarrow> 'z cstp_read_end option" where
  "cstp_read_loop Z [] buf work v = Some (Read_Done work v)"
| "cstp_read_loop Z (r # rs) buf work v =
     (let v = upd_env (\<lambda>e. e\<lparr>e_ssl_rd := rs\<rparr>) v in
      case r of
        Rd_Closed \<Rightarrow> Some (Read_Error work v)
      | Rd_Again \<Rightarrow> Some (Read_Done work v)
      | Rd [] \<Rightarrow> Some (Read_Done work v)
      | Rd bs \<Rightarrow>
          (let bs = take BUF_SIZE bs; buf = fill buf bs in
           case cstp_packet Z buf (length bs) work v of
             None \<Rightarrow> None
           | Some (Rx_Return ret v) \<Rightarrow> Some (Read_Return ret v)
           | Some (Rx_Next work v) \<Rightarrow> cstp_read_loop Z rs buf work v))"

definition stack_buf :: "'z vpninfo \<Rightarrow> bytes" where
  "stack_buf v = take BUF_SIZE (e_stack (env v) @ replicate BUF_SIZE 0)"

section \<open>Sending\<close>

text \<open>The packet behind \<open>current_ssl_pkt\<close>.\<close>

fun ssl_pkt :: "'z vpninfo \<Rightarrow> ssl_ptr \<Rightarrow> pkt option" where
  "ssl_pkt v P_Keepalive = Some \<lparr>pkt_hdr = data_hdr AC_PKT_KEEPALIVE 0, pkt_data = []\<rparr>"
| "ssl_pkt v P_Dpd = Some \<lparr>pkt_hdr = data_hdr AC_PKT_DPD_OUT 0, pkt_data = []\<rparr>"
| "ssl_pkt v P_Dpd_Resp = Some \<lparr>pkt_hdr = data_hdr AC_PKT_DPD_RESP 0, pkt_data = []\<rparr>"
| "ssl_pkt v P_Deflate = deflate_pkt v"
| "ssl_pkt v (P_Data p) = Some p"

definition ssl_answer :: "'z vpninfo \<Rightarrow> ssl_wr \<times> 'z vpninfo" where
  "ssl_answer v = (case e_ssl_wr (env v) of
      [] \<Rightarrow> (Want_Write, v)
    | a # as \<Rightarrow> (a, upd_env (\<lambda>e. e\<lparr>e_ssl_wr := as\<rparr>) v))"

definition cstp_write :: "bytes \<Rightarrow> 'z vpninfo \<Rightarrow> int \<times> 'z vpninfo" where
  "cstp_write bs v =
     (let (a, v) = ssl_answer v in
      case a of
        Wr_All \<Rightarrow> (int (length bs), log_ssl bs v)
      | Wr_Part n \<Rightarrow> (int (length (take (Suc n) bs)), log_ssl (take (Suc n) bs) v)
      | Want_Write \<Rightarrow> (0, v\<lparr>mon := (mon v)\<lparr>mon_ssl_wr := True\<rparr>\<rparr>)
      | Want_Read \<Rightarrow> (0, v)
      | Wr_Err \<Rightarrow> (-1, v))"

datatype cstp_goto = Go_Send | Go_Next | Go_Service | Go_Rekey | Go_Dead | Go_Reconnect | Go_Return int

definition internal_error :: "int \<Rightarrow> 'z vpninfo \<Rightarrow> cstp_goto \<times> int \<times> 'z vpninfo" where
  "internal_error timeout v = (Go_Return 1, timeout, v\<lparr>quit_reason := Some ''Internal error''\<rparr>)"

text \<open>
  \<open>handle_outgoing\<close>: send \<open>current_ssl_pkt\<close>. The pointer \<open>pending_deflated_pkt\<close> to the packet that is
  freed is \<open>None\<close> from then on.
\<close>

definition stalled :: "int \<Rightarrow> bool \<Rightarrow> 'z vpninfo \<Rightarrow> cstp_goto \<times> int \<times> 'z vpninfo" where
  "stalled timeout work v =
     (let (now, v) = time_now v; (a, ka, timeout) = ka_stalled_action (ssl_times v) timeout now;
          v = v\<lparr>ssl_times := ka\<rparr> in
      case a of
        KA_DPD_DEAD \<Rightarrow> (Go_Dead, timeout, v)
      | KA_REKEY \<Rightarrow> (if ka_rekey_method (ssl_times v) = REKEY_NONE then Go_Service else Go_Rekey, timeout, v)
      | KA_NONE \<Rightarrow> (Go_Return (int_of_bool work), timeout, v)
      | _ \<Rightarrow> internal_error timeout v)"

definition written :: "ssl_ptr \<Rightarrow> 'z vpninfo \<Rightarrow> 'z vpninfo" where
  "written p v =
     (if p = P_Deflate then v\<lparr>pending_deflated_pkt := None, current_ssl_pkt := None\<rparr>
      else v\<lparr>current_ssl_pkt := None\<rparr>)"

definition begin_write :: "'z vpninfo \<Rightarrow> 'z vpninfo" where
  "begin_write v =
     (let (t, v) = time_now v; v = upd_ssl (\<lambda>k. k\<lparr>ka_last_tx := t\<rparr>) v in
      v\<lparr>mon := (mon v)\<lparr>mon_ssl_wr := False\<rparr>\<rparr>)"

definition handle_outgoing :: "int \<Rightarrow> bool \<Rightarrow> 'z vpninfo \<Rightarrow> (cstp_goto \<times> int \<times> 'z vpninfo) option" where
  "handle_outgoing timeout work v =
     (case current_ssl_pkt v of
        None \<Rightarrow> None
      | Some ptr \<Rightarrow>
          (case ssl_pkt v ptr of
             None \<Rightarrow> None
           | Some p \<Rightarrow>
               (let (ret, v) = cstp_write (pkt_hdr p @ pkt_data p) (begin_write v) in
                Some (if ret < 0 then (Go_Reconnect, timeout, v)
                      else if ret = 0 then stalled timeout work v
                      else if ret \<noteq> pkt_len p + 8 then internal_error timeout v
                      else (Go_Next, timeout, written ptr v)))))"

text \<open>The packet that is taken off the queue: compressed into the deflate buffer, or sent as it is.\<close>

definition send_uncompressed :: "pkt \<Rightarrow> 'z vpninfo \<Rightarrow> 'z vpninfo" where
  "send_uncompressed p v =
     v\<lparr>current_ssl_pkt := Some (P_Data (p\<lparr>pkt_hdr := data_hdr AC_PKT_DATA (length (pkt_data p))\<rparr>))\<rparr>"

definition be_bytes :: "u32 \<Rightarrow> bytes" where
  "be_bytes w = [ucast (drop_bit 24 w), ucast (drop_bit 16 w), ucast (drop_bit 8 w), ucast w]"

definition send_compressed :: "'z zlib \<Rightarrow> pkt \<Rightarrow> 'z vpninfo \<Rightarrow> 'z vpninfo option" where
  "send_compressed Z p v =
     (case deflate_strm v of
        None \<Rightarrow> Some (send_uncompressed p v)
      | Some s \<Rightarrow>
          (case deflate_pkt v of
             None \<Rightarrow> None
           | Some d \<Rightarrow>
               (let (r, out, s) = z_deflate Z s (pkt_data p) 2040; v = v\<lparr>deflate_strm := Some s\<rparr> in
                if r \<noteq> 0 then Some (send_uncompressed p v)
                else
                  let n = length out + 4; a = z_adler32 Z (deflate_adler32 v) (pkt_data p) in
                  Some (v\<lparr>deflate_adler32 := a,
                          deflate_pkt := Some \<lparr>pkt_hdr = (pkt_hdr d)[4 := of_nat (n div 256), 5 := of_nat n],
                                               pkt_data = out @ be_bytes a\<rparr>,
                          pending_deflated_pkt := Some p,
                          current_ssl_pkt := Some P_Deflate\<rparr>))))"

definition service_queue :: "'z zlib \<Rightarrow> int \<Rightarrow> bool \<Rightarrow> 'z vpninfo \<Rightarrow> (cstp_goto \<times> int \<times> 'z vpninfo) option" where
  "service_queue Z timeout work v =
     (if dtls_state v = DTLS_CONNECTED then Some (Go_Return (int_of_bool work), timeout, v)
      else case outgoing_queue v of
        [] \<Rightarrow> Some (Go_Return (int_of_bool work), timeout, v)
      | p # q \<Rightarrow>
          (let v = v\<lparr>outgoing_queue := q, outgoing_qlen := outgoing_qlen v - 1\<rparr> in
           map_option (\<lambda>v. (Go_Send, timeout, v))
             (if deflate v then send_compressed Z p v else Some (send_uncompressed p v))))"

text \<open>What follows a packet that was sent.\<close>

definition next_packet :: "'z zlib \<Rightarrow> int \<Rightarrow> bool \<Rightarrow> 'z vpninfo \<Rightarrow> (cstp_goto \<times> int \<times> 'z vpninfo) option" where
  "next_packet Z timeout work v =
     (if owe_ssl_dpd_response v
      then Some (Go_Send, timeout, v\<lparr>owe_ssl_dpd_response := False, current_ssl_pkt := Some P_Dpd_Resp\<rparr>)
      else
        let (now, v) = time_now v; (a, ka, timeout) = keepalive_action (ssl_times v) timeout now;
            v = v\<lparr>ssl_times := ka\<rparr> in
        case a of
          KA_REKEY \<Rightarrow>
            (if ka_rekey_method (ssl_times v) = REKEY_NONE then service_queue Z timeout work v
             else Some (Go_Rekey, timeout, v))
        | KA_DPD_DEAD \<Rightarrow> Some (Go_Dead, timeout, v)
        | KA_DPD \<Rightarrow> Some (Go_Send, timeout, v\<lparr>current_ssl_pkt := Some P_Dpd\<rparr>)
        | KA_KEEPALIVE \<Rightarrow>
            (if dtls_state v \<noteq> DTLS_CONNECTED \<and> outgoing_queue v \<noteq> [] then service_queue Z timeout work v
             else Some (Go_Send, timeout, v\<lparr>current_ssl_pkt := Some P_Keepalive\<rparr>))
        | KA_NONE \<Rightarrow> service_queue Z timeout work v)"

text \<open>
  The loop that the \<open>goto handle_outgoing\<close>s make. That it ends is for the lemma \<open>send_loop_rounds\<close> to
  show: each round uses an answer of \<open>SSL_write\<close>.
\<close>

partial_function (option) send_loop :: "'z zlib \<Rightarrow> int \<Rightarrow> bool \<Rightarrow> 'z vpninfo \<Rightarrow> (cstp_goto \<times> int \<times> 'z vpninfo) option" where
  "send_loop Z timeout work v =
     (case handle_outgoing timeout work v of
        None \<Rightarrow> None
      | Some (g, timeout, v) \<Rightarrow>
          (if g \<noteq> Go_Next \<and> g \<noteq> Go_Service then Some (g, timeout, v)
           else case (if g = Go_Next then next_packet else service_queue) Z timeout work v of
             None \<Rightarrow> None
           | Some (g, timeout, v) \<Rightarrow>
               (if g = Go_Send then send_loop Z timeout work v else Some (g, timeout, v))))"

section \<open>The loop\<close>

definition cstp_handshake :: "'z vpninfo \<Rightarrow> int" where
  "cstp_handshake v = err EOPNOTSUPP"

text \<open>\<open>do_dtls_reconnect\<close> and \<open>do_reconnect\<close>\<close>

definition do_dtls_reconnect :: "'z vpninfo \<Rightarrow> int \<times> 'z vpninfo" where
  "do_dtls_reconnect v =
     (1, if dtls_state v \<noteq> DTLS_DISABLED \<and> ka_rekey_method (dtls_times v) = REKEY_NONE
         then snd (dtls_reconnect v) else v)"

definition do_reconnect :: "'z zlib \<Rightarrow> 'z vpninfo \<Rightarrow> (int \<times> 'z vpninfo) option" where
  "do_reconnect Z v =
     (case cstp_reconnect Z v of
        None \<Rightarrow> None
      | Some (ret, v) \<Rightarrow>
          (if ret \<noteq> 0 then Some (ret, v\<lparr>quit_reason := Some ''CSTP reconnect failed''\<rparr>)
           else Some (do_dtls_reconnect v)))"

definition cstp_exit :: "'z zlib \<Rightarrow> cstp_goto \<times> int \<times> 'z vpninfo \<Rightarrow> (int \<times> int \<times> 'z vpninfo) option" where
  "cstp_exit Z x =
     (case x of (g, timeout, v) \<Rightarrow>
        map_option (\<lambda>(r, v). (r, timeout, v))
          (case g of
             Go_Return r \<Rightarrow> Some (r, v)
           | Go_Rekey \<Rightarrow>
               (if ka_rekey_method (ssl_times v) = REKEY_SSL \<and> cstp_handshake v = 0
                then Some (do_dtls_reconnect v) else do_reconnect Z v)
           | _ \<Rightarrow> do_reconnect Z v))"

text \<open>What follows the read loop.\<close>

definition cstp_send :: "'z zlib \<Rightarrow> int \<Rightarrow> bool \<Rightarrow> 'z vpninfo \<Rightarrow> (cstp_goto \<times> int \<times> 'z vpninfo) option" where
  "cstp_send Z timeout work v =
     (if current_ssl_pkt v \<noteq> None then send_loop Z timeout work v
      else case next_packet Z timeout work v of
        None \<Rightarrow> None
      | Some (g, timeout, v) \<Rightarrow>
          (if g = Go_Send then send_loop Z timeout work v else Some (g, timeout, v)))"

definition cstp_mainloop :: "'z zlib \<Rightarrow> int \<Rightarrow> 'z vpninfo \<Rightarrow> (int \<times> int \<times> 'z vpninfo) option" where
  "cstp_mainloop Z timeout v =
     (if \<not> ssl_open v then cstp_exit Z (Go_Reconnect, timeout, v)
      else case cstp_read_loop Z (e_ssl_rd (env v)) (stack_buf v) False v of
        None \<Rightarrow> None
      | Some (Read_Return ret v) \<Rightarrow> Some (ret, timeout, v)
      | Some (Read_Error work v) \<Rightarrow> cstp_exit Z (Go_Reconnect, timeout, v)
      | Some (Read_Done work v) \<Rightarrow>
          (case cstp_send Z timeout work v of None \<Rightarrow> None | Some x \<Rightarrow> cstp_exit Z x))"

definition cstp_bye :: "string \<Rightarrow> 'z vpninfo \<Rightarrow> int \<times> 'z vpninfo" where
  "cstp_bye reason v =
     (if \<not> ssl_open v then (0, v)
      else
        let (ok, v) = ask v in
        if \<not> ok then (err ENOMEM, v)
        else (0, snd (cstp_write (data_hdr AC_PKT_DISCONN (length reason + 1) @ [0xb0] @ bytes_of reason) v)))"

section \<open>What is sent\<close>

lemma length_data_hdr [simp]: "length (data_hdr type n) = 8"
  by (simp add: data_hdr_def)

definition plain_frame :: "bytes \<Rightarrow> bytes" where
  "plain_frame bs = data_hdr AC_PKT_DATA (length bs) @ bs"

text \<open>The payloads of the uncompressed data packets in a log.\<close>

definition ssl_data :: "bytes list \<Rightarrow> bytes list" where
  "ssl_data os = map (drop 8) (filter (\<lambda>f. 8 \<le> length f \<and> f ! 6 = AC_PKT_DATA) os)"

lemma ssl_data_simps [simp]:
  "ssl_data [] = []" "ssl_data (xs @ ys) = ssl_data xs @ ssl_data ys" "ssl_data [plain_frame bs] = [bs]"
  "type \<noteq> AC_PKT_DATA \<Longrightarrow> ssl_data [data_hdr type n @ bs] = []"
  by (simp_all add: ssl_data_def plain_frame_def data_hdr_def nth_append)

text \<open>
  A packet that was taken off the queue carries its header. Without compression, the packet in
  \<open>current_ssl_pkt\<close> is a control packet or one of those.
\<close>

definition framed_pkt :: "pkt \<Rightarrow> bool" where
  "framed_pkt p \<longleftrightarrow> pkt_hdr p = data_hdr AC_PKT_DATA (length (pkt_data p))"

definition plain_current :: "'z vpninfo \<Rightarrow> bool" where
  "plain_current v \<longleftrightarrow> \<not> deflate v \<and>
     (case current_ssl_pkt v of Some P_Deflate \<Rightarrow> False | Some (P_Data p) \<Rightarrow> framed_pkt p | _ \<Rightarrow> True)"

definition in_flight :: "'z vpninfo \<Rightarrow> bytes list" where
  "in_flight v = (case current_ssl_pkt v of Some (P_Data p) \<Rightarrow> [pkt_data p] | _ \<Rightarrow> [])"

definition unsent :: "'z vpninfo \<Rightarrow> bytes list" where
  "unsent v = in_flight v @ map pkt_data (outgoing_queue v)"

text \<open>
  From \<open>v\<close> to \<open>w\<close>: what is sent and what is still to be sent make up the same list, the queue is
  counted as before, and writes stay whole.
\<close>

definition ssl_conserved :: "'z vpninfo \<Rightarrow> 'z vpninfo \<Rightarrow> bool" where
  "ssl_conserved v w \<longleftrightarrow>
     ssl_data (o_ssl (env w)) @ unsent w = ssl_data (o_ssl (env v)) @ unsent v \<and>
     outgoing_qlen w - int (length (outgoing_queue w)) = outgoing_qlen v - int (length (outgoing_queue v)) \<and>
     set (e_ssl_wr (env w)) \<subseteq> set (e_ssl_wr (env v)) \<and> plain_current w"

definition whole_ssl :: "'z vpninfo \<Rightarrow> bool" where
  "whole_ssl v \<longleftrightarrow> (\<forall>n. Wr_Part n \<notin> set (e_ssl_wr (env v)))"

lemma ssl_conserved_refl: "plain_current v \<Longrightarrow> ssl_conserved v v"
  by (simp add: ssl_conserved_def)

lemma ssl_conserved_trans: "ssl_conserved u v \<Longrightarrow> ssl_conserved v w \<Longrightarrow> ssl_conserved u w"
  by (auto simp: ssl_conserved_def)

lemma ssl_conserved_whole: "ssl_conserved v w \<Longrightarrow> whole_ssl v \<Longrightarrow> whole_ssl w"
  by (auto simp: ssl_conserved_def whole_ssl_def)

text \<open>Steps that change neither the queue nor what is being sent.\<close>

definition send_same :: "'z vpninfo \<Rightarrow> 'z vpninfo \<Rightarrow> bool" where
  "send_same v w \<longleftrightarrow> o_ssl (env w) = o_ssl (env v) \<and> e_ssl_wr (env w) = e_ssl_wr (env v) \<and>
     outgoing_queue w = outgoing_queue v \<and> outgoing_qlen w = outgoing_qlen v \<and> deflate w = deflate v \<and>
     current_ssl_pkt w = current_ssl_pkt v"

lemma send_same_simps [simp]:
  "send_same v v" "send_same v (upd_ssl f v)" "send_same v (v\<lparr>ssl_times := ka\<rparr>)"
  "send_same v (v\<lparr>mon := m\<rparr>)" "send_same v (v\<lparr>quit_reason := q\<rparr>)" "send_same v (snd (time_now v))"
  "send_same v (v\<lparr>owe_ssl_dpd_response := b\<rparr>)"
  by (simp_all add: send_same_def upd_ssl_def time_now_def upd_env_def)

lemma send_same_trans: "send_same u v \<Longrightarrow> send_same v w \<Longrightarrow> send_same u w"
  by (simp add: send_same_def)

lemma send_same_conserved: "send_same v w \<Longrightarrow> plain_current v \<Longrightarrow> ssl_conserved v w"
  by (simp add: send_same_def ssl_conserved_def unsent_def in_flight_def plain_current_def)

lemma send_same_plain: "send_same v w \<Longrightarrow> plain_current v \<Longrightarrow> plain_current w"
  by (simp add: send_same_def plain_current_def)

lemma service_queue_conserved:
  assumes "service_queue Z timeout work v = Some (g, t, w)" "current_ssl_pkt v = None" "\<not> deflate v"
  shows "ssl_conserved v w" and "e_ssl_wr (env w) = e_ssl_wr (env v)" and "g = Go_Send \<or> (\<exists>r. g = Go_Return r)"
  using assms
  by (auto simp: service_queue_def send_uncompressed_def ssl_conserved_def unsent_def in_flight_def
      plain_current_def framed_pkt_def split: if_splits list.splits)

lemma next_packet_conserved:
  assumes "next_packet Z timeout work v = Some (g, t, w)" "current_ssl_pkt v = None" "\<not> deflate v"
  shows "ssl_conserved v w \<and> e_ssl_wr (env w) = e_ssl_wr (env v) \<and> g \<notin> {Go_Next, Go_Service}"
proof (cases "owe_ssl_dpd_response v")
  case True
  with assms show ?thesis
    by (auto simp: next_packet_def ssl_conserved_def unsent_def in_flight_def plain_current_def)
next
  case False
  obtain now u where t: "time_now v = (now, u)" by (metis surj_pair)
  obtain a ka t' where k: "keepalive_action (ssl_times u) timeout now = (a, ka, t')" by (metis surj_pair)
  let ?u = "u\<lparr>ssl_times := ka\<rparr>"
  have s: "send_same v ?u" using send_same_trans [OF send_same_simps(6) send_same_simps(3)] t by (metis snd_conv)
  then have u: "current_ssl_pkt ?u = None" "\<not> deflate ?u" "plain_current v" "e_ssl_wr (env ?u) = e_ssl_wr (env v)"
    using assms(2,3) by (auto simp: send_same_def plain_current_def)
  have c: "ssl_conserved v ?u" by (rule send_same_conserved [OF s u(3)])
  have ptr: "ssl_conserved ?u (?u\<lparr>current_ssl_pkt := Some p\<rparr>)" if "p \<in> {P_Dpd, P_Keepalive}" for p
    using u that by (auto simp: ssl_conserved_def unsent_def in_flight_def plain_current_def)
  have q: "ssl_conserved v w \<and> e_ssl_wr (env w) = e_ssl_wr (env v) \<and> g \<notin> {Go_Next, Go_Service}"
    if "service_queue Z t' work ?u = Some (g, t, w)"
    using ssl_conserved_trans [OF c] service_queue_conserved [OF that u(1,2)] u(4) by auto
  show ?thesis
    using assms(1) False c ssl_conserved_trans [OF c ptr] u(4) q
    by (auto simp: next_packet_def t k Let_def split: ka_action.splits if_splits)
qed

lemma stalled_rekey: "ka_stalled_action ka timeout now = (KA_REKEY, ka', t) \<Longrightarrow> ka_rekey_method ka' \<noteq> REKEY_NONE"
  by (auto simp: ka_stalled_action_def rekey_check_def split_beta Let_def split: if_splits)

lemma stalled_action: "fst (ka_stalled_action ka timeout now) \<in> {KA_REKEY, KA_DPD_DEAD, KA_NONE}"
  by (auto simp: ka_stalled_action_def split_beta Let_def)

lemma stalled_same:
  assumes "stalled timeout work v = (g, t, w)"
  shows "send_same v w \<and> g \<in> {Go_Dead, Go_Rekey, Go_Return (int_of_bool work)}"
proof -
  obtain now u where t: "time_now v = (now, u)" by (metis surj_pair)
  obtain a ka t' where k: "ka_stalled_action (ssl_times u) timeout now = (a, ka, t')" by (metis surj_pair)
  have s: "send_same v (u\<lparr>ssl_times := ka\<rparr>)"
    using send_same_trans [OF send_same_simps(6) send_same_simps(3)] t by (metis snd_conv)
  have "w = u\<lparr>ssl_times := ka\<rparr> \<and> g \<in> {Go_Dead, Go_Rekey, Go_Return (int_of_bool work)}"
    using assms stalled_action [of "ssl_times u" timeout now] k stalled_rekey [of "ssl_times u" timeout now ka t']
    by (auto simp: stalled_def t k Let_def split: ka_action.splits if_splits)
  with s show ?thesis by simp
qed

text \<open>The write that \<open>handle_outgoing\<close> makes.\<close>

lemma cstp_write_whole:
  assumes "cstp_write bs v = (ret, w)" "whole_ssl v" "bs \<noteq> []"
  obtains (all) as where "e_ssl_wr (env v) = Wr_All # as" "ret = int (length bs)"
      "w = log_ssl bs (upd_env (\<lambda>e. e\<lparr>e_ssl_wr := as\<rparr>) v)"
  | (again) "ret = 0" "o_ssl (env w) = o_ssl (env v)" "outgoing_queue w = outgoing_queue v"
      "outgoing_qlen w = outgoing_qlen v" "deflate w = deflate v" "current_ssl_pkt w = current_ssl_pkt v"
      "set (e_ssl_wr (env w)) \<subseteq> set (e_ssl_wr (env v))"
  | (error) "ret < 0" "o_ssl (env w) = o_ssl (env v)" "outgoing_queue w = outgoing_queue v"
      "outgoing_qlen w = outgoing_qlen v" "deflate w = deflate v" "current_ssl_pkt w = current_ssl_pkt v"
      "set (e_ssl_wr (env w)) \<subseteq> set (e_ssl_wr (env v))"
proof (cases "e_ssl_wr (env v)")
  case Nil
  then have "ret = 0" "w = v\<lparr>mon := (mon v)\<lparr>mon_ssl_wr := True\<rparr>\<rparr>"
    using assms(1) by (auto simp: cstp_write_def ssl_answer_def)
  then show thesis by (intro again) simp_all
next
  case (Cons a as)
  let ?u = "upd_env (\<lambda>e. e\<lparr>e_ssl_wr := as\<rparr>) v"
  have w: "(ret, w) = (case a of
        Wr_All \<Rightarrow> (int (length bs), log_ssl bs ?u)
      | Wr_Part n \<Rightarrow> (int (length (take (Suc n) bs)), log_ssl (take (Suc n) bs) ?u)
      | Want_Write \<Rightarrow> (0, ?u\<lparr>mon := (mon ?u)\<lparr>mon_ssl_wr := True\<rparr>\<rparr>)
      | Want_Read \<Rightarrow> (0, ?u)
      | Wr_Err \<Rightarrow> (-1, ?u))"
    using assms(1) Cons by (simp add: cstp_write_def ssl_answer_def)
  show thesis
  proof (cases a)
    case Wr_All
    with w Cons show thesis by (intro all) simp_all
  next
    case Wr_Part
    with Cons assms(2) show thesis by (auto simp: whole_ssl_def)
  next
    case Want_Write
    with w Cons show thesis by (intro again) (auto simp: upd_env_def)
  next
    case Want_Read
    with w Cons show thesis by (intro again) (auto simp: upd_env_def)
  next
    case Wr_Err
    with w Cons show thesis by (intro error) (auto simp: upd_env_def)
  qed
qed

lemma plain_current_frame:
  assumes "plain_current v" "current_ssl_pkt v = Some ptr" "ssl_pkt v ptr = Some p"
  shows "ssl_data [pkt_hdr p @ pkt_data p] = in_flight v" "length (pkt_hdr p) = 8" "ptr \<noteq> P_Deflate"
  using assms
  by (cases ptr; auto simp: plain_current_def in_flight_def framed_pkt_def ssl_data_simps(3) [unfolded plain_frame_def]
      ssl_data_simps(4) [where bs = "[]", simplified])+

lemma begin_write_same: "send_same v (begin_write v)"
  unfolding begin_write_def split_beta Let_def
  by (rule send_same_trans [OF send_same_trans [OF send_same_simps(6) send_same_simps(2)] send_same_simps(4)])

lemma begin_write_fields [simp]:
  "current_ssl_pkt (begin_write v) = current_ssl_pkt v" "e_ssl_wr (env (begin_write v)) = e_ssl_wr (env v)"
  using begin_write_same [of v] by (simp_all add: send_same_def)

lemma cstp_write_used:
  "fst (cstp_write bs v) \<noteq> 0 \<Longrightarrow> \<exists>a as. e_ssl_wr (env v) = a # as \<and> e_ssl_wr (env (snd (cstp_write bs v))) = as"
  by (auto simp: cstp_write_def ssl_answer_def log_ssl_def upd_env_def split_beta split: list.splits ssl_wr.splits)

text \<open>Where each stretch of code leads, and what it uses of the answers of \<open>SSL_write\<close>.\<close>

lemma handle_outgoing_goes:
  assumes "handle_outgoing timeout work v = Some (g, t, w)"
  shows "g \<noteq> Go_Service \<and> g \<noteq> Go_Send \<and> (g = Go_Next \<longrightarrow> (\<exists>a. e_ssl_wr (env v) = a # e_ssl_wr (env w)))"
proof -
  obtain ptr p where p: "current_ssl_pkt v = Some ptr" "ssl_pkt v ptr = Some p"
    using assms by (auto simp: handle_outgoing_def split: option.splits)
  obtain ret u where u: "cstp_write (pkt_hdr p @ pkt_data p) (begin_write v) = (ret, u)" by (metis surj_pair)
  have "ret \<noteq> 0 \<Longrightarrow> \<exists>a. e_ssl_wr (env v) = a # e_ssl_wr (env u)"
    using cstp_write_used [of "pkt_hdr p @ pkt_data p" "begin_write v"] u by auto
  moreover have "e_ssl_wr (env (written ptr u)) = e_ssl_wr (env u)" by (simp add: written_def)
  ultimately show ?thesis
    using assms stalled_same [of timeout work u g t w]
    by (auto simp: handle_outgoing_def p u internal_error_def split: if_splits)
qed

lemma service_queue_goes:
  "service_queue Z timeout work v = Some (g, t, w) \<Longrightarrow> g \<noteq> Go_Next \<and> g \<noteq> Go_Service \<and> e_ssl_wr (env w) = e_ssl_wr (env v)"
  by (auto simp: service_queue_def send_compressed_def send_uncompressed_def Let_def
      split: if_splits list.splits option.splits prod.splits)

lemma next_packet_goes:
  "next_packet Z timeout work v = Some (g, t, w) \<Longrightarrow> g \<noteq> Go_Next \<and> g \<noteq> Go_Service \<and> e_ssl_wr (env w) = e_ssl_wr (env v)"
  by (auto simp: next_packet_def time_now_def upd_env_def split_beta Let_def dest!: service_queue_goes
      split: if_splits ka_action.splits)

text \<open>The loop by recursion over the answers of \<open>SSL_write\<close>: it ends, since the list of answers does.\<close>

fun send_rounds :: "'z zlib \<Rightarrow> ssl_wr list \<Rightarrow> int \<Rightarrow> bool \<Rightarrow> 'z vpninfo \<Rightarrow> (cstp_goto \<times> int \<times> 'z vpninfo) option" where
  "send_rounds Z [] timeout work v = handle_outgoing timeout work v"
| "send_rounds Z (a # as) timeout work v =
     (case handle_outgoing timeout work v of
        None \<Rightarrow> None
      | Some (g, timeout, v) \<Rightarrow>
          (if g \<noteq> Go_Next \<and> g \<noteq> Go_Service then Some (g, timeout, v)
           else case (if g = Go_Next then next_packet else service_queue) Z timeout work v of
             None \<Rightarrow> None
           | Some (g, timeout, v) \<Rightarrow>
               (if g = Go_Send then send_rounds Z as timeout work v else Some (g, timeout, v))))"

lemma send_loop_rounds: "send_loop Z timeout work v = send_rounds Z (e_ssl_wr (env v)) timeout work v"
proof (induction "e_ssl_wr (env v)" arbitrary: v timeout)
  case Nil
  show ?case
    using Nil [symmetric] handle_outgoing_goes [of timeout work v]
    by (subst send_loop.simps) (auto split: option.split)
next
  case (Cons a as)
  show ?case
  proof (cases "handle_outgoing timeout work v")
    case None
    with Cons.hyps(2) [symmetric] show ?thesis by (subst send_loop.simps) simp
  next
    case (Some x)
    obtain g1 t1 v1 where x: "x = (g1, t1, v1)" by (cases x) auto
    note h = handle_outgoing_goes [OF Some [unfolded x]]
    have s: "send_loop Z t2 work v2 = send_rounds Z as t2 work v2"
      if "next_packet Z t1 work v1 = Some (g2, t2, v2)" "g1 = Go_Next" for g2 t2 v2
      using Cons.hyps(1) [of v2 t2] Cons.hyps(2) h that next_packet_goes [OF that(1)] by auto
    show ?thesis
      using Some x h s Cons.hyps(2) [symmetric] by (subst send_loop.simps) (auto split: option.split)
  qed
qed

lemma cstp_send_rounds:
  "cstp_send Z timeout work v =
     (if current_ssl_pkt v \<noteq> None then send_rounds Z (e_ssl_wr (env v)) timeout work v
      else case next_packet Z timeout work v of
        None \<Rightarrow> None
      | Some (g, timeout, v) \<Rightarrow>
          (if g = Go_Send then send_rounds Z (e_ssl_wr (env v)) timeout work v else Some (g, timeout, v)))"
  by (auto simp: cstp_send_def send_loop_rounds split: option.split)

lemma handle_outgoing_conserved:
  assumes "handle_outgoing timeout work v = Some (g, t, w)" "plain_current v" "whole_ssl v"
  shows "ssl_conserved v w" "g \<noteq> Go_Service \<and> g \<noteq> Go_Send"
    "g = Go_Next \<Longrightarrow> current_ssl_pkt w = None \<and> (\<exists>as. e_ssl_wr (env v) = Wr_All # as \<and> e_ssl_wr (env w) = as)"
    "g \<noteq> Go_Next \<Longrightarrow> current_ssl_pkt w = current_ssl_pkt v"
proof -
  obtain ptr p where p: "current_ssl_pkt v = Some ptr" "ssl_pkt v ptr = Some p"
    using assms(1) by (auto simp: handle_outgoing_def split: option.splits)
  note fr = plain_current_frame [OF assms(2) p]
  let ?v2 = "begin_write v"
  have s2: "send_same v ?v2" by (rule begin_write_same)
  have pc: "plain_current ?v2" using send_same_plain [OF s2 assms(2)] .
  have cur: "current_ssl_pkt ?v2 = Some ptr" and wh: "whole_ssl ?v2" and e2: "e_ssl_wr (env ?v2) = e_ssl_wr (env v)"
    using s2 p(1) assms(3) by (auto simp: send_same_def whole_ssl_def)
  obtain ret u where u: "cstp_write (pkt_hdr p @ pkt_data p) ?v2 = (ret, u)" by (metis surj_pair)
  have run: "Some (g, t, w) = Some (if ret < 0 then (Go_Reconnect, timeout, u)
       else if ret = 0 then stalled timeout work u
       else if ret \<noteq> pkt_len p + 8 then internal_error timeout u
       else (Go_Next, timeout, written ptr u))"
    using assms(1) by (simp add: handle_outgoing_def p u)
  have ne: "pkt_hdr p @ pkt_data p \<noteq> []" using fr(2) by auto
  have "ssl_conserved v w \<and> g \<noteq> Go_Service \<and> g \<noteq> Go_Send \<and>
    (g = Go_Next \<longrightarrow> current_ssl_pkt w = None \<and> (\<exists>as. e_ssl_wr (env v) = Wr_All # as \<and> e_ssl_wr (env w) = as)) \<and>
    (g \<noteq> Go_Next \<longrightarrow> current_ssl_pkt w = current_ssl_pkt v)"
  proof (cases rule: cstp_write_whole [OF u wh ne, case_names all again error])
    case (all as)
    have w: "g = Go_Next" "w = (log_ssl (pkt_hdr p @ pkt_data p) (upd_env (\<lambda>e. e\<lparr>e_ssl_wr := as\<rparr>) ?v2))\<lparr>current_ssl_pkt := None\<rparr>"
      using run all fr(2,3) by (auto simp: written_def)
    have "ssl_data (o_ssl (env w)) = ssl_data (o_ssl (env v)) @ in_flight v" "unsent w = map pkt_data (outgoing_queue v)"
      using s2 fr(1) by (auto simp: w log_ssl_def upd_env_def send_same_def unsent_def in_flight_def)
    moreover have "outgoing_queue w = outgoing_queue v" "outgoing_qlen w = outgoing_qlen v" "e_ssl_wr (env w) = as"
      "deflate w = deflate v" "current_ssl_pkt w = None"
      using s2 by (auto simp: w log_ssl_def upd_env_def send_same_def)
    ultimately show ?thesis
      using all(1) e2 w(1) assms(2) by (auto simp: ssl_conserved_def unsent_def plain_current_def)
  next
    case again
    have su: "stalled timeout work u = (g, t, w)" using run again by simp
    note st = stalled_same [OF su]
    have "ssl_conserved ?v2 u" using again pc by (simp add: ssl_conserved_def unsent_def in_flight_def plain_current_def)
    with st have "ssl_conserved ?v2 w"
      using ssl_conserved_trans send_same_conserved by (metis ssl_conserved_def)
    then have "ssl_conserved v w" using ssl_conserved_trans [OF send_same_conserved [OF s2 assms(2)]] by blast
    moreover have "current_ssl_pkt w = current_ssl_pkt v" using st again cur p(1) by (simp add: send_same_def)
    ultimately show ?thesis using st by auto
  next
    case error
    have w: "g = Go_Reconnect" "w = u" using run error by simp_all
    have "ssl_conserved ?v2 u" using error pc by (simp add: ssl_conserved_def unsent_def in_flight_def plain_current_def)
    then have "ssl_conserved v w" using ssl_conserved_trans [OF send_same_conserved [OF s2 assms(2)]] w by blast
    then show ?thesis using w error cur p(1) by simp
  qed
  then show "ssl_conserved v w" "g \<noteq> Go_Service \<and> g \<noteq> Go_Send"
    "g = Go_Next \<Longrightarrow> current_ssl_pkt w = None \<and> (\<exists>as. e_ssl_wr (env v) = Wr_All # as \<and> e_ssl_wr (env w) = as)"
    "g \<noteq> Go_Next \<Longrightarrow> current_ssl_pkt w = current_ssl_pkt v" by auto
qed

lemma send_rounds_conserved:
  "send_rounds Z (e_ssl_wr (env v)) timeout work v = Some (g, t, w) \<Longrightarrow> plain_current v \<Longrightarrow> whole_ssl v \<Longrightarrow>
   ssl_conserved v w \<and> g \<notin> {Go_Next, Go_Service, Go_Send}"
proof (induction "e_ssl_wr (env v)" arbitrary: v timeout)
  case Nil
  then show ?case using handle_outgoing_conserved [of timeout work v g t w] by auto
next
  case (Cons a as)
  have run: "send_rounds Z (a # as) timeout work v = Some (g, t, w)" using Cons.prems(1) Cons.hyps(2) by simp
  obtain g1 t1 v1 where h: "handle_outgoing timeout work v = Some (g1, t1, v1)"
    using run by (auto split: option.splits)
  note hc = handle_outgoing_conserved [OF h Cons.prems(2,3)]
  show ?case
  proof (cases "g1 = Go_Next")
    case False
    with run h hc show ?thesis by auto
  next
    case True
    then have v1: "current_ssl_pkt v1 = None" "e_ssl_wr (env v1) = as" "\<not> deflate v1"
      using hc Cons.hyps(2) by (auto simp: ssl_conserved_def plain_current_def)
    obtain g2 t2 v2 where n: "next_packet Z t1 work v1 = Some (g2, t2, v2)"
      using run h True by (auto split: option.splits)
    have nc: "ssl_conserved v1 v2" "e_ssl_wr (env v2) = as" "g2 \<notin> {Go_Next, Go_Service}"
      using next_packet_conserved [OF n v1(1,3)] v1(2) by auto
    have c2: "ssl_conserved v v2" by (rule ssl_conserved_trans [OF hc(1) nc(1)])
    show ?thesis
    proof (cases "g2 = Go_Send")
      case False
      with run h True n c2 nc show ?thesis by auto
    next
      case True
      with run h \<open>g1 = Go_Next\<close> n have "send_rounds Z (e_ssl_wr (env v2)) t2 work v2 = Some (g, t, w)"
        using nc(2) by simp
      then have "ssl_conserved v2 w \<and> g \<notin> {Go_Next, Go_Service, Go_Send}"
        using Cons.hyps(1) [of v2 t2] nc c2 ssl_conserved_whole [OF c2 Cons.prems(3)]
        by (auto simp: ssl_conserved_def)
      with c2 show ?thesis by (blast intro: ssl_conserved_trans)
    qed
  qed
qed

section \<open>The read loop\<close>

fun rx_state :: "'z cstp_rx \<Rightarrow> 'z vpninfo" where
  "rx_state (Rx_Next b v) = v"
| "rx_state (Rx_Return r v) = v"

fun read_state :: "'z cstp_read_end \<Rightarrow> 'z vpninfo" where
  "read_state (Read_Return r v) = v"
| "read_state (Read_Error b v) = v"
| "read_state (Read_Done b v) = v"

lemma send_same_upd:
  assumes "send_same u v"
  shows "send_same u (snd (ask v))" "send_same u (v\<lparr>incoming_queue := q\<rparr>)" "send_same u (v\<lparr>inflate_strm := s\<rparr>)"
    "send_same u (v\<lparr>inflate_adler32 := a\<rparr>)" "send_same u (v\<lparr>quit_reason := x\<rparr>)"
    "send_same u (v\<lparr>owe_ssl_dpd_response := b\<rparr>)" "send_same u (snd (time_now v))" "send_same u (upd_ssl f v)"
    "send_same u (upd_env (\<lambda>e. e\<lparr>e_ssl_rd := rs\<rparr>) v)"
  by (rule send_same_trans [OF assms],
      simp add: send_same_def ask_def time_now_def upd_env_def upd_ssl_def split: list.split)+

lemma inflate_same: "inflate_and_queue_packet Z buf v = Some w \<Longrightarrow> send_same u v \<Longrightarrow> send_same u w"
  by (auto simp: inflate_and_queue_packet_def split_beta Let_def send_same_upd split: if_splits option.splits)

lemma cstp_dispatch_same:
  "cstp_dispatch Z type payload work v = Some x \<Longrightarrow> send_same u v \<Longrightarrow> send_same u (rx_state x)"
  by (auto simp: cstp_dispatch_def unknown_pkt_def server_request_def split_beta Let_def send_same_upd
      dest: inflate_same split: if_splits)

lemma cstp_packet_same:
  "cstp_packet Z buf len work v = Some x \<Longrightarrow> send_same u v \<Longrightarrow> send_same u (rx_state x)"
  by (auto simp: cstp_packet_def unknown_pkt_def split_beta Let_def send_same_upd
      dest!: cstp_dispatch_same [where u = u] split: if_splits)

lemma cstp_read_loop_same:
  "cstp_read_loop Z rs buf work v = Some x \<Longrightarrow> send_same u v \<Longrightarrow> send_same u (read_state x)"
proof (induction rs arbitrary: buf work v)
  case (Cons r rs)
  note v = send_same_upd(9) [OF Cons.prems(2), of rs]
  show ?case
  proof (cases r)
    case (Rd bs)
    show ?thesis
    proof (cases bs)
      case Nil
      with Cons.prems(1) Rd v show ?thesis by auto
    next
      case (Cons b bs')
      let ?bs = "take BUF_SIZE bs"
      obtain y where y: "cstp_packet Z (fill buf ?bs) (length ?bs) work (upd_env (\<lambda>e. e\<lparr>e_ssl_rd := rs\<rparr>) v) = Some y"
        using Cons.prems(1) Rd Cons by (auto simp: Let_def split: option.splits)
      have s: "send_same u (rx_state y)" by (rule cstp_packet_same [OF y v])
      show ?thesis
        using Cons.prems(1) Rd Cons y s Cons.IH by (cases y) (auto simp: Let_def)
    qed
  qed (use Cons.prems(1) v in auto)
qed auto

section \<open>Conservation\<close>

lemma do_reconnect_conserved:
  assumes "do_reconnect Z v = Some (r, w)" "\<not> deflate v"
  shows "o_ssl (env w) = o_ssl (env v) \<and> outgoing_queue w = outgoing_queue v \<and> outgoing_qlen w = outgoing_qlen v \<and>
    current_ssl_pkt w = current_ssl_pkt v"
proof -
  obtain ret u where u: "cstp_reconnect Z v = Some (ret, u)"
    using assms(1) by (auto simp: do_reconnect_def split: option.splits)
  let ?c = "openconnect_close_https v"
  have "end_streams ?c = Some ?c" using assms(2) by (simp add: end_streams_def openconnect_close_https_def)
  then have "reconnect_loop Z (reconnect_timeout ?c) (reconnect_interval ?c) ?c = Some (ret, u)"
    using u by (simp add: cstp_reconnect_def)
  from reconnect_loop_reconnected [OF this] have "reconnect_frame ?c u" by (simp add: reconnected_def)
  then have f: "o_ssl (env u) = o_ssl (env v) \<and> outgoing_queue u = outgoing_queue v \<and> outgoing_qlen u = outgoing_qlen v \<and>
      current_ssl_pkt u = current_ssl_pkt v"
    by (simp add: reconnect_frame_def outs_def openconnect_close_https_def split: if_splits)
  have d: "o_ssl (env (snd (dtls_reconnect u))) = o_ssl (env u)"
    "outgoing_queue (snd (dtls_reconnect u)) = outgoing_queue u"
    "outgoing_qlen (snd (dtls_reconnect u)) = outgoing_qlen u"
    "current_ssl_pkt (snd (dtls_reconnect u)) = current_ssl_pkt u"
    using dtls_frame_simps [OF dtls_frame_reconnect [OF dtls_frame_refl [of u]]] by (simp_all add: outs_def)
  show ?thesis
    using assms(1) u f d by (auto simp: do_reconnect_def do_dtls_reconnect_def split: if_splits)
qed

lemma ssl_conserved_exit:
  assumes "o_ssl (env w) = o_ssl (env v)" "outgoing_queue w = outgoing_queue v" "outgoing_qlen w = outgoing_qlen v"
    "current_ssl_pkt w = current_ssl_pkt v"
  shows "ssl_data (o_ssl (env w)) @ unsent w = ssl_data (o_ssl (env v)) @ unsent v \<and>
    outgoing_qlen w - int (length (outgoing_queue w)) = outgoing_qlen v - int (length (outgoing_queue v))"
  using assms by (simp add: unsent_def in_flight_def)

lemma do_dtls_reconnect_conserved:
  "o_ssl (env (snd (do_dtls_reconnect v))) = o_ssl (env v) \<and> outgoing_queue (snd (do_dtls_reconnect v)) = outgoing_queue v \<and>
   outgoing_qlen (snd (do_dtls_reconnect v)) = outgoing_qlen v \<and>
   current_ssl_pkt (snd (do_dtls_reconnect v)) = current_ssl_pkt v"
  using dtls_frame_simps [OF dtls_frame_reconnect [OF dtls_frame_refl [of v]]]
  by (simp add: do_dtls_reconnect_def outs_def)

lemma cstp_exit_conserved:
  assumes "cstp_exit Z (g, timeout, v) = Some (r, t, w)" "\<not> deflate v"
  shows "o_ssl (env w) = o_ssl (env v) \<and> outgoing_queue w = outgoing_queue v \<and> outgoing_qlen w = outgoing_qlen v \<and>
    current_ssl_pkt w = current_ssl_pkt v"
proof (cases g)
  case (Go_Return x)
  with assms show ?thesis by (simp add: cstp_exit_def)
next
  case Go_Rekey
  with assms show ?thesis
    using do_dtls_reconnect_conserved [of v]
    by (cases "do_dtls_reconnect v") (auto simp: cstp_exit_def split: if_splits dest: do_reconnect_conserved)
qed (use assms in \<open>auto simp: cstp_exit_def dest: do_reconnect_conserved\<close>)

lemma cstp_send_conserved:
  assumes "cstp_send Z timeout work v = Some (g, t, w)" "plain_current v" "whole_ssl v"
  shows "ssl_conserved v w"
proof (cases "current_ssl_pkt v = None")
  case False
  with assms send_rounds_conserved [of Z v timeout work g t w] show ?thesis by (simp add: cstp_send_rounds)
next
  case True
  obtain g1 t1 v1 where n: "next_packet Z timeout work v = Some (g1, t1, v1)"
    using assms(1) True by (auto simp: cstp_send_rounds split: option.splits)
  have nd: "\<not> deflate v" using assms(2) by (simp add: plain_current_def)
  note c = next_packet_conserved [OF n True nd]
  show ?thesis
  proof (cases "g1 = Go_Send")
    case False
    with assms(1) True n c show ?thesis by (auto simp: cstp_send_rounds)
  next
    case True
    then have "send_rounds Z (e_ssl_wr (env v1)) t1 work v1 = Some (g, t, w)"
      using assms(1) \<open>current_ssl_pkt v = None\<close> n c by (simp add: cstp_send_rounds)
    moreover have "plain_current v1" using c by (simp add: ssl_conserved_def)
    ultimately show ?thesis
      using send_rounds_conserved [of Z v1 t1 work g t w] c ssl_conserved_whole [of v v1] assms(3) ssl_conserved_trans by blast
  qed
qed

section \<open>Properties\<close>

text \<open>
  C3 (cstp_outgoing_conserved): Without compression, \<open>cstp_mainloop\<close> neither loses, duplicates nor reorders an
  outgoing packet: what was sent over the SSL connection, the packet in \<open>current_ssl_pkt\<close> and the queue
  together are the same before and after, through stalls, write errors, dead peers and
  reconnections; and the count of the queue stays right.
\<close>

theorem cstp_outgoing_conserved:
  assumes "cstp_mainloop Z timeout v = Some (r, t, w)" "plain_current v" "whole_ssl v"
  shows "ssl_data (o_ssl (env w)) @ unsent w = ssl_data (o_ssl (env v)) @ unsent v \<and>
    outgoing_qlen w - int (length (outgoing_queue w)) = outgoing_qlen v - int (length (outgoing_queue v))"
proof -
  have nd: "\<not> deflate v" using assms(2) by (simp add: plain_current_def)
  show ?thesis
  proof (cases "ssl_open v")
    case False
    with assms(1) have "cstp_exit Z (Go_Reconnect, timeout, v) = Some (r, t, w)" by (simp add: cstp_mainloop_def)
    from ssl_conserved_exit [of w v] cstp_exit_conserved [OF this nd] show ?thesis by simp
  next
    case True
    obtain x where x: "cstp_read_loop Z (e_ssl_rd (env v)) (stack_buf v) False v = Some x"
      using assms(1) True by (auto simp: cstp_mainloop_def split: option.splits)
    let ?u = "read_state x"
    have s: "send_same v ?u" by (rule cstp_read_loop_same [OF x]) simp
    note pu = send_same_plain [OF s assms(2)]
    have nu: "\<not> deflate ?u" using pu by (simp add: plain_current_def)
    have wu: "whole_ssl ?u" using s assms(3) by (simp add: whole_ssl_def send_same_def)
    have su: "ssl_data (o_ssl (env ?u)) @ unsent ?u = ssl_data (o_ssl (env v)) @ unsent v"
      "outgoing_qlen ?u - int (length (outgoing_queue ?u)) = outgoing_qlen v - int (length (outgoing_queue v))"
      using send_same_conserved [OF s assms(2)] by (simp_all add: ssl_conserved_def)
    show ?thesis
    proof (cases x)
      case (Read_Return ret u)
      with assms(1) True x su show ?thesis by (simp add: cstp_mainloop_def)
    next
      case (Read_Error b u)
      then have "cstp_exit Z (Go_Reconnect, timeout, ?u) = Some (r, t, w)"
        using assms(1) True x by (simp add: cstp_mainloop_def)
      from ssl_conserved_exit [of w ?u] cstp_exit_conserved [OF this nu] su show ?thesis by simp
    next
      case (Read_Done b u)
      obtain g t1 z where z: "cstp_send Z timeout b ?u = Some (g, t1, z)" "cstp_exit Z (g, t1, z) = Some (r, t, w)"
        using assms(1) True x Read_Done by (auto simp: cstp_mainloop_def split: option.splits)
      have c: "ssl_conserved ?u z" by (rule cstp_send_conserved [OF z(1) pu wu])
      then have "\<not> deflate z" by (simp add: ssl_conserved_def plain_current_def)
      from ssl_conserved_exit [of w z] cstp_exit_conserved [OF z(2) this] c su show ?thesis
        by (simp add: ssl_conserved_def)
    qed
  qed
qed

text \<open>An open connection without DTLS, with two packets to send.\<close>

definition cstp_sample :: "ssl_rd list \<Rightarrow> ssl_wr list \<Rightarrow> unit vpninfo" where
  "cstp_sample rs ws = idle_vpn\<lparr>ssl_open := True, deflate := False, dtls_state := DTLS_DISABLED,
     ip_info := no_ip_info\<lparr>ip_mtu := 1400\<rparr>,
     outgoing_queue := [new_pkt [0x45, 1], new_pkt [0x45, 2]], outgoing_qlen := 2,
     env := idle_env\<lparr>e_ssl_rd := rs, e_ssl_wr := ws\<rparr>\<rparr>"

lemmas cstp_eval = cstp_sample_def idle_vpn_def idle_env_def idle_config_def idle_mon_def no_ip_info_def no_timers_def
  cstp_mainloop_def cstp_send_rounds next_packet_def service_queue_def send_uncompressed_def handle_outgoing_def
  begin_write_def cstp_write_def ssl_answer_def written_def stalled_def cstp_exit_def ka_stalled_action_def
  keepalive_action_def keepalive_tail_def rekey_check_def ka_check_deadline_def world_defs upd_ssl_def

lemma cstp_sample_run:
  "map_option (\<lambda>(r, t, w). (r, t, o_ssl (env w), in_flight w, outgoing_queue w))
     (cstp_mainloop Z 5000 (cstp_sample [] [Wr_All, Want_Write])) =
   Some (0, 5000, [plain_frame [0x45, 1]], [[0x45, 2]], [])"
  by (simp add: cstp_eval in_flight_def plain_frame_def)

theorem cstp_outgoing_conserved_witness:
  "\<exists>w. cstp_mainloop stored 5000 (cstp_sample [] [Wr_All, Want_Write]) = Some (0, 5000, w) \<and>
     ssl_data (o_ssl (env w)) @ unsent w = [[0x45, 1], [0x45, 2]] \<and> outgoing_qlen w = 0"
proof -
  obtain w where w: "cstp_mainloop stored 5000 (cstp_sample [] [Wr_All, Want_Write]) = Some (0, 5000, w)" "outgoing_queue w = []"
    using cstp_sample_run [of stored] by auto
  have "plain_current (cstp_sample [] [Wr_All, Want_Write])" "whole_ssl (cstp_sample [] [Wr_All, Want_Write])"
    by (simp_all add: plain_current_def whole_ssl_def cstp_sample_def idle_vpn_def)
  from cstp_outgoing_conserved [OF w(1) this] w show ?thesis
    by (simp add: unsent_def in_flight_def cstp_sample_def idle_vpn_def idle_env_def)
qed

text \<open>A frame as the sending side builds it, read by the receiving side.\<close>

lemma be16_split:
  assumes "m < 65536"
  shows "unat (word_of_nat (m div 256) :: byte) * 256 + unat (word_of_nat m :: byte) = m"
proof -
  have "m div 256 < 256" using assms by auto
  then show ?thesis by (simp add: unat_of_nat)
qed

definition heard :: "'z vpninfo \<Rightarrow> 'z vpninfo" where
  "heard v = upd_ssl (\<lambda>k. k\<lparr>ka_last_rx := fst (time_now v)\<rparr>) (snd (time_now v))"

lemma heard_fields [simp]:
  "inflate_strm (heard v) = inflate_strm v" "inflate_adler32 (heard v) = inflate_adler32 v" "deflate (heard v) = deflate v"
  "ip_info (heard v) = ip_info v" "e_calls (env (heard v)) = e_calls (env v)" "incoming_queue (heard v) = incoming_queue v"
  "quit_reason (heard v) = quit_reason v"
  by (simp_all add: heard_def upd_ssl_def time_now_def upd_env_def)

lemma cstp_packet_frame:
  assumes "length pl < 65536"
  shows "cstp_packet Z (fill buf (data_hdr t (length pl) @ pl)) (length pl + 8) work v = cstp_dispatch Z t pl work (heard v)"
  using be16_split [OF assms]
  by (simp add: cstp_packet_def fill_def data_hdr_def nth_append heard_def split_beta Let_def)

text \<open>
  C13 (cstp_framing_roundtrip): The packet that the client puts on the SSL connection for a packet of its
  queue, read by the same code at the other end, gives back the payload, for every payload that fits
  in a record, whatever the rest of the buffer holds.
\<close>

theorem cstp_framing_roundtrip:
  assumes "ssl_pkt (send_uncompressed p v) (the (current_ssl_pkt (send_uncompressed p v))) = Some q"
    and "length (pkt_data p) \<le> 16376" "e_calls (env u) = []"
  shows "\<exists>w. cstp_packet Z (fill buf (pkt_hdr q @ pkt_data q)) (length (pkt_hdr q @ pkt_data q)) work u = Some (Rx_Next True w) \<and>
    incoming_queue w = incoming_queue u @ [new_pkt (pkt_data p)]"
proof -
  let ?n = "length (pkt_data p)"
  have q: "pkt_hdr q = data_hdr AC_PKT_DATA ?n" "pkt_data q = pkt_data p"
    using assms(1) by (auto simp: send_uncompressed_def)
  show ?thesis
    using assms(2,3) cstp_packet_frame [of "pkt_data p" Z buf AC_PKT_DATA work u]
    by (simp add: q cstp_dispatch_def ask_def queue_new_packet_def queue_packet_def split_beta add.commute [of 8])
qed

theorem cstp_framing_roundtrip_witness:
  "\<exists>w. cstp_packet stored (fill (replicate 16384 0) (plain_frame [0x45, 1, 2])) 11 False (cstp_sample [] []) = Some (Rx_Next True w) \<and>
     incoming_queue w = [new_pkt [0x45, 1, 2]]"
  using cstp_framing_roundtrip [of "new_pkt [0x45, 1, 2]" "cstp_sample [] []" "new_pkt [0x45, 1, 2]\<lparr>pkt_hdr := data_hdr AC_PKT_DATA 3\<rparr>"
      "cstp_sample [] []" stored "replicate 16384 0" False]
  by (simp add: send_uncompressed_def plain_frame_def) (simp add: cstp_sample_def idle_vpn_def idle_env_def data_hdr_def)

lemma ask_same [simp]:
  "inflate_strm (snd (ask v)) = inflate_strm v" "deflate (snd (ask v)) = deflate v" "ip_info (snd (ask v)) = ip_info v"
  by (simp_all add: ask_def upd_env_def split: list.split)

lemma inflate_None:
  "inflate_and_queue_packet Z buf v = None \<longleftrightarrow> fst (ask v) \<and> inflate_strm v \<noteq> None \<and> length buf < 4"
  by (simp add: inflate_and_queue_packet_def split_beta Let_def split: option.split)

lemma cstp_dispatch_None:
  "cstp_dispatch Z type payload work v = None \<longleftrightarrow>
     type = AC_PKT_DISCONN \<and> 8188 < length payload \<or>
     type = AC_PKT_COMPRESSED \<and> deflate v \<and> fst (ask v) \<and> inflate_strm v \<noteq> None \<and> length payload < 4"
  by (auto simp: cstp_dispatch_def split_beta Let_def inflate_None)

lemma ask_time:
  "fst (ask (upd_ssl f (snd (time_now v)))) = fst (ask v)"
  "deflate (upd_ssl f (snd (time_now v))) = deflate v" "inflate_strm (upd_ssl f (snd (time_now v))) = inflate_strm v"
  by (simp_all add: ask_def time_now_def upd_env_def upd_ssl_def split: list.split)

text \<open>
  The only packets on which the read loop leaves its buffers: a disconnect notice
  of more than 8188 bytes, whose text the code looks for behind the packet, and, in a session with
  compression, a compressed packet too short for its checksum.
\<close>

theorem cstp_read_faults:
  "cstp_packet Z buf len work v = None \<longleftrightarrow>
     take 4 buf = [0x53, 0x54, 0x46, 1] \<and> buf ! 7 = 0 \<and>
     len = 8 + (unat (buf ! 4) * 256 + unat (buf ! 5)) \<and>
     (let payload = take (unat (buf ! 4) * 256 + unat (buf ! 5)) (drop 8 buf) in
      buf ! 6 = AC_PKT_DISCONN \<and> 8188 < length payload \<or>
      buf ! 6 = AC_PKT_COMPRESSED \<and> deflate v \<and> fst (ask v) \<and> inflate_strm v \<noteq> None \<and> length payload < 4)"
  by (simp add: cstp_packet_def split_beta Let_def cstp_dispatch_None ask_time) blast

text \<open>What is sent is never taken back.\<close>

definition sent_more :: "'z vpninfo \<Rightarrow> 'z vpninfo \<Rightarrow> bool" where
  "sent_more v w \<longleftrightarrow> (\<exists>more. o_ssl (env w) = o_ssl (env v) @ more)"

lemma sent_more_refl [simp]: "sent_more v v"
  by (simp add: sent_more_def)

lemma sent_more_trans: "sent_more u v \<Longrightarrow> sent_more v w \<Longrightarrow> sent_more u w"
  by (auto simp: sent_more_def)

lemma send_same_more: "send_same v w \<Longrightarrow> sent_more v w"
  by (simp add: send_same_def sent_more_def)

lemma cstp_write_more: "sent_more v (snd (cstp_write bs v))"
  by (simp add: sent_more_def cstp_write_def ssl_answer_def log_ssl_def upd_env_def split_beta
      split: list.split ssl_wr.split)

lemma stalled_more: "stalled timeout work v = (g, t, w) \<Longrightarrow> sent_more v w"
  by (rule send_same_more) (use stalled_same in blast)

lemma handle_outgoing_more:
  assumes "handle_outgoing timeout work v = Some (g, t, w)"
  shows "sent_more v w"
proof -
  obtain ptr p where p: "current_ssl_pkt v = Some ptr" "ssl_pkt v ptr = Some p"
    using assms by (auto simp: handle_outgoing_def split: option.splits)
  obtain ret u where u: "cstp_write (pkt_hdr p @ pkt_data p) (begin_write v) = (ret, u)" by (metis surj_pair)
  have vu: "sent_more v u"
    using sent_more_trans [OF send_same_more [OF begin_write_same] cstp_write_more] u by (metis snd_conv)
  have "sent_more u w"
    using assms by (auto simp: handle_outgoing_def p u internal_error_def written_def sent_more_def
        dest: stalled_more [unfolded sent_more_def] split: if_splits)
  with vu show ?thesis by (rule sent_more_trans)
qed

lemma service_queue_more: "service_queue Z timeout work v = Some (g, t, w) \<Longrightarrow> sent_more v w"
  by (auto simp: service_queue_def send_compressed_def send_uncompressed_def sent_more_def split_beta Let_def
      split: if_splits list.splits option.splits)

lemma next_packet_more: "next_packet Z timeout work v = Some (g, t, w) \<Longrightarrow> sent_more v w"
  by (auto simp: next_packet_def split_beta Let_def sent_more_def time_now_def upd_env_def
      dest!: service_queue_more split: ka_action.splits if_splits)

lemma send_rounds_more: "send_rounds Z as timeout work v = Some (g, t, w) \<Longrightarrow> sent_more v w"
proof (induction as arbitrary: timeout v)
  case Nil
  then show ?case by (simp add: handle_outgoing_more)
next
  case (Cons a as)
  obtain g1 t1 v1 where h: "handle_outgoing timeout work v = Some (g1, t1, v1)"
    using Cons.prems by (auto split: option.splits)
  note m1 = handle_outgoing_more [OF h]
  show ?case
  proof (cases "g1 = Go_Next \<or> g1 = Go_Service")
    case False
    with Cons.prems h m1 show ?thesis by auto
  next
    case True
    obtain g2 t2 v2 where n: "(if g1 = Go_Next then next_packet else service_queue) Z t1 work v1 = Some (g2, t2, v2)"
      using Cons.prems h True by (auto split: option.splits)
    have m2: "sent_more v1 v2"
      using n by (auto split: if_splits dest: next_packet_more service_queue_more)
    show ?thesis
    proof (cases "g2 = Go_Send")
      case True
      with Cons.prems h n \<open>g1 = Go_Next \<or> g1 = Go_Service\<close> have "send_rounds Z as t2 work v2 = Some (g, t, w)" by auto
      from Cons.IH [OF this] m1 m2 show ?thesis by (blast intro: sent_more_trans)
    next
      case False
      with Cons.prems h n True m1 m2 show ?thesis by (auto intro: sent_more_trans)
    qed
  qed
qed

lemma do_reconnect_o_ssl: "do_reconnect Z v = Some (r, w) \<Longrightarrow> o_ssl (env w) = o_ssl (env v)"
proof -
  assume r: "do_reconnect Z v = Some (r, w)"
  obtain u ret x where u: "end_streams (openconnect_close_https v) = Some u"
      "reconnect_loop Z (reconnect_timeout u) (reconnect_interval u) u = Some (ret, x)"
      "w = (if ret \<noteq> 0 then x\<lparr>quit_reason := Some ''CSTP reconnect failed''\<rparr> else snd (do_dtls_reconnect x))"
    using r by (auto simp: do_reconnect_def cstp_reconnect_def split: option.splits if_splits)
  have "\<not> ssl_open u" "env u = env v"
    using end_streams_state [OF u(1)] by (simp_all add: openconnect_close_https_def split: if_splits)
  with reconnect_loop_reconnected [OF u(2)] have "o_ssl (env x) = o_ssl (env v)"
    by (simp add: reconnected_def reconnect_frame_def outs_def)
  then show ?thesis using do_dtls_reconnect_conserved [of x] by (simp add: u(3))
qed

lemma cstp_exit_o_ssl:
  assumes "cstp_exit Z (g, timeout, v) = Some (r, t, w)"
  shows "o_ssl (env w) = o_ssl (env v)"
proof (cases g)
  case Go_Rekey
  with assms show ?thesis
    using do_dtls_reconnect_conserved [of v]
    by (cases "do_dtls_reconnect v") (auto simp: cstp_exit_def split: if_splits dest: do_reconnect_o_ssl)
qed (use assms in \<open>auto simp: cstp_exit_def dest: do_reconnect_o_ssl\<close>)

lemma send_rounds_first:
  assumes "send_rounds Z (Wr_All # as) timeout work v = Some (g, t, w)" "current_ssl_pkt v = Some P_Dpd_Resp"
    and "e_ssl_wr (env v) = Wr_All # as"
  shows "\<exists>more. o_ssl (env w) = o_ssl (env v) @ data_hdr AC_PKT_DPD_RESP 0 # more"
proof -
  let ?b = "begin_write v"
  have b: "e_ssl_wr (env ?b) = Wr_All # as" "o_ssl (env ?b) = o_ssl (env v)"
    using begin_write_same [of v] assms(3) by (simp_all add: send_same_def)
  let ?u = "log_ssl (data_hdr AC_PKT_DPD_RESP 0) (upd_env (\<lambda>e. e\<lparr>e_ssl_wr := as\<rparr>) ?b)"
  let ?w = "?u\<lparr>current_ssl_pkt := None\<rparr>"
  have h: "handle_outgoing timeout work v = Some (Go_Next, timeout, ?w)"
    by (simp add: handle_outgoing_def assms(2,3) cstp_write_def ssl_answer_def b written_def)
  have m: "o_ssl (env ?w) = o_ssl (env v) @ [data_hdr AC_PKT_DPD_RESP 0]"
    using b(2) by (simp add: log_ssl_def upd_env_def)
  obtain g2 t2 v2 where n: "next_packet Z timeout work ?w = Some (g2, t2, v2)"
    using assms(1) h by (auto split: option.splits)
  have "sent_more ?w w"
    using assms(1) h n next_packet_more [OF n] send_rounds_more [of Z as t2 work v2 g t w]
    by (auto split: if_splits intro: sent_more_trans)
  with m show ?thesis by (auto simp: sent_more_def)
qed

text \<open>
  A dead-peer-detection request from the server is answered before anything else is
  sent: when no packet is half sent and the socket takes one, the first thing that goes out in the
  same round is the response.
\<close>

theorem cstp_answers_dpd:
  assumes "cstp_mainloop Z timeout v = Some (r, t, w)" "ssl_open v" "current_ssl_pkt v = None"
    and "e_ssl_rd (env v) = [Rd (data_hdr AC_PKT_DPD_OUT 0), Rd_Again]" "e_ssl_wr (env v) = Wr_All # ws"
  shows "\<exists>more. o_ssl (env w) = o_ssl (env v) @ data_hdr AC_PKT_DPD_RESP 0 # more"
proof -
  define x where "x = cstp_read_loop Z (e_ssl_rd (env v)) (stack_buf v) False v"
  have "\<exists>u. x = Some (Read_Done False u) \<and> owe_ssl_dpd_response u"
    by (simp add: x_def assms(4) data_hdr_def fill_def cstp_packet_def cstp_dispatch_def time_now_def upd_env_def upd_ssl_def)
  then obtain u where u: "x = Some (Read_Done False u)" "owe_ssl_dpd_response u" by blast
  have s: "send_same v u" using cstp_read_loop_same [OF u(1) [unfolded x_def]] by simp
  let ?u = "u\<lparr>owe_ssl_dpd_response := False, current_ssl_pkt := Some P_Dpd_Resp\<rparr>"
  have e: "e_ssl_wr (env ?u) = Wr_All # ws" "o_ssl (env ?u) = o_ssl (env v)" "current_ssl_pkt u = None"
    using s assms(3,5) by (simp_all add: send_same_def)
  obtain g t1 z where z: "send_rounds Z (Wr_All # ws) timeout False ?u = Some (g, t1, z)" "cstp_exit Z (g, t1, z) = Some (r, t, w)"
    using assms(1,2) u e by (auto simp: cstp_mainloop_def x_def cstp_send_rounds next_packet_def split: option.splits)
  from send_rounds_first [OF z(1) _ e(1)] cstp_exit_o_ssl [OF z(2)] e(2) show ?thesis by simp
qed

theorem cstp_answers_dpd_witness:
  "\<exists>w more. cstp_mainloop stored 5000 (cstp_sample [Rd (data_hdr AC_PKT_DPD_OUT 0), Rd_Again] [Wr_All]) = Some (0, 5000, w) \<and>
     o_ssl (env w) = data_hdr AC_PKT_DPD_RESP 0 # more"
proof -
  let ?v = "cstp_sample [Rd (data_hdr AC_PKT_DPD_OUT 0), Rd_Again] [Wr_All]"
  obtain w where w: "cstp_mainloop stored 5000 ?v = Some (0, 5000, w)"
    by (simp add: cstp_eval data_hdr_def fill_def stack_buf_def cstp_packet_def cstp_dispatch_def)
  from cstp_answers_dpd [OF w] w show ?thesis
    by (simp add: cstp_sample_def idle_vpn_def idle_env_def)
qed

section \<open>Compression\<close>
















text \<open>The checksum at the end of a compressed packet is read as it was written.\<close>

lemma be32_be_bytes: "be32 (ucast (drop_bit 24 w)) (ucast (drop_bit 16 w)) (ucast (drop_bit 8 w)) (ucast w) = w"
  unfolding be32_def
proof (rule bit_eqI)
  fix n
  assume "possible_bit TYPE(32 word) n"
  then have "n < 32" by simp
  then consider "n < 8" | "8 \<le> n" "n < 16" | "16 \<le> n" "n < 24" | "24 \<le> n" "n < 32" by linarith
  then show "bit (push_bit 24 (ucast (ucast (drop_bit 24 w) :: byte)) OR push_bit 16 (ucast (ucast (drop_bit 16 w) :: byte)) OR
      push_bit 8 (ucast (ucast (drop_bit 8 w) :: byte)) OR ucast (ucast w :: byte) :: u32) n = bit w n"
    by cases (auto simp: bit_simps)
qed

lemma length_be_bytes [simp]: "length (be_bytes a) = 4"
  by (simp add: be_bytes_def)

lemma pkt_sum_be_bytes: "pkt_sum (out @ be_bytes a) = a"
  by (simp add: pkt_sum_def be_bytes_def nth_append be32_be_bytes)

text \<open>
  zlib's documented contract between the two ends of a stream: what one call of \<open>deflate\<close> wrote
  completely, one call of \<open>inflate\<close> gives back, and the streams stay in step.
\<close>

definition in_step :: "'z zlib \<Rightarrow> ('z \<Rightarrow> 'z \<Rightarrow> bool) \<Rightarrow> bool" where
  "in_step Z R \<longleftrightarrow>
     (\<forall>ds is x out ds' n. R ds is \<longrightarrow> z_deflate Z ds x 2040 = (0, out, ds') \<longrightarrow> length out < 2040 \<longrightarrow> length x \<le> n \<longrightarrow>
        (\<exists>is'. z_inflate Z is out n = (0, x, is') \<and> R ds' is'))"

lemma set_length: "[a, b, c, d, e, f, g, h][4 := x, 5 := y] = [a, b, c, d, x, y, g, h]"
  by (simp add: numeral_eq_Suc)

text \<open>
  C8 (compression_roundtrip): A packet that the client compresses, when \<open>deflate\<close> needs fewer than the 2040 bytes it is given,
  is read by the same code at the other end, whose MTU is at least the payload: this
  gives back the payload with a matching checksum, and leaves both streams and both running checksums in
  step for the next packet. (When \<open>deflate\<close> fills the 2040 bytes it returns \<open>Z_OK\<close> with output to
  come; the code sends what there is.) \<open>in_step\<close> is what zlib documents of a pair of streams.
\<close>

theorem compression_roundtrip:
  assumes "in_step Z R" "send_compressed Z p v = Some w" "current_ssl_pkt w = Some P_Deflate"
    and "deflate_pkt v = Some d" "pkt_hdr d = data_hdr AC_PKT_COMPRESSED n" "deflate_pkt w = Some e" "length (pkt_data e) < 2044"
    and "deflate_strm v = Some ds" "inflate_strm u = Some is" "R ds is" "inflate_adler32 u = deflate_adler32 v"
    and "deflate u" "e_calls (env u) = []" "length (pkt_data p) \<le> nat (ip_mtu (ip_info u))"
  shows "\<exists>x ds' is'. cstp_packet Z (fill buf (pkt_hdr e @ pkt_data e)) (length (pkt_hdr e @ pkt_data e)) work u = Some (Rx_Next True x) \<and>
    incoming_queue x = incoming_queue u @ [new_pkt (pkt_data p)] \<and> quit_reason x = quit_reason u \<and>
    deflate_strm w = Some ds' \<and> inflate_strm x = Some is' \<and> R ds' is' \<and> inflate_adler32 x = deflate_adler32 w"
proof -
  obtain r out ds' where z: "z_deflate Z ds (pkt_data p) 2040 = (r, out, ds')" by (metis surj_pair)
  define a where "a = z_adler32 Z (deflate_adler32 v) (pkt_data p)"
  have r: "r = 0"
    using assms(2,3) by (auto simp: send_compressed_def assms(4,8) z send_uncompressed_def Let_def split: if_splits)
  let ?n = "length out + 4"
  have eq: "w = v\<lparr>deflate_strm := Some ds', deflate_adler32 := a,
      deflate_pkt := Some \<lparr>pkt_hdr = (pkt_hdr d)[4 := of_nat (?n div 256), 5 := of_nat ?n], pkt_data = out @ be_bytes a\<rparr>,
      pending_deflated_pkt := Some p, current_ssl_pkt := Some P_Deflate\<rparr>"
    using assms(2) by (simp add: send_compressed_def assms(4,8) z r Let_def a_def)
  have w: "deflate_strm w = Some ds'" "deflate_adler32 w = a"
    by (simp_all only: eq) simp_all
  have e: "e = \<lparr>pkt_hdr = (pkt_hdr d)[4 := of_nat (?n div 256), 5 := of_nat ?n], pkt_data = out @ be_bytes a\<rparr>"
    using assms(6) unfolding eq by simp
  have w2: "pkt_data e = out @ be_bytes a" by (simp add: e)
  have w3: "pkt_hdr e = data_hdr AC_PKT_COMPRESSED (length (pkt_data e))"
    by (simp add: e assms(5) data_hdr_def set_length)
  have "length out < 2040" using assms(7) w2 by (simp add: be_bytes_def)
  then obtain is' where i: "z_inflate Z is out (nat (ip_mtu (ip_info u))) = (0, pkt_data p, is')" "R ds' is'"
    using assms(1,10,14) z [unfolded r] unfolding in_step_def by blast
  have inf: "inflate_and_queue_packet Z (out @ be_bytes a) (heard u) = Some ((heard u)\<lparr>inflate_strm := Some is',
      inflate_adler32 := a, incoming_queue := incoming_queue u @ [new_pkt (pkt_data p)]\<rparr>)"
    using assms(9,11,13) i(1)
    by (simp add: inflate_and_queue_packet_def ask_def pkt_sum_be_bytes queue_packet_def a_def)
  have len: "length (pkt_hdr e @ pkt_data e) = length (pkt_data e) + 8" by (simp add: w3 data_hdr_def)
  have "cstp_packet Z (fill buf (pkt_hdr e @ pkt_data e)) (length (pkt_data e) + 8) work u =
      cstp_dispatch Z AC_PKT_COMPRESSED (out @ be_bytes a) work (heard u)"
    using cstp_packet_frame [of "pkt_data e" Z buf AC_PKT_COMPRESSED work u] assms(7) unfolding w3
    by (simp add: w2)
  with inf assms(12) show ?thesis unfolding len using w(1,2) i(2) by (simp add: cstp_dispatch_def)
qed

definition deflating :: "unit vpninfo" where
  "deflating = (cstp_sample [] [])\<lparr>deflate := True, deflate_strm := Some (), inflate_strm := Some (),
     deflate_pkt := Some \<lparr>pkt_hdr = data_hdr AC_PKT_COMPRESSED 0, pkt_data = []\<rparr>,
     ip_info := (ip_info (cstp_sample [] []))\<lparr>ip_mtu := 1400\<rparr>\<rparr>"

theorem compression_roundtrip_witness:
  "\<exists>w e x. send_compressed stored (new_pkt [0x45, 1]) deflating = Some w \<and> deflate_pkt w = Some e \<and>
     cstp_packet stored (fill [] (pkt_hdr e @ pkt_data e)) 14 False deflating = Some (Rx_Next True x) \<and>
     incoming_queue x = [new_pkt [0x45, 1]] \<and> inflate_adler32 x = deflate_adler32 w"
proof -
  obtain w e where w: "send_compressed stored (new_pkt [0x45, 1]) deflating = Some w" "current_ssl_pkt w = Some P_Deflate"
      "deflate_pkt w = Some e" "length (pkt_data e) = 6" "length (pkt_hdr e) = 8"
    by (simp add: send_compressed_def deflating_def stored_def Let_def)
  have s: "in_step stored (\<lambda>_ _. True)" by (simp add: in_step_def stored_def)
  have d: "deflate_pkt deflating = Some \<lparr>pkt_hdr = data_hdr AC_PKT_COMPRESSED 0, pkt_data = []\<rparr>"
      "deflate_strm deflating = Some ()" "inflate_strm deflating = Some ()" "deflate deflating" "e_calls (env deflating) = []"
      "inflate_adler32 deflating = deflate_adler32 deflating" "nat (ip_mtu (ip_info deflating)) = 1400" "incoming_queue deflating = []"
    by (simp_all add: deflating_def cstp_sample_def idle_vpn_def idle_env_def)
  show ?thesis
    using compression_roundtrip [OF s w(1,2) d(1) _ w(3) _ d(2,3) _ d(6,4,5), of 0 "[]" False] w d by auto
qed

end
