(* ===== verification/Tunnel_Flow.thy ===== *)
theory Tunnel_Flow
  imports Tun_Loop Dtls Cmd_Fd Cstp_Loop
begin

text \<open>
  What the DTLS loop and the SSL loop leave alone: the configuration, the tun device and its watching, and
  the command flags stay as they are and the count of the outgoing queue never grows. Only a reconnection
  of the SSL connection can notice a command.
\<close>

section \<open>The DTLS loop\<close>

definition flow :: "'z vpninfo \<Rightarrow> vpn_config \<times> bool \<times> bool \<times> (bytes list \<times> tun_wr list) \<times> int" where
  "flow v = (config v, mon_tun_rd (mon v), got_cancel_cmd v, tun_out (env v), outgoing_qlen v)"

lemma flow_env [simp]: "tun_out (f (env v)) = tun_out (env v) \<Longrightarrow> flow (upd_env f v) = flow v"
  by (simp add: flow_def upd_env_def)

lemma tun_out_simps [simp]:
  "tun_out (e\<lparr>e_ticks := a\<rparr>) = tun_out e" "tun_out (e\<lparr>e_calls := b\<rparr>) = tun_out e" "tun_out (e\<lparr>e_gets := c\<rparr>) = tun_out e"
  "tun_out (e\<lparr>e_ssl_rd := d\<rparr>) = tun_out e" "tun_out (e\<lparr>e_ssl_wr := f\<rparr>) = tun_out e" "tun_out (e\<lparr>e_dtls_rd := g\<rparr>) = tun_out e"
  "tun_out (e\<lparr>e_dtls_wr := h\<rparr>) = tun_out e" "tun_out (e\<lparr>e_dtls_hs := i\<rparr>) = tun_out e" "tun_out (e\<lparr>o_ssl := j\<rparr>) = tun_out e"
  "tun_out (e\<lparr>o_dtls := k\<rparr>) = tun_out e" "tun_out (e\<lparr>o_script := l\<rparr>) = tun_out e" "tun_out (e\<lparr>e_cmd := m\<rparr>) = tun_out e"
  "tun_out (e\<lparr>o_stats := n\<rparr>) = tun_out e"
  by (simp_all add: tun_out_def)

lemma flow_simps [simp]:
  "flow (upd_dtls g v) = flow v" "flow (upd_ssl g v) = flow v"
  "flow (snd (ask v)) = flow v" "flow (snd (time_now v)) = flow v"
  "flow (snd (do_handshake v)) = flow v" "flow (snd (dtls_send bs v)) = flow v" "flow (snd (dtls_alloc v)) = flow v"
  "flow (snd (no_attempts v)) = flow v" "flow (dtls_close v) = flow v"
  "flow (snd (dtls_bind v)) = flow v"
  "flow (v\<lparr>dtls_state := s\<rparr>) = flow v" "flow (v\<lparr>dtls_ssl := b\<rparr>) = flow v" "flow (v\<lparr>dtls_fd := b\<rparr>) = flow v"
  "flow (v\<lparr>dtls_attempt_period := n\<rparr>) = flow v" "flow (v\<lparr>new_dtls_started := n\<rparr>) = flow v"
  "flow (v\<lparr>dtls_pkt_max := m\<rparr>) = flow v" "flow (v\<lparr>dtls_times := ka\<rparr>) = flow v"
  "flow (v\<lparr>dtls_ctx := b\<rparr>) = flow v" "flow (v\<lparr>dtls_session := b\<rparr>) = flow v"
  "flow (v\<lparr>incoming_queue := q\<rparr>) = flow v" "flow (v\<lparr>outgoing_queue := q\<rparr>) = flow v"
  "flow (v\<lparr>mon := (mon v)\<lparr>mon_dtls_wr := b\<rparr>\<rparr>) = flow v" "flow (v\<lparr>mon := (mon v)\<lparr>mon_ssl_wr := b\<rparr>\<rparr>) = flow v"
  "flow (v\<lparr>mon := (mon v)\<lparr>mon_dtls_rd := b, mon_dtls_ex := c\<rparr>\<rparr>) = flow v"
  "flow (v\<lparr>ssl_times := ka\<rparr>) = flow v" "flow (v\<lparr>current_ssl_pkt := p\<rparr>) = flow v"
  "flow (v\<lparr>owe_ssl_dpd_response := b\<rparr>) = flow v" "flow (v\<lparr>quit_reason := r\<rparr>) = flow v"
  "flow (v\<lparr>inflate_strm := z\<rparr>) = flow v" "flow (v\<lparr>inflate_adler32 := a\<rparr>) = flow v"
  "flow (v\<lparr>deflate_strm := z\<rparr>) = flow v" "flow (v\<lparr>deflate_adler32 := a\<rparr>) = flow v"
  "flow (v\<lparr>deflate_pkt := d\<rparr>) = flow v" "flow (v\<lparr>pending_deflated_pkt := d\<rparr>) = flow v"
  by (simp_all add: flow_def upd_dtls_def upd_ssl_def world_defs do_handshake_def dtls_send_def dtls_answer_def
      dtls_alloc_def dtls_bind_def no_attempts_def dtls_close_def split_beta Let_def split: list.split ssl_wr.split)

lemma flow_dtls [simp]:
  "flow (snd (dtls_context v)) = flow v" "flow (snd (start_dtls_handshake v)) = flow v"
  "flow (snd (handshake_failed v)) = flow v"
  by (simp_all add: dtls_context_def start_dtls_handshake_def handshake_failed_def split_beta Let_def)

lemma flow_try [simp]: "flow (snd (dtls_try_handshake v)) = flow v"
  by (simp add: dtls_try_handshake_def split_beta Let_def split: handshake.split)

lemma flow_up [simp]: "flow (v\<lparr>dtls_state := s, dtls_fd := b, mon := (mon v)\<lparr>mon_dtls_rd := b, mon_dtls_ex := c\<rparr>\<rparr>) = flow v"
  by (simp add: flow_def)

lemma flow_connect [simp]: "flow (snd (connect_dtls_socket v)) = flow v" "flow (snd (dtls_reconnect v)) = flow v"
  by (simp_all add: dtls_reconnect_def connect_dtls_socket_def split_beta Let_def)

lemma flow_rekey [simp]: "flow (snd (dtls_rekey_ssl v)) = flow v" "flow (snd (dtls_sleep timeout v)) = flow v"
  by (simp_all add: dtls_rekey_ssl_def dtls_sleep_def split_beta Let_def)

lemma flow_receive [simp]: "flow (snd (dtls_receive type payload v work)) = flow v"
  by (simp add: dtls_receive_def flow_def) (simp add: dtls_send_def dtls_answer_def world_defs split: list.split ssl_wr.split)

lemma flow_dtls_read [simp]: "flow (snd (dtls_read_loop rs v work)) = flow v"
  by (induction rs arbitrary: v work) (simp_all add: split_beta Let_def split: list.split)

text \<open>The queue may get shorter.\<close>

fun lowers :: "vpn_config \<times> bool \<times> bool \<times> (bytes list \<times> tun_wr list) \<times> int \<Rightarrow> vpn_config \<times> bool \<times> bool \<times> (bytes list \<times> tun_wr list) \<times> int \<Rightarrow> bool" where
  "lowers (c, m, g, t, n) (c', m', g', t', n') \<longleftrightarrow> c' = c \<and> m' = m \<and> g' = g \<and> t' = t \<and> n' \<le> n"

lemma lowers_refl [simp]: "lowers x x"
  by (cases x) simp

lemma lowers_trans: "lowers x y \<Longrightarrow> lowers y z \<Longrightarrow> lowers x z"
  by (cases x; cases y; cases z) simp

lemma lowers_pop: "lowers x (flow v) \<Longrightarrow> lowers x (flow (v\<lparr>outgoing_queue := q, outgoing_qlen := outgoing_qlen v - 1\<rparr>))"
  by (cases x) (simp add: flow_def)

lemma flow_requeue: 
  assumes "flow u = flow (v\<lparr>outgoing_queue := q, outgoing_qlen := outgoing_qlen v - 1\<rparr>)"
  shows "flow (u\<lparr>outgoing_queue := q', outgoing_qlen := outgoing_qlen u + 1\<rparr>) = flow v"
    "flow (u\<lparr>mon := (mon u)\<lparr>mon_dtls_wr := b\<rparr>, outgoing_queue := q', outgoing_qlen := outgoing_qlen u + 1\<rparr>) = flow v"
  using assms by (simp_all add: flow_def)

lemma lowers_dtls_send_loop: "lowers x (flow v) \<Longrightarrow> lowers x (flow (snd (dtls_send_loop q v work)))"
proof (induction q arbitrary: v work)
  case (Cons p q)
  let ?v = "v\<lparr>outgoing_queue := q, outgoing_qlen := outgoing_qlen v - 1\<rparr>"
  obtain a u where s: "dtls_send (AC_PKT_DATA # pkt_data p) ?v = (a, u)" by (metis surj_pair)
  have u: "flow u = flow ?v" using flow_simps(6) [of "AC_PKT_DATA # pkt_data p" ?v] s by simp
  obtain t y where t: "time_now u = (t, y)" by (metis surj_pair)
  have y: "flow (upd_dtls (\<lambda>k. k\<lparr>ka_last_tx := t\<rparr>) y) = flow ?v" using flow_simps(4) [of u] t u by simp
  have r: "flow (snd (dtls_reconnect u)) = flow ?v" using u by simp
  show ?case
    using Cons.IH [of "upd_dtls (\<lambda>k. k\<lparr>ka_last_tx := t\<rparr>) y"] lowers_pop [OF Cons.prems, of q] Cons.prems
      u y flow_requeue(1) [OF r] flow_requeue(2) [OF u]
    by (cases a) (simp_all add: s t Let_def)
qed simp

lemma lowers_service: "lowers x (flow v) \<Longrightarrow> lowers x (flow (snd (dtls_service_queue v work)))"
  by (simp add: dtls_service_queue_def Let_def lowers_dtls_send_loop)

lemma lowers_dtls_act: "lowers x (flow v) \<Longrightarrow> lowers x (flow (snd (snd (dtls_act work timeout v))))"
  by (simp add: dtls_act_def split_beta Let_def lowers_service split: ka_action.split)

lemma lowers_dtls_mainloop:
  assumes "dtls_mainloop timeout v = Some (r, t, w)" "lowers x (flow v)"
  shows "lowers x (flow w)"
proof -
  have "lowers x (flow (snd (snd y)))" if "dtls_mainloop timeout v = Some y" for y
    using that assms(2) by (auto simp: dtls_mainloop_def split_beta Let_def lowers_dtls_act split: if_splits)
  from this [OF assms(1)] show ?thesis by simp
qed

section \<open>The SSL loop\<close>

lemma flow_inflate: "inflate_and_queue_packet Z buf v = Some w \<Longrightarrow> flow w = flow v"
  by (auto simp: inflate_and_queue_packet_def split_beta Let_def split: if_splits option.splits)

lemma flow_dispatch: "cstp_dispatch Z type payload work v = Some x \<Longrightarrow> flow (rx_state x) = flow v"
  by (auto simp: cstp_dispatch_def unknown_pkt_def server_request_def split_beta Let_def
      dest: flow_inflate split: if_splits)

lemma flow_packet: "cstp_packet Z buf len work v = Some x \<Longrightarrow> flow (rx_state x) = flow v"
  by (auto simp: cstp_packet_def unknown_pkt_def split_beta Let_def dest!: flow_dispatch split: if_splits)

lemma flow_cstp_read: "cstp_read_loop Z rs buf work v = Some x \<Longrightarrow> flow (read_state x) = flow v"
proof (induction rs arbitrary: buf work v)
  case (Cons r rs)
  then show ?case
    by (fastforce simp: Let_def dest: flow_packet split: ssl_rd.splits list.splits option.splits cstp_rx.splits)
qed auto

lemma flow_write [simp]: "flow (snd (cstp_write bs v)) = flow v" "flow (begin_write v) = flow v" "flow (written p v) = flow v"
  by (simp_all add: cstp_write_def ssl_answer_def begin_write_def written_def log_ssl_def split_beta Let_def
      split: list.split ssl_wr.split)

lemma flow_stalled: "stalled timeout work v = (g, t, w) \<Longrightarrow> flow w = flow v"
  by (auto simp: stalled_def internal_error_def split_beta Let_def split: ka_action.splits if_splits)

lemma flow_outgoing: "handle_outgoing timeout work v = Some (g, t, w) \<Longrightarrow> flow w = flow v"
  by (auto simp: handle_outgoing_def internal_error_def split_beta Let_def dest!: flow_stalled split: option.splits if_splits)

lemma flow_compressed: "send_compressed Z p v = Some w \<Longrightarrow> flow w = flow v" "flow (send_uncompressed p v) = flow v"
  by (auto simp: send_compressed_def send_uncompressed_def flow_def split_beta Let_def split: option.splits if_splits)

lemma lowers_cstp_service: "service_queue Z timeout work v = Some (g, t, w) \<Longrightarrow> lowers x (flow v) \<Longrightarrow> lowers x (flow w)"
  by (auto simp: service_queue_def Let_def flow_compressed lowers_pop split: if_splits list.splits)

lemma lowers_next: "next_packet Z timeout work v = Some (g, t, w) \<Longrightarrow> lowers x (flow v) \<Longrightarrow> lowers x (flow w)"
  by (auto simp: next_packet_def split_beta Let_def elim!: lowers_cstp_service split: if_splits ka_action.splits)

lemma lowers_send_rounds:
  "send_rounds Z as timeout work v = Some (g, t, w) \<Longrightarrow> lowers x (flow v) \<Longrightarrow> lowers x (flow w)"
proof (induction as arbitrary: timeout v)
  case Nil
  then show ?case by (simp add: flow_outgoing)
next
  case (Cons a as)
  obtain g1 t1 v1 where h: "handle_outgoing timeout work v = Some (g1, t1, v1)"
    using Cons.prems(1) by (auto split: option.splits)
  have v1: "lowers x (flow v1)" using flow_outgoing [OF h] Cons.prems(2) by simp
  show ?case
  proof (cases "g1 = Go_Next \<or> g1 = Go_Service")
    case False
    with Cons.prems(1) h v1 show ?thesis by auto
  next
    case True
    then obtain g2 t2 v2 where n: "(if g1 = Go_Next then next_packet else service_queue) Z t1 work v1 = Some (g2, t2, v2)"
      using Cons.prems(1) h by (auto split: option.splits)
    have v2: "lowers x (flow v2)"
      using n lowers_next [OF _ v1] lowers_cstp_service [OF _ v1] by (simp split: if_splits)
    show ?thesis
      using Cons.prems(1) Cons.IH [OF _ v2] h n True v2 by (cases "g2 = Go_Send") auto
  qed
qed

lemma lowers_cstp_send: "cstp_send Z timeout work v = Some (g, t, w) \<Longrightarrow> lowers x (flow v) \<Longrightarrow> lowers x (flow w)"
  by (auto simp: cstp_send_rounds split: if_splits option.splits elim!: lowers_send_rounds lowers_next intro: lowers_next)

text \<open>A reconnection may receive a command.\<close>

definition kept :: "'z vpninfo \<Rightarrow> 'z vpninfo \<Rightarrow> bool" where
  "kept v w \<longleftrightarrow> config w = config v \<and> mon_tun_rd (mon w) = mon_tun_rd (mon v) \<and> tun_out (env w) = tun_out (env v) \<and>
     outgoing_qlen w \<le> outgoing_qlen v"

lemma kept_trans: "kept u v \<Longrightarrow> kept v w \<Longrightarrow> kept u w"
  by (simp add: kept_def)

lemma kept_lowers: "lowers (flow v) (flow w) \<Longrightarrow> kept v w"
  by (simp add: kept_def flow_def)

lemma kept_flow: "flow w = flow v \<Longrightarrow> kept v w"
  by (simp add: kept_def flow_def)

lemma cstp_reconnect_reconnected:
  assumes "cstp_reconnect Z v = Some (r, w)"
  shows "kept v w" "got_cancel_cmd w \<Longrightarrow> \<not> got_cancel_cmd v \<Longrightarrow> r = err EINTR" "quit_reason w = quit_reason v"
proof -
  let ?c = "openconnect_close_https v"
  obtain u where u: "end_streams ?c = Some u" using assms by (auto simp: cstp_reconnect_def split: option.splits)
  have e: "kept v u" "got_cancel_cmd u = got_cancel_cmd v" "\<not> ssl_open u" "quit_reason u = quit_reason v"
    using u by (auto simp: kept_def end_streams_def openconnect_close_https_def split: if_splits option.splits)
  have "reconnect_loop Z (reconnect_timeout u) (reconnect_interval u) u = Some (r, w)"
    using assms u by (simp add: cstp_reconnect_def)
  from reconnect_loop_reconnected [OF this] e(3)
  have w: "reconnect_frame u w" "got_cancel_cmd w \<and> \<not> got_cancel_cmd u \<longrightarrow> r = err EINTR"
    by (simp_all add: reconnected_def)
  then have "kept u w" using outs_tun [of "env w" "env u"] by (simp add: kept_def reconnect_frame_def)
  with e(1) show "kept v w" by (rule kept_trans)
  show "got_cancel_cmd w \<Longrightarrow> \<not> got_cancel_cmd v \<Longrightarrow> r = err EINTR" using w(2) e(2) by simp
  show "quit_reason w = quit_reason v" using w(1) e(4) by (simp add: reconnect_frame_def)
qed

lemma flow_do_dtls [simp]: "flow (snd (do_dtls_reconnect v)) = flow v"
  by (simp add: do_dtls_reconnect_def)

lemma do_reconnect_kept:
  assumes "do_reconnect Z v = Some (r, w)"
  shows "kept v w" "got_cancel_cmd w \<Longrightarrow> \<not> got_cancel_cmd v \<Longrightarrow> r = err EINTR \<and> quit_reason w = Some ''CSTP reconnect failed''"
proof -
  obtain ret u where u: "cstp_reconnect Z v = Some (ret, u)"
    using assms by (auto simp: do_reconnect_def split: option.splits)
  note c = cstp_reconnect_reconnected [OF u]
  have w: "if ret = 0 then w = snd (do_dtls_reconnect u) else r = ret \<and> w = u\<lparr>quit_reason := Some ''CSTP reconnect failed''\<rparr>"
    using assms u by (auto simp: do_reconnect_def dest: arg_cong [where f = snd])
  then have "flow w = flow u" by (auto split: if_splits)
  then have k: "kept u w" "got_cancel_cmd w = got_cancel_cmd u" by (simp_all add: kept_flow flow_def)
  show "kept v w" using c(1) k(1) by (rule kept_trans)
  show "got_cancel_cmd w \<Longrightarrow> \<not> got_cancel_cmd v \<Longrightarrow> r = err EINTR \<and> quit_reason w = Some ''CSTP reconnect failed''"
    using c(2) k(2) w by (auto split: if_splits)
qed

lemma cstp_exit_kept:
  assumes "cstp_exit Z (g, timeout, v) = Some (r, t, w)"
  shows "kept v w \<and> (got_cancel_cmd w \<longrightarrow> \<not> got_cancel_cmd v \<longrightarrow> r = err EINTR \<and> quit_reason w = Some ''CSTP reconnect failed'')"
proof (cases "do_reconnect Z v = Some (r, w)")
  case True
  with do_reconnect_kept [OF True] show ?thesis by blast
next
  case False
  then have "flow w = flow v"
    using assms by (cases g) (auto simp: cstp_exit_def cstp_handshake_def split: if_splits)
  then show ?thesis by (auto simp: kept_flow flow_def)
qed

lemma cstp_mainloop_kept:
  assumes "cstp_mainloop Z timeout v = Some (r, t, w)"
  shows "kept v w \<and> (got_cancel_cmd w \<longrightarrow> \<not> got_cancel_cmd v \<longrightarrow> r = err EINTR \<and> quit_reason w = Some ''CSTP reconnect failed'')"
proof (cases "ssl_open v")
  case False
  with assms cstp_exit_kept show ?thesis by (simp add: cstp_mainloop_def)
next
  case True
  then obtain x where x: "cstp_read_loop Z (e_ssl_rd (env v)) (stack_buf v) False v = Some x"
    using assms by (auto simp: cstp_mainloop_def split: option.splits)
  have fx: "flow (read_state x) = flow v" by (rule flow_cstp_read [OF x])
  have done1: ?thesis if "lowers (flow v) (flow u)" "cstp_exit Z (g, t', u) = Some (r, t, w)" for g t' u
    using cstp_exit_kept [OF that(2)] kept_trans [OF kept_lowers [OF that(1)]] that(1)
    by (auto simp: flow_def)
  show ?thesis
  proof (cases x)
    case (Read_Return q u)
    with assms True x fx have "flow w = flow v" by (simp add: cstp_mainloop_def)
    then show ?thesis by (auto simp: kept_flow flow_def)
  next
    case (Read_Error work u)
    with assms True x fx done1 [of u] show ?thesis by (simp add: cstp_mainloop_def)
  next
    case (Read_Done work u)
    then obtain g t' y where y: "cstp_send Z timeout work u = Some (g, t', y)" "cstp_exit Z (g, t', y) = Some (r, t, w)"
      using assms True x by (auto simp: cstp_mainloop_def split: option.splits)
    have "lowers (flow v) (flow y)" using lowers_cstp_send [OF y(1)] fx Read_Done by simp
    from done1 [OF this y(2)] show ?thesis .
  qed
qed

end
