(* ===== verification/Mainloop.thy ===== *)
theory Mainloop
  imports Tunnel_Flow
begin

text \<open>
  \<open>openconnect_mainloop\<close> of \<open>core/mainloop.c\<close>: each turn runs the DTLS loop, the SSL loop and the
  tun loop, polls the command pipe, and goes to sleep in \<open>select\<close> when none of them had work to do.

  \<open>ws\<close> lists what happens to the world during each \<open>select\<close>. When the list is used up the client
  sleeps for ever: the result is \<open>Asleep\<close>. \<open>None\<close> is undefined behaviour in one of the
  loops, or a turn that never ends.
\<close>

section \<open>One turn\<close>

text \<open>
  How a turn ends: with \<open>break\<close>, with the \<open>return 0\<close> of a pause, with \<open>continue\<close>, or in \<open>select\<close>;
  the number is the variable \<open>ret\<close>.
\<close>

datatype turn_end = Break int | Paused | Continue int | Select int

abbreviation (input) INT_MAX :: int where "INT_MAX \<equiv> 2147483647"

definition dtls_turn :: "int \<Rightarrow> 'z vpninfo \<Rightarrow> (int \<times> int \<times> 'z vpninfo) option" where
  "dtls_turn timeout v = (if dtls_state v \<noteq> DTLS_DISABLED then dtls_mainloop timeout v else Some (0, timeout, v))"

definition pause_tunnel :: "'z vpninfo \<Rightarrow> 'z vpninfo" where
  "pause_tunnel v =
     (let v = openconnect_close_https v;
          v = (if dtls_state v \<noteq> DTLS_DISABLED
               then (dtls_close v)\<lparr>dtls_state := DTLS_SLEEPING, new_dtls_started := 0\<rparr> else v) in
      v\<lparr>got_pause_cmd := False\<rparr>)"

text \<open>From the poll of the command pipe to the end of the turn.\<close>

definition command_turn :: "int \<Rightarrow> int \<Rightarrow> 'z vpninfo \<Rightarrow> (turn_end \<times> 'z vpninfo) option" where
  "command_turn did_work ret v =
     (case poll_cmd_fd 0 v of
        None \<Rightarrow> None
      | Some v \<Rightarrow>
          Some (if got_cancel_cmd v then
                  (if cancel_type v = OC_CMD_CANCEL
                   then (Break (err EINTR), v\<lparr>quit_reason := Some ''Aborted by caller''\<rparr>)
                   else (Break (err ECONNABORTED), v))
                else if got_pause_cmd v then (Paused, pause_tunnel v)
                else if did_work \<noteq> 0 then (Continue ret, v)
                else (Select ret, v)))"

definition turn :: "'z zlib \<Rightarrow> int \<Rightarrow> 'z vpninfo \<Rightarrow> (turn_end \<times> 'z vpninfo) option" where
  "turn Z ret v =
     (case dtls_turn INT_MAX v of
        None \<Rightarrow> None
      | Some (dtls, timeout, v1) \<Rightarrow>
          let ret = (if dtls_state v \<noteq> DTLS_DISABLED then dtls else ret) in
          if dtls_state v \<noteq> DTLS_DISABLED \<and> quit_reason v1 \<noteq> None then Some (Break ret, v1)
          else case cstp_mainloop Z timeout v1 of
            None \<Rightarrow> None
          | Some (cstp, timeout, v2) \<Rightarrow>
              if quit_reason v2 \<noteq> None then Some (Break cstp, v2)
              else case tun_mainloop v2 of
                None \<Rightarrow> None
              | Some (tun, v3) \<Rightarrow>
                  if quit_reason v3 \<noteq> None then Some (Break cstp, v3)
                  else command_turn (dtls + cstp + int_of_bool tun) cstp v3)"

section \<open>The loop\<close>

datatype 'z loop_result = Returned int "'z vpninfo" | Asleep "'z vpninfo"

definition leave :: "int \<Rightarrow> 'z vpninfo \<Rightarrow> 'z loop_result" where
  "leave ret v =
     (let v = (case quit_reason v of None \<Rightarrow> v | Some reason \<Rightarrow> snd (cstp_bye reason v)) in
      Returned (if ret < 0 then ret else err EIO) (os_shutdown_tun v))"

partial_function (option) main_loop :: "'z zlib \<Rightarrow> (env \<Rightarrow> env) list \<Rightarrow> int \<Rightarrow> 'z vpninfo \<Rightarrow> 'z loop_result option" where
  "main_loop Z ws ret v =
     (if quit_reason v \<noteq> None then Some (leave ret v)
      else case turn Z ret v of
        None \<Rightarrow> None
      | Some (Break ret, v) \<Rightarrow> Some (leave ret v)
      | Some (Paused, v) \<Rightarrow> Some (Returned 0 v)
      | Some (Continue ret, v) \<Rightarrow> main_loop Z ws ret v
      | Some (Select ret, v) \<Rightarrow>
          (case ws of
             [] \<Rightarrow> Some (Asleep v)
           | w # ws \<Rightarrow> main_loop Z ws ret (upd_env w v)))"

definition openconnect_mainloop :: "'z zlib \<Rightarrow> (env \<Rightarrow> env) list \<Rightarrow> int \<Rightarrow> int \<Rightarrow> 'z vpninfo \<Rightarrow> 'z loop_result option" where
  "openconnect_mainloop Z ws timeout interval v =
     (let v = v\<lparr>reconnect_timeout := timeout, reconnect_interval := interval\<rparr>;
          v = (if c_cmd_fd (config v) then v\<lparr>mon := (mon v)\<lparr>mon_cmd_rd := True\<rparr>\<rparr> else v) in
      main_loop Z ws 0 v)"

section \<open>How the loop is left\<close>

definition paused :: "'z vpninfo \<Rightarrow> bool" where
  "paused v \<longleftrightarrow> \<not> ssl_open v \<and> \<not> got_pause_cmd v \<and>
     (dtls_state v = DTLS_DISABLED \<or> dtls_state v = DTLS_SLEEPING \<and> \<not> dtls_ssl v \<and> new_dtls_started v = 0)"

text \<open>
  The tun device is given up. What was done last of all: the process group of a script that has the packets was
  sent SIGHUP, or else the variable \<open>reason\<close> was set for the script; and when a script is configured, the device was closed.
\<close>

definition last_acts :: "vpn_config \<Rightarrow> tun_act list" where
  "last_acts c =
     (if c_script_tun c then [Hangup] else if c_vpnc_script c then [Reason ''disconnect''] else []) @
     (if c_vpnc_script c then [Close_Tun] else [])"

definition ended :: "'z vpninfo \<Rightarrow> bool" where
  "ended v \<longleftrightarrow> \<not> tun_fd v \<and> (\<exists>acts. o_script (env v) = acts @ last_acts (config v))"

definition detached :: "int \<Rightarrow> 'z vpninfo \<Rightarrow> bool" where
  "detached r v \<longleftrightarrow> r = err ECONNABORTED \<and> got_cancel_cmd v \<and> cancel_type v \<noteq> OC_CMD_CANCEL"

lemma paused_pause: "paused (pause_tunnel v)"
  by (auto simp: paused_def pause_tunnel_def openconnect_close_https_def dtls_close_def Let_def)

lemma bye_quit [simp]:
  "quit_reason (snd (cstp_bye reason v)) = quit_reason v"
  "got_cancel_cmd (snd (cstp_bye reason v)) = got_cancel_cmd v"
  "cancel_type (snd (cstp_bye reason v)) = cancel_type v"
  by (auto simp: cstp_bye_def ask_def cstp_write_def ssl_answer_def log_ssl_def upd_env_def split_beta Let_def
      split: list.split ssl_wr.split)

lemma leave_ended: "leave ret v = Returned r w \<Longrightarrow> r < 0 \<and> ended w"
  by (auto simp: leave_def Let_def ended_def last_acts_def os_shutdown_tun_def script_config_tun_def tun_log_def upd_env_def
      split: if_splits option.splits)

lemma leave_reason:
  "leave ret v = Returned r w \<Longrightarrow> quit_reason v \<noteq> None \<or> detached ret v \<Longrightarrow> quit_reason w \<noteq> None \<or> detached r w"
  by (auto simp: leave_def Let_def detached_def os_shutdown_tun_def script_config_tun_def tun_log_def upd_env_def
      split: if_splits option.splits)

lemma command_turn_ends:
  assumes "command_turn work ret v = Some (x, w)"
  shows "case x of Break r \<Rightarrow> quit_reason w \<noteq> None \<or> detached r w
    | Paused \<Rightarrow> paused w | Continue r \<Rightarrow> work \<noteq> 0 \<and> r = ret | Select r \<Rightarrow> work = 0 \<and> r = ret"
  using assms by (auto simp: command_turn_def detached_def paused_pause split: option.splits if_splits)

lemma turn_ends:
  assumes "turn Z ret v = Some (x, w)"
  shows "case x of Break r \<Rightarrow> quit_reason w \<noteq> None \<or> detached r w | Paused \<Rightarrow> paused w | _ \<Rightarrow> True"
  using assms
  by (auto simp: turn_def Let_def split: option.splits if_splits prod.splits dest!: command_turn_ends split: turn_end.splits)

text \<open>
  The turns that a run completes, as a relation: from a rest of the world and a state to another; and what
  the last turn makes of it.
\<close>

inductive turns :: "'z zlib \<Rightarrow> (env \<Rightarrow> env) list \<Rightarrow> int \<Rightarrow> 'z vpninfo \<Rightarrow> (env \<Rightarrow> env) list \<Rightarrow> int \<Rightarrow> 'z vpninfo \<Rightarrow> bool"
  for Z :: "'z zlib" where
  turns_none: "turns Z ws ret v ws ret v"
| turns_go_on: "turns Z ws ret v ws' ret' w"
    if "quit_reason v = None" "turn Z ret v = Some (Continue r, u)" "turns Z ws r u ws' ret' w"
| turns_wake: "turns Z (f # ws) ret v ws' ret' w"
    if "quit_reason v = None" "turn Z ret v = Some (Select r, u)" "turns Z ws r (upd_env f u) ws' ret' w"

definition last_turn :: "'z zlib \<Rightarrow> (env \<Rightarrow> env) list \<Rightarrow> int \<Rightarrow> 'z vpninfo \<Rightarrow> 'z loop_result option" where
  "last_turn Z ws ret v =
     (if quit_reason v \<noteq> None then Some (leave ret v)
      else case turn Z ret v of
        Some (Break r, w) \<Rightarrow> Some (leave r w)
      | Some (Paused, w) \<Rightarrow> Some (Returned 0 w)
      | Some (Select r, w) \<Rightarrow> (if ws = [] then Some (Asleep w) else None)
      | _ \<Rightarrow> None)"

lemma main_loop_turns:
  assumes "main_loop Z ws ret v = Some y"
  shows "\<exists>ws' r u. turns Z ws ret v ws' r u \<and> last_turn Z ws' r u = Some y"
proof (rule main_loop.raw_induct
    [where P = "\<lambda>Z ws ret v y. \<exists>ws' r u. turns Z ws ret v ws' r u \<and> last_turn Z ws' r u = Some y", OF _ assms])
  fix f :: "'a zlib \<Rightarrow> (env \<Rightarrow> env) list \<Rightarrow> int \<Rightarrow> 'a vpninfo \<Rightarrow> 'a loop_result option" and Z ws ret v y
  assume IH: "\<And>Z ws ret v y. f Z ws ret v = Some y \<Longrightarrow> \<exists>ws' r u. turns Z ws ret v ws' r u \<and> last_turn Z ws' r u = Some y"
    and eq: "(if quit_reason v \<noteq> None then Some (leave ret v)
      else case turn Z ret v of
        None \<Rightarrow> None
      | Some (Break ret, v) \<Rightarrow> Some (leave ret v)
      | Some (Paused, v) \<Rightarrow> Some (Returned 0 v)
      | Some (Continue ret, v) \<Rightarrow> f Z ws ret v
      | Some (Select ret, v) \<Rightarrow>
          (case ws of
             [] \<Rightarrow> Some (Asleep v)
           | w # ws \<Rightarrow> f Z ws ret (upd_env w v))) = Some y"
  show "\<exists>ws' r u. turns Z ws ret v ws' r u \<and> last_turn Z ws' r u = Some y"
  proof (cases "last_turn Z ws ret v = Some y")
    case True
    then show ?thesis by (blast intro: turns_none)
  next
    case False
    with eq have q: "quit_reason v = None" by (cases "quit_reason v") (simp_all add: last_turn_def)
    obtain x u where t: "turn Z ret v = Some (x, u)" using eq q by (auto split: option.splits)
    consider (go_on) r where "x = Continue r" "f Z ws r u = Some y"
      | (wake) r w ws1 where "x = Select r" "ws = w # ws1" "f Z ws1 r (upd_env w u) = Some y"
      using False eq q t by (auto simp: last_turn_def split: turn_end.splits list.splits)
    then show ?thesis
    proof cases
      case go_on
      with IH q t show ?thesis by (blast intro: turns_go_on)
    next
      case wake
      with IH q t show ?thesis by (blast intro: turns_wake)
    qed
  qed
qed

lemma last_turn_outcome:
  assumes "last_turn Z ws ret v = Some (Returned r w)" "quit_reason v = None"
  shows "r = 0 \<and> paused w \<or> r < 0 \<and> ended w \<and> (quit_reason w \<noteq> None \<or> detached r w)"
proof -
  obtain x u where t: "turn Z ret v = Some (x, u)"
    using assms by (auto simp: last_turn_def split: option.splits)
  show ?thesis
    using turn_ends [OF t] assms t leave_ended [of _ u r w] leave_reason [of _ u r w]
    by (auto simp: last_turn_def split: turn_end.splits if_splits)
qed

lemma main_loop_outcome:
  assumes "main_loop Z ws ret v = Some (Returned r w)"
  shows "r = 0 \<and> paused w \<or> r < 0 \<and> ended w \<and> (quit_reason w \<noteq> None \<or> detached r w)"
proof -
  obtain ws' q u where u: "last_turn Z ws' q u = Some (Returned r w)"
    using main_loop_turns [OF assms] by blast
  show ?thesis
  proof (cases "quit_reason u = None")
    case True
    with last_turn_outcome [OF u] show ?thesis .
  next
    case False
    with u leave_ended [of q u r w] leave_reason [of q u r w] show ?thesis by (simp add: last_turn_def)
  qed
qed

section \<open>Invariants of the loop\<close>

text \<open>
  What a turn and the world during a sleep keep, every state of the loop has.
\<close>

locale turn_invariant =
  fixes Z :: "'z zlib" and wakes :: "(env \<Rightarrow> env) \<Rightarrow> bool" and I :: "'z vpninfo \<Rightarrow> bool"
  assumes turn_keeps: "I v \<Longrightarrow> quit_reason v = None \<Longrightarrow> turn Z ret v = Some (x, w) \<Longrightarrow> quit_reason w = None \<Longrightarrow> I w"
    and wake_keeps: "I v \<Longrightarrow> wakes f \<Longrightarrow> I (upd_env f v)"
begin

lemma turns_keep:
  "turns Z ws ret v ws' r w \<Longrightarrow> I v \<Longrightarrow> \<forall>f\<in>set ws. wakes f \<Longrightarrow> I w \<or> quit_reason w \<noteq> None"
proof (induction rule: turns.induct)
  case (turns_go_on v ret r u ws ws' ret' w)
  show ?case
  proof (cases "quit_reason u = None")
    case True
    with turns_go_on show ?thesis by (blast intro: turn_keeps)
  next
    case False
    from turns_go_on.hyps(3) False have "w = u" by (cases rule: turns.cases) auto
    with False show ?thesis by simp
  qed
next
  case (turns_wake v ret r u ws f ws' ret' w)
  show ?case
  proof (cases "quit_reason u = None")
    case True
    with turns_wake show ?thesis by (auto intro: turn_keeps wake_keeps)
  next
    case False
    then have "quit_reason (upd_env f u) \<noteq> None" by (simp add: upd_env_def)
    with turns_wake.hyps(3) have "w = upd_env f u" by (cases rule: turns.cases) auto
    with False show ?thesis by (simp add: upd_env_def)
  qed
qed simp

lemma asleep_keeps:
  assumes "main_loop Z ws ret v = Some (Asleep w)" "I v" "\<forall>f\<in>set ws. wakes f"
  shows "I w \<or> quit_reason w \<noteq> None"
proof -
  obtain ws' r u where t: "turns Z ws ret v ws' r u" "last_turn Z ws' r u = Some (Asleep w)"
    using main_loop_turns [OF assms(1)] by blast
  then have q: "quit_reason u = None" by (auto simp: last_turn_def leave_def Let_def split: if_splits option.splits)
  then obtain s where "turn Z r u = Some (Select s, w)"
    using t(2) by (auto simp: last_turn_def leave_def Let_def split: if_splits option.splits turn_end.splits)
  with q turns_keep [OF t(1) assms(2,3)] turn_keeps show ?thesis by blast
qed

end

lemma pause_flow: "kept v (pause_tunnel v)"
  by (simp add: kept_def pause_tunnel_def openconnect_close_https_def dtls_close_def Let_def)

lemma kept_tun_flow: "kept v w \<Longrightarrow> tun_flow v \<Longrightarrow> tun_flow w"
  by (auto simp: kept_def tun_flow_def)

lemma kept_cmd: "cmd_only v w \<Longrightarrow> kept v w"
  using outs_tun [of "env w" "env v"] by (cases v; cases w) (simp add: cmd_only_def kept_def)

lemma kept_quit: "kept v (v\<lparr>quit_reason := q\<rparr>)"
  by (simp add: kept_def)

lemma command_turn_kept: "command_turn work ret v = Some (x, w) \<Longrightarrow> kept v w"
  by (auto simp: command_turn_def split: option.splits if_splits
      dest!: poll_cmd_fd_cmd_only kept_cmd intro: kept_trans [OF _ pause_flow] kept_trans [OF _ kept_quit])

lemma turn_cases:
  assumes "turn Z ret v = Some (x, w)" "quit_reason w = None"
  obtains d t v1 c t' v2 b v3 where "dtls_turn INT_MAX v = Some (d, t, v1)" "kept v v1" "cstp_mainloop Z t v1 = Some (c, t', v2)" "kept v1 v2"
    "quit_reason v2 = None" "tun_mainloop v2 = Some (b, v3)" "quit_reason v3 = None"
    "command_turn (d + c + int_of_bool b) c v3 = Some (x, w)" "kept v3 w"
proof -
  obtain d t v1 where d: "dtls_turn INT_MAX v = Some (d, t, v1)"
    using assms(1) by (auto simp: turn_def split: option.splits)
  have k1: "kept v v1"
    using d lowers_dtls_mainloop [of INT_MAX v d t v1 "flow v"] kept_lowers
    by (auto simp: dtls_turn_def kept_def split: if_splits)
  obtain c t' v2 where c: "cstp_mainloop Z t v1 = Some (c, t', v2)"
    using assms d by (auto simp: turn_def Let_def split: option.splits if_splits)
  obtain b v3 where b: "tun_mainloop v2 = Some (b, v3)" "quit_reason v2 = None"
    using assms d c by (auto simp: turn_def Let_def split: option.splits if_splits)
  have e: "command_turn (d + c + int_of_bool b) c v3 = Some (x, w)" "quit_reason v3 = None"
    using assms d c b by (auto simp: turn_def Let_def split: option.splits if_splits)
  show thesis
    using that [OF d k1 c _ b(2,1) e(2,1)] cstp_mainloop_kept [OF c] command_turn_kept [OF e(1)] by blast
qed

lemma turn_tun_flow:
  assumes "tun_flow v" "turn Z ret v = Some (x, w)" "quit_reason w = None"
  shows "tun_flow w"
proof -
  obtain d t v1 c t' v2 b v3 where k: "kept v v1" "kept v1 v2" "quit_reason v2 = None" "tun_mainloop v2 = Some (b, v3)"
    "kept v3 w" by (rule turn_cases [OF assms(2,3)])
  have "tun_flow v2" using assms(1) k by (blast intro: kept_tun_flow)
  with tun_flow_kept [OF this k(4,3)] k(5) show ?thesis by (blast intro: kept_tun_flow)
qed

interpretation room: turn_invariant Z "\<lambda>_. True" tun_flow for Z
proof unfold_locales
  fix v w :: "'a vpninfo" and ret x
  assume "tun_flow v" "quit_reason v = None" "turn Z ret v = Some (x, w)" "quit_reason w = None"
  then show "tun_flow w" by (blast intro: turn_tun_flow)
qed (simp add: tun_flow_def upd_env_def)

lemma poll_incoming: "poll_cmd_fd timeout v = Some w \<Longrightarrow> incoming_queue w = incoming_queue v"
  by (drule poll_cmd_fd_cmd_only, cases v, cases w) (simp add: cmd_only_def)

lemma command_incoming: "command_turn work ret v = Some (x, w) \<Longrightarrow> incoming_queue w = incoming_queue v"
  by (auto simp: command_turn_def pause_tunnel_def openconnect_close_https_def dtls_close_def Let_def
      dest: poll_incoming split: option.splits if_splits)

text \<open>
  What a turn writes to the tun device: the frame of each packet that the DTLS loop and the SSL loop have queued,
  once and in order, but for the frames that the device refuses.
\<close>

definition turn_writes :: "'z zlib \<Rightarrow> 'z vpninfo \<Rightarrow> 'z vpninfo \<Rightarrow> bool" where
  "turn_writes Z v w \<longleftrightarrow>
     (\<exists>d t v1 c t' v2. dtls_turn INT_MAX v = Some (d, t, v1) \<and> cstp_mainloop Z t v1 = Some (c, t', v2) \<and>
        took v (framed v (incoming_queue v2)) w)"

lemma turn_writes_tun:
  assumes "turn Z ret v = Some (x, w)" "quit_reason w = None"
  shows "turn_writes Z v w" "incoming_queue w = []"
proof -
  obtain d t v1 c t' v2 b v3 where r: "dtls_turn INT_MAX v = Some (d, t, v1)" "cstp_mainloop Z t v1 = Some (c, t', v2)"
    and k: "kept v v1" "kept v1 v2" "kept v3 w"
    and q: "quit_reason v2 = None" "tun_mainloop v2 = Some (b, v3)" "quit_reason v3 = None"
    and e: "command_turn (d + c + int_of_bool b) c v3 = Some (x, w)" by (rule turn_cases [OF assms])
  note m = tun_delivers [OF q(2,1,3)]
  have "kept v v2" using k(1,2) by (rule kept_trans)
  then have "tun_out (env v2) = tun_out (env v)" "framed v2 (incoming_queue v2) = framed v (incoming_queue v2)"
    using framed_config [of v2 v "incoming_queue v2"] by (simp_all add: kept_def)
  moreover have "tun_out (env w) = tun_out (env v3)" using k(3) by (simp add: kept_def)
  ultimately have "took v (framed v (incoming_queue v2)) w" using m(2) by (simp add: took_def tun_out_def)
  with r show "turn_writes Z v w" unfolding turn_writes_def by blast
  show "incoming_queue w = []" using command_incoming [OF e] m(1) by simp
qed

interpretation drained: turn_invariant Z "\<lambda>_. True" "\<lambda>v. incoming_queue v = []" for Z
proof unfold_locales
  fix v w :: "'a vpninfo" and ret x
  assume "turn Z ret v = Some (x, w)" "quit_reason w = None"
  then show "incoming_queue w = []" by (rule turn_writes_tun(2))
qed (simp add: upd_env_def)

section \<open>Properties\<close>

text \<open>An example: a client at rest whose application has written a command.\<close>

definition commanded :: "char \<Rightarrow> unit vpninfo" where
  "commanded c = (cstp_sample [] [])\<lparr>dtls_state := DTLS_DISABLED, tun_fd := True, outgoing_queue := [], outgoing_qlen := 0,
     current_ssl_pkt := None, env := idle_env\<lparr>e_cmd := [Some c], e_clock := (\<lambda>_. 7), e_ssl_wr := [Wr_All]\<rparr>\<rparr>"

text \<open>
  C19 (mainloop_outcome): However the session goes, \<open>openconnect_mainloop\<close> returns 0 only when it was paused, with
  both connections closed and the pause command cleared; otherwise it returns a negative error and has given
  up the tun device, and either there is a reason for the end of the session or the
  application asked to detach. Before that it has hung up the process group of the script that had the packets, or, with
  a script configured otherwise, set \<open>reason\<close> to ''disconnect'' for it (\<open>script_config_tun\<close> does not run the
  script), and it has closed the device when a script is configured.
\<close>

theorem mainloop_outcome:
  assumes "openconnect_mainloop Z ws timeout interval v = Some (Returned r w)"
  shows "r = 0 \<and> paused w \<or> r < 0 \<and> ended w \<and> (quit_reason w \<noteq> None \<or> detached r w)"
  using assms main_loop_outcome [of Z ws 0 _ r w] by (simp add: openconnect_mainloop_def Let_def)

lemmas main_eval = commanded_def cstp_sample_def idle_vpn_def idle_env_def idle_config_def idle_mon_def no_timers_def
  no_ip_info_def turn_def dtls_turn_def cstp_mainloop_def cstp_send_rounds next_packet_def service_queue_def
  keepalive_action_def rekey_check_def keepalive_tail_def time_now_def upd_env_def cstp_exit_def tun_mainloop_def
  command_turn_def poll_cmd_fd_def poll_loop.simps [of 0] poll_loop.simps [of 7] select_cmd_def check_cmd_fd_def
  run_cmd_def leave_def cstp_bye_def ask_def cstp_write_def ssl_answer_def log_ssl_def os_shutdown_tun_def
  script_config_tun_def tun_log_def tun_alloc_def pause_tunnel_def openconnect_close_https_def

lemma commanded_pause: "\<exists>w. openconnect_mainloop Z [] 60 10 (commanded CHR ''p'') = Some (Returned 0 w)"
  by (simp add: openconnect_mainloop_def main_loop.simps [of _ _ 0] main_eval Let_def)

theorem mainloop_outcome_witness:
  "\<exists>w. openconnect_mainloop stored [] 60 10 (commanded CHR ''p'') = Some (Returned 0 w) \<and> paused w"
proof -
  obtain w where w: "openconnect_mainloop stored [] 60 10 (commanded CHR ''p'') = Some (Returned 0 w)"
    using commanded_pause by blast
  from mainloop_outcome [OF w] w show ?thesis by auto
qed

text \<open>
  C1 (mainloop_invariant): At every turn of the main loop, through reconnections, rekeying and
  DTLS failures, and whatever the world does, unless the session has been given a reason to end: the count of outgoing packets
  stays within the limit and the tun device is watched only while there is room; no received packet waits; and a
  further turn that gives no such reason writes to the tun device the frames of the packets that the DTLS loop and then the SSL
  loop have received in it, each once and in order, but for those the device refuses (and the packets of an unknown IP
  version, which have no frame), and leaves none waiting.
\<close>

theorem mainloop_invariant:
  assumes "turns Z ws ret v ws' r w" "tun_flow v" "incoming_queue v = []"
  shows "quit_reason w \<noteq> None \<or>
    (outgoing_qlen w \<le> c_max_qlen (config w) \<and>
     (mon_tun_rd (mon w) \<longrightarrow> outgoing_qlen w < c_max_qlen (config w)) \<and> incoming_queue w = [] \<and>
     (\<forall>x y. turn Z r w = Some (x, y) \<and> quit_reason y = None \<longrightarrow> incoming_queue y = [] \<and>
        (\<exists>d t v1 c t' v2. dtls_turn INT_MAX w = Some (d, t, v1) \<and> cstp_mainloop Z t v1 = Some (c, t', v2) \<and>
           o_tun (env y) = o_tun (env w) @ accepted (framed w (incoming_queue v2)) (e_tun_wr (env w)))))"
  using room.turns_keep [OF assms(1,2)] drained.turns_keep [OF assms(1,3)] turn_writes_tun [of Z r w]
  by (fastforce simp: tun_flow_def turn_writes_def took_def)

lemma commanded_turn: "\<exists>w. turn Z 0 (commanded CHR ''s'') = Some (Select 0, w) \<and> quit_reason w = None \<and> mon_tun_rd (mon w)"
  by (simp add: main_eval Let_def)

theorem mainloop_invariant_witness:
  "\<exists>w. turns stored [\<lambda>e. e] 0 (commanded CHR ''s'') [] 0 w \<and> mon_tun_rd (mon w) \<and> outgoing_qlen w < c_max_qlen (config w)"
proof -
  obtain w where w: "turn stored 0 (commanded CHR ''s'') = Some (Select 0, w)" "quit_reason w = None" "mon_tun_rd (mon w)"
    using commanded_turn by blast
  have u: "upd_env (\<lambda>e. e) w = w" by (simp add: upd_env_def)
  have t: "turns stored [\<lambda>e. e] 0 (commanded CHR ''s'') [] 0 w"
    using turns_wake [of "commanded CHR ''s''" stored 0 0 w "[]" "\<lambda>e. e" "[]" 0 w] w(1) turns_none [of stored "[]" 0 w]
    unfolding u by (simp add: main_eval(1-3))
  have "tun_flow (commanded CHR ''s'')" "incoming_queue (commanded CHR ''s'') = []"
    by (simp_all add: tun_flow_def main_eval(1-8))
  from mainloop_invariant [OF t this] t w show ?thesis by auto
qed

text \<open>
  A command that arrives while the SSL connection is being re-established ends
  the main loop with \<open>-EINTR\<close>, with ''CSTP reconnect failed'' as the reason, also when it is
  \<open>OC_CMD_DETACH\<close>, for which the comment on \<open>openconnect_mainloop\<close> promises \<open>-ECONNABORTED\<close>.
\<close>

theorem cancel_while_reconnecting:
  assumes "quit_reason v = None" "dtls_turn INT_MAX v = Some (d, t, v1)" "quit_reason v1 = None"
    and "cstp_mainloop Z t v1 = Some (c, t', v2)" "got_cancel_cmd v2" "\<not> got_cancel_cmd v1"
  shows "\<exists>w. main_loop Z ws ret v = Some (Returned (err EINTR) w) \<and> cancel_type w = cancel_type v2 \<and>
    quit_reason w = Some ''CSTP reconnect failed''"
proof -
  have c: "c = err EINTR" "quit_reason v2 = Some ''CSTP reconnect failed''"
    using cstp_mainloop_kept [OF assms(4)] assms(5,6) by auto
  have "turn Z ret v = Some (Break (err EINTR), v2)"
    using assms(2,3,4) c by (simp add: turn_def)
  then have "main_loop Z ws ret v = Some (leave (err EINTR) v2)"
    using assms(1) by (subst main_loop.simps) simp
  then show ?thesis
    using c by (simp add: leave_def Let_def os_shutdown_tun_def script_config_tun_def tun_log_def upd_env_def)
qed

text \<open>A client that has lost its connection to a server that is gone, and is told to detach.\<close>

definition detaching :: "unit vpninfo" where
  "detaching = (commanded CHR ''d'')\<lparr>ssl_open := False, reconnect_timeout := 60, reconnect_interval := 10,
     env := idle_env\<lparr>e_rand := [Some (replicate 48 1)], e_cmd := [Some CHR ''d'']\<rparr>\<rparr>"

lemma detaching_run:
  "\<exists>v2. cstp_mainloop Z INT_MAX detaching = Some (err EINTR, INT_MAX, v2) \<and> got_cancel_cmd v2 \<and> cancel_type v2 = CHR ''d''"
  by (simp add: detaching_def cstp_reconnect_def end_streams_def do_reconnect_def reconnect_loop.simps
      openconnect_make_cstp_connection_def setup_secret_def openconnect_open_https_def main_eval poll_loop.simps [of 1] poll_loop.simps [of 2] Let_def)

theorem cancel_while_reconnecting_witness:
  "\<exists>w. main_loop stored [] 0 detaching = Some (Returned (-4) w) \<and> cancel_type w = CHR ''d''"
proof -
  obtain v2 where v2: "cstp_mainloop stored INT_MAX detaching = Some (err EINTR, INT_MAX, v2)" "got_cancel_cmd v2"
      "cancel_type v2 = CHR ''d''"
    using detaching_run by blast
  have "quit_reason detaching = None" "dtls_turn INT_MAX detaching = Some (0, INT_MAX, detaching)" "\<not> got_cancel_cmd detaching"
    by (simp_all add: detaching_def main_eval)
  from cancel_while_reconnecting [OF this(1,2,1) v2(1,2) this(3)] v2(3) show ?thesis by auto
qed

end
