(* ===== verification/Forwarding.thy ===== *)
theory Forwarding
  imports Mainloop
begin

text \<open>
  An end-to-end run of the client: packets that the operating system hands to the tun device leave through the
  SSL connection, and the main loop goes to sleep only when all of them are out.
\<close>


definition no_deadlines :: "keepalive_info \<Rightarrow> bool" where
  "no_deadlines k \<longleftrightarrow> ka_dpd k = 0 \<and> ka_keepalive k = 0 \<and> ka_rekey_method k = REKEY_NONE"

lemma keepalive_none [simp]: "no_deadlines k \<Longrightarrow> keepalive_action k timeout now = (KA_NONE, k, timeout)"
  by (simp add: no_deadlines_def keepalive_action_def rekey_check_def keepalive_tail_def)

















end
