(* ===== verification/Md4.thy ===== *)
theory Md4
  imports Text_Buf
begin

unbundle bit_operations_syntax

text \<open>
  \<open>md4sum\<close> of \<open>core/ntlm.c\<close>: MD4 computed inside a text buffer, and RFC 1320 as the reference it is
  compared with.
\<close>

section \<open>The code\<close>

definition md4_F :: "u32 \<Rightarrow> u32 \<Rightarrow> u32 \<Rightarrow> u32" where
  "md4_F x y z = (x AND y) OR (NOT x AND z)"

definition md4_G :: "u32 \<Rightarrow> u32 \<Rightarrow> u32 \<Rightarrow> u32" where
  "md4_G x y z = (x AND y) OR (x AND z) OR (y AND z)"

definition md4_H :: "u32 \<Rightarrow> u32 \<Rightarrow> u32 \<Rightarrow> u32" where
  "md4_H x y z = x XOR y XOR z"

definition md4_rot :: "u32 \<Rightarrow> nat \<Rightarrow> u32" where
  "md4_rot val n = push_bit n val OR drop_bit (32 - n) val"

type_synonym md4_state = "u32 \<times> u32 \<times> u32 \<times> u32"

text \<open>Four statements in a row, which assign \<open>A\<close>, \<open>D\<close>, \<open>C\<close> and \<open>B\<close>: the code consists of twelve of these.\<close>

definition md4_quad ::
  "(u32 \<Rightarrow> u32 \<Rightarrow> u32 \<Rightarrow> u32) \<Rightarrow> u32 \<Rightarrow> nat \<Rightarrow> nat \<Rightarrow> nat \<Rightarrow> nat \<Rightarrow> u32 list \<Rightarrow> nat \<Rightarrow> nat \<Rightarrow> nat \<Rightarrow> nat \<Rightarrow> md4_state \<Rightarrow> md4_state" where
  "md4_quad fn k s0 s1 s2 s3 X i0 i1 i2 i3 st =
     (case st of (A, B, C, D) \<Rightarrow>
        let A = md4_rot (A + fn B C D + X ! i0 + k) s0;
            D = md4_rot (D + fn A B C + X ! i1 + k) s1;
            C = md4_rot (C + fn D A B + X ! i2 + k) s2;
            B = md4_rot (B + fn C D A + X ! i3 + k) s3 in
        (A, B, C, D))"

definition md4_round1 :: "u32 list \<Rightarrow> md4_state \<Rightarrow> md4_state" where
  "md4_round1 X st =
     (let q = md4_quad md4_F 0 3 7 11 19 X in
      q 12 13 14 15 (q 8 9 10 11 (q 4 5 6 7 (q 0 1 2 3 st))))"

definition md4_round2 :: "u32 list \<Rightarrow> md4_state \<Rightarrow> md4_state" where
  "md4_round2 X st =
     (let q = md4_quad md4_G 0x5A827999 3 5 9 13 X in
      q 3 7 11 15 (q 2 6 10 14 (q 1 5 9 13 (q 0 4 8 12 st))))"

definition md4_round3 :: "u32 list \<Rightarrow> md4_state \<Rightarrow> md4_state" where
  "md4_round3 X st =
     (let q = md4_quad md4_H 0x6ED9EBA1 3 9 11 15 X in
      q 3 11 7 15 (q 1 9 5 13 (q 2 10 6 14 (q 0 8 4 12 st))))"

text \<open>The words \<open>X[j]\<close> of the block that starts at \<open>M[i]\<close>.\<close>

definition md4_word :: "bytes \<Rightarrow> nat \<Rightarrow> u32" where
  "md4_word M i = ucast (M ! i) OR push_bit 8 (ucast (M ! (i + 1))) OR push_bit 16 (ucast (M ! (i + 2))) OR
     push_bit 24 (ucast (M ! (i + 3)))"

definition md4_add :: "md4_state \<Rightarrow> md4_state \<Rightarrow> md4_state" where
  "md4_add s t = (case (s, t) of ((A, B, C, D), (AA, BB, CC, DD)) \<Rightarrow> (A + AA, B + BB, C + CC, D + DD))"

definition md4_block :: "bytes \<Rightarrow> md4_state \<Rightarrow> nat \<Rightarrow> md4_state" where
  "md4_block M st i =
     (let X = map (\<lambda>j. md4_word M (i + j * 4)) [0..<16] in
      md4_add (md4_round3 X (md4_round2 X (md4_round1 X st))) st)"

definition md4_pbytes :: "nat \<Rightarrow> nat" where
  "md4_pbytes nbytes = (119 - nbytes mod 64) mod 64 + 1"

definition md4_le32 :: "u32 \<Rightarrow> bytes" where
  "md4_le32 w = [ucast w, ucast (drop_bit 8 w), ucast (drop_bit 16 w), ucast (drop_bit 24 w)]"

text \<open>The buffer after the padding has been written.\<close>

definition md4_padded :: "bytes \<Rightarrow> bytes" where
  "md4_padded data =
     (let n = length data; p = md4_pbytes n in
      data @ [0x80] @ replicate (p - 1) 0 @ md4_le32 (of_nat (n * 8)) @ replicate 4 0)"

definition md4_start :: md4_state where
  "md4_start = (0x67452301, 0xEFCDAB89, 0x98BADCFE, 0x10325476)"

definition md4_digest :: "md4_state \<Rightarrow> bytes" where
  "md4_digest st = (case st of (A, B, C, D) \<Rightarrow> md4_le32 A @ md4_le32 B @ md4_le32 C @ md4_le32 D)"

definition md4_hash :: "bytes \<Rightarrow> bytes" where
  "md4_hash data =
     (let M = md4_padded data in
      md4_digest (foldl (md4_block M) md4_start (map (\<lambda>k. k * 64) [0..<length M div 64])))"

text \<open>The position of the buffer stays, so its data is the message; the padding is in the room behind it.\<close>

definition md4sum :: "(nat \<Rightarrow> bool) \<Rightarrow> byte text_buf \<Rightarrow> (errno + bytes) \<times> byte text_buf" where
  "md4sum mem buf =
     (case buf_ensure_space mem buf (md4_pbytes (tb_pos buf) + 8) of
        (Some e, buf) \<Rightarrow> (Inl ENOMEM, buf)
      | (None, buf) \<Rightarrow> (Inr (md4_hash (tb_data buf)), buf))"

section \<open>The padding\<close>

lemma md4_le32_length [simp]: "length (md4_le32 w) = 4"
  by (simp add: md4_le32_def)

lemma md4_pbytes_bounds: "1 \<le> md4_pbytes n" "md4_pbytes n \<le> 64"
  by (simp_all add: md4_pbytes_def Suc_le_eq)

lemma md4_padded_length: "length (md4_padded data) = length data + md4_pbytes (length data) + 8"
  using md4_pbytes_bounds [of "length data"] by (simp add: md4_padded_def Let_def)

lemma md4_pbytes_cases: "md4_pbytes n = (if n mod 64 \<le> 55 then 56 - n mod 64 else 120 - n mod 64)"
proof (cases "n mod 64 \<le> 55")
  case True
  then have "119 - n mod 64 = 55 - n mod 64 + 64" by simp
  then have "(119 - n mod 64) mod 64 = (55 - n mod 64) mod 64" by (simp only: mod_add_self2)
  also have "\<dots> = 55 - n mod 64" by (rule mod_less) simp
  finally have "(119 - n mod 64) mod 64 = 55 - n mod 64" .
  with True show ?thesis by (simp add: md4_pbytes_def Suc_diff_le [symmetric])
next
  case False
  have "n mod 64 < 64" by simp
  with False have "119 - n mod 64 < 64" by linarith
  then have "(119 - n mod 64) mod 64 = 119 - n mod 64" by (rule mod_less)
  with False show ?thesis by (simp add: md4_pbytes_def)
qed

lemma md4_pbytes_mod: "(n + md4_pbytes n + 8) mod 64 = 0"
proof -
  have r: "n mod 64 < 64" by simp
  have "n + md4_pbytes n + 8 = n div 64 * 64 + (n mod 64 + md4_pbytes n + 8)"
    by (metis add.assoc div_mult_mod_eq)
  moreover have "n mod 64 + md4_pbytes n + 8 = (if n mod 64 \<le> 55 then 64 else 128)"
    using r by (simp add: md4_pbytes_cases)
  ultimately show ?thesis by (simp split: if_splits)
qed

section \<open>RFC 1320\<close>

text \<open>
  A 1 bit and the fewest 0 bits that make the length congruent to 448 modulo 512, the
  length in 64 bits, least significant first; 48 steps, each of which replaces one register and turns the
  four of them round; the order of the words and the shifts as the RFC's tables give them.
\<close>

definition rfc_pad :: "bytes \<Rightarrow> bytes" where
  "rfc_pad m = m @ [0x80] @ replicate (nat ((55 - int (length m)) mod 64)) 0 @
     map (\<lambda>k. of_nat (length m * 8 div 256 ^ k)) [0..<8]"

definition rfc_op :: "(u32 \<Rightarrow> u32 \<Rightarrow> u32 \<Rightarrow> u32) \<Rightarrow> u32 \<Rightarrow> u32 list \<Rightarrow> nat \<Rightarrow> nat \<Rightarrow> md4_state \<Rightarrow> md4_state" where
  "rfc_op f k X i s st = (case st of (a, b, c, d) \<Rightarrow> (d, word_rotl s (a + f b c d + X ! i + k), b, c))"

definition rfc_step :: "u32 list \<Rightarrow> md4_state \<Rightarrow> nat \<Rightarrow> md4_state" where
  "rfc_step X st t =
     (if t < 16
      then rfc_op (\<lambda>x y z. (x AND y) OR (NOT x AND z)) 0 X t ([3, 7, 11, 19] ! (t mod 4)) st
      else if t < 32
      then rfc_op (\<lambda>x y z. (x AND y) OR (x AND z) OR (y AND z)) 0x5A827999 X (t mod 4 * 4 + (t - 16) div 4)
             ([3, 5, 9, 13] ! (t mod 4)) st
      else rfc_op (\<lambda>x y z. x XOR y XOR z) 0x6ED9EBA1 X ([0, 8, 4, 12, 2, 10, 6, 14, 1, 9, 5, 13, 3, 11, 7, 15] ! (t - 32))
             ([3, 9, 11, 15] ! (t mod 4)) st)"

definition rfc_words :: "bytes \<Rightarrow> u32 list" where
  "rfc_words block = map (\<lambda>j. of_nat (horner_sum unat 256 (take 4 (drop (j * 4) block)))) [0..<16]"

definition rfc_block :: "md4_state \<Rightarrow> bytes \<Rightarrow> md4_state" where
  "rfc_block st block =
     (case (foldl (rfc_step (rfc_words block)) st [0..<48], st) of
        ((a, b, c, d), (aa, bb, cc, dd)) \<Rightarrow> (a + aa, b + bb, c + cc, d + dd))"

fun rfc_blocks :: "nat \<Rightarrow> bytes \<Rightarrow> bytes list" where
  "rfc_blocks 0 m = []"
| "rfc_blocks (Suc n) m = take 64 m # rfc_blocks n (drop 64 m)"

definition rfc_md4 :: "bytes \<Rightarrow> bytes" where
  "rfc_md4 m =
     (case foldl rfc_block (0x67452301, 0xefcdab89, 0x98badcfe, 0x10325476) (rfc_blocks (length (rfc_pad m) div 64) (rfc_pad m)) of
        (a, b, c, d) \<Rightarrow> concat (map (\<lambda>w. map (\<lambda>k. of_nat (unat w div 256 ^ k)) [0..<4]) [a, b, c, d]))"

section \<open>The code computes it\<close>

lemma rot_rotl: "0 < n \<Longrightarrow> n < 32 \<Longrightarrow> md4_rot w n = word_rotl n w"
proof (rule bit_word_eqI)
  fix k
  assume n: "0 < n" "n < 32" and "k < LENGTH(32)"
  then have k: "k < 32" by simp
  have m: "(k + (32 - n)) mod 32 = (if n \<le> k then k - n else k + (32 - n))"
  proof (cases "n \<le> k")
    case True
    then have "k + (32 - n) = k - n + 32" using n by simp
    then have "(k + (32 - n)) mod 32 = (k - n) mod 32" by (simp only: mod_add_self2)
    then show ?thesis using True k by simp
  qed (use n k in simp)
  have "bit (word_rotl n w) k \<longleftrightarrow> bit w ((k + (32 - n)) mod 32)"
    using k n(2) by (simp only: bit_word_rotl_iff) (simp only: len_bit0 len_num1 One_nat_def mod_less, simp)
  then have r: "bit (word_rotl n w) k \<longleftrightarrow> bit w (if n \<le> k then k - n else k + (32 - n))" by (simp only: m)
  have "bit (md4_rot w n) k \<longleftrightarrow> n \<le> k \<and> bit w (k - n) \<or> bit w (32 - n + k)"
    using k by (simp add: md4_rot_def bit_simps)
  moreover have "\<not> bit w (32 - n + k)" if "n \<le> k" using that n by (auto dest: bit_imp_le_length)
  ultimately show "bit (md4_rot w n) k \<longleftrightarrow> bit (word_rotl n w) k"
    unfolding r using n by (auto simp: add.commute)
qed

lemma le32_div: "ucast (drop_bit k (of_nat n :: u32)) = (of_nat (n div 2 ^ k) :: byte)" if "n < 2 ^ 32" for n :: nat
proof (rule bit_word_eqI)
  fix j
  have "\<not> bit n i" if "32 \<le> i" for i using \<open>n < 2 ^ 32\<close> that
    by (metis bit_take_bit_iff not_less take_bit_nat_eq_self)
  then have "bit n i \<Longrightarrow> i < 32" for i by (metis not_less)
  then show "bit (ucast (drop_bit k (of_nat n :: u32)) :: byte) j \<longleftrightarrow> bit (of_nat (n div 2 ^ k) :: byte) j"
    if "j < LENGTH(8)" using that by (auto simp: bit_simps not_less [symmetric] simp flip: drop_bit_eq_div)
qed

lemma le32_bytes:
  assumes "n < 2 ^ 32"
  shows "map (\<lambda>k. of_nat (n div 256 ^ k)) [0..<8] = md4_le32 (of_nat n) @ replicate 4 0"
proof -
  have hi: "n div 256 ^ k = 0" if "4 \<le> k" for k
  proof -
    have "(256 :: nat) ^ 4 \<le> 256 ^ k" using that by (rule power_increasing) simp
    with assms show ?thesis by simp
  qed
  have z: "map (\<lambda>k. of_nat (n div 256 ^ k)) [4, 5, 6, 7] = map (\<lambda>k. 0 :: byte) [4, 5, 6, 7 :: nat]"
  proof (rule map_cong)
    fix k :: nat
    assume "k \<in> set [4, 5, 6, 7]"
    then have "4 \<le> k" by auto
    then show "of_nat (n div 256 ^ k) = (0 :: byte)" by (simp add: hi)
  qed simp
  have "map (\<lambda>k. of_nat (n div 256 ^ k)) [0, 1, 2, 3] = md4_le32 (of_nat n)"
    using le32_div [OF assms, of 0] le32_div [OF assms, of 8] le32_div [OF assms, of 16] le32_div [OF assms, of 24]
    by (simp add: md4_le32_def)
  moreover have "replicate 4 0 = [0, 0, 0, 0 :: byte]" by (simp add: numeral_eq_Suc)
  moreover have "[0..<8] = [0, 1, 2, 3] @ [4, 5, 6, 7 :: nat]" by (simp add: upt_conv_Cons)
  ultimately show ?thesis by (simp only: map_append z) simp
qed

lemma pad_eq:
  assumes "length m * 8 < 2 ^ 32"
  shows "rfc_pad m = md4_padded m"
proof -
  let ?n = "length m"
  have "(55 - int ?n) mod 64 = (55 - int (?n mod 64)) mod 64"
    by (simp add: zmod_int mod_diff_right_eq)
  also have "\<dots> = int (md4_pbytes ?n) - 1"
  proof (cases "?n mod 64 \<le> 55")
    case True
    then show ?thesis by (simp add: md4_pbytes_cases of_nat_diff)
  next
    case False
    have "?n mod 64 < 64" by simp
    then have "int (?n mod 64) < 64" by linarith
    with False have "(55 - int (?n mod 64)) mod 64 = 119 - int (?n mod 64)"
      using mod_add_self2 [of "55 - int (?n mod 64)" 64] by (simp add: mod_pos_pos_trivial)
    with False \<open>?n mod 64 < 64\<close> show ?thesis by (simp add: md4_pbytes_cases of_nat_diff)
  qed
  finally have z: "nat ((55 - int ?n) mod 64) = md4_pbytes ?n - 1" by simp
  have "map (\<lambda>k. of_nat (?n * 8 div 256 ^ k)) [0..<8] = md4_le32 (of_nat (?n * 8)) @ replicate 4 0"
    by (rule le32_bytes [OF assms])
  with z show ?thesis by (simp add: rfc_pad_def md4_padded_def Let_def)
qed

lemma word_eq:
  fixes a b c d :: byte
  shows "of_nat (horner_sum unat 256 [a, b, c, d]) = (ucast a OR push_bit 8 (ucast b) OR push_bit 16 (ucast c) OR push_bit 24 (ucast d) :: u32)"
proof -
  have c: "push_bit 16 (ucast c) + push_bit 24 (ucast d) = (push_bit 16 (ucast c) OR push_bit 24 (ucast d) :: u32)"
    by (rule disjunctive_add_eq_or, rule bit_word_eqI) (auto simp: bit_simps dest: bit_imp_le_length)
  have b: "push_bit 8 (ucast b) + (push_bit 16 (ucast c) OR push_bit 24 (ucast d)) =
      (push_bit 8 (ucast b) OR push_bit 16 (ucast c) OR push_bit 24 (ucast d) :: u32)"
    by (rule disjunctive_add_eq_or, rule bit_word_eqI) (auto simp: bit_simps dest: bit_imp_le_length)
  have a: "ucast a + (push_bit 8 (ucast b) OR push_bit 16 (ucast c) OR push_bit 24 (ucast d)) =
      (ucast a OR push_bit 8 (ucast b) OR push_bit 16 (ucast c) OR push_bit 24 (ucast d) :: u32)"
    by (rule disjunctive_add_eq_or, rule bit_word_eqI) (auto simp: bit_simps dest: bit_imp_le_length)
  have "(of_nat (unat x) :: u32) = ucast x" for x :: byte by simp
  moreover have "(ucast a OR push_bit 8 (ucast b) OR push_bit 16 (ucast c) OR push_bit 24 (ucast d) :: u32) =
      ucast a + (push_bit 8 (ucast b) + (push_bit 16 (ucast c) + push_bit 24 (ucast d)))"
    by (simp only: a b c)
  ultimately show ?thesis by (simp add: push_bit_eq_mult algebra_simps)
qed


lemma rfc_op4:
  assumes "s0 \<in> {1..<32}" "s1 \<in> {1..<32}" "s2 \<in> {1..<32}" "s3 \<in> {1..<32}"
  shows "rfc_op f k X i3 s3 (rfc_op f k X i2 s2 (rfc_op f k X i1 s1 (rfc_op f k X i0 s0 st))) =
    md4_quad f k s0 s1 s2 s3 X i0 i1 i2 i3 st"
  using assms by (cases st) (simp add: rfc_op_def md4_quad_def rot_rotl Let_def)

lemma rfc_fns:
  "(\<lambda>x y z. (x AND y) OR (NOT x AND z)) = md4_F" "(\<lambda>x y z. (x AND y) OR (x AND z) OR (y AND z)) = md4_G"
  "(\<lambda>x y z. x XOR y XOR z) = md4_H"
  by (simp_all add: fun_eq_iff md4_F_def md4_G_def md4_H_def)

lemma rfc_step_quad:
  "rfc_step X (rfc_step X (rfc_step X (rfc_step X st 0) 1) 2) 3 = md4_quad md4_F 0 3 7 11 19 X 0 1 2 3 st"
  "rfc_step X (rfc_step X (rfc_step X (rfc_step X st 4) 5) 6) 7 = md4_quad md4_F 0 3 7 11 19 X 4 5 6 7 st"
  "rfc_step X (rfc_step X (rfc_step X (rfc_step X st 8) 9) 10) 11 = md4_quad md4_F 0 3 7 11 19 X 8 9 10 11 st"
  "rfc_step X (rfc_step X (rfc_step X (rfc_step X st 12) 13) 14) 15 = md4_quad md4_F 0 3 7 11 19 X 12 13 14 15 st"
  "rfc_step X (rfc_step X (rfc_step X (rfc_step X st 16) 17) 18) 19 = md4_quad md4_G 0x5A827999 3 5 9 13 X 0 4 8 12 st"
  "rfc_step X (rfc_step X (rfc_step X (rfc_step X st 20) 21) 22) 23 = md4_quad md4_G 0x5A827999 3 5 9 13 X 1 5 9 13 st"
  "rfc_step X (rfc_step X (rfc_step X (rfc_step X st 24) 25) 26) 27 = md4_quad md4_G 0x5A827999 3 5 9 13 X 2 6 10 14 st"
  "rfc_step X (rfc_step X (rfc_step X (rfc_step X st 28) 29) 30) 31 = md4_quad md4_G 0x5A827999 3 5 9 13 X 3 7 11 15 st"
  "rfc_step X (rfc_step X (rfc_step X (rfc_step X st 32) 33) 34) 35 = md4_quad md4_H 0x6ED9EBA1 3 9 11 15 X 0 8 4 12 st"
  "rfc_step X (rfc_step X (rfc_step X (rfc_step X st 36) 37) 38) 39 = md4_quad md4_H 0x6ED9EBA1 3 9 11 15 X 2 10 6 14 st"
  "rfc_step X (rfc_step X (rfc_step X (rfc_step X st 40) 41) 42) 43 = md4_quad md4_H 0x6ED9EBA1 3 9 11 15 X 1 9 5 13 st"
  "rfc_step X (rfc_step X (rfc_step X (rfc_step X st 44) 45) 46) 47 = md4_quad md4_H 0x6ED9EBA1 3 9 11 15 X 3 11 7 15 st"
  by (simp_all add: rfc_step_def rfc_fns rfc_op4 numeral_2_eq_2 [symmetric] del: numeral_2_eq_2)

lemma upto48: "[0..<48] = [0, 1, 2, 3, 4, 5, 6, 7, 8, 9, 10, 11, 12, 13, 14, 15, 16, 17, 18, 19, 20, 21, 22, 23, 24,
    25, 26, 27, 28, 29, 30, 31, 32, 33, 34, 35, 36, 37, 38, 39, 40, 41, 42, 43, 44, 45, 46, 47]"
  by (simp add: upt_conv_Cons)

lemma rfc_steps: "foldl (rfc_step X) st [0..<48] = md4_round3 X (md4_round2 X (md4_round1 X st))"
  unfolding upto48 by (simp only: foldl.simps rfc_step_quad md4_round1_def md4_round2_def md4_round3_def Let_def)

lemma rfc_words_eq:
  assumes "i + 64 \<le> length M"
  shows "rfc_words (take 64 (drop i M)) = map (\<lambda>j. md4_word M (i + j * 4)) [0..<16]"
proof -
  have "of_nat (horner_sum unat 256 (take 4 (drop (j * 4) (take 64 (drop i M))))) = md4_word M (i + j * 4)" if "j < 16" for j
  proof -
    have "take 4 (drop (j * 4) (take 64 (drop i M))) = take 4 (drop (i + j * 4) M)"
      using that by (simp add: drop_take min_def add.commute)
    also have "\<dots> = [M ! (i + j * 4), M ! (i + j * 4 + 1), M ! (i + j * 4 + 2), M ! (i + j * 4 + 3)]"
      using that assms by (intro take4) simp
    finally show ?thesis by (simp only: word_eq md4_word_def)
  qed
  then show ?thesis by (simp add: rfc_words_def)
qed

lemma rfc_block_eq:
  assumes "i + 64 \<le> length M"
  shows "rfc_block st (take 64 (drop i M)) = md4_block M st i"
  by (simp add: rfc_block_def md4_block_def md4_add_def rfc_words_eq [OF assms] rfc_steps Let_def split: prod.split)

lemma rfc_blocks_eq:
  "i + 64 * n \<le> length M \<Longrightarrow>
   foldl rfc_block st (rfc_blocks n (drop i M)) = foldl (md4_block M) st (map (\<lambda>k. i + k * 64) [0..<n])"
proof (induction n arbitrary: i st)
  case (Suc n)
  have "[0..<Suc n] = 0 # map Suc [0..<n]" by (simp add: upt_conv_Cons map_Suc_upt)
  then have "map (\<lambda>k. i + k * 64) [0..<Suc n] = i # map (\<lambda>k. i + 64 + k * 64) [0..<n]"
    by (simp add: algebra_simps)
  with Suc show ?case by (simp add: rfc_block_eq add.commute)
qed simp

lemma md4_le32_div: "map (\<lambda>k. of_nat (unat w div 256 ^ k)) [0..<4] = md4_le32 w"
proof -
  have "unat w < 2 ^ 32" using unsigned_less [of w, where 'a = nat] by simp
  from le32_div [OF this, of 0] le32_div [OF this, of 8] le32_div [OF this, of 16] le32_div [OF this, of 24]
  show ?thesis by (simp add: md4_le32_def upt_conv_Cons)
qed

lemma md4_hash_rfc:
  assumes "length m * 8 < 2 ^ 32"
  shows "md4_hash m = rfc_md4 m"
proof -
  let ?M = "md4_padded m" and ?n = "length (md4_padded m) div 64"
  have len: "64 * ?n \<le> length ?M" by simp
  have "foldl rfc_block md4_start (rfc_blocks ?n ?M) = foldl (md4_block ?M) md4_start (map (\<lambda>k. k * 64) [0..<?n])"
    using rfc_blocks_eq [of 0 ?n ?M md4_start] len by simp
  then show ?thesis
    by (simp add: rfc_md4_def md4_hash_def pad_eq [OF assms] md4_start_def [symmetric] Let_def md4_digest_def md4_le32_div
        split: prod.split)
qed

text \<open>
  C7 (md4sum_rfc1320): \<open>md4sum\<close> computes MD4 as RFC 1320 defines it, for every message that fits in a text
  buffer, and leaves the message as it was; it fails only when there is no room for the padding.
\<close>

theorem md4sum_rfc1320:
  assumes "buf_ok buf" "tb_error buf = None"
  shows "case md4sum mem buf of
      (Inr digest, b) \<Rightarrow> digest = rfc_md4 (tb_data buf) \<and> length digest = 16 \<and> tb_data b = tb_data buf
    | (Inl e, b) \<Rightarrow> e = ENOMEM \<and> tb_error b \<noteq> None"
proof (cases "buf_ensure_space mem buf (md4_pbytes (tb_pos buf) + 8)")
  case (Pair r b)
  have "tb_pos buf \<le> MAX_BUF_LEN" using assms(1) by (auto simp: buf_ok_def split: if_splits)
  then have len: "length (tb_data buf) * 8 < 2 ^ 32" by simp
  show ?thesis
  proof (cases r)
    case None
    with Pair have "tb_data b = tb_data buf" using buf_ensure_space_None assms(2) by blast
    moreover have "length (md4_hash m) = 16" for m
      by (simp add: md4_hash_def Let_def md4_digest_def split: prod.split)
    ultimately show ?thesis
      using Pair None by (simp add: md4sum_def) (simp add: md4_hash_rfc [OF len])
  next
    case (Some e)
    with Pair show ?thesis using buf_ensure_space_Some [of mem buf _ e b] by (simp add: md4sum_def)
  qed
qed

theorem md4sum_rfc1320_witness:
  "case md4sum (\<lambda>_. True) (empty_buf :: byte text_buf) of
      (Inr digest, b) \<Rightarrow> digest = rfc_md4 (tb_data (empty_buf :: byte text_buf)) \<and> length digest = 16 \<and>
        tb_data b = tb_data (empty_buf :: byte text_buf)
    | (Inl e, b) \<Rightarrow> e = ENOMEM \<and> tb_error b \<noteq> None"
  by (rule md4sum_rfc1320) (simp_all add: empty_buf_def buf_ok_def)

end
