(* ===== verification/Des.thy ===== *)
theory Des
  imports Prelude
begin

unbundle bit_operations_syntax

text \<open>
  The DES routines of \<open>core/ntlm.c\<close>: \<open>des\<close> on a block of eight bytes, the key schedule \<open>deskey\<close> and
  \<open>setup_schedule\<close>, which spreads a 56-bit key over eight bytes. The theory shows that the schedule for
  decryption undoes the one for encryption, and which bits of the key each byte holds.
\<close>

section \<open>The block cipher\<close>

definition Spbox :: "u32 list list" where
  "Spbox =
    [[0x01010400, 0x00000000, 0x00010000, 0x01010404, 0x01010004, 0x00010404, 0x00000004, 0x00010000,
      0x00000400, 0x01010400, 0x01010404, 0x00000400, 0x01000404, 0x01010004, 0x01000000, 0x00000004,
      0x00000404, 0x01000400, 0x01000400, 0x00010400, 0x00010400, 0x01010000, 0x01010000, 0x01000404,
      0x00010004, 0x01000004, 0x01000004, 0x00010004, 0x00000000, 0x00000404, 0x00010404, 0x01000000,
      0x00010000, 0x01010404, 0x00000004, 0x01010000, 0x01010400, 0x01000000, 0x01000000, 0x00000400,
      0x01010004, 0x00010000, 0x00010400, 0x01000004, 0x00000400, 0x00000004, 0x01000404, 0x00010404,
      0x01010404, 0x00010004, 0x01010000, 0x01000404, 0x01000004, 0x00000404, 0x00010404, 0x01010400,
      0x00000404, 0x01000400, 0x01000400, 0x00000000, 0x00010004, 0x00010400, 0x00000000, 0x01010004],
     [0x80108020, 0x80008000, 0x00008000, 0x00108020, 0x00100000, 0x00000020, 0x80100020, 0x80008020,
      0x80000020, 0x80108020, 0x80108000, 0x80000000, 0x80008000, 0x00100000, 0x00000020, 0x80100020,
      0x00108000, 0x00100020, 0x80008020, 0x00000000, 0x80000000, 0x00008000, 0x00108020, 0x80100000,
      0x00100020, 0x80000020, 0x00000000, 0x00108000, 0x00008020, 0x80108000, 0x80100000, 0x00008020,
      0x00000000, 0x00108020, 0x80100020, 0x00100000, 0x80008020, 0x80100000, 0x80108000, 0x00008000,
      0x80100000, 0x80008000, 0x00000020, 0x80108020, 0x00108020, 0x00000020, 0x00008000, 0x80000000,
      0x00008020, 0x80108000, 0x00100000, 0x80000020, 0x00100020, 0x80008020, 0x80000020, 0x00100020,
      0x00108000, 0x00000000, 0x80008000, 0x00008020, 0x80000000, 0x80100020, 0x80108020, 0x00108000],
     [0x00000208, 0x08020200, 0x00000000, 0x08020008, 0x08000200, 0x00000000, 0x00020208, 0x08000200,
      0x00020008, 0x08000008, 0x08000008, 0x00020000, 0x08020208, 0x00020008, 0x08020000, 0x00000208,
      0x08000000, 0x00000008, 0x08020200, 0x00000200, 0x00020200, 0x08020000, 0x08020008, 0x00020208,
      0x08000208, 0x00020200, 0x00020000, 0x08000208, 0x00000008, 0x08020208, 0x00000200, 0x08000000,
      0x08020200, 0x08000000, 0x00020008, 0x00000208, 0x00020000, 0x08020200, 0x08000200, 0x00000000,
      0x00000200, 0x00020008, 0x08020208, 0x08000200, 0x08000008, 0x00000200, 0x00000000, 0x08020008,
      0x08000208, 0x00020000, 0x08000000, 0x08020208, 0x00000008, 0x00020208, 0x00020200, 0x08000008,
      0x08020000, 0x08000208, 0x00000208, 0x08020000, 0x00020208, 0x00000008, 0x08020008, 0x00020200],
     [0x00802001, 0x00002081, 0x00002081, 0x00000080, 0x00802080, 0x00800081, 0x00800001, 0x00002001,
      0x00000000, 0x00802000, 0x00802000, 0x00802081, 0x00000081, 0x00000000, 0x00800080, 0x00800001,
      0x00000001, 0x00002000, 0x00800000, 0x00802001, 0x00000080, 0x00800000, 0x00002001, 0x00002080,
      0x00800081, 0x00000001, 0x00002080, 0x00800080, 0x00002000, 0x00802080, 0x00802081, 0x00000081,
      0x00800080, 0x00800001, 0x00802000, 0x00802081, 0x00000081, 0x00000000, 0x00000000, 0x00802000,
      0x00002080, 0x00800080, 0x00800081, 0x00000001, 0x00802001, 0x00002081, 0x00002081, 0x00000080,
      0x00802081, 0x00000081, 0x00000001, 0x00002000, 0x00800001, 0x00002001, 0x00802080, 0x00800081,
      0x00002001, 0x00002080, 0x00800000, 0x00802001, 0x00000080, 0x00800000, 0x00002000, 0x00802080],
     [0x00000100, 0x02080100, 0x02080000, 0x42000100, 0x00080000, 0x00000100, 0x40000000, 0x02080000,
      0x40080100, 0x00080000, 0x02000100, 0x40080100, 0x42000100, 0x42080000, 0x00080100, 0x40000000,
      0x02000000, 0x40080000, 0x40080000, 0x00000000, 0x40000100, 0x42080100, 0x42080100, 0x02000100,
      0x42080000, 0x40000100, 0x00000000, 0x42000000, 0x02080100, 0x02000000, 0x42000000, 0x00080100,
      0x00080000, 0x42000100, 0x00000100, 0x02000000, 0x40000000, 0x02080000, 0x42000100, 0x40080100,
      0x02000100, 0x40000000, 0x42080000, 0x02080100, 0x40080100, 0x00000100, 0x02000000, 0x42080000,
      0x42080100, 0x00080100, 0x42000000, 0x42080100, 0x02080000, 0x00000000, 0x40080000, 0x42000000,
      0x00080100, 0x02000100, 0x40000100, 0x00080000, 0x00000000, 0x40080000, 0x02080100, 0x40000100],
     [0x20000010, 0x20400000, 0x00004000, 0x20404010, 0x20400000, 0x00000010, 0x20404010, 0x00400000,
      0x20004000, 0x00404010, 0x00400000, 0x20000010, 0x00400010, 0x20004000, 0x20000000, 0x00004010,
      0x00000000, 0x00400010, 0x20004010, 0x00004000, 0x00404000, 0x20004010, 0x00000010, 0x20400010,
      0x20400010, 0x00000000, 0x00404010, 0x20404000, 0x00004010, 0x00404000, 0x20404000, 0x20000000,
      0x20004000, 0x00000010, 0x20400010, 0x00404000, 0x20404010, 0x00400000, 0x00004010, 0x20000010,
      0x00400000, 0x20004000, 0x20000000, 0x00004010, 0x20000010, 0x20404010, 0x00404000, 0x20400000,
      0x00404010, 0x20404000, 0x00000000, 0x20400010, 0x00000010, 0x00004000, 0x20400000, 0x00404010,
      0x00004000, 0x00400010, 0x20004010, 0x00000000, 0x20404000, 0x20000000, 0x00400010, 0x20004010],
     [0x00200000, 0x04200002, 0x04000802, 0x00000000, 0x00000800, 0x04000802, 0x00200802, 0x04200800,
      0x04200802, 0x00200000, 0x00000000, 0x04000002, 0x00000002, 0x04000000, 0x04200002, 0x00000802,
      0x04000800, 0x00200802, 0x00200002, 0x04000800, 0x04000002, 0x04200000, 0x04200800, 0x00200002,
      0x04200000, 0x00000800, 0x00000802, 0x04200802, 0x00200800, 0x00000002, 0x04000000, 0x00200800,
      0x04000000, 0x00200800, 0x00200000, 0x04000802, 0x04000802, 0x04200002, 0x04200002, 0x00000002,
      0x00200002, 0x04000000, 0x04000800, 0x00200000, 0x04200800, 0x00000802, 0x00200802, 0x04200800,
      0x00000802, 0x04000002, 0x04200802, 0x04200000, 0x00200800, 0x00000000, 0x00000002, 0x04200802,
      0x00000000, 0x00200802, 0x04200000, 0x00000800, 0x04000002, 0x04000800, 0x00000800, 0x00200002],
     [0x10001040, 0x00001000, 0x00040000, 0x10041040, 0x10000000, 0x10001040, 0x00000040, 0x10000000,
      0x00040040, 0x10040000, 0x10041040, 0x00041000, 0x10041000, 0x00041040, 0x00001000, 0x00000040,
      0x10040000, 0x10000040, 0x10001000, 0x00001040, 0x00041000, 0x00040040, 0x10040040, 0x10041000,
      0x00001040, 0x00000000, 0x00000000, 0x10040040, 0x10000040, 0x10001000, 0x00041040, 0x00040000,
      0x00041040, 0x00040000, 0x10041000, 0x00001000, 0x00000040, 0x10040040, 0x00001000, 0x00041040,
      0x10001000, 0x00000040, 0x10000040, 0x10040000, 0x10040040, 0x10000000, 0x00040000, 0x10001040,
      0x00000000, 0x10041040, 0x00040040, 0x10000040, 0x10040000, 0x10001000, 0x10001040, 0x00000000,
      0x10041040, 0x00041000, 0x00041000, 0x00001040, 0x00001040, 0x00040040, 0x10000000, 0x10041000]]"

text \<open>The macro \<open>F(l,r,key)\<close>: the new value of \<open>l\<close>.\<close>

definition des_F :: "u32 \<Rightarrow> u32 \<Rightarrow> u32 \<times> u32 \<Rightarrow> u32" where
  "des_F l r key =
     (let work = (drop_bit 4 r OR push_bit 28 r) XOR fst key;
          l = l XOR Spbox ! 6 ! unat (work AND 0x3f);
          l = l XOR Spbox ! 4 ! unat (drop_bit 8 work AND 0x3f);
          l = l XOR Spbox ! 2 ! unat (drop_bit 16 work AND 0x3f);
          l = l XOR Spbox ! 0 ! unat (drop_bit 24 work AND 0x3f);
          work = r XOR snd key;
          l = l XOR Spbox ! 7 ! unat (work AND 0x3f);
          l = l XOR Spbox ! 5 ! unat (drop_bit 8 work AND 0x3f);
          l = l XOR Spbox ! 3 ! unat (drop_bit 16 work AND 0x3f);
          l = l XOR Spbox ! 1 ! unat (drop_bit 24 work AND 0x3f) in
      l)"

text \<open>\<open>work = ((a >> n) ^ b) & m; b ^= work; a ^= work << n\<close>\<close>

definition des_swap :: "nat \<Rightarrow> u32 \<Rightarrow> u32 \<Rightarrow> u32 \<Rightarrow> u32 \<times> u32" where
  "des_swap n m a b = (let work = (drop_bit n a XOR b) AND m in (a XOR push_bit n work, b XOR work))"

text \<open>\<open>work = (a ^ b) & m; a ^= work; b ^= work\<close>, and the rotations by one bit.\<close>

definition des_cross :: "u32 \<Rightarrow> u32 \<Rightarrow> u32 \<Rightarrow> u32 \<times> u32" where
  "des_cross m a b = (let work = (a XOR b) AND m in (a XOR work, b XOR work))"

definition rol1 :: "u32 \<Rightarrow> u32" where
  "rol1 w = push_bit 1 w OR drop_bit 31 w"

definition ror1 :: "u32 \<Rightarrow> u32" where
  "ror1 w = push_bit 31 w OR drop_bit 1 w"

text \<open>The initial permutation, on \<open>left\<close> and \<open>right\<close>.\<close>

definition des_ip :: "u32 \<times> u32 \<Rightarrow> u32 \<times> u32" where
  "des_ip p =
     (let (left, right) = p;
          (left, right) = des_swap 4 0x0f0f0f0f left right;
          (left, right) = des_swap 16 0xffff left right;
          (right, left) = des_swap 2 0x33333333 right left;
          (right, left) = des_swap 8 0xff00ff right left;
          right = rol1 right;
          (left, right) = des_cross 0xaaaaaaaa left right;
          left = rol1 left in
      (left, right))"

definition des_rounds :: "(u32 \<times> u32) list \<Rightarrow> u32 \<times> u32 \<Rightarrow> u32 \<times> u32" where
  "des_rounds ks p =
     foldl (\<lambda>(left, right) i.
         let left = des_F left right (ks ! (2 * i));
             right = des_F right left (ks ! (2 * i + 1)) in
         (left, right)) p [0..<8]"

text \<open>The inverse permutation.\<close>

definition des_fp :: "u32 \<times> u32 \<Rightarrow> u32 \<times> u32" where
  "des_fp p =
     (let (left, right) = p;
          right = ror1 right;
          (left, right) = des_cross 0xaaaaaaaa left right;
          left = ror1 left;
          (left, right) = des_swap 8 0xff00ff left right;
          (left, right) = des_swap 2 0x33333333 left right;
          (right, left) = des_swap 16 0xffff right left;
          (right, left) = des_swap 4 0x0f0f0f0f right left in
      (left, right))"

definition des_load :: "bytes \<Rightarrow> u32" where
  "des_load b = push_bit 24 (ucast (b ! 0)) OR push_bit 16 (ucast (b ! 1)) OR push_bit 8 (ucast (b ! 2)) OR ucast (b ! 3)"

definition des_store :: "u32 \<Rightarrow> bytes" where
  "des_store w = [ucast (drop_bit 24 w), ucast (drop_bit 16 w), ucast (drop_bit 8 w), ucast w]"

definition des :: "(u32 \<times> u32) list \<Rightarrow> bytes \<Rightarrow> bytes" where
  "des ks block =
     (let left = des_load block;
          right = des_load (drop 4 block);
          (left, right) = des_fp (des_rounds ks (des_ip (left, right))) in
      des_store right @ des_store left)"

section \<open>The key schedule\<close>

definition pc1 :: "nat list" where
  "pc1 =
    [57, 49, 41, 33, 25, 17, 9, 1, 58, 50, 42, 34, 26, 18,
     10, 2, 59, 51, 43, 35, 27, 19, 11, 3, 60, 52, 44, 36,
     63, 55, 47, 39, 31, 23, 15, 7, 62, 54, 46, 38, 30, 22,
     14, 6, 61, 53, 45, 37, 29, 21, 13, 5, 28, 20, 12, 4]"

definition totrot :: "nat list" where
  "totrot = [1, 2, 4, 6, 8, 10, 12, 14, 15, 17, 19, 21, 23, 25, 27, 28]"

definition pc2 :: "nat list" where
  "pc2 =
    [14, 17, 11, 24, 1, 5, 3, 28, 15, 6, 21, 10,
     23, 19, 12, 4, 26, 8, 16, 7, 27, 20, 13, 2,
     41, 52, 31, 37, 47, 55, 30, 40, 51, 45, 33, 48,
     44, 49, 39, 56, 34, 53, 46, 42, 50, 36, 29, 32]"

definition bytebit :: "byte list" where
  "bytebit = [0x80, 0x40, 0x20, 0x10, 0x08, 0x04, 0x02, 0x01]"

definition deskey_pc1m :: "bytes \<Rightarrow> bool list" where
  "deskey_pc1m key = map (\<lambda>j. let l = pc1 ! j - 1; m = l AND 7 in key ! drop_bit 3 l AND bytebit ! m \<noteq> 0) [0..<56]"

definition deskey_pcr :: "bool list \<Rightarrow> nat \<Rightarrow> bool list" where
  "deskey_pcr pc1m rot =
     map (\<lambda>j. let l = j + rot in pc1m ! (if l < (if j < 28 then 28 else 56) then l else l - 28)) [0..<56]"

definition deskey_ks :: "bool list \<Rightarrow> bytes" where
  "deskey_ks pcr =
     foldl (\<lambda>ks j. if pcr ! (pc2 ! j - 1)
         then let l = j mod 6 in ks[j div 6 := ks ! (j div 6) OR drop_bit 2 (bytebit ! l)]
         else ks) (replicate 8 0) [0..<48]"

definition deskey_pack :: "bytes \<Rightarrow> u32 \<times> u32" where
  "deskey_pack ks =
     (push_bit 24 (ucast (ks ! 0)) OR push_bit 16 (ucast (ks ! 2)) OR push_bit 8 (ucast (ks ! 4)) OR ucast (ks ! 6),
      push_bit 24 (ucast (ks ! 1)) OR push_bit 16 (ucast (ks ! 3)) OR push_bit 8 (ucast (ks ! 5)) OR ucast (ks ! 7))"

definition deskey :: "bytes \<Rightarrow> bool \<Rightarrow> (u32 \<times> u32) list" where
  "deskey key decrypt =
     (let pc1m = deskey_pc1m key in
      map (\<lambda>i. deskey_pack (deskey_ks (deskey_pcr pc1m (totrot ! (if decrypt then 15 - i else i))))) [0..<16])"

definition HIKEYBITS :: "bytes \<Rightarrow> nat \<Rightarrow> byte" where
  "HIKEYBITS k s = push_bit (s mod 8) (k ! (s div 8))"

definition LOKEYBITS :: "bytes \<Rightarrow> nat \<Rightarrow> byte" where
  "LOKEYBITS k s = drop_bit (8 - s mod 8) (k ! (s div 8 + 1))"

definition fix_parity :: "byte \<Rightarrow> byte" where
  "fix_parity x = (if even (length (filter (\<lambda>b. x AND push_bit b 1 \<noteq> 0) [0..<8])) then x XOR 1 else x)"

definition schedule_key :: "bytes \<Rightarrow> bytes" where
  "schedule_key key_56 =
     map (\<lambda>i. fix_parity (let key = HIKEYBITS key_56 (i * 7) in
         if i \<noteq> 0 \<and> i < 7 then key OR LOKEYBITS key_56 (i * 7) else key)) [0..<8]"

definition setup_schedule :: "bytes \<Rightarrow> (u32 \<times> u32) list" where
  "setup_schedule key_56 = deskey (schedule_key key_56) False"

section \<open>The permutations\<close>

text \<open>\<open>des_swap\<close> loses nothing when the mask still fits after the shift.\<close>

definition fits :: "nat \<Rightarrow> u32 \<Rightarrow> bool" where
  "fits n m \<longleftrightarrow> drop_bit n (push_bit n m) = m"

lemma fits_bit: "fits n m \<Longrightarrow> bit m i \<Longrightarrow> n + i < 32"
proof -
  assume "fits n m" "bit m i"
  then have "bit (drop_bit n (push_bit n m)) i" by (simp add: fits_def)
  then show "n + i < 32" by (simp add: bit_drop_bit_eq bit_push_bit_iff)
qed

lemma des_swap_bits: 
  assumes "fits n m"
  shows "bit (snd (des_swap n m a b)) i = (if bit m i then bit a (n + i) else bit b i)"
   "bit (fst (des_swap n m a b)) i = (if n \<le> i \<and> bit m (i - n) then bit b (i - n) else bit a i)"
  using fits_bit [OF assms, of i] fits_bit [OF assms, of "i - n"] 
  by (auto simp: des_swap_def Let_def bit_simps add.commute dest: bit_imp_le_length)

lemma des_swap_twice: 
  assumes "fits n m" "des_swap n m a b = (c, d)"
  shows "des_swap n m c d = (a, b)"
proof -
  have cd: "c = fst (des_swap n m a b)" "d = snd (des_swap n m a b)" using assms(2) by simp_all
  have "fst (des_swap n m c d) = a"
    by (rule bit_word_eqI) (auto simp: des_swap_bits [OF assms(1)] cd)
  moreover have "snd (des_swap n m c d) = b"
    by (rule bit_word_eqI) (auto simp: des_swap_bits [OF assms(1)] cd)
  ultimately show ?thesis by (metis prod.collapse)
qed

lemma des_masks: "fits 4 0x0f0f0f0f" "fits 16 0xffff" "fits 2 0x33333333" "fits 8 0xff00ff"
  by (simp_all add: fits_def)

lemma des_cross_bits:
  "bit (fst (des_cross m a b)) i = bit (if bit m i then b else a) i"
  "bit (snd (des_cross m a b)) i = bit (if bit m i then a else b) i"
  by (auto simp: des_cross_def Let_def bit_simps)

lemma des_cross_twice: "des_cross m a b = (c, d) \<Longrightarrow> des_cross m c d = (a, b)"
  "des_cross m a b = (c, d) \<Longrightarrow> des_cross m d c = (b, a)"
proof -
  assume "des_cross m a b = (c, d)"
  then have cd: "c = fst (des_cross m a b)" "d = snd (des_cross m a b)" by simp_all
  have "fst (des_cross m c d) = a" "snd (des_cross m c d) = b" "fst (des_cross m d c) = b" "snd (des_cross m d c) = a"
    by (rule bit_word_eqI, auto simp: des_cross_bits cd)+
  then show "des_cross m c d = (a, b)" "des_cross m d c = (b, a)" by (metis prod.collapse)+
qed

lemma rotate_back:
  assumes "i + j = 32" "0 < i" "0 < j"
  shows "push_bit j (push_bit i w OR drop_bit j w) OR drop_bit i (push_bit i w OR drop_bit j w) = (w :: u32)"
proof (rule bit_word_eqI)
  fix n
  show "n < LENGTH(32) \<Longrightarrow> bit (push_bit j (push_bit i w OR drop_bit j w) OR drop_bit i (push_bit i w OR drop_bit j w)) n = bit w n"
    using assms by (cases "j \<le> n") (auto simp: bit_simps dest: bit_imp_le_length)
qed

lemma rol_ror [simp]: "ror1 (rol1 w) = w" "rol1 (ror1 w) = w"
  using rotate_back [of 1 31 w] rotate_back [of 31 1 w] by (simp_all add: rol1_def ror1_def del: push_bit_of_Suc_0 push_bit_Suc drop_bit_Suc One_nat_def)

lemma fp_ip: "des_fp (prod.swap (des_ip (l, r))) = (r, l)"
proof -
  obtain l1 r1 where 1: "des_swap 4 0x0f0f0f0f l r = (l1, r1)" by fastforce
  obtain l2 r2 where 2: "des_swap 16 0xffff l1 r1 = (l2, r2)" by fastforce
  obtain l3 r3 where 3: "des_swap 2 0x33333333 r2 l2 = (r3, l3)" by fastforce
  obtain l4 r4 where 4: "des_swap 8 0xff00ff r3 l3 = (r4, l4)" by fastforce
  obtain l5 r5 where 5: "des_cross 0xaaaaaaaa l4 (rol1 r4) = (l5, r5)" by fastforce
  note undo = des_masks(1-4) [THEN des_swap_twice]
  note u = undo(1) [OF 1] undo(2) [OF 2] undo(3) [OF 3] undo(4) [OF 4]
  show ?thesis using 1 2 3 4 5 u des_cross_twice [OF 5]
    by (simp add: des_ip_def des_fp_def)
qed

lemma ip_fp: "des_ip (prod.swap (des_fp (l, r))) = (r, l)"
proof -
  obtain l1 r1 where 1: "des_cross 0xaaaaaaaa l (ror1 r) = (l1, r1)" by fastforce
  obtain l2 r2 where 2: "des_swap 8 0xff00ff (ror1 l1) r1 = (l2, r2)" by fastforce
  obtain l3 r3 where 3: "des_swap 2 0x33333333 l2 r2 = (l3, r3)" by fastforce
  obtain l4 r4 where 4: "des_swap 16 0xffff r3 l3 = (r4, l4)" by fastforce
  obtain l5 r5 where 5: "des_swap 4 0x0f0f0f0f r4 l4 = (r5, l5)" by fastforce
  note undo = des_masks(1-4) [THEN des_swap_twice]
  note u = undo(4) [OF 2] undo(3) [OF 3] undo(2) [OF 4] undo(1) [OF 5]
  show ?thesis using 1 2 3 4 5 u des_cross_twice [OF 1]
    by (simp add: des_ip_def des_fp_def)
qed

section \<open>Decryption\<close>

text \<open>
  A round replaces one half by a value from which the old one comes back with the same key and the same other half.
  Whatever the function is, the rounds in reverse order undo the rounds.
\<close>

locale feistel =
  fixes F :: "'h \<Rightarrow> 'h \<Rightarrow> 'k \<Rightarrow> 'h"
  assumes again: "F (F l r k) r k = l"
begin

abbreviation step :: "'h \<times> 'h \<Rightarrow> 'k \<Rightarrow> 'h \<times> 'h" where
  "step p k \<equiv> (snd p, F (fst p) (snd p) k)"

lemma undo: "foldl step (prod.swap (foldl step p ks)) (rev ks) = prod.swap p"
  by (induction ks rule: rev_induct) (simp_all add: again prod.swap_def)

lemma two: "foldl step p [j, k] = (F (fst p) (snd p) j, F (snd p) (F (fst p) (snd p) j) k)"
  by simp

end

lemma des_F_mix: "des_F l r k = l XOR des_F 0 r k"
  by (simp add: des_F_def Let_def ac_simps)

lemma des_F_again: "des_F (des_F l r k) r k = l"
  using des_F_mix [of l r k] des_F_mix [of "des_F l r k" r k] by (simp add: xor.assoc)

interpretation rounds: feistel des_F
  by unfold_locales (rule des_F_again)

lemma des_rounds_step:
  assumes "length ks = 16"
  shows "des_rounds ks p = foldl rounds.step p ks"
proof -
  have "foldl (\<lambda>(left, right) i.
         let left = des_F left right (ks ! (2 * i));
             right = des_F right left (ks ! (2 * i + 1)) in
         (left, right)) p [0..<n] = foldl rounds.step p (take (2 * n) ks)" if "n \<le> 8" for n
    using that
  proof (induction n)
    case (Suc n)
    then have "take (2 * Suc n) ks = take (2 * n) ks @ [ks ! (2 * n), ks ! (2 * n + 1)]"
      using assms by (simp add: take_Suc_conv_app_nth)
    with Suc show ?case by (simp add: split_beta Let_def)
  qed simp
  from this [of 8] assms show ?thesis by (simp add: des_rounds_def)
qed

lemma des_rounds_undo:
  "length ks = 16 \<Longrightarrow> des_rounds (rev ks) (prod.swap (des_rounds ks p)) = prod.swap p"
  by (simp add: des_rounds_step rounds.undo del: foldl_append)

lemma des_load_store [simp]: "des_load (des_store w @ x) = w"
proof (rule bit_word_eqI)
  fix n
  assume "n < LENGTH(32)"
  then consider "n < 8" | "8 \<le> n" "n < 16" | "16 \<le> n" "n < 24" | "24 \<le> n" "n < 32" by fastforce
  then show "bit (des_load (des_store w @ x)) n = bit w n"
    by cases (auto simp: des_load_def des_store_def bit_simps)
qed

lemma des_store_load: "des_store (des_load [a, b, c, d]) = [a, b, c, d]"
  by (simp add: des_load_def des_store_def)
    (intro conjI bit_word_eqI; auto simp: bit_simps dest: bit_imp_le_length)

lemma des_store_load_take: "4 \<le> length x \<Longrightarrow> des_store (des_load x) = take 4 x"
  using des_store_load [of "x ! 0" "x ! 1" "x ! 2" "x ! 3"] take4 [of 0 x] by (simp add: des_load_def numeral_2_eq_2)

lemma des_length [simp]: "length (des ks b) = 8"
  by (simp add: des_def des_store_def split: prod.split)

lemma des_undo:
  assumes "length ks = 16" "length block = 8"
  shows "des (rev ks) (des ks block) = block"
proof -
  let ?p = "(des_load block, des_load (drop 4 block))"
  obtain a b where ab: "des_rounds ks (des_ip ?p) = (a, b)" by fastforce
  obtain x y where xy: "des_fp (a, b) = (x, y)" by fastforce
  have "des ks block = des_store y @ des_store x" by (simp add: des_def ab xy)
  moreover have "drop 4 (des_store y @ des_store x) = des_store x @ []" by (simp add: des_store_def)
  moreover have "des_ip (y, x) = (b, a)" using ip_fp [of a b] xy by simp
  moreover have "des_rounds (rev ks) (b, a) = prod.swap (des_ip ?p)"
    using des_rounds_undo [OF assms(1), of "des_ip ?p"] ab by simp
  ultimately have "des (rev ks) (des ks block) = des_store (des_load block) @ des_store (des_load (drop 4 block))"
    by (simp only: des_def des_load_store fp_ip Let_def prod.case)
  then show ?thesis using assms(2) by (simp add: des_store_load_take)
qed

lemma deskey_length [simp]: "length (deskey key d) = 16"
  by (simp add: deskey_def)

lemma deskey_decrypt: "deskey key True = rev (deskey key False)"
proof -
  have "i < 16 \<Longrightarrow> [0..<16] ! (15 - i) = 15 - i" for i :: nat by (subst nth_upt) simp_all
  then show ?thesis by (intro nth_equalityI) (simp_all add: deskey_def rev_nth)
qed

text \<open>
  C39 (des_decrypts): A block that was encrypted is given back by \<open>des\<close> with the schedule that \<open>deskey\<close> makes
  for decryption from the same key.
\<close>

theorem des_decrypts:
  assumes "length block = 8"
  shows "des (deskey key True) (des (deskey key False) block) = block"
  by (simp add: deskey_decrypt des_undo assms)

theorem des_decrypts_witness:
  "des (deskey [1, 2, 3, 4, 5, 6, 7, 8] True) (des (deskey [1, 2, 3, 4, 5, 6, 7, 8] False) [0x4B, 0x47, 0x53, 0x21, 0x40, 0x23, 0x24, 0x25]) =
     [0x4B, 0x47, 0x53, 0x21, 0x40, 0x23, 0x24, 0x25]"
  by (rule des_decrypts) simp

section \<open>The key\<close>

lemma fix_parity_bit: "0 < b \<Longrightarrow> bit (fix_parity x) b = bit x b"
  by (simp add: fix_parity_def bit_simps)

lemma fix_parity_filter:
  "fix_parity x = (if even (length (filter (bit x) [0..<8])) then x XOR 1 else x)"
  by (simp only: fix_parity_def flip: bit_iff_and_push_bit_not_eq_0)

lemma fix_parity_odd: "odd (length (filter (bit (fix_parity x)) [0..<8]))"
proof (cases "even (length (filter (bit x) [0..<8]))")
  case True
  have u: "[0..<8] = 0 # [1..<8 :: nat]" by (simp add: upt_conv_Cons)
  have "filter (bit (x XOR 1)) [1..<8] = filter (bit x) [1..<8]"
    by (rule filter_cong) (auto simp: bit_simps)
  moreover have "bit (x XOR 1) 0 = (\<not> bit x 0)" by (simp add: bit_simps)
  ultimately show ?thesis using True unfolding fix_parity_filter
    by (simp add: u del: bit_0 upt_conv_Cons split: if_splits)
qed (simp add: fix_parity_filter)

lemma schedule_key_nth:
  "i < 8 \<Longrightarrow> schedule_key k ! i = fix_parity (let key = HIKEYBITS k (i * 7) in
         if i \<noteq> 0 \<and> i < 7 then key OR LOKEYBITS k (i * 7) else key)"
  by (simp add: schedule_key_def Let_def cong: if_cong)

lemma byte_index: "r < 8 \<Longrightarrow> (8 * q + r) div 8 = q" "r < 8 \<Longrightarrow> (8 * q + r) mod 8 = (r :: nat)"
  by simp_all

lemma key_bits_same:
  assumes "s mod 8 + j < 8"
  shows "bit (HIKEYBITS k s) (7 - j) = bit (k ! ((s + j) div 8)) (7 - (s + j) mod 8)"
    "0 < s mod 8 \<Longrightarrow> \<not> bit (LOKEYBITS k s) (7 - j)"
proof -
  have "s + j = 8 * (s div 8) + (s mod 8 + j)" by simp
  then have "(s + j) div 8 = s div 8" "(s + j) mod 8 = s mod 8 + j" using assms byte_index by metis+
  then show "bit (HIKEYBITS k s) (7 - j) = bit (k ! ((s + j) div 8)) (7 - (s + j) mod 8)"
    using assms by (auto simp: HIKEYBITS_def bit_simps add.commute)
  show "\<not> bit (LOKEYBITS k s) (7 - j)" if "0 < s mod 8"
    using assms that by (auto simp: LOKEYBITS_def bit_simps dest: bit_imp_le_length)
qed

lemma key_bits_next:
  assumes "8 \<le> s mod 8 + j" "j < 7"
  shows "bit (LOKEYBITS k s) (7 - j) = bit (k ! ((s + j) div 8)) (7 - (s + j) mod 8)"
    "\<not> bit (HIKEYBITS k s) (7 - j)"
proof -
  have "s mod 8 < 8" by simp
  with assms have r: "s mod 8 + j - 8 < 8" by linarith
  have "s + j = 8 * (s div 8 + 1) + (s mod 8 + j - 8)" using assms(1) by simp
  then have "(s + j) div 8 = s div 8 + 1" "(s + j) mod 8 = s mod 8 + j - 8" using r byte_index by metis+
  moreover have "8 - s mod 8 + (7 - j) = 7 - (s mod 8 + j - 8)" using assms \<open>s mod 8 < 8\<close> by linarith
  ultimately show "bit (LOKEYBITS k s) (7 - j) = bit (k ! ((s + j) div 8)) (7 - (s + j) mod 8)"
    by (simp add: LOKEYBITS_def bit_simps)
  show "\<not> bit (HIKEYBITS k s) (7 - j)" using assms by (auto simp: HIKEYBITS_def bit_simps)
qed

text \<open>
  \<open>setup_schedule\<close> hands to the key schedule eight bytes of odd parity whose upper seven bits are, in
  order, the 56 bits of the key.
\<close>

theorem schedule_key_bits:
  assumes "i < 8"
  shows "map (\<lambda>j. bit (schedule_key k ! i) (7 - j)) [0..<7] =
      map (\<lambda>n. bit (k ! (n div 8)) (7 - n mod 8)) [7 * i..<7 * i + 7] \<and>
    odd (length (filter (bit (schedule_key k ! i)) [0..<8]))"
proof -
  have "bit (schedule_key k ! i) (7 - j) = bit (k ! ((7 * i + j) div 8)) (7 - (7 * i + j) mod 8)" if "j < 7" for j
  proof (cases "i * 7 mod 8 + j < 8")
    case True
    moreover have "0 < i * 7 mod 8" if "0 < i" using assms that by presburger
    ultimately show ?thesis using \<open>i < 8\<close> key_bits_same [OF True, of k] that
      by (cases "i = 0") (auto simp: schedule_key_nth fix_parity_bit bit_simps mult.commute Let_def)
  next
    case False
    then have "i \<noteq> 0" "i \<noteq> 7" using that by auto
    with \<open>i < 8\<close> key_bits_next [of "i * 7" j k] False that show ?thesis
      by (auto simp: schedule_key_nth fix_parity_bit bit_simps mult.commute Let_def)
  qed
  then have "map (\<lambda>j. bit (schedule_key k ! i) (7 - j)) [0..<7] =
      map (\<lambda>n. bit (k ! (n div 8)) (7 - n mod 8)) [7 * i..<7 * i + 7]"
    by (intro nth_equalityI) simp_all
  then show ?thesis using assms by (simp add: schedule_key_nth fix_parity_odd)
qed

theorem schedule_key_bits_witness:
  "map (\<lambda>j. bit (schedule_key [0xFE, 0, 0, 0, 0, 0, 0x7F] ! 7) (7 - j)) [0..<7] =
      map (\<lambda>n. bit ([0xFE, 0, 0, 0, 0, 0, 0x7F :: byte] ! (n div 8)) (7 - n mod 8)) [49..<56]"
  using schedule_key_bits [of 7 "[0xFE, 0, 0, 0, 0, 0, 0x7F]"] by simp

end
