(* ===== verification/Utf16.thy ===== *)
theory Utf16
  imports Text_Buf
begin

unbundle bit_operations_syntax

text \<open>
  \<open>buf_append_utf16le\<close> of \<open>core/ntlm.c\<close>, which decodes UTF-8 by hand and appends little-endian UTF-16, and
  the encodings of RFC 3629 and RFC 2781 it is compared with.
\<close>

section \<open>The code\<close>

text \<open>The first byte: what it contributes, how many bytes follow and the least value allowed.\<close>

definition utf8_head :: "byte \<Rightarrow> (nat \<times> nat \<times> nat) option" where
  "utf8_head c =
     (if c < 128 then Some (unat c, 0, 0)
      else if c AND 0xe0 = 0xc0 then Some (unat (c AND 0x1f), 1, 0x80)
      else if c AND 0xf0 = 0xe0 then Some (unat (c AND 0x0f), 2, 0x800)
      else if c AND 0xf8 = 0xf0 then Some (unat (c AND 0x07), 3, 0x10000)
      else None)"

text \<open>The bytes that follow; the terminating 0 is no continuation.\<close>

fun utf8_tail :: "nat \<Rightarrow> nat \<Rightarrow> bytes \<Rightarrow> (nat \<times> bytes) option" where
  "utf8_tail 0 utfchar utf8 = Some (utfchar, utf8)"
| "utf8_tail (Suc nr_extra) utfchar [] = None"
| "utf8_tail (Suc nr_extra) utfchar (c # utf8) =
     (if c AND 0xc0 \<noteq> 0x80 then None
      else utf8_tail nr_extra (push_bit 6 utfchar OR unat (c AND 0x3f)) utf8)"

definition utf8_char :: "byte \<Rightarrow> bytes \<Rightarrow> (nat \<times> bytes) option" where
  "utf8_char c utf8 =
     (case utf8_head c of
        None \<Rightarrow> None
      | Some (utfchar, nr_extra, least) \<Rightarrow>
          (case utf8_tail nr_extra utfchar utf8 of
             None \<Rightarrow> None
           | Some (utfchar, utf8) \<Rightarrow> if utfchar > 0x10ffff \<or> utfchar < least then None else Some (utfchar, utf8)))"

definition utf16_bytes :: "nat \<Rightarrow> bytes" where
  "utf16_bytes utfchar =
     (if utfchar \<ge> 0x10000
      then let utfchar = utfchar - 0x10000 in
        [of_nat (drop_bit 10 utfchar AND 0xff), 0xd8 OR of_nat (drop_bit 18 utfchar AND 3),
         of_nat (utfchar AND 0xff), 0xdc OR of_nat (drop_bit 8 utfchar AND 3)]
      else [of_nat (utfchar AND 0xff), of_nat (drop_bit 8 utfchar)])"

lemma utf8_tail_shorter: "utf8_tail n u s = Some (u', s') \<Longrightarrow> length s' \<le> length s"
  by (induction n u s rule: utf8_tail.induct) (auto split: if_splits)

lemma utf8_char_shorter: "utf8_char c s = Some (u, s') \<Longrightarrow> length s' \<le> length s"
  by (auto simp: utf8_char_def split: option.splits if_splits; blast dest: utf8_tail_shorter)

function utf16_loop :: "(nat \<Rightarrow> bool) \<Rightarrow> byte text_buf \<Rightarrow> nat \<Rightarrow> bytes \<Rightarrow> int \<times> byte text_buf" where
  "utf16_loop mem buf n [] = (int n, buf)"
| "utf16_loop mem buf n (c # utf8) =
     (if c = 0 then (int n, buf)
      else case utf8_char c utf8 of
        None \<Rightarrow> (err EINVAL, buf)
      | Some (utfchar, utf8) \<Rightarrow>
          (case buf_ensure_space mem buf (if utfchar \<ge> 0x10000 then 4 else 2) of
             (Some e, buf) \<Rightarrow> (err ENOMEM, buf)
           | (None, buf) \<Rightarrow>
               utf16_loop mem (buf\<lparr>tb_data := tb_data buf @ utf16_bytes utfchar\<rparr>)
                 (n + (if utfchar \<ge> 0x10000 then 4 else 2)) utf8))"
  by pat_completeness auto

termination
  by (relation "measure (\<lambda>(mem, buf, n, utf8). length utf8)") (auto dest!: utf8_char_shorter)

definition buf_append_utf16le :: "(nat \<Rightarrow> bool) \<Rightarrow> byte text_buf \<Rightarrow> bytes \<Rightarrow> int \<times> byte text_buf" where
  "buf_append_utf16le mem buf utf8 = utf16_loop mem buf 0 utf8"

section \<open>UTF-8 and UTF-16\<close>

definition rfc_utf8 :: "nat \<Rightarrow> bytes" where
  "rfc_utf8 u =
     (if u < 0x80 then [of_nat u]
      else if u < 0x800 then [of_nat (0xC0 + u div 64), of_nat (0x80 + u mod 64)]
      else if u < 0x10000
      then [of_nat (0xE0 + u div 4096), of_nat (0x80 + u div 64 mod 64), of_nat (0x80 + u mod 64)]
      else [of_nat (0xF0 + u div 262144), of_nat (0x80 + u div 4096 mod 64), of_nat (0x80 + u div 64 mod 64),
        of_nat (0x80 + u mod 64)])"

definition rfc_unit :: "nat \<Rightarrow> bytes" where
  "rfc_unit n = [of_nat (n mod 256), of_nat (n div 256)]"

definition rfc_utf16 :: "nat \<Rightarrow> bytes" where
  "rfc_utf16 u =
     (if u < 0x10000 then rfc_unit u
      else rfc_unit (0xD800 + (u - 0x10000) div 1024) @ rfc_unit (0xDC00 + (u - 0x10000) mod 1024))"

section \<open>Bytes as numbers\<close>

lemma low_bits:
  "unat (c AND 0x1f) = unat c mod 32" "unat (c AND 0x0f) = unat c mod 16" "unat (c AND 0x07) = unat c mod 8"
  "unat (c AND 0x3f) = unat c mod 64" for c :: byte
proof -
  have m: "unat (c AND mask n) = unat c mod 2 ^ n" for n
    unfolding take_bit_eq_mask [symmetric] unsigned_take_bit_eq by (rule take_bit_eq_mod)
  show "unat (c AND 0x1f) = unat c mod 32" "unat (c AND 0x0f) = unat c mod 16" "unat (c AND 0x07) = unat c mod 8"
    "unat (c AND 0x3f) = unat c mod 64"
    using m [of 5] m [of 4] m [of 3] m [of 6] by (simp_all add: mask_eq_exp_minus_1)
qed

lemma high_bits:
  "(c AND 0xe0 = 0xc0) = (0xC0 \<le> unat c \<and> unat c < 0xE0)" "(c AND 0xf0 = 0xe0) = (0xE0 \<le> unat c \<and> unat c < 0xF0)"
  "(c AND 0xf8 = 0xf0) = (0xF0 \<le> unat c \<and> unat c < 0xF8)" "(c AND 0xc0 = 0x80) = (0x80 \<le> unat c \<and> unat c < 0xC0)" for c :: byte
proof -
  have m: "unat (c AND NOT (mask n)) = unat c div 2 ^ n * 2 ^ n" for n
  proof -
    have "c AND NOT (mask n) = push_bit n (drop_bit n c)"
      by (rule bit_word_eqI) (auto simp: bit_simps)
    moreover have "unat (push_bit n (drop_bit n c)) = push_bit n (drop_bit n (unat c))"
      by (rule bit_eqI) (auto simp: bit_simps dest: bit_imp_le_length)
    ultimately show ?thesis by (simp add: push_bit_eq_mult drop_bit_eq_div)
  qed
  have e: "c AND NOT (mask n) = k \<longleftrightarrow> unat c div 2 ^ n * 2 ^ n = unat k" for n k
    unfolding m [symmetric] by (rule word_unat_eq_iff)
  have k: "NOT (mask 5) = (0xe0 :: byte)" "NOT (mask 4) = (0xf0 :: byte)" "NOT (mask 3) = (0xf8 :: byte)" "NOT (mask 6) = (0xc0 :: byte)"
    by code_simp+
  note d = e [of 5 "0xc0", unfolded k] e [of 4 "0xe0", unfolded k] e [of 3 "0xf0", unfolded k] e [of 6 "0x80", unfolded k]
  have r: "n div d * d = k * d \<longleftrightarrow> k * d \<le> n \<and> n < Suc k * d" if "0 < d" for n d k :: nat
    using that less_eq_div_iff_mult_less_eq [of d k n] div_less_iff_less_mult [of d n "Suc k"] by auto
  show "(c AND 0xe0 = 0xc0) = (0xC0 \<le> unat c \<and> unat c < 0xE0)" "(c AND 0xf0 = 0xe0) = (0xE0 \<le> unat c \<and> unat c < 0xF0)"
    "(c AND 0xf8 = 0xf0) = (0xF0 \<le> unat c \<and> unat c < 0xF8)" "(c AND 0xc0 = 0x80) = (0x80 \<le> unat c \<and> unat c < 0xC0)"
    using d r [of 32 "unat c" 6] r [of 16 "unat c" 14] r [of 8 "unat c" 30] r [of 64 "unat c" 2] by simp_all
qed

lemma push6: "x < 64 \<Longrightarrow> push_bit 6 u OR x = u * 64 + (x :: nat)"
proof -
  assume "x < 64"
  then have "x = take_bit 6 x" by (simp add: take_bit_nat_eq_self)
  then have "\<not> bit x n" if "6 \<le> n" for n 
    using that by (metis bit_take_bit_iff not_le)
  then have "push_bit 6 u + x = push_bit 6 u OR x"
    by (intro disjunctive_add_eq_or bit_eqI) (auto simp: bit_simps)
  then show ?thesis by (simp add: push_bit_eq_mult)
qed

section \<open>One character\<close>

lemma utf8_head_num:
  "utf8_head c =
     (if unat c < 128 then Some (unat c, 0, 0)
      else if 192 \<le> unat c \<and> unat c < 224 then Some (unat c - 192, 1, 0x80)
      else if 224 \<le> unat c \<and> unat c < 240 then Some (unat c - 224, 2, 0x800)
      else if 240 \<le> unat c \<and> unat c < 248 then Some (unat c - 240, 3, 0x10000)
      else None)"
proof -
  have m: "(k + 192) mod 32 = k mod 32" "(k + 224) mod 16 = k mod 16" "(k + 240) mod 8 = k mod 8" for k :: nat
    using mod_mult_self1 [of k 6 32] mod_mult_self1 [of k 14 16] mod_mult_self1 [of k 30 8] by simp_all
  have "unat c mod 32 = unat c - 192" if "192 \<le> unat c" "unat c < 224"
    using m(1) [of "unat c - 192"] that by simp
  moreover have "unat c mod 16 = unat c - 224" if "224 \<le> unat c" "unat c < 240"
    using m(2) [of "unat c - 224"] that by simp
  moreover have "unat c mod 8 = unat c - 240" if "240 \<le> unat c" "unat c < 248"
    using m(3) [of "unat c - 240"] that by simp
  moreover have "c < 128 \<longleftrightarrow> unat c < 128" by (simp add: word_less_nat_alt)
  ultimately show ?thesis by (auto simp: utf8_head_def high_bits low_bits)
qed

lemma utf8_tail_num:
  "0 < n \<Longrightarrow> utf8_tail n u (d # s) =
     (if 128 \<le> unat d \<and> unat d < 192 then utf8_tail (n - 1) (u * 64 + (unat d - 128)) s else None)"
  "0 < n \<Longrightarrow> utf8_tail n u [] = None"
proof -
  have m: "(k + 128) mod 64 = k mod 64" for k :: nat
    using mod_mult_self1 [of k 2 64] by simp
  have "unat d mod 64 = unat d - 128" "push_bit 6 u OR (unat d - 128) = u * 64 + (unat d - 128)"
    if "128 \<le> unat d" "unat d < 192"
    using m [of "unat d - 128"] push6 [of "unat d - 128" u] that by simp_all
  then show "0 < n \<Longrightarrow> utf8_tail n u (d # s) =
     (if 128 \<le> unat d \<and> unat d < 192 then utf8_tail (n - 1) (u * 64 + (unat d - 128)) s else None)"
    by (cases n) (auto simp: high_bits low_bits)
qed (cases n; simp)

declare utf8_tail.simps(3) [simp del]

lemma digit64: "z < 64 \<Longrightarrow> (a * 64 + z) div 64 = a" "z < 64 \<Longrightarrow> (a * 64 + z) mod 64 = (z :: nat)"
  by simp_all

lemma rfc_utf8_num:
  "u < 0x80 \<Longrightarrow> rfc_utf8 u = [of_nat u]"
  "0x80 \<le> x * 64 + y \<Longrightarrow> x < 32 \<Longrightarrow> y < 64 \<Longrightarrow> rfc_utf8 (x * 64 + y) = [of_nat (192 + x), of_nat (128 + y)]"
  "0x800 \<le> (x * 64 + y) * 64 + z \<Longrightarrow> x < 16 \<Longrightarrow> y < 64 \<Longrightarrow> z < 64 \<Longrightarrow>
     rfc_utf8 ((x * 64 + y) * 64 + z) = [of_nat (224 + x), of_nat (128 + y), of_nat (128 + z)]"
  "0x10000 \<le> ((x * 64 + y) * 64 + z) * 64 + w \<Longrightarrow> y < 64 \<Longrightarrow> z < 64 \<Longrightarrow> w < 64 \<Longrightarrow>
     rfc_utf8 (((x * 64 + y) * 64 + z) * 64 + w) = [of_nat (240 + x), of_nat (128 + y), of_nat (128 + z), of_nat (128 + w)]"
proof -
  have d: "n div 4096 = n div 64 div 64" "n div 262144 = n div 64 div 64 div 64" for n :: nat
    by (simp_all flip: div_mult2_eq)
  show "u < 0x80 \<Longrightarrow> rfc_utf8 u = [of_nat u]" by (simp add: rfc_utf8_def)
  show "rfc_utf8 (x * 64 + y) = [of_nat (192 + x), of_nat (128 + y)]" if "0x80 \<le> x * 64 + y" "x < 32" "y < 64"
    using that by (simp add: rfc_utf8_def digit64 del: of_nat_add)
  show "rfc_utf8 ((x * 64 + y) * 64 + z) = [of_nat (224 + x), of_nat (128 + y), of_nat (128 + z)]"
    if "0x800 \<le> (x * 64 + y) * 64 + z" "x < 16" "y < 64" "z < 64"
  proof -
    have "(x * 64 + y) * 64 + z < 0x10000" using that by (simp add: add_mult_distrib)
    with that show ?thesis unfolding rfc_utf8_def d by (simp only: digit64 if_False not_less) simp
  qed
  show "rfc_utf8 (((x * 64 + y) * 64 + z) * 64 + w) = [of_nat (240 + x), of_nat (128 + y), of_nat (128 + z), of_nat (128 + w)]"
    if "0x10000 \<le> ((x * 64 + y) * 64 + z) * 64 + w" "y < 64" "z < 64" "w < 64"
    using that unfolding rfc_utf8_def d by (simp only: digit64 if_False not_less) simp
qed


lemma utf8_char_sound:
  assumes "utf8_char c s = Some (u, s')"
  shows "c # s = rfc_utf8 u @ s' \<and> u \<le> 0x10ffff"
proof -
  obtain v n m where h: "utf8_head c = Some (v, n, m)" and t: "utf8_tail n v s = Some (u, s')"
    and u: "u \<le> 0x10ffff" "m \<le> u"
    using assms by (auto simp: utf8_char_def split: option.splits if_splits)
  consider "unat c < 128" "v = unat c" "n = 0"
    | "192 \<le> unat c" "unat c < 224" "v = unat c - 192" "n = 1" "m = 0x80"
    | "224 \<le> unat c" "unat c < 240" "v = unat c - 224" "n = 2" "m = 0x800"
    | "240 \<le> unat c" "unat c < 248" "v = unat c - 240" "n = 3" "m = 0x10000"
    using h by (auto simp: utf8_head_num split: if_splits)
  then show ?thesis
  proof cases
    case 1
    moreover have "c = of_nat (unat c)" by simp
    ultimately show ?thesis using t u by (auto simp: rfc_utf8_num)
  next
    case 2
    then obtain d where s: "s = d # s'" "128 \<le> unat d" "unat d < 192" "u = v * 64 + (unat d - 128)"
      using t by (cases s) (auto simp: utf8_tail_num split: if_splits)
    have "rfc_utf8 u = [of_nat (192 + v), of_nat (128 + (unat d - 128))]"
      unfolding s(4) by (rule rfc_utf8_num(2)) (use 2 s u in linarith)+
    then show ?thesis using 2 s u by simp
  next
    case 3
    then obtain d e where s: "s = d # e # s'" "128 \<le> unat d" "unat d < 192" "128 \<le> unat e" "unat e < 192"
      "u = (v * 64 + (unat d - 128)) * 64 + (unat e - 128)"
      using t by (cases s; cases "tl s") (auto simp: utf8_tail_num split: if_splits)
    have "rfc_utf8 u = [of_nat (224 + v), of_nat (128 + (unat d - 128)), of_nat (128 + (unat e - 128))]"
      unfolding s(6) by (rule rfc_utf8_num(3)) (use 3 s u in linarith)+
    then show ?thesis using 3 s u by simp
  next
    case 4
    then obtain d e f where s: "s = d # e # f # s'" "128 \<le> unat d" "unat d < 192" "128 \<le> unat e" "unat e < 192"
      "128 \<le> unat f" "unat f < 192" "u = ((v * 64 + (unat d - 128)) * 64 + (unat e - 128)) * 64 + (unat f - 128)"
      using t by (cases s; cases "tl s"; cases "tl (tl s)") (auto simp: utf8_tail_num split: if_splits)
    have "rfc_utf8 u = [of_nat (240 + v), of_nat (128 + (unat d - 128)), of_nat (128 + (unat e - 128)), of_nat (128 + (unat f - 128))]"
      unfolding s(8) by (rule rfc_utf8_num(4)) (use 4 s u in linarith)+
    then show ?thesis using 4 s u by simp
  qed
qed

lemma utf8_char_complete:
  assumes "u \<le> 0x10ffff"
  shows "\<exists>c s. rfc_utf8 u = c # s \<and> (c = 0 \<longleftrightarrow> u = 0) \<and> utf8_char c (s @ s') = Some (u, s')"
proof -
  have b: "k < 256 \<Longrightarrow> unat (of_nat k :: byte) = k" for k :: nat by (simp add: unat_of_nat)
  have z: "c = 0 \<longleftrightarrow> unat c = 0" for c :: byte by (simp add: unat_eq_0)
  consider "u < 0x80" | "0x80 \<le> u" "u < 0x800" | "0x800 \<le> u" "u < 0x10000" | "0x10000 \<le> u" by linarith
  then show ?thesis
  proof cases
    case 1
    then show ?thesis using b [of u] by (simp add: rfc_utf8_num utf8_char_def utf8_head_num z)
  next
    case 2
    define x y where xy: "x = u div 64" "y = u mod 64"
    then have u: "u = x * 64 + y" "y < 64" "x < 32" using 2 by simp_all
    show ?thesis unfolding u(1) using u 2 b [of "192 + x"] b [of "128 + y"]
      by (simp add: rfc_utf8_num utf8_char_def utf8_head_num utf8_tail_num z del: of_nat_add)
  next
    case 3
    define x y z' where xy: "x = u div 64 div 64" "y = u div 64 mod 64" "z' = u mod 64"
    then have u: "u = (x * 64 + y) * 64 + z'" "y < 64" "z' < 64" by simp_all
    moreover from this 3 have x: "x < 16" by (simp add: add_mult_distrib)
    moreover have "rfc_utf8 u = [of_nat (224 + x), of_nat (128 + y), of_nat (128 + z')]"
      unfolding u(1) by (rule rfc_utf8_num(3)) (use u 3 x in simp_all)
    moreover have "0 < x \<or> 0 < y \<or> 0 < z'" using u 3 by auto
    ultimately show ?thesis using 3 b [of "224 + x"] b [of "128 + y"] b [of "128 + z'"]
      by (simp add: utf8_char_def utf8_head_num utf8_tail_num z del: of_nat_add distrib_right_numeral)
  next
    case 4
    define x y z' w where xy: "x = u div 64 div 64 div 64" "y = u div 64 div 64 mod 64" "z' = u div 64 mod 64" "w = u mod 64"
    then have u: "u = ((x * 64 + y) * 64 + z') * 64 + w" "y < 64" "z' < 64" "w < 64" by simp_all
    moreover from this assms have "x < 8" by (simp add: add_mult_distrib)
    moreover have "rfc_utf8 u = [of_nat (240 + x), of_nat (128 + y), of_nat (128 + z'), of_nat (128 + w)]"
      unfolding u(1) by (rule rfc_utf8_num(4)) (use u 4 in simp_all)
    moreover have "0 < x \<or> 0 < y \<or> 0 < z' \<or> 0 < w" using u 4 by auto
    ultimately show ?thesis using 4 assms b [of "240 + x"] b [of "128 + y"] b [of "128 + z'"] b [of "128 + w"]
      by (simp add: utf8_char_def utf8_head_num utf8_tail_num z del: of_nat_add distrib_right_numeral)
  qed
qed

section \<open>Texts\<close>

lemma and_low: "n AND 255 = n mod 256" "n AND 3 = n mod 4" for n :: nat
proof -
  have "n AND mask k = n mod 2 ^ k" for k by (simp only: take_bit_eq_mask [symmetric] take_bit_eq_mod)
  from this [of 8] this [of 2] show "n AND 255 = n mod 256" "n AND 3 = n mod 4" by (simp_all add: mask_eq_exp_minus_1)
qed

lemma utf16_bytes_rfc:
  assumes "u \<le> 0x10ffff"
  shows "utf16_bytes u = rfc_utf16 u"
proof (cases "u < 0x10000")
  case True
  then show ?thesis
    by (simp add: and_low utf16_bytes_def rfc_utf16_def rfc_unit_def drop_bit_eq_div)
next
  case False
  define v where "v = u - 0x10000"
  have v: "v < 1048576" using assms False by (simp add: v_def)
  have o: "(0xd8 :: byte) OR of_nat k = of_nat (0xd8 + k)" "(0xdc :: byte) OR of_nat k = of_nat (0xdc + k)" if "k < 4" for k
  proof -
    from that consider "k = 0" | "k = 1" | "k = 2" | "k = 3" by linarith
    then show "(0xd8 :: byte) OR of_nat k = of_nat (0xd8 + k)" "(0xdc :: byte) OR of_nat k = of_nat (0xdc + k)"
      by (cases; simp)+
  qed
  have "v mod 1024 div 256 = v div 256 mod 4"
    using drop_bit_take_bit [of 8 10 v] by (simp add: drop_bit_eq_div take_bit_eq_mod)
  moreover have "v div 1024 div 256 = v div 262144" by (simp flip: div_mult2_eq)
  moreover have "v mod 1024 mod 256 = v mod 256" by (simp add: mod_mod_cancel)
  moreover have "(55296 + x) div 256 = 216 + x div 256" "(56320 + x) div 256 = 220 + x div 256"
    "(55296 + x) mod 256 = x mod 256" "(56320 + x) mod 256 = x mod 256" for x :: nat
    using div_mult_self3 [of 256 216 x] div_mult_self3 [of 256 220 x] mod_mult_self3 [of 216 256 x] mod_mult_self3 [of 220 256 x]
    by simp_all
  ultimately have "(55296 + v div 1024) div 256 = 216 + v div 262144" "(55296 + v div 1024) mod 256 = v div 1024 mod 256"
    "(56320 + v mod 1024) mod 256 = v mod 256" "(56320 + v mod 1024) div 256 = 220 + v div 256 mod 4"
    by (simp_all only:)
  note ar = this
  have q: "v div 262144 mod 4 = v div 262144" "v div 262144 < 4" "v div 256 mod 4 < 4" using v by simp_all
  have "utf16_bytes u = [of_nat (v div 1024 mod 256), 0xd8 OR of_nat (v div 262144 mod 4), of_nat (v mod 256), 0xdc OR of_nat (v div 256 mod 4)]"
    using False by (simp add: utf16_bytes_def v_def [symmetric] and_low drop_bit_eq_div Let_def)
  also have "\<dots> = [of_nat (v div 1024 mod 256), of_nat (216 + v div 262144), of_nat (v mod 256), of_nat (220 + v div 256 mod 4)]"
    by (simp only: q(1) o(1) [OF q(2)] o(2) [OF q(3)])
  also have "\<dots> = rfc_utf16 u"
    using False by (simp only: rfc_utf16_def rfc_unit_def v_def [symmetric] ar if_False append.simps)
  finally show ?thesis .
qed

lemma ensure_room:
  assumes "tb_error b = None" "tb_pos b + n \<le> MAX_BUF_LEN"
  shows "buf_ensure_space (\<lambda>_. True) b n = (None, b\<lparr>tb_len := max (tb_len b) (round_chunk (tb_pos b + n))\<rparr>)"
proof -
  have "round_chunk (tb_pos b + n) \<le> MAX_BUF_LEN" by (rule round_chunk_least) (use assms in simp_all)
  then show ?thesis using assms(1) by (simp add: buf_ensure_space_def Let_def max_def)
qed

definition utf8_text :: "bytes \<Rightarrow> nat list \<Rightarrow> bool" where
  "utf8_text s cs \<longleftrightarrow> s = concat (map rfc_utf8 cs) \<and> (\<forall>c\<in>set cs. c \<le> 0x10ffff)"

lemma utf8_text_Cons:
  assumes "utf8_char c s = Some (u, s')"
  shows "utf8_text (c # s) cs \<longleftrightarrow> (\<exists>ds. cs = u # ds \<and> utf8_text s' ds)"
proof
  assume t: "utf8_text (c # s) cs"
  then obtain v ds where cs: "cs = v # ds" by (cases cs) (auto simp: utf8_text_def)
  with t have v: "v \<le> 0x10ffff" "c # s = rfc_utf8 v @ concat (map rfc_utf8 ds)" by (auto simp: utf8_text_def)
  then have "utf8_char c s = Some (v, concat (map rfc_utf8 ds))"
    using utf8_char_complete [OF v(1), of "concat (map rfc_utf8 ds)"] by auto
  with assms t cs show "\<exists>ds. cs = u # ds \<and> utf8_text s' ds" by (auto simp: utf8_text_def)
qed (use utf8_char_sound [OF assms] in \<open>auto simp: utf8_text_def\<close>)

lemma utf8_text_None:
  assumes "utf8_char c s = None"
  shows "\<not> utf8_text (c # s) cs"
proof
  assume t: "utf8_text (c # s) cs"
  then obtain v ds where cs: "cs = v # ds" by (cases cs) (auto simp: utf8_text_def)
  with t have v: "v \<le> 0x10ffff" "c # s = rfc_utf8 v @ concat (map rfc_utf8 ds)" by (auto simp: utf8_text_def)
  with assms show False using utf8_char_complete [OF v(1), of "concat (map rfc_utf8 ds)"] by auto
qed

lemma rfc_lengths: "length (rfc_utf16 u) = (if u \<ge> 0x10000 then 4 else 2)" "length (rfc_utf16 u) \<le> 2 * length (rfc_utf8 u)"
  by (simp_all add: rfc_utf16_def rfc_unit_def rfc_utf8_def)

lemma utf16_loop_text:
  assumes "0 \<notin> set s" "tb_error buf = None" "tb_pos buf + 2 * length s \<le> MAX_BUF_LEN"
  shows "case utf16_loop (\<lambda>_. True) buf n s of (r, b) \<Rightarrow>
    (\<exists>cs. utf8_text s cs \<and> r = int (n + length (concat (map rfc_utf16 cs))) \<and>
       tb_data b = tb_data buf @ concat (map rfc_utf16 cs) \<and> tb_error b = None) \<or>
    (\<forall>cs. \<not> utf8_text s cs) \<and> r = err EINVAL"
  using assms
proof (induction "length s" arbitrary: s buf n rule: less_induct)
  case less
  show ?case
  proof (cases s)
    case Nil
    then have "utf8_text s []" by (simp add: utf8_text_def)
    with Nil less.prems show ?thesis by force
  next
    case (Cons c s1)
    show ?thesis
    proof (cases "utf8_char c s1")
      case None
      then show ?thesis using Cons less.prems utf8_text_None by auto
    next
      case (Some p)
      obtain u s2 where p: "p = (u, s2)" by fastforce
      note sound = utf8_char_sound [OF Some [unfolded p]]
      have len: "length s1 + 1 = length (rfc_utf8 u) + length s2"
        using arg_cong [OF conjunct1 [OF sound], of length] by simp
      let ?k = "length (rfc_utf16 u)" 
      let ?b = "buf\<lparr>tb_len := max (tb_len buf) (round_chunk (tb_pos buf + ?k)), tb_data := tb_data buf @ rfc_utf16 u\<rparr>"
      have k: "tb_pos buf + ?k + 2 * length s2 \<le> MAX_BUF_LEN"
        using len less.prems(3) Cons rfc_lengths(2) [of u] by simp
      have "buf_ensure_space (\<lambda>_. True) buf ?k = (None, buf\<lparr>tb_len := max (tb_len buf) (round_chunk (tb_pos buf + ?k))\<rparr>)"
        by (rule ensure_room) (use less.prems k in simp_all)
      moreover have "c \<noteq> 0" using less.prems Cons by auto
      ultimately have st: "utf16_loop (\<lambda>_. True) buf n s = utf16_loop (\<lambda>_. True) ?b (n + ?k) s2"
        using Some p conjunct2 [OF sound] unfolding Cons by (simp add: utf16_bytes_rfc rfc_lengths(1))
      have "set s = set (rfc_utf8 u) \<union> set s2" using arg_cong [OF conjunct1 [OF sound], of set] Cons by simp
      with less.prems(1) have "0 \<notin> set s2" by blast
      moreover have "length s2 < length s" using utf8_char_shorter [OF Some [unfolded p]] Cons by simp
      ultimately have ih: "case utf16_loop (\<lambda>_. True) ?b (n + ?k) s2 of (r, b) \<Rightarrow>
          (\<exists>cs. utf8_text s2 cs \<and> r = int (n + ?k + length (concat (map rfc_utf16 cs))) \<and>
             tb_data b = tb_data ?b @ concat (map rfc_utf16 cs) \<and> tb_error b = None) \<or>
          (\<forall>cs. \<not> utf8_text s2 cs) \<and> r = err EINVAL"
        using less.prems k by (intro less.hyps) simp_all
      obtain r b where rb: "utf16_loop (\<lambda>_. True) ?b (n + ?k) s2 = (r, b)" by fastforce
      from ih rb consider cs where "utf8_text s2 cs" "r = int (n + ?k + length (concat (map rfc_utf16 cs)))"
          "tb_data b = tb_data ?b @ concat (map rfc_utf16 cs)" "tb_error b = None"
        | "\<forall>cs. \<not> utf8_text s2 cs" "r = err EINVAL" by auto
      then show ?thesis
      proof cases
        case (1 cs)
        then have "utf8_text s (u # cs)" using Cons utf8_text_Cons [OF Some [unfolded p]] by simp
        with 1 show ?thesis unfolding st rb prod.case by (intro disjI1 exI [of _ "u # cs"]) simp
      next
        case 2
        then show ?thesis unfolding st rb prod.case using Cons utf8_text_Cons [OF Some [unfolded p]] by simp
      qed
    qed
  qed
qed

text \<open>
  C38 (utf16le_exact): When there is memory, and twice the length of the string still fits into the buffer, \<open>buf_append_utf16le\<close>
  accepts exactly the strings that are made of the shortest encodings of code points up to 10FFFF, as RFC 3629 defines
  them but for the surrogates D800 to DFFF, which the RFC excludes and the code accepts; it appends the UTF-16 encoding of the code points (a
  surrogate as itself) and returns its length. Every other string without a null character is refused with \<open>EINVAL\<close>.
\<close>

theorem utf16le_exact:
  assumes "0 \<notin> set s" "tb_error buf = None" "tb_pos buf + 2 * length s \<le> MAX_BUF_LEN"
  shows "case buf_append_utf16le (\<lambda>_. True) buf s of (r, b) \<Rightarrow>
    (\<exists>cs. utf8_text s cs \<and> r = int (length (concat (map rfc_utf16 cs))) \<and>
       tb_data b = tb_data buf @ concat (map rfc_utf16 cs) \<and> tb_error b = None) \<or>
    (\<forall>cs. \<not> utf8_text s cs) \<and> r = err EINVAL"
  using utf16_loop_text [OF assms, of 0] by (simp add: buf_append_utf16le_def)

theorem utf16le_exact_witness:
  "case buf_append_utf16le (\<lambda>_. True) empty_buf [0xF0, 0x9F, 0x98, 0x80] of (r, b) \<Rightarrow>
    (\<exists>cs. utf8_text [0xF0, 0x9F, 0x98, 0x80] cs \<and> r = int (length (concat (map rfc_utf16 cs))) \<and>
       tb_data b = [] @ concat (map rfc_utf16 cs) \<and> tb_error b = None) \<or>
    (\<forall>cs. \<not> utf8_text [0xF0, 0x9F, 0x98, 0x80] cs) \<and> r = err EINVAL"
  using utf16le_exact [of "[0xF0, 0x9F, 0x98, 0x80]" empty_buf] by (simp add: empty_buf_def)

end
