(* ===== verification/Xml_Tree.thy ===== *)
theory Xml_Tree
  imports Prelude
begin

text \<open>
  The XML trees of \<open>libxml2-2.7.8\<close> as the login uses them: nodes, attributes and content (\<open>tree.c\<close>), and
  the text of a document (\<open>xmlsave.c\<close>, \<open>xmlIO.c\<close>). Names are local names: documents with namespaces, attribute
  defaults from a DTD and entities declared by the document are outside the model. The parser is an argument where it is used.
\<close>

section \<open>Trees\<close>

datatype xml =
    Element (xml_name: string) (xml_attrs: "(string \<times> string) list") (xml_children: "xml list")
  | Text string
  | Cdata string
  | Comment string
  | Instruction string "string option"
  | Entity_Ref string

definition is_element :: "xml \<Rightarrow> bool" where
  "is_element n = (case n of Element _ _ _ \<Rightarrow> True | _ \<Rightarrow> False)"

text \<open>\<open>xmlGetProp\<close>: the first attribute of the name; only elements have any.\<close>

definition xmlGetProp :: "xml \<Rightarrow> string \<Rightarrow> string option" where
  "xmlGetProp n name = (case n of Element _ attrs _ \<Rightarrow> map_of attrs name | _ \<Rightarrow> None)"

text \<open>
  The text that \<open>xmlNodeBufGetContent\<close> collects below an element: comments and processing instructions have none there, and an
  undeclared entity has none.
\<close>

fun node_content :: "xml \<Rightarrow> string" where
  "node_content (Element _ _ kids) = concat (map node_content kids)"
| "node_content (Text s) = s"
| "node_content (Cdata s) = s"
| "node_content (Comment _) = []"
| "node_content (Instruction _ _) = []"
| "node_content (Entity_Ref _) = []"

text \<open>The last child of an element, and one with text in it: without a text it has no children at all.\<close>

definition add_child :: "xml \<Rightarrow> xml \<Rightarrow> xml" where
  "add_child n kid = (case n of Element name attrs kids \<Rightarrow> Element name attrs (kids @ [kid]) | _ \<Rightarrow> n)"

definition xmlNewTextChild :: "xml \<Rightarrow> string \<Rightarrow> string option \<Rightarrow> xml" where
  "xmlNewTextChild n name content =
     add_child n (Element name [] (case content of None \<Rightarrow> [] | Some s \<Rightarrow> [Text s]))"

section \<open>The text of a document\<close>

abbreviation (input) XML_CR :: char where "XML_CR \<equiv> CHR 0x0D"
abbreviation (input) QUOTE :: char where "QUOTE \<equiv> CHR 0x22"
abbreviation (input) AMP :: string where "AMP \<equiv> [CHR 0x26]"

definition escape_char :: "char \<Rightarrow> string" where
  "escape_char c =
     (if c = CHR ''<'' then AMP @ ''lt;''
      else if c = CHR ''>'' then AMP @ ''gt;''
      else if c = CHR 0x26 then AMP @ ''amp;''
      else if c = XML_CR then AMP @ ''#13;''
      else [c])"

definition text_escape :: "string \<Rightarrow> string" where
  "text_escape s = concat (map escape_char s)"

text \<open>The document's encoding is set to UTF-8 while it is written, so characters from 128 on are written as they are.\<close>

definition escape_attr_char :: "char \<Rightarrow> string" where
  "escape_attr_char c =
     (if c = CHR 0x0A then AMP @ ''#10;''
      else if c = XML_CR then AMP @ ''#13;''
      else if c = CHR 0x09 then AMP @ ''#9;''
      else if c = QUOTE then AMP @ ''quot;''
      else if c = CHR ''<'' then AMP @ ''lt;''
      else if c = CHR ''>'' then AMP @ ''gt;''
      else if c = CHR 0x26 then AMP @ ''amp;''
      else [c])"

definition attr_escape :: "string \<Rightarrow> string" where
  "attr_escape s = concat (map escape_attr_char s)"

definition attr_text :: "string \<times> string \<Rightarrow> string" where
  "attr_text a = '' '' @ fst a @ ''='' @ [QUOTE] @ attr_escape (snd a) @ [QUOTE]"

text \<open>A CDATA section is ended and opened again inside every \<open>]]>\<close>.\<close>

fun cdata_parts :: "string \<Rightarrow> string \<Rightarrow> string list" where
  "cdata_parts part [] = (if part = [] then [] else [part])"
| "cdata_parts part (c # s) =
     (if c = CHR '']'' \<and> take 2 s = '']>'' then (part @ '']]'') # cdata_parts ''>'' (drop 2 s)
      else cdata_parts (part @ [c]) s)"

definition cdata_text :: "string \<Rightarrow> string" where
  "cdata_text s = concat (map (\<lambda>p. ''<![CDATA['' @ p @ '']]>'') (if s = [] then [[]] else cdata_parts [] s))"

fun node_text :: "xml \<Rightarrow> string" where
  "node_text (Element name attrs kids) =
     (let start = ''<'' @ name @ concat (map attr_text attrs) in
      if kids = [] then start @ ''/>'' else start @ ''>'' @ concat (map node_text kids) @ ''</'' @ name @ ''>'')"
| "node_text (Text s) = text_escape s"
| "node_text (Cdata s) = cdata_text s"
| "node_text (Comment s) = ''<!--'' @ s @ ''-->''"
| "node_text (Instruction target content) =
     ''<?'' @ target @ (case content of None \<Rightarrow> [] | Some s \<Rightarrow> '' '' @ s) @ ''?>''"
| "node_text (Entity_Ref name) = AMP @ name @ '';''"

text \<open>\<open>xmlDocDumpMemoryEnc\<close> of a document with that root, in UTF-8.\<close>

definition xmlDocDumpMemoryEnc :: "xml \<Rightarrow> string" where
  "xmlDocDumpMemoryEnc root =
     ''<?xml version='' @ [QUOTE] @ ''1.0'' @ [QUOTE] @ '' encoding='' @ [QUOTE] @ ''UTF-8'' @ [QUOTE] @ ''?>'' @ [CHR 0x0A] @
     node_text root @ [CHR 0x0A]"

section \<open>Reading character data\<close>

text \<open>
  What a reader of XML makes of character data (XML 1.0, sections 2.11, 4.1 and 4.6): the entities that every reader knows, and the
  one character reference that is written.
\<close>

definition entity_value :: "string \<Rightarrow> string option" where
  "entity_value name = map_of [(''lt'', ''<''), (''gt'', ''>''), (''amp'', AMP), (''#13'', [XML_CR])] name"

function char_data :: "string \<Rightarrow> string option" where
  "char_data [] = Some []"
| "char_data (c # s) =
     (if c = CHR ''<'' then None
      else if c = CHR 0x26 then
        (case (entity_value (takeWhile (\<lambda>d. d \<noteq> CHR '';'') s), char_data (tl (dropWhile (\<lambda>d. d \<noteq> CHR '';'') s))) of
           (Some x, Some y) \<Rightarrow> Some (x @ y)
         | _ \<Rightarrow> None)
      else if c = XML_CR then map_option (\<lambda>y. CHR 0x0A # y) (char_data s)
      else map_option (\<lambda>y. c # y) (char_data s))"
  by pat_completeness auto
termination
proof (relation "measure length", goal_cases)
  case (2 c s)
  have "length (tl (dropWhile (\<lambda>d. d \<noteq> CHR '';'') s)) \<le> length s"
    using length_dropWhile_le [of "\<lambda>d. d \<noteq> CHR '';''" s] by (simp add: le_diff_conv)
  then show ?case by (simp add: le_imp_less_Suc)
qed simp_all

lemma char_data_escape: "char_data (escape_char c @ s) = map_option (\<lambda>y. c # y) (char_data s)"
  by (cases "char_data s") (auto simp: escape_char_def entity_value_def)

text \<open>A written text is read as it was, whatever its characters.\<close>

lemma char_data_text_escape: "char_data (text_escape s) = Some s"
  by (induction s) (simp_all add: text_escape_def char_data_escape)

lemma text_escape_no_markup: "CHR ''<'' \<notin> set (text_escape s)"
  by (auto simp: text_escape_def escape_char_def split: if_splits)

lemma attr_escape_no_quote: "QUOTE \<notin> set (attr_escape s)"
  by (auto simp: attr_escape_def escape_attr_char_def split: if_splits)

end
