(* ===== verification/Http_State.thy ===== *)
theory Http_State
  imports Base64 Xml_Tree
begin

text \<open>
  The fields of \<open>struct openconnect_info\<close> that the HTTP side of the client uses (\<open>core/http.c\<close>,
  \<open>core/digest.c\<close>, \<open>core/ntlm.c\<close>), and what the world answers to it. The vpninfo record of the tunnel
  is another view of the same structure. \<open>None\<close> as the result of an operation stands for a call that does not
  return or has no defined behaviour.
\<close>

section \<open>Authentication to the proxy\<close>

datatype auth_type = AUTH_TYPE_GSSAPI | AUTH_TYPE_NTLM | AUTH_TYPE_DIGEST | AUTH_TYPE_BASIC

abbreviation (input) AUTH_DISABLED :: int where "AUTH_DISABLED \<equiv> - 2"
abbreviation (input) AUTH_FAILED :: int where "AUTH_FAILED \<equiv> - 1"
abbreviation (input) AUTH_UNSEEN :: int where "AUTH_UNSEEN \<equiv> 0"
abbreviation (input) AUTH_AVAILABLE :: int where "AUTH_AVAILABLE \<equiv> 1"
abbreviation (input) AUTH_IN_PROGRESS :: int where "AUTH_IN_PROGRESS \<equiv> 2"

record proxy_auth_state =
  auth_state :: int
  challenge :: "string option"

datatype redir_type = REDIR_TYPE_NONE | REDIR_TYPE_NEWHOST | REDIR_TYPE_LOCAL

section \<open>The world\<close>

text \<open>
  What starting the \<open>ntlm_auth\<close> helper comes to: an error of \<open>access\<close>, \<open>socketpair\<close> or \<open>fork\<close>, a
  helper whose input cannot be written, or what is read from it.
\<close>

datatype spawn_answer = Spawn_Error errno | Spawn_Deaf | Spawn_Reply string

text \<open>
  \<open>w_mem\<close> is whether \<open>realloc\<close> can provide so many bytes. The lists are consumed from the front:
  the answers of \<open>malloc\<close>, \<open>calloc\<close> and \<open>strdup\<close> (which succeed when the list is used up), of
  \<open>openconnect_random\<close>, and of the helper. \<open>w_md5\<close> is \<open>openconnect_md5\<close>,
  and \<open>w_paused\<close> the \<open>got_pause_cmd\<close> of the application.
\<close>

record world =
  w_mem :: "nat \<Rightarrow> bool"
  w_alloc :: "bool list"
  w_rand :: "bytes option list"
  w_md5 :: "bytes \<Rightarrow> bytes option"
  w_spawn :: spawn_answer
  w_user :: "string option"
  w_helper :: "string option"
  w_paused :: bool

text \<open>
  What the login needs beside the connection: the session cookie, the host scan and the profile, \<open>opaque_srvdata\<close> of the
  server, and whether there is a client certificate (\<open>cert\<close>).
\<close>

datatype token_mode = OC_TOKEN_MODE_NONE | OC_TOKEN_MODE_STOKEN | OC_TOKEN_MODE_TOTP | OC_TOKEN_MODE_HOTP

record login_state =
  cookie :: "string option"
  authgroup :: "string option"
  nopasswd :: bool
  mode :: token_mode
  csd_xmltag :: string
  csd_nostub :: bool
  csd_token :: "string option"
  csd_ticket :: "string option"
  csd_stuburl :: "string option"
  csd_starturl :: "string option"
  csd_waiturl :: "string option"
  csd_scriptname :: "string option"
  csd_preurl :: "string option"
  csd_wrapper :: "string option"
  uid_csd_given :: bool
  client_cert :: bool
  opaque_srvdata :: "xml option"
  profile_url :: "string option"
  profile_sha1 :: "string option"
  xmlsha1 :: string

text \<open>An address a host name resolves to: its family, and what \<open>getnameinfo\<close> prints for it.\<close>

record sockaddr =
  sa_inet6 :: bool
  sa_host :: "string option"

record 'c http_info =
  world :: world
  conn :: 'c
  hostname :: string
  port :: int
  urlpath :: "string option"
  useragent :: string
  cookies :: "(string \<times> string) list"
  redirect_url :: "string option"
  redirect_type :: redir_type
  xmlpost :: bool
  platname :: string
  mobile_platform_version :: "string option"
  mobile_device_type :: string
  mobile_device_uniqueid :: string
  no_http_keepalive :: bool
  proxy_type :: "string option"
  proxy :: "string option"
  proxy_port :: int
  proxy_user :: "string option"
  proxy_pass :: "string option"
  authmethods_set :: bool
  auth :: "auth_type \<Rightarrow> proxy_auth_state"
  ntlm_helper_fd :: bool
  login :: login_state
  peer_addr :: "sockaddr option"
  unique_hostname :: "string option"

definition upd_world :: "(world \<Rightarrow> world) \<Rightarrow> 'c http_info \<Rightarrow> 'c http_info" where
  "upd_world f v = v\<lparr>world := f (world v)\<rparr>"

definition upd_auth :: "auth_type \<Rightarrow> (proxy_auth_state \<Rightarrow> proxy_auth_state) \<Rightarrow> 'c http_info \<Rightarrow> 'c http_info" where
  "upd_auth t f v = v\<lparr>auth := (auth v)(t := f (auth v t))\<rparr>"

definition upd_login :: "(login_state \<Rightarrow> login_state) \<Rightarrow> 'c http_info \<Rightarrow> 'c http_info" where
  "upd_login f v = v\<lparr>login := f (login v)\<rparr>"

abbreviation set_auth :: "auth_type \<Rightarrow> int \<Rightarrow> 'c http_info \<Rightarrow> 'c http_info" where
  "set_auth t s \<equiv> upd_auth t (\<lambda>a. a\<lparr>auth_state := s\<rparr>)"

text \<open>An allocation, and random bytes (\<open>openconnect_random\<close>).\<close>

definition alloc :: "'c http_info \<Rightarrow> bool \<times> 'c http_info" where
  "alloc v =
     (case w_alloc (world v) of
        [] \<Rightarrow> (True, v)
      | b # bs \<Rightarrow> (b, upd_world (\<lambda>w. w\<lparr>w_alloc := bs\<rparr>) v))"

definition random_bytes :: "nat \<Rightarrow> 'c http_info \<Rightarrow> bytes option \<times> 'c http_info" where
  "random_bytes n v =
     (case w_rand (world v) of
        [] \<Rightarrow> (None, v)
      | r # rs \<Rightarrow> (map_option (\<lambda>b. take n (b @ replicate n 0)) r, upd_world (\<lambda>w. w\<lparr>w_rand := rs\<rparr>) v))"

section \<open>Requests\<close>

text \<open>
  A header under construction: \<open>None\<close> when an append did not return, \<open>Some None\<close> when there was no memory for
  the buffer itself.
\<close>

type_synonym header = "char text_buf option option"

definition new_header :: "'c http_info \<Rightarrow> header \<times> 'c http_info" where
  "new_header v = (case alloc v of (ok, v) \<Rightarrow> (Some (buf_alloc ok), v))"

definition put :: "'c http_info \<Rightarrow> header \<Rightarrow> string \<Rightarrow> header" where
  "put v h s = buf_put (w_mem (world v)) h s"

text \<open>
  \<open>buf_append\<close> with \<open>%s\<close> arguments; printing a null pointer is undefined. The arguments are only looked at when there
  is a buffer without an error.
\<close>

definition putf :: "'c http_info \<Rightarrow> header \<Rightarrow> string option list \<Rightarrow> header" where
  "putf v h args =
     (if None \<notin> set args then put v h (concat (map the args))
      else case h of None \<Rightarrow> None | Some buf \<Rightarrow> if buf_error buf = None then None else h)"

definition put_base64 :: "'c http_info \<Rightarrow> header \<Rightarrow> bytes \<Rightarrow> header" where
  "put_base64 v h b = map_option (\<lambda>buf. buf_append_base64 (w_mem (world v)) buf b) h"

lemma upd_auth_fields [simp]:
  "auth_state (auth (upd_auth t f v) t') = (if t' = t then auth_state (f (auth v t)) else auth_state (auth v t'))"
  "challenge (auth (upd_auth t f v) t') = (if t' = t then challenge (f (auth v t)) else challenge (auth v t'))"
  "world (upd_auth t f v) = world v" "proxy_user (upd_auth t f v) = proxy_user v" "proxy_pass (upd_auth t f v) = proxy_pass v"
  "ntlm_helper_fd (upd_auth t f v) = ntlm_helper_fd v" "conn (upd_auth t f v) = conn v"
  "authmethods_set (upd_auth t f v) = authmethods_set v" "hostname (upd_auth t f v) = hostname v" "port (upd_auth t f v) = port v"
  by (simp_all add: upd_auth_def)

lemma upd_world_fields [simp]:
  "world (upd_world f v) = f (world v)" "auth (upd_world f v) = auth v" "proxy_user (upd_world f v) = proxy_user v"
  "proxy_pass (upd_world f v) = proxy_pass v" "conn (upd_world f v) = conn v" "ntlm_helper_fd (upd_world f v) = ntlm_helper_fd v"
  "authmethods_set (upd_world f v) = authmethods_set v" "hostname (upd_world f v) = hostname v" "port (upd_world f v) = port v"
  by (simp_all add: upd_world_def)

lemma alloc_fields [simp]:
  "auth (snd (alloc v)) = auth v" "proxy_user (snd (alloc v)) = proxy_user v" "proxy_pass (snd (alloc v)) = proxy_pass v"
  "conn (snd (alloc v)) = conn v" "w_mem (world (snd (alloc v))) = w_mem (world v)" "w_md5 (world (snd (alloc v))) = w_md5 (world v)"
  "hostname (snd (alloc v)) = hostname v" "port (snd (alloc v)) = port v" "w_rand (world (snd (alloc v))) = w_rand (world v)"
  "ntlm_helper_fd (snd (alloc v)) = ntlm_helper_fd v" "authmethods_set (snd (alloc v)) = authmethods_set v"
  by (auto simp: alloc_def split: list.split)

section \<open>What a header says\<close>

text \<open>
  \<open>adds h g x\<close>: when \<open>g\<close> has not failed, \<open>h\<close> had not either and \<open>g\<close> is \<open>h\<close> with \<open>x\<close> added. The rules follow
  the code that builds a header.
\<close>

definition put_bytes :: "'c http_info \<Rightarrow> header \<Rightarrow> string \<Rightarrow> header" where
  "put_bytes v h s = map_option (\<lambda>buf. buf_append_bytes (w_mem (world v)) buf s) h"

definition adds :: "header \<Rightarrow> header \<Rightarrow> string \<Rightarrow> bool" where
  "adds h g x \<longleftrightarrow> (\<not> put_failed g \<longrightarrow> \<not> put_failed h \<and> put_written g = put_written h @ x)"

named_theorems adds_intros

lemma adds_refl [adds_intros]: "adds h h []"
  by (simp add: adds_def)

lemma adds_trans: "adds h g x \<Longrightarrow> adds g f y \<Longrightarrow> adds h f (x @ y)"
  by (simp add: adds_def)

lemma adds_one_put: "adds h (put v h s) s"
  unfolding adds_def put_def using text_sink.failed_app [of h "w_mem (world v)" s] text_sink.app_written [of "w_mem (world v)" h s] by auto

lemma adds_one_bytes: "adds h (put_bytes v h s) s"
proof (cases h)
  case (Some b)
  then show ?thesis
    using bytes_sink.failed_app [of b "w_mem (world v)" s] bytes_sink.app_written [of "w_mem (world v)" b s]
    by (auto simp: adds_def put_bytes_def put_failed_def put_written_def)
qed (simp add: adds_def put_bytes_def put_failed_def)

lemma adds_one_base64: "adds h (put_base64 v h b) (b64_text b)"
proof (cases h)
  case (Some buf)
  have "\<not> buf_failed buf" if "\<not> buf_failed (buf_append_base64 (w_mem (world v)) buf b)"
    using that buf_append_base64_failed by metis
  then show ?thesis using Some buf_append_base64_written [of "w_mem (world v)" buf b]
    by (auto simp: adds_def put_base64_def put_failed_def put_written_def)
qed (simp add: adds_def put_base64_def put_failed_def)

lemma adds_put [adds_intros]: "adds h g x \<Longrightarrow> adds h (put v g s) (x @ s)"
  by (rule adds_trans [OF _ adds_one_put])

lemma adds_bytes [adds_intros]: "adds h g x \<Longrightarrow> adds h (put_bytes v g s) (x @ s)"
  by (rule adds_trans [OF _ adds_one_bytes])

lemma adds_base64 [adds_intros]: "adds h g x \<Longrightarrow> adds h (put_base64 v g b) (x @ b64_text b)"
  by (rule adds_trans [OF _ adds_one_base64])

lemma adds_when: "adds h g x \<Longrightarrow> adds g f y \<Longrightarrow> adds h (if b then f else g) (x @ (if b then y else []))"
  by (cases b) (auto intro: adds_trans)

lemma adds_foldl:
  "(\<And>h a. adds h (f h a) (t a)) \<Longrightarrow> adds h (foldl f h xs) (concat (map t xs))"
proof (induction xs arbitrary: h)
  case (Cons a xs)
  from adds_trans [OF Cons.prems Cons.IH [OF Cons.prems]] show ?case by simp
qed (simp add: adds_refl)

lemma adds_eq: "adds h g x \<Longrightarrow> x = y \<Longrightarrow> adds h g y"
  by simp

lemma adds_written: "adds h g x \<Longrightarrow> \<not> put_failed g \<Longrightarrow> put_written g = put_written h @ x"
  by (simp add: adds_def)

lemma new_header_written: "new_header v = (h, w) \<Longrightarrow> put_written h = []"
  by (auto simp: new_header_def put_written_def buf_written_def buf_alloc_def empty_buf_def split: prod.splits if_splits)

lemma new_header_fields:
  assumes "new_header v = (h, u)"
  shows "w_md5 (world u) = w_md5 (world v)" "hostname u = hostname v" "port u = port v" "auth u = auth v"
proof -
  have u: "u = snd (alloc v)" using assms by (auto simp: new_header_def split: prod.splits)
  then show "w_md5 (world u) = w_md5 (world v)" "hostname u = hostname v" "port u = port v" "auth u = auth v" by simp_all
qed

lemma random_bytes_fields:
  assumes "random_bytes n v = (r, u)"
  shows "w_md5 (world u) = w_md5 (world v)" "hostname u = hostname v" "port u = port v" "auth u = auth v"
  using assms by (auto simp: random_bytes_def split: list.splits)

section \<open>Room in a header\<close>

text \<open>
  A header of less than one chunk for which there is memory takes what is put into it: \<open>room v h n\<close>
  says that \<open>n\<close> more characters fit.
\<close>

definition room :: "'c http_info \<Rightarrow> header \<Rightarrow> nat \<Rightarrow> bool" where
  "room v h n \<longleftrightarrow> w_mem (world v) = (\<lambda>_. True) \<and>
     (\<exists>b. h = Some (Some b) \<and> tb_error b = None \<and> (tb_len b = 0 \<or> tb_len b = 4096) \<and> tb_pos b + n < 4096)"

lemma room_ok: "room v h n \<Longrightarrow> \<not> put_failed h"
  by (auto simp: room_def put_failed_def buf_failed_def buf_error_def)

lemma room_less: "room v h m \<Longrightarrow> n \<le> m \<Longrightarrow> room v h n"
  by (auto simp: room_def)

lemma chunk_room:
  assumes "tb_error b = None" "tb_len b = 0 \<or> tb_len b = 4096" "0 < n" "tb_pos b + n \<le> 4096"
  shows "buf_ensure_space (\<lambda>_. True) b n = (None, b\<lparr>tb_len := 4096\<rparr>)"
proof -
  have "round_chunk (tb_pos b + n) = 4096" using assms(3,4) by (simp add: round_chunk_def div_nat_eqI)
  then show ?thesis using assms by (auto simp: buf_ensure_space_def Let_def)
qed

lemma room_put: "room v h (length s + n) \<Longrightarrow> room v (put v h s) n"
  by (auto simp: room_def put_def buf_put_fits)

lemma room_bytes: "room v h (length s + n) \<Longrightarrow> room v (put_bytes v h s) n"
  by (auto simp: room_def put_bytes_def buf_append_bytes_def chunk_room)

lemma room_base64:
  assumes "room v h (4 * (length b + 2) div 3 + 1 + n)"
  shows "room v (put_base64 v h b) n"
proof -
  have "length (b64_text b) \<le> 4 * (length b + 2) div 3" by (simp add: length_b64_text div_mult2_eq)
  with assms show ?thesis
    by (auto simp: room_def put_base64_def buf_append_base64_def chunk_room)
qed

lemma room_new:
  assumes "new_header v = (h, u)" "w_mem (world v) = (\<lambda>_. True)" "w_alloc (world v) = []" "n < 4096"
  shows "room u h n" "u = v"
  using assms by (auto simp: new_header_def alloc_def room_def buf_alloc_def empty_buf_def)

section \<open>An example\<close>

text \<open>A client with a password.\<close>

definition quiet_world :: world where
  "quiet_world = \<lparr>w_mem = (\<lambda>_. True), w_alloc = [], w_rand = [], w_md5 = (\<lambda>_. None), w_spawn = Spawn_Error ENOENT,
     w_user = None, w_helper = None, w_paused = False\<rparr>"

definition no_login :: login_state where
  "no_login = \<lparr>cookie = None, authgroup = None, nopasswd = False, mode = OC_TOKEN_MODE_NONE, csd_xmltag = ''csdLinux'', csd_nostub = False,
     csd_token = None, csd_ticket = None, csd_stuburl = None, csd_starturl = None, csd_waiturl = None, csd_scriptname = None,
     csd_preurl = None, csd_wrapper = None, uid_csd_given = False, client_cert = False, opaque_srvdata = None, profile_url = None, profile_sha1 = None, xmlsha1 = []\<rparr>"

definition http_sample :: "'c \<Rightarrow> 'c http_info" where
  "http_sample c = \<lparr>world = quiet_world, conn = c, hostname = ''vpn.example.com'', port = 443, urlpath = None, useragent = ''AnyConnect'',
     cookies = [], redirect_url = None, redirect_type = REDIR_TYPE_NONE, xmlpost = False, platname = ''linux'',
     mobile_platform_version = None, mobile_device_type = [], mobile_device_uniqueid = [], no_http_keepalive = False,
     proxy_type = None, proxy = None, proxy_port = 80, proxy_user = Some ''me'', proxy_pass = Some ''secret'',
     authmethods_set = False, auth = (\<lambda>_. \<lparr>auth_state = AUTH_AVAILABLE, challenge = Some []\<rparr>), ntlm_helper_fd = False,
     login = no_login, peer_addr = None, unique_hostname = None\<rparr>"

end
