(* ===== verification/Ntlm.thy ===== *)
theory Ntlm
  imports Http_State Md4 Des Utf16
begin

unbundle bit_operations_syntax

text \<open>
  NTLM authentication to an HTTP proxy, \<open>core/ntlm.c\<close>: the password hashes, the response to a challenge, and the
  state machine \<open>ntlm_authorization\<close>. The single-sign-on helper is another program: what it writes is an
  answer of the world.
\<close>

abbreviation (input) NTLM_SSO_REQ :: int where "NTLM_SSO_REQ \<equiv> 2"
abbreviation (input) NTLM_MANUAL :: int where "NTLM_MANUAL \<equiv> 3"
abbreviation (input) NTLM_MANUAL_REQ :: int where "NTLM_MANUAL_REQ \<equiv> 4"

section \<open>Hashes\<close>

definition to_upper :: "char \<Rightarrow> char" where
  "to_upper c = (let n = of_char c :: nat in if 97 \<le> n \<and> n \<le> 122 then char_of (n - 32) else c)"

definition LM_PASSWORD_MAGIC :: bytes where
  "LM_PASSWORD_MAGIC =
     [0x4B, 0x47, 0x53, 0x21, 0x40, 0x23, 0x24, 0x25, 0x4B, 0x47, 0x53, 0x21, 0x40, 0x23, 0x24, 0x25, 0, 0, 0, 0, 0]"

definition ntlm_lanmanager_hash :: "string \<Rightarrow> bytes" where
  "ntlm_lanmanager_hash password =
     (let lm_password = map (\<lambda>c. of_char (to_upper c)) (take 14 password);
          lm_password = lm_password @ replicate (15 - length lm_password) 0 in
      des (setup_schedule lm_password) (take 8 LM_PASSWORD_MAGIC) @
      des (setup_schedule (drop 7 lm_password)) (take 8 (drop 8 LM_PASSWORD_MAGIC)) @
      drop 16 LM_PASSWORD_MAGIC)"

text \<open>\<open>None\<close>: without memory for the buffer \<open>buf_ensure_space\<close> is given a null pointer.\<close>

definition ntlm_nt_hash :: "string \<Rightarrow> 'c http_info \<Rightarrow> ((int + bytes) \<times> 'c http_info) option" where
  "ntlm_nt_hash pass v =
     (let mem = w_mem (world v); (ok, v) = alloc v in
      if \<not> ok then None
      else case buf_ensure_space mem empty_buf ((length pass * 2 + 1 + 8 + 63) div 64 * 64) of
        (Some e, utf16pass) \<Rightarrow> Some (Inl (err e), v)
      | (None, utf16pass) \<Rightarrow>
          (case buf_append_utf16le mem utf16pass (bytes_of pass) of
             (ret, utf16pass) \<Rightarrow>
               if ret < 0 then Some (Inl ret, v)
               else (case tb_error utf16pass of
                   Some e \<Rightarrow> Some (Inl (err e), v)
                 | None \<Rightarrow>
                     (case md4sum mem utf16pass of
                        (Inl e, utf16pass) \<Rightarrow> Some (Inl (err e), v)
                      | (Inr hash, utf16pass) \<Rightarrow> Some (Inr (hash @ replicate 5 0), v)))))"

definition ntlm_calc_response :: "bytes \<Rightarrow> bytes \<Rightarrow> bytes" where
  "ntlm_calc_response key plaintext =
     des (setup_schedule key) (take 8 plaintext) @
     des (setup_schedule (drop 7 key)) (take 8 plaintext) @
     des (setup_schedule (drop 14 key)) (take 8 plaintext)"

section \<open>Messages\<close>

definition load_le32 :: "bytes \<Rightarrow> u32" where
  "load_le32 p = push_bit 24 (ucast (p ! 3)) OR push_bit 16 (ucast (p ! 2)) OR push_bit 8 (ucast (p ! 1)) OR ucast (p ! 0)"

definition load_le16 :: "bytes \<Rightarrow> u16" where
  "load_le16 p = push_bit 8 (ucast (p ! 1)) OR ucast (p ! 0)"

definition store_le32 :: "nat \<Rightarrow> u32 \<Rightarrow> bytes \<Rightarrow> bytes" where
  "store_le32 off w p =
     p[off := ucast w, off + 1 := ucast (drop_bit 8 w), off + 2 := ucast (drop_bit 16 w), off + 3 := ucast (drop_bit 24 w)]"

definition store_le16 :: "nat \<Rightarrow> u16 \<Rightarrow> bytes \<Rightarrow> bytes" where
  "store_le16 off w p = p[off := ucast w, off + 1 := ucast (drop_bit 8 w)]"

definition ntlm_response_base :: bytes where
  "ntlm_response_base =
     bytes_of ''NTLMSSP'' @ [0, 3, 0, 0, 0] @ replicate 48 0 @ [0x82, 0x01, 0, 0]"

text \<open>The security buffer that describes \<open>n\<close> bytes at \<open>pos\<close>.\<close>

definition store_sec_buf :: "nat \<Rightarrow> int \<Rightarrow> nat \<Rightarrow> bytes \<Rightarrow> bytes" where
  "store_sec_buf off n pos p = store_le32 (off + 4) (of_nat pos) (store_le16 (off + 2) (of_int n) (store_le16 off (of_int n) p))"

definition ntlm_set_string_utf8 :: "(nat \<Rightarrow> bool) \<Rightarrow> nat \<Rightarrow> string \<Rightarrow> byte text_buf \<Rightarrow> byte text_buf" where
  "ntlm_set_string_utf8 mem off data buf =
     (let oldpos = tb_pos buf; (len, buf) = buf_append_utf16le mem buf (bytes_of data) in
      buf\<lparr>tb_data := store_sec_buf off len oldpos (tb_data buf)\<rparr>)"

definition ntlm_set_string_binary :: "(nat \<Rightarrow> bool) \<Rightarrow> nat \<Rightarrow> bytes \<Rightarrow> byte text_buf \<Rightarrow> byte text_buf" where
  "ntlm_set_string_binary mem off data buf =
     (let buf = buf\<lparr>tb_data := store_sec_buf off (int (length data)) (tb_pos buf) (tb_data buf)\<rparr> in
      the (buf_append_bytes mem (Some buf) data))"

definition challenge_ok :: "bytes \<Rightarrow> bool" where
  "challenge_ok token \<longleftrightarrow> 32 \<le> length token \<and> take 12 token = bytes_of ''NTLMSSP'' @ [0, 2, 0, 0, 0]"

text \<open>
  The domain: from the user name if that has one, else from the challenge. The offset is a signed \<open>int\<close>; the
  copy from outside the token is \<open>None\<close>.
\<close>

definition ntlm_domain :: "(nat \<Rightarrow> bool) \<Rightarrow> string \<Rightarrow> bytes \<Rightarrow> byte text_buf \<Rightarrow> (errno + byte text_buf \<times> string) option" where
  "ntlm_domain mem user token resp =
     (case dropWhile (\<lambda>c. c \<noteq> CHR 0x5C) user of
        _ # name \<Rightarrow> Some (Inr (ntlm_set_string_utf8 mem 28 (takeWhile (\<lambda>c. c \<noteq> CHR 0x5C) user) resp, name))
      | [] \<Rightarrow>
          let offset = sint (load_le32 (drop 16 token)); len = unat (load_le16 (drop 12 token)) in
          if len = 0 \<or> to_int (offset + int len) \<ge> int (length token) then Some (Inl EINVAL)
          else if offset < 0 \<or> offset + int len > int (length token) then None
          else Some (Inr (ntlm_set_string_binary mem 28 (take len (drop (nat offset) token)) resp, user)))"

text \<open>The two responses: the answer to the LM challenge and to the NT challenge.\<close>

definition ntlm_responses :: "string \<Rightarrow> bytes \<Rightarrow> bytes \<Rightarrow> 'c http_info \<Rightarrow> (bytes \<times> bytes) option \<times> 'c http_info" where
  "ntlm_responses pass hash token v =
     (let nonce = take 8 (drop 24 token) in
      if token ! 22 AND 8 \<noteq> 0 then
        (case random_bytes 8 v of
           (None, v) \<Rightarrow> (None, v)
         | (Some clnt, v) \<Rightarrow>
             (case w_md5 (world v) (nonce @ clnt) of
                None \<Rightarrow> (None, v)
              | Some digest \<Rightarrow> (Some (clnt @ replicate 16 0, ntlm_calc_response hash digest), v)))
      else (Some (ntlm_calc_response (ntlm_lanmanager_hash pass) nonce, ntlm_calc_response hash nonce), v))"

text \<open>The message; \<open>ok\<close> is whether there is memory for the buffer.\<close>

definition ntlm_message :: "(nat \<Rightarrow> bool) \<Rightarrow> bool \<Rightarrow> string \<Rightarrow> bytes \<Rightarrow> bytes \<Rightarrow> bytes \<Rightarrow> (errno + bytes) option" where
  "ntlm_message mem ok user token lm_resp nt_resp =
     (let resp = buf_append_bytes mem (buf_alloc ok) ntlm_response_base in
      case (buf_error resp, resp) of
        (None, Some resp) \<Rightarrow>
          (let resp = resp\<lparr>tb_data := (tb_data resp)[62 := token ! 22 AND 8]\<rparr> in
           case ntlm_domain mem user token resp of
             None \<Rightarrow> None
           | Some (Inl e) \<Rightarrow> Some (Inl e)
           | Some (Inr (resp, user)) \<Rightarrow>
               let resp = ntlm_set_string_utf8 mem 36 user resp;
                   resp = ntlm_set_string_utf8 mem 44 ''UNKNOWN'' resp;
                   resp = ntlm_set_string_binary mem 12 lm_resp resp;
                   resp = ntlm_set_string_binary mem 20 nt_resp resp in
               (case tb_error resp of Some e \<Rightarrow> Some (Inl e) | None \<Rightarrow> Some (Inr (tb_data resp))))
      | (Some e, _) \<Rightarrow> Some (Inl e)
      | (None, None) \<Rightarrow> None)"

definition ntlm_manual_challenge :: "'c http_info \<Rightarrow> header \<Rightarrow> (int \<times> 'c http_info \<times> header) option" where
  "ntlm_manual_challenge v hdr =
     (case (challenge (auth v AUTH_TYPE_NTLM), proxy_pass v, proxy_user v) of
        (None, _, _) \<Rightarrow> Some (err EINVAL, v, hdr)
      | (Some chall, Some pass, Some user) \<Rightarrow>
          (case ntlm_nt_hash pass v of
             None \<Rightarrow> None
           | Some (Inl e, v) \<Rightarrow> Some (err EINVAL, v, hdr)
           | Some (Inr hash, v) \<Rightarrow>
               let (ok, v) = alloc v in
               (case openconnect_base64_decode ok chall of
                  Bad_Free \<Rightarrow> None
                | Rejected \<Rightarrow> Some (err EINVAL, v, hdr)
                | No_Memory \<Rightarrow> Some (err ENOMEM, v, hdr)
                | Decoded token \<Rightarrow>
                    if \<not> challenge_ok token then Some (err EINVAL, v, hdr)
                    else case ntlm_responses pass hash token v of
                      (None, v) \<Rightarrow> Some (err EIO, v, hdr)
                    | (Some (lm_resp, nt_resp), v) \<Rightarrow>
                        let (ok, v) = alloc v in
                        (case ntlm_message (w_mem (world v)) ok user token lm_resp nt_resp of
                           None \<Rightarrow> None
                         | Some (Inl e) \<Rightarrow> Some (err e, v, hdr)
                         | Some (Inr msg) \<Rightarrow>
                             let hdr = put v hdr ''Proxy-Authorization: NTLM '';
                                 hdr = put_base64 v hdr msg;
                                 hdr = put v hdr [CHR 0x0D, CHR 0x0A] in
                             Some (0, v, hdr))))
      | _ \<Rightarrow> None)"

section \<open>The helper and the state machine\<close>

definition helper_line :: "string \<Rightarrow> string \<Rightarrow> string option" where
  "helper_line tag reply =
     (let buf = take 4096 reply in
      if length buf < 4 \<or> take 3 buf \<noteq> tag \<or> last buf \<noteq> CHR 0x0A then None
      else Some (takeWhile (\<lambda>c. c \<noteq> CHR 0x00) (drop 3 (butlast buf))))"

definition ntlm_helper_spawn :: "'c http_info \<Rightarrow> header \<Rightarrow> int \<times> 'c http_info \<times> header" where
  "ntlm_helper_spawn v buf =
     (case (w_spawn (world v), proxy_user v, w_user (world v)) of
        (Spawn_Error e, _, _) \<Rightarrow> (err e, v, buf)
      | (_, None, None) \<Rightarrow> (err EINVAL, v, buf)
      | (Spawn_Deaf, _, _) \<Rightarrow> (err EIO, v, buf)
      | (Spawn_Reply reply, _, _) \<Rightarrow>
          (case helper_line ''YR '' reply of
             None \<Rightarrow> (err EIO, v, buf)
           | Some t \<Rightarrow> (0, v\<lparr>ntlm_helper_fd := True\<rparr>, put v buf (''Proxy-Authorization: NTLM '' @ t @ [CHR 0x0D, CHR 0x0A]))))"

definition ntlm_helper_challenge :: "'c http_info \<Rightarrow> header \<Rightarrow> int \<times> 'c http_info \<times> header" where
  "ntlm_helper_challenge v buf =
     (let failed = (err EAGAIN, v\<lparr>ntlm_helper_fd := False\<rparr>, buf) in
      if challenge (auth v AUTH_TYPE_NTLM) = None then failed
      else case w_helper (world v) of
        None \<Rightarrow> failed
      | Some reply \<Rightarrow>
          (case helper_line ''KK '' reply of
             None \<Rightarrow> failed
           | Some t \<Rightarrow> (0, v, put v buf (''Proxy-Authorization: NTLM '' @ t @ [CHR 0x0D, CHR 0x0A]))))"

definition cleanup_ntlm_auth :: "'c http_info \<Rightarrow> 'c http_info" where
  "cleanup_ntlm_auth v = (if auth_state (auth v AUTH_TYPE_NTLM) = NTLM_SSO_REQ then v\<lparr>ntlm_helper_fd := False\<rparr> else v)"

definition ntlm_type1 :: string where
  "ntlm_type1 = ''TlRMTVNTUAABAAAABYIIAAAAAAAAAAAAAAAAAAAAAAAAAAAAMAAAAAAAAAAwAAAA''"

text \<open>The parts of \<open>ntlm_authorization\<close> from the third test on.\<close>

definition ntlm_manual :: "'c http_info \<Rightarrow> header \<Rightarrow> (int \<times> 'c http_info \<times> header) option" where
  "ntlm_manual v buf =
     (let st = auth_state (auth v AUTH_TYPE_NTLM);
          failed = (\<lambda>v buf. Some (err EAGAIN, set_auth AUTH_TYPE_NTLM AUTH_FAILED v, buf)) in
      if st = NTLM_MANUAL \<and> proxy_user v \<noteq> None \<and> proxy_pass v \<noteq> None then
        Some (0, set_auth AUTH_TYPE_NTLM NTLM_MANUAL_REQ v,
          put v buf (''Proxy-Authorization: NTLM '' @ ntlm_type1 @ [CHR 0x0D, CHR 0x0A]))
      else if st = NTLM_MANUAL_REQ then
        (case ntlm_manual_challenge v buf of
           None \<Rightarrow> None
         | Some (ret, v, buf) \<Rightarrow> if ret = 0 then Some (0, v, buf) else failed v buf)
      else failed v buf)"

definition ntlm_authorization :: "'c http_info \<Rightarrow> header \<Rightarrow> (int \<times> 'c http_info \<times> header) option" where
  "ntlm_authorization v buf =
     (let (sent, v, buf) =
        (if auth_state (auth v AUTH_TYPE_NTLM) = AUTH_AVAILABLE then
           (let v = set_auth AUTH_TYPE_NTLM NTLM_MANUAL v in
            if proxy_pass v = None then
              (case ntlm_helper_spawn v buf of
                 (ret, v, buf) \<Rightarrow> if ret = 0 then (True, set_auth AUTH_TYPE_NTLM NTLM_SSO_REQ v, buf) else (False, v, buf))
            else (False, v, buf))
         else (False, v, buf)) in
      if sent then Some (0, v, buf)
      else if auth_state (auth v AUTH_TYPE_NTLM) = NTLM_SSO_REQ then
        (case ntlm_helper_challenge v buf of
           (ret, v, buf) \<Rightarrow>
             let v = set_auth AUTH_TYPE_NTLM NTLM_MANUAL (cleanup_ntlm_auth v) in
             if ret = 0 \<or> ret = err EAGAIN then Some (ret, v, buf) else ntlm_manual v buf)
      else ntlm_manual v buf)"

section \<open>Reading a message\<close>

definition le16 :: "nat \<Rightarrow> bytes" where
  "le16 n = [of_nat n, of_nat (n div 256)]"

definition le32 :: "nat \<Rightarrow> bytes" where
  "le32 n = [of_nat n, of_nat (n div 256), of_nat (n div 65536), of_nat (n div 16777216)]"

lemma le_lengths [simp]: "length (le16 n) = 2" "length (le32 n) = 4"
  by (simp_all add: le16_def le32_def)

lemma ucast_div:
  assumes "n < 2 ^ LENGTH('a)"
  shows "ucast (drop_bit k (of_nat n :: 'a :: len word)) = (of_nat (n div 2 ^ k) :: byte)"
proof -
  have "ucast (drop_bit k (of_nat n :: 'a word)) = (of_nat (unat (drop_bit k (of_nat n :: 'a word))) :: byte)"
    by simp
  also have "unat (drop_bit k (of_nat n :: 'a word)) = n div 2 ^ k"
    using assms by (simp only: unat_drop_bit_eq unat_of_nat mod_less) (rule drop_bit_eq_div)
  finally show ?thesis .
qed

lemma store_le:
  "n < 65536 \<Longrightarrow> [ucast (of_nat n :: u16), ucast (drop_bit 8 (of_nat n :: u16))] = le16 n"
  "m < 4294967296 \<Longrightarrow> [ucast (of_nat m :: u32), ucast (drop_bit 8 (of_nat m :: u32)), ucast (drop_bit 16 (of_nat m :: u32)),
     ucast (drop_bit 24 (of_nat m :: u32))] = le32 m"
  using ucast_div [of n 0, where 'a = 16] ucast_div [of n 8, where 'a = 16] ucast_div [of m 0, where 'a = 32]
    ucast_div [of m 8, where 'a = 32] ucast_div [of m 16, where 'a = 32] ucast_div [of m 24, where 'a = 32]
  by (simp_all add: le16_def le32_def)

lemma list8: "length y = 8 \<Longrightarrow> \<exists>a b c d e f g h. y = [a, b, c, d, e, f, g, h]"
  by (auto simp: numeral_eq_Suc length_Suc_conv)

lemma store_sec_buf_bytes:
  assumes "off + 8 \<le> length p" "n < 65536" "pos < 4294967296"
  shows "store_sec_buf off (int n) pos p = take off p @ (le16 n @ le16 n @ le32 pos) @ drop (off + 8) p"
proof -
  obtain a b c d e f g h where y: "take 8 (drop off p) = [a, b, c, d, e, f, g, h]"
    using list8 [of "take 8 (drop off p)"] assms by auto
  have l: "length (take off p) = off" using assms by simp
  have "p = take off p @ take 8 (drop off p) @ drop (off + 8) p"
    by (metis append_take_drop_id drop_drop add.commute)
  then have p: "p = take off p @ [a, b, c, d, e, f, g, h] @ drop (off + 8) p" unfolding y .
  have u: "(take off p @ ys)[off + k := z] = take off p @ ys[k := z]" "(take off p @ ys)[off := z] = take off p @ ys[0 := z]" for ys k z
    using l by (simp_all add: list_update_append)
  have "store_sec_buf off (int n) pos (take off p @ [a, b, c, d, e, f, g, h] @ drop (off + 8) p) =
      take off p @ ([ucast (of_nat n :: u16), ucast (drop_bit 8 (of_nat n :: u16))] @ [ucast (of_nat n :: u16), ucast (drop_bit 8 (of_nat n :: u16))] @
        [ucast (of_nat pos :: u32), ucast (drop_bit 8 (of_nat pos :: u32)), ucast (drop_bit 16 (of_nat pos :: u32)),
     ucast (drop_bit 24 (of_nat pos :: u32))]) @ drop (off + 8) p"
    unfolding store_sec_buf_def store_le16_def store_le32_def add.assoc u
    by (simp add: numeral_eq_Suc del: of_nat_numeral)
  then show ?thesis unfolding store_le(1) [OF assms(2)] store_le(2) [OF assms(3)] using p by simp
qed

lemma load_le:
  "n < 65536 \<Longrightarrow> unat (load_le16 (le16 n @ r)) = n"
  "n < 4294967296 \<Longrightarrow> unat (load_le32 (le32 n @ r)) = n"
proof -
  have b: "\<not> bit n k" if "n < 2 ^ m" "m \<le> k" for n k m :: nat
    using that by (metis bit_take_bit_iff not_le take_bit_nat_eq_self)
  have "load_le16 (le16 n @ r) = of_nat n"
  proof (rule bit_word_eqI)
    fix k
    show "k < LENGTH(16) \<Longrightarrow> bit (load_le16 (le16 n @ r)) k = bit (of_nat n :: u16) k"
      by (cases "k < 8") (auto simp: load_le16_def le16_def bit_simps simp flip: drop_bit_eq_div [of 8, simplified])
  qed
  then show "n < 65536 \<Longrightarrow> unat (load_le16 (le16 n @ r)) = n" by (simp add: unat_of_nat)
  have "load_le32 (le32 n @ r) = of_nat n"
  proof (rule bit_word_eqI)
    fix k
    assume "k < LENGTH(32)"
    then consider "k < 8" | "8 \<le> k" "k < 16" | "16 \<le> k" "k < 24" | "24 \<le> k" "k < 32" by fastforce
    then show "bit (load_le32 (le32 n @ r)) k = bit (of_nat n :: u32) k"
      by cases (auto simp: load_le32_def le32_def bit_simps simp flip: drop_bit_eq_div [of 8, simplified]
           drop_bit_eq_div [of 16, simplified] drop_bit_eq_div [of 24, simplified])
  qed
  then show "n < 4294967296 \<Longrightarrow> unat (load_le32 (le32 n @ r)) = n" by (simp add: unat_of_nat)
qed

lemma store_append:
  assumes "off + 8 \<le> length p" "n < 65536" "pos < 4294967296"
  shows "store_sec_buf off (int n) pos (p @ x) = store_sec_buf off (int n) pos p @ x"
  using assms by (simp add: store_sec_buf_bytes)

text \<open>A field as the message's reader finds it through its security buffer.\<close>

definition sec_buf :: "bytes \<Rightarrow> nat \<Rightarrow> bytes" where
  "sec_buf p off = take (unat (load_le16 (drop off p))) (drop (unat (load_le32 (drop (off + 4) p))) p)"

definition field_at :: "bytes \<Rightarrow> nat \<Rightarrow> bytes \<Rightarrow> bool" where
  "field_at p off x \<longleftrightarrow> off + 8 \<le> 64 \<and> length x < 65536 \<and>
     (\<exists>pos. take 8 (drop off p) = le16 (length x) @ le16 (length x) @ le32 pos \<and> 64 \<le> pos \<and> pos < 4294967296 \<and>
        pos + length x \<le> length p \<and> take (length x) (drop pos p) = x)"

definition add_field :: "nat \<Rightarrow> bytes \<Rightarrow> bytes \<Rightarrow> bytes" where
  "add_field off x p = store_sec_buf off (int (length x)) (length p) (p @ x)"

lemma field_at_read:
  assumes "field_at p off x"
  shows "sec_buf p off = x"
proof -
  obtain pos where f: "take 8 (drop off p) = le16 (length x) @ le16 (length x) @ le32 pos" "pos < 4294967296"
      "take (length x) (drop pos p) = x" "length x < 65536"
    using assms by (auto simp: field_at_def)
  have d: "drop off p = (le16 (length x) @ le16 (length x) @ le32 pos) @ drop 8 (drop off p)"
    unfolding f(1) [symmetric] by (rule append_take_drop_id [symmetric])
  have "drop (off + 4) p = drop 4 (drop off p)" by (simp add: add.commute)
  also have "\<dots> = le32 pos @ drop 8 (drop off p)" by (subst d) simp
  finally show ?thesis using d f load_le by (simp add: sec_buf_def)
qed

lemma add_field_length [simp]: "length (add_field off x p) = length p + length x"
  by (simp add: add_field_def store_sec_buf_def store_le16_def store_le32_def)

lemma add_field_bytes:
  assumes "off + 8 \<le> length p" "length x < 65536" "length p < 4294967296"
  shows "add_field off x p = take off p @ (le16 (length x) @ le16 (length x) @ le32 (length p)) @ drop (off + 8) p @ x"
  using assms by (simp add: add_field_def store_sec_buf_bytes)

lemma field_added:
  assumes "off + 8 \<le> 64" "64 \<le> length p" "length x < 65536" "length p < 4294967296"
  shows "field_at (add_field off x p) off x"
  using assms by (auto simp: field_at_def add_field_bytes)

lemma field_kept:
  assumes "field_at p off y" "off + 8 \<le> off' \<or> off' + 8 \<le> off"
    and "off' + 8 \<le> 64" "64 \<le> length p" "length x < 65536" "length p < 4294967296"
  shows "field_at (add_field off' x p) off y"
proof -
  obtain pos where f: "take 8 (drop off p) = le16 (length y) @ le16 (length y) @ le32 pos" "64 \<le> pos" "pos < 4294967296"
      "pos + length y \<le> length p" "take (length y) (drop pos p) = y" "length y < 65536" "off + 8 \<le> 64"
    using assms(1) by (auto simp: field_at_def)
  have b: "add_field off' x p = take off' p @ (le16 (length x) @ le16 (length x) @ le32 (length p)) @ drop (off' + 8) p @ x"
    using assms by (intro add_field_bytes) auto
  have "take 8 (drop off (add_field off' x p)) = take 8 (drop off p)"
    using assms(2-4) f(7) unfolding b by (auto simp: drop_take)
  moreover have "take (length y) (drop pos (add_field off' x p)) = take (length y) (drop pos p)"
    using assms(3,4) f unfolding b by simp
  ultimately show ?thesis using f by (auto simp: field_at_def)
qed

lemma add_field_nth:
  assumes "i < off \<or> off + 8 \<le> i" "i < length p" "off + 8 \<le> length p" "length x < 65536" "length p < 4294967296"
  shows "add_field off x p ! i = p ! i"
  using assms by (auto simp: add_field_bytes nth_append)

lemma rfc_utf8_nonempty [simp]: "rfc_utf8 u \<noteq> []"
  by (simp add: rfc_utf8_def)

lemma utf8_text_unique: "utf8_text s cs \<Longrightarrow> utf8_text s ds \<Longrightarrow> cs = ds"
proof (induction cs arbitrary: s ds)
  case Nil
  then show ?case by (cases ds) (auto simp: utf8_text_def)
next
  case (Cons c cs)
  let ?t = "concat (map rfc_utf8 cs)"
  have c: "c \<le> 0x10ffff" "s = rfc_utf8 c @ ?t" "utf8_text ?t cs" using Cons.prems(1) by (auto simp: utf8_text_def)
  obtain h t where h: "rfc_utf8 c = h # t" "utf8_char h (t @ ?t) = Some (c, ?t)"
    using utf8_char_complete [OF c(1), of ?t] by auto
  then have "utf8_text (h # t @ ?t) ds" using Cons.prems(2) c(2) by simp
  then obtain es where "ds = c # es" "utf8_text ?t es" using utf8_text_Cons [OF h(2)] by auto
  with Cons.IH [OF c(3)] show ?case by blast
qed

lemma bytes_of_zero: "0 \<in> set (bytes_of s) \<longleftrightarrow> CHR 0x00 \<in> set s"
proof -
  have "bytes_of [c] = bytes_of [CHR 0x00] \<longleftrightarrow> c = CHR 0x00" for c unfolding bytes_of_inject by simp
  then have "(of_char c :: byte) = 0 \<longleftrightarrow> c = CHR 0x00" for c by (simp add: bytes_of_def)
  then show ?thesis unfolding bytes_of_def set_map by (metis (no_types, lifting) imageE imageI)
qed

abbreviation utf16le :: "nat list \<Rightarrow> bytes" where
  "utf16le cs \<equiv> concat (map rfc_utf16 cs)"

lemma utf16le_length: "utf8_text s cs \<Longrightarrow> length (utf16le cs) \<le> 2 * length s"
proof -
  assume "utf8_text s cs"
  then have "s = concat (map rfc_utf8 cs)" by (simp add: utf8_text_def)
  moreover have "length (utf16le ds) \<le> 2 * length (concat (map rfc_utf8 ds))" for ds
    using rfc_lengths(2) by (induction ds) (simp_all add: add_mono)
  ultimately show ?thesis by simp
qed

lemma set_utf8_field:
  assumes "utf8_text (bytes_of s) cs" "CHR 0x00 \<notin> set s" "tb_error buf = None" "tb_pos buf + 2 * length s \<le> MAX_BUF_LEN"
  shows "tb_data (ntlm_set_string_utf8 (\<lambda>_. True) off s buf) = add_field off (utf16le cs) (tb_data buf) \<and>
    tb_error (ntlm_set_string_utf8 (\<lambda>_. True) off s buf) = None"
proof -
  have "0 \<notin> set (bytes_of s)" using assms(2) by (simp add: bytes_of_zero)
  from utf16_loop_text [OF this assms(3), of 0] assms(1,4) utf8_text_unique show ?thesis
    by (fastforce simp: ntlm_set_string_utf8_def buf_append_utf16le_def add_field_def Let_def split: prod.splits)
qed

lemma set_binary_field:
  assumes "tb_error buf = None" "tb_pos buf + length x < MAX_BUF_LEN" "off + 8 \<le> tb_pos buf" "length x < 65536"
  shows "tb_data (ntlm_set_string_binary (\<lambda>_. True) off x buf) = add_field off x (tb_data buf) \<and>
    tb_error (ntlm_set_string_binary (\<lambda>_. True) off x buf) = None"
proof -
  let ?b = "buf\<lparr>tb_data := store_sec_buf off (int (length x)) (tb_pos buf) (tb_data buf)\<rparr>"
  have l: "tb_pos ?b = tb_pos buf" by (simp add: store_sec_buf_def store_le16_def store_le32_def)
  have "buf_ensure_space (\<lambda>_. True) ?b (length x + 1) =
      (None, ?b\<lparr>tb_len := max (tb_len ?b) (round_chunk (tb_pos ?b + (length x + 1)))\<rparr>)"
    by (rule ensure_room) (use assms l in simp_all)
  then show ?thesis using assms
    by (simp add: ntlm_set_string_binary_def buf_append_bytes_def add_field_def store_append Let_def)
qed

section \<open>The message\<close>

lemma response_base: "length ntlm_response_base = 64" "take 12 ntlm_response_base = bytes_of ''NTLMSSP'' @ [0, 3, 0, 0, 0]"
  by (simp_all add: ntlm_response_base_def bytes_of_def)

lemma response_start:
  "buf_append_bytes (\<lambda>_. True) (buf_alloc True) ntlm_response_base =
     Some \<lparr>tb_data = ntlm_response_base, tb_len = 4096, tb_error = None\<rparr>"
  by (simp add: buf_append_bytes_def buf_alloc_def empty_buf_def buf_ensure_space_def response_base round_chunk_def)

text \<open>The five fields in the order in which they are written.\<close>

definition five_fields :: "bytes \<Rightarrow> bytes \<Rightarrow> bytes \<Rightarrow> bytes \<Rightarrow> bytes \<Rightarrow> bytes \<Rightarrow> bytes" where
  "five_fields p domain name host lm nt =
     add_field 20 nt (add_field 12 lm (add_field 44 host (add_field 36 name (add_field 28 domain p))))"

lemma five_fields_read:
  assumes "length p = 64" "\<forall>x\<in>{domain, name, host, lm, nt}. length x < 65536"
  shows "sec_buf (five_fields p domain name host lm nt) 28 = domain" "sec_buf (five_fields p domain name host lm nt) 36 = name"
    "sec_buf (five_fields p domain name host lm nt) 44 = host" "sec_buf (five_fields p domain name host lm nt) 12 = lm"
    "sec_buf (five_fields p domain name host lm nt) 20 = nt" "take 12 (five_fields p domain name host lm nt) = take 12 p"
    "five_fields p domain name host lm nt ! 62 = p ! 62"
proof -
  let ?a = "add_field 28 domain p"
  let ?b = "add_field 36 name ?a"
  let ?c = "add_field 44 host ?b"
  let ?d = "add_field 12 lm ?c"
  let ?e = "add_field 20 nt ?d"
  note l = assms(2)
  have a: "field_at ?a 28 domain" by (rule field_added) (use assms in auto)
  have b: "field_at ?b 36 name" "field_at ?b 28 domain"
    by (rule field_added field_kept [OF a]; use assms in auto)+
  have c: "field_at ?c 44 host" "field_at ?c 36 name" "field_at ?c 28 domain"
    by (rule field_added field_kept [OF b(1)] field_kept [OF b(2)]; use assms in auto)+
  have d: "field_at ?d 12 lm" "field_at ?d 44 host" "field_at ?d 36 name" "field_at ?d 28 domain"
    by (rule field_added field_kept [OF c(1)] field_kept [OF c(2)] field_kept [OF c(3)]; use assms in auto)+
  have e: "field_at ?e 20 nt" "field_at ?e 12 lm" "field_at ?e 44 host" "field_at ?e 36 name" "field_at ?e 28 domain"
    by (rule field_added field_kept [OF d(1)] field_kept [OF d(2)] field_kept [OF d(3)] field_kept [OF d(4)]; use assms in auto)+
  from e show "sec_buf (five_fields p domain name host lm nt) 28 = domain" "sec_buf (five_fields p domain name host lm nt) 36 = name"
    "sec_buf (five_fields p domain name host lm nt) 44 = host" "sec_buf (five_fields p domain name host lm nt) 12 = lm"
    "sec_buf (five_fields p domain name host lm nt) 20 = nt"
    by (simp_all add: five_fields_def field_at_read)
  have n: "?e ! i = p ! i" if "i < 12 \<or> 60 \<le> i" "i < 64" for i
    using that assms by (auto simp: add_field_nth)
  show "five_fields p domain name host lm nt ! 62 = p ! 62" using n [of 62] by (simp add: five_fields_def)
  show "take 12 (five_fields p domain name host lm nt) = take 12 p"
    by (rule nth_equalityI) (use n assms in \<open>simp_all add: five_fields_def\<close>)
qed

lemma domain_of_user:
  assumes "CHR 0x5C \<notin> set domain"
  shows "ntlm_domain mem (domain @ CHR 0x5C # name) token resp = Some (Inr (ntlm_set_string_utf8 mem 28 domain resp, name))"
  using assms by (simp add: ntlm_domain_def dropWhile_append takeWhile_append)

lemma unknown_text: "utf8_text (bytes_of ''UNKNOWN'') (map of_char ''UNKNOWN'')"
  by (simp add: utf8_text_def bytes_of_def rfc_utf8_def)

text \<open>
  C23 (ntlm_message_fields): The type 3 message: for a user given as domain and name in UTF-8, a reader that follows the
  five security buffers finds the domain, the name and the host in UTF-16 and the two responses, each as it was put in, under the
  right signature and with the session flag of the challenge.
\<close>

theorem ntlm_message_fields:
  assumes "CHR 0x5C \<notin> set domain" "CHR 0x00 \<notin> set (domain @ name)" "length (domain @ name) \<le> 16384"
    and "utf8_text (bytes_of domain) ds" "utf8_text (bytes_of name) ns" "length lm = 24" "length nt = 24"
  shows "\<exists>msg. ntlm_message (\<lambda>_. True) True (domain @ CHR 0x5C # name) token lm nt = Some (Inr msg) \<and>
    take 12 msg = bytes_of ''NTLMSSP'' @ [0, 3, 0, 0, 0] \<and> msg ! 62 = token ! 22 AND 8 \<and>
    sec_buf msg 28 = utf16le ds \<and> sec_buf msg 36 = utf16le ns \<and> sec_buf msg 44 = utf16le (map of_char ''UNKNOWN'') \<and>
    sec_buf msg 12 = lm \<and> sec_buf msg 20 = nt"
proof -
  let ?p = "ntlm_response_base[62 := token ! 22 AND 8]" and ?host = "utf16le (map of_char ''UNKNOWN'')"
  let ?msg = "five_fields ?p (utf16le ds) (utf16le ns) ?host lm nt"
  have lens: "length (utf16le ds) \<le> 2 * length domain" "length (utf16le ns) \<le> 2 * length name" "length ?host \<le> 14"
    using utf16le_length [OF assms(4)] utf16le_length [OF assms(5)] utf16le_length [OF unknown_text] by simp_all
  let ?r = "\<lparr>tb_data = ?p, tb_len = 4096, tb_error = None\<rparr> :: byte text_buf"
  let ?a = "ntlm_set_string_utf8 (\<lambda>_. True) 28 domain ?r"
  let ?b = "ntlm_set_string_utf8 (\<lambda>_. True) 36 name ?a"
  let ?c = "ntlm_set_string_utf8 (\<lambda>_. True) 44 ''UNKNOWN'' ?b"
  let ?d = "ntlm_set_string_binary (\<lambda>_. True) 12 lm ?c"
  let ?e = "ntlm_set_string_binary (\<lambda>_. True) 20 nt ?d"
  have a: "tb_data ?a = add_field 28 (utf16le ds) ?p" "tb_error ?a = None"
    using set_utf8_field [OF assms(4), of ?r 28] assms by (simp_all add: response_base)
  have b: "tb_data ?b = add_field 36 (utf16le ns) (tb_data ?a)" "tb_error ?b = None"
    using set_utf8_field [OF assms(5), of ?a 36] assms lens a by (simp_all add: response_base)
  have c: "tb_data ?c = add_field 44 ?host (tb_data ?b)" "tb_error ?c = None"
    using set_utf8_field [OF unknown_text, of ?b 44] assms lens a b by (simp_all add: response_base)
  have d: "tb_data ?d = add_field 12 lm (tb_data ?c)" "tb_error ?d = None"
    using set_binary_field [of ?c lm 12] assms lens a b c by (simp_all add: response_base)
  have e: "tb_data ?e = add_field 20 nt (tb_data ?d)" "tb_error ?e = None"
    using set_binary_field [of ?d nt 20] assms lens a b c d by (simp_all add: response_base)
  have "ntlm_message (\<lambda>_. True) True (domain @ CHR 0x5C # name) token lm nt = Some (Inr ?msg)"
    using a b c d e by (simp add: ntlm_message_def response_start buf_error_def domain_of_user [OF assms(1)] Let_def five_fields_def)
  moreover have "\<forall>x\<in>{utf16le ds, utf16le ns, ?host, lm, nt}. length x < 65536" using lens assms by simp
  moreover have "take 12 ?p = bytes_of ''NTLMSSP'' @ [0, 3, 0, 0, 0]" "?p ! 62 = token ! 22 AND 8"
    using response_base by simp_all
  ultimately show ?thesis using five_fields_read [of ?p "utf16le ds" "utf16le ns" ?host lm nt] by (simp add: response_base)
qed

theorem ntlm_message_fields_witness:
  "\<exists>msg. ntlm_message (\<lambda>_. True) True (''W'' @ CHR 0x5C # ''me'') (replicate 40 0) (replicate 24 1) (replicate 24 2) = Some (Inr msg) \<and>
    sec_buf msg 28 = utf16le [0x57] \<and> sec_buf msg 20 = replicate 24 2"
  using ntlm_message_fields [of "''W''" "''me''" "[0x57]" "[0x6d, 0x65]" "replicate 24 1" "replicate 24 2" "replicate 40 0"]
  by (auto simp: utf8_text_def bytes_of_def rfc_utf8_def)

text \<open>
  Without a domain in the user name the domain is copied from the challenge, and the check of its place is
  not enough: the code reads outside the token exactly when the offset, which it takes for a signed
  number, is negative and the sum with the length is still below the token's length, or when that sum overflows.
\<close>

theorem ntlm_domain_overread:
  assumes "CHR 0x5C \<notin> set user" "length token < 2 ^ 31"
  shows "ntlm_domain mem user token resp = None \<longleftrightarrow>
    (let offset = sint (load_le32 (drop 16 token)); len = int (unat (load_le16 (drop 12 token))) in
     len \<noteq> 0 \<and> (offset < 0 \<and> offset + len < int (length token) \<or> 2 ^ 31 \<le> offset + len))"
proof -
  let ?o = "sint (load_le32 (drop 16 token))" and ?l = "unat (load_le16 (drop 12 token))"
  have none: "dropWhile (\<lambda>c. c \<noteq> CHR 0x5C) user = []" using assms(1) by (auto simp: dropWhile_eq_Nil_conv)
  have o: "- (2 ^ 31) \<le> ?o" "?o < 2 ^ 31"
    using sint_ge [of "load_le32 (drop 16 token)"] sint_lt [of "load_le32 (drop 16 token)"] by simp_all
  have l: "?l < 65536" using unsigned_less [of "load_le16 (drop 12 token)", where 'a = nat] by simp
  then have li: "int ?l < 65536" by linarith
  have p: "(2 :: int) ^ 31 = 2147483648" "(2 :: int) ^ 32 = 4294967296" by simp_all
  show ?thesis
  proof (cases "?o + int ?l < 2 ^ 31")
    case True
    then have "to_int (?o + int ?l) = ?o + int ?l" by (intro to_int_small; use o True in linarith)
    then show ?thesis using True by (auto simp: ntlm_domain_def none Let_def unat_eq_0 uint_0_iff)
  next
    case False
    have "to_int (?o + int ?l) = to_int (?o + int ?l - 2 ^ 32)"
      unfolding to_int_def by (rule signed_take_bit_eq_iff_take_bit_eq [THEN iffD2]) (simp add: take_bit_eq_mod)
    also have "\<dots> = ?o + int ?l - 2 ^ 32" by (intro to_int_small; use o li False in \<open>unfold p, linarith\<close>)
    finally have "to_int (?o + int ?l) < int (length token)" using o li unfolding p by linarith
    moreover have "0 < ?l" using o False by (cases ?l) auto
    moreover have "int (length token) < 2 ^ 31" using assms(2) by simp
    then have "int (length token) < ?o + int ?l" using False by linarith
    ultimately show ?thesis using False by (auto simp: ntlm_domain_def none Let_def unat_eq_0 uint_0_iff)
  qed
qed

theorem ntlm_domain_overread_witness:
  "ntlm_domain (\<lambda>_. True) ''me'' (replicate 12 0 @ [4, 0, 4, 0, 0, 0, 0, 0x80] @ replicate 20 0) empty_buf = None"
  using ntlm_domain_overread [of "''me''" "replicate 12 0 @ [4, 0, 4, 0, 0, 0, 0, 0x80] @ replicate 20 0" "\<lambda>_. True" empty_buf]
  by (simp add: load_le32_def load_le16_def)

section \<open>The states\<close>

text \<open>How many requests are left: it only stays the same for a repeated challenge.\<close>

definition ntlm_rank :: "int \<Rightarrow> nat" where
  "ntlm_rank s =
     (if s = AUTH_AVAILABLE then 4 else if s = NTLM_SSO_REQ then 3 else if s = NTLM_MANUAL then 2
      else if s = NTLM_MANUAL_REQ then 1 else 0)"

lemma random_auth: "random_bytes n v = (r, w) \<Longrightarrow> auth w = auth v"
  by (auto simp: random_bytes_def split: list.splits)

lemma nt_hash_auth: "ntlm_nt_hash pass v = Some (r, w) \<Longrightarrow> auth w = auth v"
  by (auto simp: ntlm_nt_hash_def Let_def split_beta split: if_splits option.splits sum.splits)

lemma responses_auth: "ntlm_responses pass hash token v = (r, w) \<Longrightarrow> auth w = auth v"
  by (auto simp: ntlm_responses_def Let_def split: if_splits option.splits prod.splits dest: random_auth)

lemma manual_challenge_auth:
  assumes "ntlm_manual_challenge v h = Some (r, w, h')"
  shows "auth w = auth v \<and> (r = 0 \<longrightarrow> challenge (auth v AUTH_TYPE_NTLM) \<noteq> None)"
proof -
  have a: "alloc u = (ok, u') \<Longrightarrow> auth u' = auth u" for u ok u' using alloc_fields(1) [of u] by simp
  show ?thesis using assms
    by (auto simp: ntlm_manual_challenge_def Let_def split: option.splits sum.splits prod.splits b64_result.splits if_splits
        dest!: nt_hash_auth responses_auth a)
qed

lemma spawn_auth: "ntlm_helper_spawn v h = (r, w, h') \<Longrightarrow> auth w = auth v"
  by (auto simp: ntlm_helper_spawn_def split: spawn_answer.splits option.splits)

lemma helper_challenge_auth: "ntlm_helper_challenge v h = (r, w, h') \<Longrightarrow> auth w = auth v \<and> (r = 0 \<or> r = err EAGAIN)"
  by (auto simp: ntlm_helper_challenge_def Let_def split: if_splits option.splits)

lemma cleanup_auth [simp]: "auth (cleanup_ntlm_auth v) = auth v"
  by (simp add: cleanup_ntlm_auth_def)

lemma ntlm_manual_states:
  assumes "ntlm_manual v h = Some (r, w, h')"
  shows "(r = err EAGAIN \<and> auth_state (auth w AUTH_TYPE_NTLM) = AUTH_FAILED) \<or>
    (r = 0 \<and> auth_state (auth w AUTH_TYPE_NTLM) = NTLM_MANUAL_REQ \<and>
     (auth_state (auth v AUTH_TYPE_NTLM) = NTLM_MANUAL \<or>
      auth_state (auth v AUTH_TYPE_NTLM) = NTLM_MANUAL_REQ \<and> challenge (auth v AUTH_TYPE_NTLM) \<noteq> None))"
  using assms by (auto simp: ntlm_manual_def Let_def split: if_splits option.splits dest!: manual_challenge_auth)

text \<open>
  Every call of \<open>ntlm_authorization\<close> that adds a header moves the state towards the end, except that
  a proxy which goes on sending challenges after the type 3 message is answered again; every other call fails with
  \<open>EAGAIN\<close>, and the method is given up, unless it was the helper that failed.
\<close>

theorem ntlm_progress:
  assumes "ntlm_authorization v h = Some (r, w, h')"
  shows "let s = auth_state (auth v AUTH_TYPE_NTLM); t = auth_state (auth w AUTH_TYPE_NTLM) in
    r = 0 \<and> (ntlm_rank t < ntlm_rank s \<or> s = NTLM_MANUAL_REQ \<and> t = s \<and> challenge (auth v AUTH_TYPE_NTLM) \<noteq> None) \<or>
    r = err EAGAIN \<and> (t = AUTH_FAILED \<or> s = NTLM_SSO_REQ \<and> t = NTLM_MANUAL)"
proof -
  let ?s = "auth_state (auth v AUTH_TYPE_NTLM)" and ?t = "auth_state (auth w AUTH_TYPE_NTLM)"
  let ?u = "set_auth AUTH_TYPE_NTLM NTLM_MANUAL v"
  have rank: "ntlm_rank NTLM_MANUAL_REQ < ntlm_rank NTLM_MANUAL" "ntlm_rank NTLM_MANUAL < ntlm_rank AUTH_AVAILABLE"
    "ntlm_rank NTLM_SSO_REQ < ntlm_rank AUTH_AVAILABLE" "ntlm_rank NTLM_MANUAL_REQ < ntlm_rank NTLM_SSO_REQ"
    by (simp_all add: ntlm_rank_def)
  consider (start) "?s = AUTH_AVAILABLE" | (helper) "?s = NTLM_SSO_REQ" | (manual) "?s \<noteq> AUTH_AVAILABLE" "?s \<noteq> NTLM_SSO_REQ" by blast
  then show ?thesis
  proof cases
    case start
    obtain ret x h1 where sp: "ntlm_helper_spawn ?u h = (ret, x, h1)" by (cases "ntlm_helper_spawn ?u h")
    note x = spawn_auth [OF sp]
    consider "proxy_pass v = None" "ret = 0" | "proxy_pass v = None" "ret \<noteq> 0" | "proxy_pass v \<noteq> None" by blast
    then show ?thesis
    proof cases
      case 1
      then show ?thesis using assms start sp rank by (auto simp: ntlm_authorization_def Let_def)
    next
      case 2
      then have "ntlm_manual x h1 = Some (r, w, h')" using assms start sp x by (simp add: ntlm_authorization_def Let_def)
      from ntlm_manual_states [OF this] show ?thesis using start x rank by (auto simp: Let_def)
    next
      case 3
      then have "ntlm_manual ?u h = Some (r, w, h')" using assms start by (auto simp: ntlm_authorization_def Let_def)
      from ntlm_manual_states [OF this] show ?thesis using start rank by (auto simp: Let_def)
    qed
  next
    case helper
    obtain ret x h1 where hc: "ntlm_helper_challenge v h = (ret, x, h1)" by (cases "ntlm_helper_challenge v h")
    from helper_challenge_auth [OF hc] assms helper hc have "ret = r" "w = set_auth AUTH_TYPE_NTLM NTLM_MANUAL (cleanup_ntlm_auth x)"
        "r = 0 \<or> r = err EAGAIN"
      by (auto simp: ntlm_authorization_def Let_def)
    then show ?thesis using helper by (auto simp: Let_def ntlm_rank_def)
  next
    case manual
    then have "ntlm_manual v h = Some (r, w, h')" using assms by (simp add: ntlm_authorization_def Let_def)
    from ntlm_manual_states [OF this] show ?thesis using manual rank by (auto simp: Let_def)
  qed
qed

theorem ntlm_progress_witness:
  "\<exists>w h. ntlm_authorization (http_sample ()) (Some (Some empty_buf)) = Some (0, w, h) \<and>
     auth_state (auth w AUTH_TYPE_NTLM) = NTLM_MANUAL_REQ \<and> ntlm_rank NTLM_MANUAL_REQ < ntlm_rank AUTH_AVAILABLE"
proof -
  obtain w h where w: "ntlm_authorization (http_sample ()) (Some (Some empty_buf)) = Some (0, w, h)"
      "auth_state (auth w AUTH_TYPE_NTLM) = NTLM_MANUAL_REQ"
    by (simp add: ntlm_authorization_def ntlm_manual_def http_sample_def upd_auth_def Let_def)
  from ntlm_progress [OF w(1)] w show ?thesis by (auto simp: http_sample_def Let_def)
qed

end
