(* ===== verification/Digest.thy ===== *)
theory Digest
  imports Http_State
begin

text \<open>
  Digest authentication to an HTTP proxy, \<open>core/digest.c\<close>: the parser of the challenge, the response, and the
  formula of RFC 2617 it is compared with. \<open>openconnect_md5\<close> is \<open>w_md5\<close> of the world.
\<close>

abbreviation (input) DQ :: char where "DQ \<equiv> CHR 0x22"
abbreviation (input) BSL :: char where "BSL \<equiv> CHR 0x5C"
abbreviation (input) crlf :: string where "crlf \<equiv> [CHR 0x0D, CHR 0x0A]"

section \<open>Quoted strings\<close>

fun get_qs_loop :: "(nat \<Rightarrow> bool) \<Rightarrow> char text_buf option \<Rightarrow> bool \<Rightarrow> string \<Rightarrow> (char text_buf \<times> string) option" where
  "get_qs_loop mem res escaped [] = None"
| "get_qs_loop mem res escaped (c # p) =
     (if \<not> escaped \<and> c = DQ then
        (case (buf_error res, res) of (None, Some b) \<Rightarrow> Some (b, p) | _ \<Rightarrow> None)
      else get_qs_loop mem (buf_append_bytes mem res [c]) (\<not> escaped \<and> c = BSL) p)"

definition get_qs :: "'c http_info \<Rightarrow> string \<Rightarrow> (char text_buf \<times> string) option \<times> 'c http_info" where
  "get_qs v str =
     (case str of
        c # p \<Rightarrow>
          if c \<noteq> DQ then (None, v)
          else (case alloc v of (ok, v) \<Rightarrow> (get_qs_loop (w_mem (world v)) (buf_alloc ok) False p, v))
      | [] \<Rightarrow> (None, v))"

definition buf_append_unq :: "'c http_info \<Rightarrow> header \<Rightarrow> string \<Rightarrow> header" where
  "buf_append_unq v h str =
     foldl (\<lambda>h c. put_bytes v (if c = DQ \<or> c = BSL then put v h [BSL] else h) [c]) h str"

definition md5_hex_digit :: "nat \<Rightarrow> char" where
  "md5_hex_digit n = ''0123456789abcdef'' ! n"

definition hex02 :: "byte \<Rightarrow> string" where
  "hex02 b = [md5_hex_digit (unat b div 16), md5_hex_digit (unat b mod 16)]"

text \<open>On a failure of \<open>openconnect_md5\<close> the error is stored through \<open>buf\<close>, also when that is null.\<close>

definition buf_append_md5 :: "'c http_info \<Rightarrow> header \<Rightarrow> string \<Rightarrow> header" where
  "buf_append_md5 v h data =
     (case w_md5 (world v) (bytes_of data) of
        None \<Rightarrow> (case h of Some (Some b) \<Rightarrow> Some (Some (b\<lparr>tb_error := Some EIO\<rparr>)) | _ \<Rightarrow> None)
      | Some md5 \<Rightarrow> foldl (\<lambda>h b. put v h (hex02 b)) h (take 16 md5))"

section \<open>The challenge\<close>

datatype digest_algo = ALGO_MD5 | ALGO_MD5_SESS

record digest_params =
  dg_realm :: "char text_buf option"
  dg_nonce :: "char text_buf option"
  dg_opaque :: "char text_buf option"
  qop_auth :: bool
  algo :: digest_algo

definition no_params :: digest_params where
  "no_params = \<lparr>dg_realm = None, dg_nonce = None, dg_opaque = None, qop_auth = False, algo = ALGO_MD5\<rparr>"

definition starts :: "string \<Rightarrow> string \<Rightarrow> bool" where
  "starts p s \<longleftrightarrow> take (length p) s = p"

text \<open>
  The loop that is to discard a quoted string: \<open>p\<close> is tested again and again. \<open>Some None\<close> is the jump to
  \<open>err\<close>, \<open>Some (Some r)\<close> leaves the loop.
\<close>

partial_function (option) skip_quoted :: "bool \<Rightarrow> string \<Rightarrow> string option option" where
  "skip_quoted escaped p =
     (let escaped = (\<not> escaped \<and> p \<noteq> [] \<and> hd p = BSL) in
      if p = [] then Some None
      else if escaped \<or> hd p \<noteq> DQ then skip_quoted escaped p
      else Some (Some (tl p)))"

text \<open>One parameter; \<open>Dg_Break\<close> leaves the loop.\<close>

datatype digest_step = Dg_Go digest_params string | Dg_Break digest_params | Dg_Err | Dg_Hang

definition digest_param :: "'c http_info \<Rightarrow> digest_params \<Rightarrow> string \<Rightarrow> digest_step \<times> 'c http_info" where
  "digest_param v d chall =
     (let quoted = (\<lambda>n set. case get_qs v (drop n chall) of
            (None, v) \<Rightarrow> (Dg_Err, v)
          | (Some (buf, rest), v) \<Rightarrow> (Dg_Go (set buf) rest, v)) in
      if starts ''realm='' chall then quoted 6 (\<lambda>b. d\<lparr>dg_realm := Some b\<rparr>)
      else if starts ''nonce='' chall then quoted 6 (\<lambda>b. d\<lparr>dg_nonce := Some b\<rparr>)
      else if starts ''qop='' chall then
        (if starts (DQ # ''auth'' @ [DQ]) (drop 4 chall) then (Dg_Go (d\<lparr>qop_auth := True\<rparr>) (drop 10 chall), v) else (Dg_Err, v))
      else if starts ''opaque='' chall then quoted 7 (\<lambda>b. d\<lparr>dg_opaque := Some b\<rparr>)
      else if starts ''algorithm='' chall then
        (let r = drop 10 chall in
         if starts ''MD5-sess'' r then (Dg_Go (d\<lparr>algo := ALGO_MD5_SESS\<rparr>) (drop 8 r), v)
         else if starts ''MD5'' r then (Dg_Go (d\<lparr>algo := ALGO_MD5\<rparr>) (drop 3 r), v)
         else (Dg_Go d r, v))
      else
        (case dropWhile (\<lambda>c. c \<noteq> CHR ''='') chall of
           [] \<Rightarrow> (Dg_Err, v)
         | _ # p \<Rightarrow>
             if p \<noteq> [] \<and> hd p = DQ then
               (case skip_quoted False (tl p) of
                  None \<Rightarrow> (Dg_Hang, v)
                | Some None \<Rightarrow> (Dg_Err, v)
                | Some (Some rest) \<Rightarrow> (Dg_Go d rest, v))
             else (case dropWhile (\<lambda>c. c \<noteq> CHR '','') p of
                 [] \<Rightarrow> (Dg_Break d, v)
               | rest \<Rightarrow> (Dg_Go d rest, v))))"

lemma get_qs_loop_shorter: "get_qs_loop mem res e p = Some (b, rest) \<Longrightarrow> length rest < length p"
  by (induction mem res e p rule: get_qs_loop.induct) (auto split: if_splits option.splits)

lemma get_qs_shorter: "get_qs v s = (Some (b, rest), w) \<Longrightarrow> length rest < length s"
  by (auto simp: get_qs_def split: list.splits if_splits prod.splits dest!: get_qs_loop_shorter)

lemma skip_quoted_returns:
  "skip_quoted e p = Some r \<Longrightarrow> r = (if p = [] then None else Some (tl p)) \<and> (p \<noteq> [] \<longrightarrow> hd p = DQ)"
  by (rule skip_quoted.raw_induct [of "\<lambda>e p r. r = (if p = [] then None else Some (tl p)) \<and> (p \<noteq> [] \<longrightarrow> hd p = DQ)"])
    (auto simp: Let_def split: if_splits)

lemma dropWhile_shorter: "dropWhile P s = c # p \<Longrightarrow> length p < length s"
  by (metis length_dropWhile_le length_Cons Suc_le_lessD)

lemma digest_param_shorter: "digest_param v d s = (Dg_Go d' rest, w) \<Longrightarrow> length rest \<le> length s"
proof -
  assume a: "digest_param v d s = (Dg_Go d' rest, w)"
  have q: "get_qs u (drop n s) = (Some (b, r), u') \<Longrightarrow> length r \<le> length s" for u n b r and u' :: "'a http_info"
    using get_qs_shorter [of u "drop n s" b r u'] by simp
  have k: "dropWhile (\<lambda>c. c \<noteq> CHR ''='') s = c # p \<Longrightarrow> skip_quoted False (tl p) = Some (Some r) \<Longrightarrow> length r \<le> length s" for c p r
    using skip_quoted_returns [of False "tl p" "Some r"] dropWhile_shorter [of "\<lambda>c. c \<noteq> CHR ''=''" s c p] by (auto split: if_splits)
  have m: "dropWhile (\<lambda>c. c \<noteq> CHR ''='') s = c # p \<Longrightarrow> length (dropWhile (\<lambda>c. c \<noteq> CHR '','') p) \<le> length s" for c p
    using dropWhile_shorter [of "\<lambda>c. c \<noteq> CHR ''=''" s c p] length_dropWhile_le [of "\<lambda>c. c \<noteq> CHR '',''" p] by simp
  from a show ?thesis
    by (auto simp: digest_param_def Let_def split: if_splits option.splits prod.splits list.splits dest: q k m)
qed

lemma digest_step_shorter:
  "(Dg_Go d' rest, w) = digest_param v d s \<Longrightarrow> dropWhile is_space rest = c # t \<Longrightarrow> length (dropWhile is_space t) < length s"
  using digest_param_shorter [of v d s d' rest w] dropWhile_shorter [of is_space rest c t] length_dropWhile_le [of is_space t] by simp

function digest_parse :: "'c http_info \<Rightarrow> digest_params \<Rightarrow> string \<Rightarrow> digest_params option option \<times> 'c http_info" where
  "digest_parse v d chall =
     (if chall = [] then (Some (Some d), v)
      else case digest_param v d chall of
        (Dg_Hang, v) \<Rightarrow> (None, v)
      | (Dg_Err, v) \<Rightarrow> (Some None, v)
      | (Dg_Break d, v) \<Rightarrow> (Some (Some d), v)
      | (Dg_Go d rest, v) \<Rightarrow>
          (case dropWhile is_space rest of
             [] \<Rightarrow> (Some (Some d), v)
           | c # rest \<Rightarrow> if c \<noteq> CHR '','' then (Some None, v) else digest_parse v d (dropWhile is_space rest)))"
  by pat_completeness auto

termination
  by (relation "measure (\<lambda>(v, d, chall). length chall)") (simp, simp add: digest_step_shorter)

declare digest_parse.simps [simp del]

section \<open>The response\<close>

text \<open>\<open>x->data\<close> as a string: the null pointer when nothing was ever appended.\<close>

definition c_str :: "char text_buf \<Rightarrow> string option" where
  "c_str b = (if tb_len b = 0 then None else Some (tb_data b))"

definition data_of :: "header \<Rightarrow> string" where
  "data_of h = (case h of Some (Some b) \<Rightarrow> tb_data b | _ \<Rightarrow> [])"

text \<open>\<open>H(A1)\<close>'s text: with \<open>MD5-sess\<close> the hash of the first one, the nonces and a newline.\<close>

definition digest_a1 :: "'c http_info \<Rightarrow> digest_params \<Rightarrow> string \<Rightarrow> string \<Rightarrow> string option \<Rightarrow> string option \<Rightarrow> string \<Rightarrow> header \<times> 'c http_info" where
  "digest_a1 v d user pass realm nonce cnonce =
     (case new_header v of
        (a1, v) \<Rightarrow>
          let a1 = buf_append_unq v a1 user;
              a1 = putf v a1 [Some '':'', realm, Some '':'', Some pass] in
          if algo d = ALGO_MD5_SESS \<and> \<not> put_failed a1 then
            (case new_header v of
               (b, v) \<Rightarrow> (putf v (buf_append_md5 v b (data_of a1)) [Some '':'', nonce, Some '':'', Some cnonce, Some [CHR 0x0A]], v))
          else (a1, v))"

definition digest_kd :: "'c http_info \<Rightarrow> digest_params \<Rightarrow> string option \<Rightarrow> string \<Rightarrow> string \<Rightarrow> string \<Rightarrow> header \<times> 'c http_info" where
  "digest_kd v d nonce cnonce a1 a2 =
     (case new_header v of
        (kd, v) \<Rightarrow>
          let kd = buf_append_md5 v kd a1;
              kd = putf v kd [Some '':'', nonce, Some '':''];
              kd = (if qop_auth d then putf v kd [Some ''00000001:'', Some cnonce, Some '':auth:''] else kd) in
          (buf_append_md5 v kd a2, v))"

definition digest_header :: "'c http_info \<Rightarrow> header \<Rightarrow> digest_params \<Rightarrow> string \<Rightarrow> string option \<Rightarrow> string option \<Rightarrow> string \<Rightarrow> string \<Rightarrow> header" where
  "digest_header v h d user realm nonce cnonce kd =
     (let h = put v h (''Proxy-Authorization: Digest username='' @ [DQ]);
          h = buf_append_unq v h user;
          h = putf v h [Some (DQ # '', realm='' @ [DQ]), realm, Some (DQ # '', nonce='' @ [DQ]), nonce,
                Some (DQ # '', uri='' @ [DQ]), Some (hostname v), Some '':'', Some (dec_int (port v)), Some (DQ # '', '')];
          h = (if qop_auth d then put v h (''cnonce='' @ DQ # cnonce @ DQ # '', nc=00000001, qop=auth, '') else h);
          h = (case dg_opaque d of None \<Rightarrow> h | Some b \<Rightarrow> putf v h [Some (''opaque='' @ [DQ]), c_str b, Some (DQ # '', '')]);
          h = put v h (''response='' @ [DQ]);
          h = buf_append_md5 v h kd in
      put v h (DQ # crlf))"

definition digest_respond ::
  "'c http_info \<Rightarrow> header \<Rightarrow> digest_params \<Rightarrow> string \<Rightarrow> string \<Rightarrow> (int \<times> 'c http_info \<times> header) option" where
  "digest_respond v hdr d user pass =
     (case (dg_realm d, dg_nonce d) of
        (Some realm, Some nonce) \<Rightarrow>
          (case random_bytes 32 v of
             (None, v) \<Rightarrow> Some (err EINVAL, v, hdr)
           | (Some rnd, v) \<Rightarrow>
               (let (cnonce, v) = new_header v; cnonce = put_base64 v cnonce rnd in
                if put_failed cnonce then Some (err EINVAL, v, hdr)
                else let cnonce = data_of cnonce;
                         (a1, v) = digest_a1 v d user pass (c_str realm) (c_str nonce) cnonce in
                  (case map_option buf_error a1 of
                     None \<Rightarrow> None
                   | Some (Some e) \<Rightarrow> Some (err EINVAL, v, hdr)
                   | Some None \<Rightarrow>
                       let (a2, v) = new_header v; a2 = put v a2 (''CONNECT:'' @ hostname v @ '':'' @ dec_int (port v)) in
                       (case map_option buf_error a2 of
                          None \<Rightarrow> None
                        | Some (Some e) \<Rightarrow> Some (err EINVAL, v, hdr)
                        | Some None \<Rightarrow>
                            let (kd, v) = digest_kd v d (c_str nonce) cnonce (data_of a1) (data_of a2) in
                            (case map_option buf_error kd of
                               None \<Rightarrow> None
                             | Some (Some e) \<Rightarrow> Some (err EINVAL, v, hdr)
                             | Some None \<Rightarrow>
                                 Some (0, set_auth AUTH_TYPE_DIGEST AUTH_IN_PROGRESS v,
                                   digest_header v hdr d user (c_str realm) (c_str nonce) cnonce (data_of kd)))))))
      | _ \<Rightarrow> Some (err EINVAL, v, hdr))"

definition digest_authorization :: "'c http_info \<Rightarrow> header \<Rightarrow> (int \<times> 'c http_info \<times> header) option" where
  "digest_authorization v hdrbuf =
     (case (proxy_user v, proxy_pass v) of
        (Some user, Some pass) \<Rightarrow>
          if auth_state (auth v AUTH_TYPE_DIGEST) < AUTH_AVAILABLE then Some (err EINVAL, v, hdrbuf)
          else if auth_state (auth v AUTH_TYPE_DIGEST) = AUTH_IN_PROGRESS then
            Some (err EAGAIN, set_auth AUTH_TYPE_DIGEST AUTH_FAILED v, hdrbuf)
          else (case challenge (auth v AUTH_TYPE_DIGEST) of
              None \<Rightarrow> Some (err EINVAL, v, hdrbuf)
            | Some chall \<Rightarrow>
                (case digest_parse v no_params chall of
                   (None, v) \<Rightarrow> None
                 | (Some None, v) \<Rightarrow> Some (err EINVAL, v, hdrbuf)
                 | (Some (Some d), v) \<Rightarrow> digest_respond v hdrbuf d user pass))
      | _ \<Rightarrow> Some (err EINVAL, v, hdrbuf))"

section \<open>RFC 2617\<close>

text \<open>The escaped user name, as both the hash and the header have it.\<close>

definition escaped :: "string \<Rightarrow> string" where
  "escaped s = concat (map (\<lambda>c. if c = DQ \<or> c = BSL then [BSL, c] else [c]) s)"

definition rfc_H :: "(bytes \<Rightarrow> bytes) \<Rightarrow> string \<Rightarrow> string" where
  "rfc_H md5 s = concat (map hex02 (md5 (bytes_of s)))"

definition rfc_A1 :: "(bytes \<Rightarrow> bytes) \<Rightarrow> digest_algo \<Rightarrow> string \<Rightarrow> string \<Rightarrow> string \<Rightarrow> string \<Rightarrow> string \<Rightarrow> string" where
  "rfc_A1 md5 alg user realm pass nonce cnonce =
     (case alg of
        ALGO_MD5 \<Rightarrow> user @ '':'' @ realm @ '':'' @ pass
      | ALGO_MD5_SESS \<Rightarrow> rfc_H md5 (user @ '':'' @ realm @ '':'' @ pass) @ '':'' @ nonce @ '':'' @ cnonce)"

definition rfc_response :: "(bytes \<Rightarrow> bytes) \<Rightarrow> bool \<Rightarrow> string \<Rightarrow> string \<Rightarrow> string \<Rightarrow> string \<Rightarrow> string" where
  "rfc_response md5 qop a1 nonce cnonce uri =
     rfc_H md5 (rfc_H md5 a1 @ '':'' @ nonce @ '':'' @
       (if qop then ''00000001:'' @ cnonce @ '':auth:'' else []) @ rfc_H md5 (''CONNECT:'' @ uri))"

lemma adds_unq [adds_intros]: "adds h g x \<Longrightarrow> adds h (buf_append_unq v g s) (x @ escaped s)"
proof (rule adds_trans)
  have "adds h (put_bytes v (if c = DQ \<or> c = BSL then put v h [BSL] else h) [c]) (if c = DQ \<or> c = BSL then [BSL, c] else [c])" for h c
    using adds_trans [OF adds_one_put [of h v "[BSL]"] adds_one_bytes [of "put v h [BSL]" v "[c]"]] adds_one_bytes [of h v "[c]"]
    by simp
  then show "adds g (buf_append_unq v g s) (escaped s)" unfolding buf_append_unq_def escaped_def by (rule adds_foldl)
qed

lemma adds_putf [adds_intros]: "adds h g x \<Longrightarrow> adds h (putf v g args) (x @ concat (map the args))"
proof (cases "None \<in> set args")
  case True
  then have "put_failed (putf v g args)"
    by (auto simp: putf_def put_failed_def buf_failed_def split: option.splits)
  then show ?thesis by (simp add: adds_def)
qed (simp add: putf_def adds_put)

lemma adds_md5 [adds_intros]:
  assumes "adds h g x" "w_md5 (world v) = (\<lambda>b. Some (md5 b))" "\<And>b. length (md5 b) = 16"
  shows "adds h (buf_append_md5 v g s) (x @ rfc_H md5 s)"
proof (rule adds_trans [OF assms(1)])
  have "adds g (foldl (\<lambda>h b. put v h (hex02 b)) g (md5 (bytes_of s))) (concat (map hex02 (md5 (bytes_of s))))"
    by (rule adds_foldl) (rule adds_one_put)
  then show "adds g (buf_append_md5 v g s) (rfc_H md5 s)"
    using assms(2,3) by (simp add: buf_append_md5_def rfc_H_def)
qed

lemma error_iff_failed: "map_option buf_error h = Some None \<longleftrightarrow> \<not> put_failed h"
  by (cases h) (auto simp: put_failed_def buf_failed_def)

lemma data_of_written: "data_of h = put_written h"
  by (simp add: data_of_def put_written_def buf_written_def split: option.split)

text \<open>The texts of the buffers, when nothing failed.\<close>

definition md5_is :: "(bytes \<Rightarrow> bytes) \<Rightarrow> 'c http_info \<Rightarrow> bool" where
  "md5_is md5 v \<longleftrightarrow> w_md5 (world v) = (\<lambda>b. Some (md5 b)) \<and> (\<forall>b. length (md5 b) = 16)"

lemma adds_hash: "md5_is md5 v \<Longrightarrow> adds h g x \<Longrightarrow> adds h (buf_append_md5 v g s) (x @ rfc_H md5 s)"
  by (simp add: md5_is_def adds_md5)

lemma digest_kd_text:
  assumes "digest_kd v d nonce cnonce a1 a2 = (kd, w)" "\<not> put_failed kd" "md5_is md5 v"
  shows "data_of kd = rfc_H md5 a1 @ '':'' @ the nonce @ '':'' @ (if qop_auth d then ''00000001:'' @ cnonce @ '':auth:'' else []) @ rfc_H md5 a2"
proof -
  obtain h u where u: "new_header v = (h, u)" by fastforce
  then have m: "md5_is md5 u" using assms(3) new_header_fields(1) [OF u] by (auto simp: md5_is_def)
  let ?k = "putf u (buf_append_md5 u h a1) [Some '':'', nonce, Some '':'']"
  have kd: "kd = buf_append_md5 u (if qop_auth d then putf u ?k [Some ''00000001:'', Some cnonce, Some '':auth:''] else ?k) a2"
    using assms(1) u by (auto simp: digest_kd_def Let_def)
  have "adds h kd (rfc_H md5 a1 @ '':'' @ the nonce @ '':'' @ (if qop_auth d then ''00000001:'' @ cnonce @ '':auth:'' else []) @ rfc_H md5 a2)"
    unfolding kd by (cases "qop_auth d"; simp only: if_True if_False)
      (rule adds_eq, (rule adds_intros adds_hash [OF m])+, simp)+
  from adds_written [OF this assms(2)] new_header_written [OF u] show ?thesis by (simp add: data_of_written)
qed

lemma digest_a1_text:
  assumes "digest_a1 v d user pass (Some realm) nonce cnonce = (a1, w)" "\<not> put_failed a1" "md5_is md5 v"
  shows "data_of a1 = rfc_A1 md5 (algo d) (escaped user) realm pass (the nonce) cnonce @ (if algo d = ALGO_MD5_SESS then [CHR 0x0A] else []) \<and>
    md5_is md5 w \<and> hostname w = hostname v \<and> port w = port v"
proof -
  obtain h u where u: "new_header v = (h, u)" by fastforce
  note f = new_header_fields [OF u]
  have m: "md5_is md5 u" using assms(3) f by (auto simp: md5_is_def)
  let ?a = "putf u (buf_append_unq u h user) [Some '':'', Some realm, Some '':'', Some pass]"
  let ?t = "escaped user @ '':'' @ realm @ '':'' @ pass"
  have a: "adds h ?a ?t" by (rule adds_eq, (rule adds_intros)+) simp
  show ?thesis
  proof (cases "algo d = ALGO_MD5_SESS \<and> \<not> put_failed ?a")
    case True
    obtain b x where b: "new_header u = (b, x)" by fastforce
    note fx = new_header_fields [OF b]
    have mx: "md5_is md5 x" using m fx by (auto simp: md5_is_def)
    have e: "a1 = putf x (buf_append_md5 x b (data_of ?a)) [Some '':'', nonce, Some '':'', Some cnonce, Some [CHR 0x0A]]" "w = x"
      using assms(1) u b True by (auto simp: digest_a1_def Let_def)
    have "adds b a1 (rfc_H md5 (data_of ?a) @ '':'' @ the nonce @ '':'' @ cnonce @ [CHR 0x0A])"
      unfolding e(1) by (rule adds_eq, (rule adds_intros adds_hash [OF mx])+) simp
    moreover have "data_of ?a = ?t" using adds_written [OF a] new_header_written [OF u] True by (simp add: data_of_written)
    ultimately show ?thesis
      using adds_written [OF _ assms(2)] new_header_written [OF b] True mx fx f e(2) by (simp add: data_of_written rfc_A1_def)
  next
    case False
    have e: "a1 = ?a" "w = u" using assms(1) u False by (auto simp: digest_a1_def Let_def split: if_splits)
    with False assms(2) have "algo d = ALGO_MD5" by (cases "algo d") auto
    then show ?thesis
      using adds_written [OF a] assms(2) new_header_written [OF u] m f e by (simp add: data_of_written rfc_A1_def)
  qed
qed

lemma digest_header_text:
  assumes "md5_is md5 v" "dg_opaque d = map_option fst x" "\<forall>b t. x = Some (b, t) \<longrightarrow> c_str b = Some t"
  shows "adds h (digest_header v h d user (Some realm) (Some nonce) cnonce kd)
    (''Proxy-Authorization: Digest username='' @ DQ # escaped user @ DQ # '', realm='' @ DQ # realm @ DQ # '', nonce='' @
     DQ # nonce @ DQ # '', uri='' @ DQ # hostname v @ '':'' @ dec_int (port v) @ DQ # '', '' @
     (if qop_auth d then ''cnonce='' @ DQ # cnonce @ DQ # '', nc=00000001, qop=auth, '' else []) @
     (case x of None \<Rightarrow> [] | Some (b, t) \<Rightarrow> ''opaque='' @ DQ # t @ DQ # '', '') @
     ''response='' @ DQ # rfc_H md5 kd @ DQ # crlf)"
proof (cases "dg_opaque d")
  case None
  then have "x = None" using assms(2) by simp
  show ?thesis unfolding digest_header_def Let_def None option.case \<open>x = None\<close>
    by (cases "qop_auth d"; simp only: if_True if_False)
      (rule adds_eq, (rule adds_intros adds_hash [OF assms(1)])+, simp)+
next
  case (Some b)
  then obtain t where x: "x = Some (b, t)" "c_str b = Some t" using assms(2,3) by auto
  show ?thesis unfolding digest_header_def Let_def Some option.case x prod.case
    by (cases "qop_auth d"; simp only: if_True if_False)
      (rule adds_eq, (rule adds_intros adds_hash [OF assms(1)])+, simp)+
qed

text \<open>A header that was written whole has every string it was to have.\<close>

lemma putf_strings: "\<not> put_failed (putf v h args) \<Longrightarrow> None \<notin> set args"
  by (auto simp: putf_def put_failed_def buf_failed_def split: option.splits if_splits)

lemma digest_header_strings:
  assumes "\<not> put_failed (digest_header v h d user realm nonce cnonce kd)" "md5_is md5 v"
  shows "realm \<noteq> None" "nonce \<noteq> None" "dg_opaque d = Some b \<Longrightarrow> c_str b \<noteq> None"
proof -
  let ?fin = "\<lambda>g. put v (buf_append_md5 v (put v g (''response='' @ [DQ])) kd) (DQ # crlf)"
  let ?qop = "\<lambda>g. if qop_auth d then put v g (''cnonce='' @ DQ # cnonce @ DQ # '', nc=00000001, qop=auth, '') else g"
  let ?args = "[Some (DQ # '', realm='' @ [DQ]), realm, Some (DQ # '', nonce='' @ [DQ]), nonce,
    Some (DQ # '', uri='' @ [DQ]), Some (hostname v), Some '':'', Some (dec_int (port v)), Some (DQ # '', '')]"
  let ?opq = "\<lambda>g. case dg_opaque d of None \<Rightarrow> g | Some b \<Rightarrow> putf v g [Some (''opaque='' @ [DQ]), c_str b, Some (DQ # '', '')]"
  let ?f = "putf v (buf_append_unq v (put v h (''Proxy-Authorization: Digest username='' @ [DQ])) user) ?args"
  have eq: "digest_header v h d user realm nonce cnonce kd = ?fin (?opq (?qop ?f))"
    unfolding digest_header_def Let_def by (rule refl)
  have e: "\<exists>x. adds g (?fin g) x" for g
    by (rule exI, (rule adds_intros adds_hash [OF assms(2)])+)
  then have o: "\<not> put_failed (?opq (?qop ?f))" using assms(1) unfolding eq adds_def by blast
  show "dg_opaque d = Some b \<Longrightarrow> c_str b \<noteq> None" using putf_strings o by fastforce
  have "\<exists>x. adds g (?opq g) x" for g
  proof (cases "dg_opaque d")
    case None
    then show ?thesis using adds_refl by auto
  next
    case (Some b)
    show ?thesis unfolding Some option.case by (rule exI, (rule adds_intros)+)
  qed
  then have "\<not> put_failed (?qop ?f)" using o unfolding adds_def by blast
  moreover have "\<exists>x. adds g (?qop g) x" for g
    by (cases "qop_auth d"; simp only: if_True if_False) (rule exI, (rule adds_intros)+)+
  ultimately have "\<not> put_failed ?f" unfolding adds_def by blast
  from putf_strings [OF this] have "None \<noteq> realm \<and> None \<noteq> nonce" by simp
  then show "realm \<noteq> None" "nonce \<noteq> None" by metis+
qed

text \<open>The text of an answer: the parameters of the challenge and the hash of the RFC over them.\<close>

definition digest_answer :: "(bytes \<Rightarrow> bytes) \<Rightarrow> digest_params \<Rightarrow> string \<Rightarrow> string \<Rightarrow> string \<Rightarrow> string \<Rightarrow> string \<Rightarrow> string \<Rightarrow> string" where
  "digest_answer md5 d user pass uri realm nonce cnonce =
     (let a1 = rfc_A1 md5 (algo d) (escaped user) realm pass nonce cnonce @ (if algo d = ALGO_MD5_SESS then [CHR 0x0A] else []) in
      ''Proxy-Authorization: Digest username='' @ DQ # escaped user @ DQ # '', realm='' @ DQ # realm @
      DQ # '', nonce='' @ DQ # nonce @ DQ # '', uri='' @ DQ # uri @ DQ # '', '' @
      (if qop_auth d then ''cnonce='' @ DQ # cnonce @ DQ # '', nc=00000001, qop=auth, '' else []) @
      (case dg_opaque d of None \<Rightarrow> [] | Some b \<Rightarrow> ''opaque='' @ DQ # the (c_str b) @ DQ # '', '') @
      ''response='' @ DQ # rfc_response md5 (qop_auth d) a1 nonce cnonce uri @ DQ # crlf)"

lemma digest_respond_text:
  assumes "digest_respond v hdr d user pass = Some (0, w, hdr')" "\<not> put_failed hdr'" "md5_is md5 v"
  shows "\<exists>rb realm nb nonce rnd. dg_realm d = Some rb \<and> c_str rb = Some realm \<and> dg_nonce d = Some nb \<and> c_str nb = Some nonce \<and>
    (\<forall>b. dg_opaque d = Some b \<longrightarrow> c_str b \<noteq> None) \<and> fst (random_bytes 32 v) = Some rnd \<and>
    put_written hdr' = put_written hdr @ digest_answer md5 d user pass (hostname v @ '':'' @ dec_int (port v)) realm nonce (b64_text rnd)"
proof -
  obtain rb nb where d: "dg_realm d = Some rb" "dg_nonce d = Some nb"
    using assms(1) by (auto simp: digest_respond_def split: option.splits)
  obtain r v1 where r: "random_bytes 32 v = (r, v1)" by fastforce
  then obtain rnd where rnd: "r = Some rnd" using assms(1) d by (cases r) (auto simp: digest_respond_def)
  note f1 = random_bytes_fields [OF r]
  obtain c v2 where c: "new_header v1 = (c, v2)" by fastforce
  note f2 = new_header_fields [OF c]
  let ?cn = "put_base64 v2 c rnd"
  have cn: "\<not> put_failed ?cn" using assms(1) d r rnd c by (auto simp: digest_respond_def Let_def split: if_splits)
  have cnt: "data_of ?cn = b64_text rnd"
    using adds_written [OF adds_one_base64 cn] new_header_written [OF c] by (simp add: data_of_written)
  obtain a1 v3 where a1: "digest_a1 v2 d user pass (c_str rb) (c_str nb) (b64_text rnd) = (a1, v3)" by fastforce
  obtain a2 v4 where a2: "new_header v3 = (a2, v4)" by fastforce
  let ?a2 = "put v4 a2 (''CONNECT:'' @ hostname v4 @ '':'' @ dec_int (port v4))"
  obtain kd v5 where kd: "digest_kd v4 d (c_str nb) (b64_text rnd) (data_of a1) (data_of ?a2) = (kd, v5)" by fastforce
  have all: "\<not> put_failed a1" "\<not> put_failed ?a2" "\<not> put_failed kd"
      "hdr' = digest_header v5 hdr d user (c_str rb) (c_str nb) (b64_text rnd) (data_of kd)"
    using assms(1) d r rnd c cn cnt a1 a2 kd
    by (auto simp: digest_respond_def Let_def error_iff_failed [symmetric] split: option.splits)
  have m2: "md5_is md5 v2" using assms(3) f1 f2 by (auto simp: md5_is_def)
  obtain x where x: "new_header v4 = (x, v5)" using kd by (auto simp: digest_kd_def Let_def split: prod.splits)
  note f4 = new_header_fields [OF a2] and f5 = new_header_fields [OF x]
  have "w_md5 (world v3) = w_md5 (world v2)"
    using a1 by (auto simp: digest_a1_def Let_def split: prod.splits if_splits dest!: new_header_fields(1))
  then have m3: "md5_is md5 v4" "md5_is md5 v5" using m2 f4 f5 by (simp_all add: md5_is_def)
  note str = digest_header_strings [OF assms(2) [unfolded all(4)] m3(2)]
  then obtain realm nonce where rn: "c_str rb = Some realm" "c_str nb = Some nonce" by auto
  note t1 = digest_a1_text [OF a1 [unfolded rn] all(1) m2]
  have t2: "data_of ?a2 = ''CONNECT:'' @ hostname v @ '':'' @ dec_int (port v)"
    using adds_written [OF adds_one_put all(2)] new_header_written [OF a2] f1 f2 t1 f4 by (simp add: data_of_written)
  note t3 = digest_kd_text [OF kd [unfolded rn] all(3) m3(1)]
  have host: "hostname v5 = hostname v" "port v5 = port v" using f1 f2 t1 f4 f5 by simp_all
  let ?x = "map_option (\<lambda>b. (b, the (c_str b))) (dg_opaque d)"
  have "dg_opaque d = map_option fst ?x" "\<forall>b t. ?x = Some (b, t) \<longrightarrow> c_str b = Some t"
    using str(3) by (auto simp: map_option.compositionality comp_def option.map_ident)
  note h = digest_header_text [OF m3(2) this, of hdr user realm nonce "b64_text rnd" "data_of kd", folded rn, folded all(4)]
  have "put_written hdr' = put_written hdr @ digest_answer md5 d user pass (hostname v @ '':'' @ dec_int (port v)) realm nonce (b64_text rnd)"
    using adds_written [OF h assms(2)] unfolding host t3 t2 conjunct1 [OF t1]
    by (cases "dg_opaque d") (simp_all add: digest_answer_def rfc_response_def Let_def rn)
  with d rn str(3) r rnd show ?thesis by auto
qed

text \<open>Reading the challenge only uses memory.\<close>

lemma alloc_md5: "alloc v = (ok, w) \<Longrightarrow> w_md5 (world w) = w_md5 (world v) \<and> hostname w = hostname v \<and> port w = port v \<and> w_rand (world w) = w_rand (world v)"
  by (auto simp: alloc_def split: list.splits)

lemma get_qs_md5: "get_qs v str = (r, w) \<Longrightarrow> w_md5 (world w) = w_md5 (world v) \<and> hostname w = hostname v \<and> port w = port v \<and> w_rand (world w) = w_rand (world v)"
  by (auto simp: get_qs_def dest: alloc_md5 split: list.splits if_splits prod.splits)

lemma digest_param_md5:
  "digest_param v d chall = (r, w) \<Longrightarrow> w_md5 (world w) = w_md5 (world v) \<and> hostname w = hostname v \<and> port w = port v \<and> w_rand (world w) = w_rand (world v)"
  by (auto simp: digest_param_def Let_def dest: get_qs_md5 split: if_splits prod.splits option.splits list.splits)

lemma digest_parse_md5:
  "digest_parse v d chall = (r, w) \<Longrightarrow> w_md5 (world w) = w_md5 (world v) \<and> hostname w = hostname v \<and> port w = port v \<and> w_rand (world w) = w_rand (world v)"
proof (induction v d chall rule: digest_parse.induct)
  case (1 v d chall)
  obtain x u where u: "digest_param v d chall = (x, u)" by fastforce
  note p = digest_param_md5 [OF u]
  show ?case
  proof (cases "\<exists>d' rest t. chall \<noteq> [] \<and> x = Dg_Go d' rest \<and> dropWhile is_space rest = CHR '','' # t")
    case True
    then obtain d' rest t where t: "chall \<noteq> []" "x = Dg_Go d' rest" "dropWhile is_space rest = CHR '','' # t" by blast
    have "digest_parse v d chall = digest_parse u d' (dropWhile is_space t)"
      by (subst digest_parse.simps) (simp add: t u)
    with 1 t u p show ?thesis by simp
  next
    case False
    with 1(2) u p show ?thesis
      by (subst (asm) digest_parse.simps) (auto split: if_splits digest_step.splits list.splits)
  qed
qed

text \<open>
  C21 (digest_rfc2617): When digest_authorization returns 0 and the header it leaves is whole, the client had a user name, a password and a
  challenge that was read to the end, with a realm and a nonce; and what was added to the header answers that challenge as RFC 2617
  asks: it repeats realm, nonce and, when the challenge has one, opaque; with qop it has the client's nonce, which is 32
  fresh random bytes in base64; and the response is the hash of the RFC's three parts over them. The user name is hashed in the escaped
  form in which the header has it. All this for \<open>MD5\<close>; with \<open>MD5-sess\<close> the hash of the first part is taken with a newline at its end that the RFC does
  not have.
\<close>

theorem digest_rfc2617:
  assumes "digest_authorization v hdr = Some (0, w, hdr')" "\<not> put_failed hdr'" "md5_is md5 v"
  shows "\<exists>user pass chall d u rb realm nb nonce rnd.
    proxy_user v = Some user \<and> proxy_pass v = Some pass \<and> challenge (auth v AUTH_TYPE_DIGEST) = Some chall \<and>
    digest_parse v no_params chall = (Some (Some d), u) \<and>
    dg_realm d = Some rb \<and> c_str rb = Some realm \<and> dg_nonce d = Some nb \<and> c_str nb = Some nonce \<and>
    (\<forall>b. dg_opaque d = Some b \<longrightarrow> c_str b \<noteq> None) \<and> fst (random_bytes 32 v) = Some rnd \<and>
    put_written hdr' = put_written hdr @ digest_answer md5 d user pass (hostname v @ '':'' @ dec_int (port v)) realm nonce (b64_text rnd)"
proof -
  obtain user pass chall d u where p: "proxy_user v = Some user" "proxy_pass v = Some pass" "challenge (auth v AUTH_TYPE_DIGEST) = Some chall"
    "digest_parse v no_params chall = (Some (Some d), u)" "digest_respond u hdr d user pass = Some (0, w, hdr')"
    using assms(1) by (auto simp: digest_authorization_def split: option.splits if_splits prod.splits)
  note f = digest_parse_md5 [OF p(4)]
  have "md5_is md5 u" using assms(3) f by (simp add: md5_is_def)
  from digest_respond_text [OF p(5) assms(2) this]
  obtain rb realm nb nonce rnd where r: "dg_realm d = Some rb" "c_str rb = Some realm" "dg_nonce d = Some nb" "c_str nb = Some nonce"
    "\<forall>b. dg_opaque d = Some b \<longrightarrow> c_str b \<noteq> None" "fst (random_bytes 32 u) = Some rnd"
    "put_written hdr' = put_written hdr @ digest_answer md5 d user pass (hostname u @ '':'' @ dec_int (port u)) realm nonce (b64_text rnd)"
    by blast
  moreover have "fst (random_bytes 32 u) = fst (random_bytes 32 v)" using f by (simp add: random_bytes_def split: list.split)
  ultimately show ?thesis using p f by auto
qed

section \<open>Answering\<close>

lemma room_unq: "room v h (2 * length s + n) \<Longrightarrow> room v (buf_append_unq v h s) n"
proof (induction s arbitrary: h)
  case (Cons c s)
  then have "room v h (1 + (1 + (2 * length s + n)))" by simp
  then have "room v (put_bytes v (if c = DQ \<or> c = BSL then put v h [BSL] else h) [c]) (2 * length s + n)"
    by (intro room_bytes) (auto intro!: room_put elim: room_less)
  from Cons.IH [OF this] show ?case by (simp add: buf_append_unq_def)
qed (simp add: buf_append_unq_def)

lemma room_md5:
  assumes "md5_is md5 v" "room v h (32 + n)"
  shows "room v (buf_append_md5 v h s) n"
proof -
  have "room v g (2 * length xs + n) \<Longrightarrow> room v (foldl (\<lambda>h b. put v h (hex02 b)) g xs) n" for g xs
  proof (induction xs arbitrary: g)
    case (Cons a xs)
    have "room v (put v g (hex02 a)) (2 * length xs + n)" by (rule room_put) (use Cons.prems in \<open>simp add: hex02_def\<close>)
    from Cons.IH [OF this] show ?case by simp
  qed simp
  with assms show ?thesis by (simp add: md5_is_def buf_append_md5_def)
qed

lemma room_putf: "None \<notin> set args \<Longrightarrow> room v h (length (concat (map the args)) + n) \<Longrightarrow> room v (putf v h args) n"
  by (simp add: putf_def room_put)

definition digest_size :: "'c http_info \<Rightarrow> string \<Rightarrow> string \<Rightarrow> string \<Rightarrow> string \<Rightarrow> nat" where
  "digest_size v user pass realm nonce =
     2 * length user + length pass + length realm + length nonce + length (hostname v) + length (dec_int (port v))"

lemma digest_a1_room:
  assumes "digest_a1 v d user pass (Some realm) (Some nonce) cnonce = (a1, w)" "md5_is md5 v"
    and "w_mem (world v) = (\<lambda>_. True)" "w_alloc (world v) = []" "digest_size v user pass realm nonce + length cnonce < 4000"
  shows "room w a1 0 \<and> w = v"
proof -
  obtain h where h: "new_header v = (h, v)" using room_new(2) [OF _ assms(3,4), of _ _ 0] by (metis prod.collapse zero_less_numeral)
  let ?a = "putf v (buf_append_unq v h user) [Some '':'', Some realm, Some '':'', Some pass]"
  have a: "room v ?a 0"
    by (intro room_putf room_unq; (simp; fail)?; rule room_new(1) [OF h assms(3,4)]; use assms(5) in \<open>simp add: digest_size_def\<close>)
  have "room v (putf v (buf_append_md5 v h x) [Some '':'', Some nonce, Some '':'', Some cnonce, Some [CHR 0x0A]]) 0" for x
    by (intro room_putf room_md5 [OF assms(2)]; (simp; fail)?; rule room_new(1) [OF h assms(3,4)]; use assms(5) in \<open>simp add: digest_size_def\<close>)
  with a assms(1) h show ?thesis by (auto simp: digest_a1_def Let_def split: if_splits)
qed

lemma digest_respond_room:
  assumes w: "w_mem (world v) = (\<lambda>_. True)" "w_alloc (world v) = []" "w_rand (world v) = Some rnd # rs" "md5_is md5 v"
    and d: "dg_realm d = Some rb" "c_str rb = Some realm" "dg_nonce d = Some nb" "c_str nb = Some nonce"
      "\<forall>b. dg_opaque d = Some b \<longrightarrow> (\<exists>t. c_str b = Some t \<and> length t \<le> 100)"
    and size: "digest_size v user pass realm nonce < 3600" "room v hdr (digest_size v user pass realm nonce + 420)"
  shows "\<exists>w hdr'. digest_respond v hdr d user pass = Some (0, w, hdr') \<and> \<not> put_failed hdr'"
proof -
  let ?v = "upd_world (\<lambda>w. w\<lparr>w_rand := rs\<rparr>) v" and ?rnd = "take 32 (rnd @ replicate 32 0)"
  let ?n = "digest_size v user pass realm nonce"
  have v: "w_mem (world ?v) = (\<lambda>_. True)" "w_alloc (world ?v) = []" "md5_is md5 ?v" "digest_size ?v user pass realm nonce = ?n"
    "hostname ?v = hostname v" "port ?v = port v"
    using w by (simp_all add: md5_is_def digest_size_def)
  have r: "random_bytes 32 v = (Some ?rnd, ?v)" using w(3) by (simp add: random_bytes_def)
  obtain h where h: "new_header ?v = (h, ?v)" using room_new(2) [OF _ v(1,2), of _ _ 0] by (metis prod.collapse zero_less_numeral)
  note new = room_new(1) [OF h v(1,2)]
  have cn: "\<not> put_failed (put_base64 ?v h ?rnd)"
    by (rule room_ok [of ?v _ 0], rule room_base64, rule new) simp
  let ?cn = "data_of (put_base64 ?v h ?rnd)"
  have lcn: "length ?cn = 44"
    using adds_written [OF adds_one_base64 cn] new_header_written [OF h] by (simp add: data_of_written length_b64_text)
  obtain a1 x where a1: "digest_a1 ?v d user pass (Some realm) (Some nonce) ?cn = (a1, x)" by fastforce
  from digest_a1_room [OF a1 v(3,1,2)] v size lcn have a1r: "room ?v a1 0" "x = ?v" by auto
  let ?a2 = "put ?v h (''CONNECT:'' @ hostname ?v @ '':'' @ dec_int (port ?v))"
  have a2: "room ?v ?a2 0"
    by (rule room_put, rule new) (use size(1) v in \<open>simp add: digest_size_def\<close>)
  obtain kd y where kd: "digest_kd ?v d (Some nonce) ?cn (data_of a1) (data_of ?a2) = (kd, y)" by fastforce
  have kdr: "room ?v kd 0" "y = ?v"
  proof -
    have k: "room ?v (putf ?v (buf_append_md5 ?v h (data_of a1)) [Some '':'', Some nonce, Some '':'']) 200"
      by (intro room_putf room_md5 [OF v(3)]; (simp; fail)?; rule new; use size(1) v in \<open>simp add: digest_size_def\<close>)
    then have "room ?v (putf ?v (putf ?v (buf_append_md5 ?v h (data_of a1)) [Some '':'', Some nonce, Some '':''])
        [Some ''00000001:'', Some ?cn, Some '':auth:'']) 100"
      by (intro room_putf [OF _ room_less [OF k]]) (use lcn in simp_all)
    note k2 = this
    have "room ?v (buf_append_md5 ?v (putf ?v (buf_append_md5 ?v h (data_of a1)) [Some '':'', Some nonce, Some '':'']) x) 0" for x
      by (rule room_md5 [OF v(3)], rule room_less [OF k]) simp
    moreover have "room ?v (buf_append_md5 ?v (putf ?v (putf ?v (buf_append_md5 ?v h (data_of a1)) [Some '':'', Some nonce, Some '':''])
        [Some ''00000001:'', Some ?cn, Some '':auth:'']) x) 0" for x
      by (rule room_md5 [OF v(3)], rule room_less [OF k2]) simp
    ultimately have "room ?v kd 0 \<and> y = ?v"
      using kd h by (cases "qop_auth d") (simp_all add: digest_kd_def Let_def; (elim conjE, hypsubst, simp))+
    then show "room ?v kd 0" "y = ?v" by simp_all
  qed
  have hdr: "room ?v hdr (?n + 420)" using size(2) by (simp add: room_def)
  have "room ?v (digest_header ?v hdr d user (Some realm) (Some nonce) ?cn (data_of kd)) 0"
  proof (cases "dg_opaque d")
    case None
    show ?thesis unfolding digest_header_def Let_def None option.case
      by (cases "qop_auth d"; simp only: if_True if_False)
        (intro room_put room_md5 [OF v(3)] room_putf room_unq; (simp; fail)?; rule room_less [OF hdr];
          use lcn v in \<open>simp add: digest_size_def\<close>)+
  next
    case (Some b)
    then obtain t where t: "c_str b = Some t" "length t \<le> 100" using d(5) by auto
    show ?thesis unfolding digest_header_def Let_def Some option.case t(1)
      by (cases "qop_auth d"; simp only: if_True if_False)
        (intro room_put room_md5 [OF v(3)] room_putf room_unq; (simp; fail)?; rule room_less [OF hdr];
          use lcn v t(2) in \<open>simp add: digest_size_def\<close>)+
  qed
  then show ?thesis
    using room_ok [OF a1r(1)] room_ok [OF a2] room_ok [OF kdr(1)] room_ok r h cn a1 a1r(2) kd kdr(2) d
    by (auto simp: digest_respond_def Let_def error_iff_failed [symmetric])
qed

definition digest_client :: "unit http_info" where
  "digest_client = upd_auth AUTH_TYPE_DIGEST (\<lambda>a. a\<lparr>challenge := Some (''realm='' @ DQ # ''r'' @ DQ # '', nonce='' @ DQ # ''n'' @ DQ #
       '', opaque='' @ DQ # ''o'' @ DQ # '', qop='' @ DQ # ''auth'' @ [DQ])\<rparr>)
     (upd_world (\<lambda>w. w\<lparr>w_rand := [Some []], w_md5 := (\<lambda>_. Some (replicate 16 0))\<rparr>) (http_sample ()))"

definition digest_asked :: digest_params where
  "digest_asked = \<lparr>dg_realm = Some \<lparr>tb_data = ''r'', tb_len = 4096, tb_error = None\<rparr>,
     dg_nonce = Some \<lparr>tb_data = ''n'', tb_len = 4096, tb_error = None\<rparr>,
     dg_opaque = Some \<lparr>tb_data = ''o'', tb_len = 4096, tb_error = None\<rparr>, qop_auth = True, algo = ALGO_MD5\<rparr>"

lemma digest_client_parse:
  "digest_parse digest_client no_params (the (challenge (auth digest_client AUTH_TYPE_DIGEST))) = (Some (Some digest_asked), digest_client)"
proof -
  have al: "alloc digest_client = (True, digest_client)" "w_mem (world digest_client) = (\<lambda>_. True)"
    by (simp_all add: alloc_def digest_client_def http_sample_def quiet_world_def)
  have q: "get_qs digest_client (DQ # c # DQ # rest) = (Some (\<lparr>tb_data = [c], tb_len = 4096, tb_error = None\<rparr>, rest), digest_client)"
    if "c \<noteq> DQ" "c \<noteq> BSL" for c rest
    using that by (simp add: get_qs_def al buf_alloc_def empty_buf_def buf_append_bytes_def chunk_room buf_error_def)
  have c: "the (challenge (auth digest_client AUTH_TYPE_DIGEST)) = ''realm='' @ DQ # ''r'' @ DQ # '', nonce='' @ DQ # ''n'' @ DQ #
       '', opaque='' @ DQ # ''o'' @ DQ # '', qop='' @ DQ # ''auth'' @ [DQ]"
    by (simp add: digest_client_def)
  show ?thesis unfolding c
    by (simp add: digest_parse.simps digest_param_def starts_def q is_space_def no_params_def digest_asked_def)
qed

lemma digest_sample:
  "\<exists>w h. digest_authorization digest_client (Some (Some empty_buf)) = Some (0, w, h) \<and> \<not> put_failed h"
proof -
  have "\<exists>w h. digest_respond digest_client (Some (Some empty_buf)) digest_asked ''me'' ''secret'' = Some (0, w, h) \<and> \<not> put_failed h"
    by (rule digest_respond_room [of digest_client "[]" "[]" "\<lambda>_. replicate 16 0" _ "the (dg_realm digest_asked)" "''r''" "the (dg_nonce digest_asked)" "''n''"])
      (simp_all add: digest_client_def http_sample_def quiet_world_def md5_is_def digest_asked_def no_params_def c_str_def
        digest_size_def room_def empty_buf_def dec_int_def dec_nat.simps)
  moreover have "proxy_user digest_client = Some ''me''" "proxy_pass digest_client = Some ''secret''"
    "auth_state (auth digest_client AUTH_TYPE_DIGEST) = AUTH_AVAILABLE" "challenge (auth digest_client AUTH_TYPE_DIGEST) \<noteq> None"
    by (simp_all add: digest_client_def http_sample_def)
  ultimately show ?thesis
    using digest_client_parse by (auto simp: digest_authorization_def)
qed

theorem digest_rfc2617_witness:
  "\<exists>w h. digest_authorization digest_client (Some (Some empty_buf)) = Some (0, w, h) \<and>
    put_written h = digest_answer (\<lambda>_. replicate 16 0) digest_asked ''me'' ''secret'' ''vpn.example.com:443'' ''r'' ''n'' (b64_text (replicate 32 0))"
proof -
  obtain w h where d: "digest_authorization digest_client (Some (Some empty_buf)) = Some (0, w, h)" "\<not> put_failed h"
    using digest_sample by blast
  have e: "proxy_user digest_client = Some ''me''" "proxy_pass digest_client = Some ''secret''" "challenge (auth digest_client AUTH_TYPE_DIGEST) \<noteq> None"
    "md5_is (\<lambda>_. replicate 16 0) digest_client" "put_written (Some (Some empty_buf)) = []" "fst (random_bytes 32 digest_client) = Some (replicate 32 0)"
    "hostname digest_client @ '':'' @ dec_int (port digest_client) = ''vpn.example.com:443''"
    by (simp_all add: md5_is_def digest_client_def http_sample_def random_bytes_def put_written_def buf_written_def empty_buf_def
        dec_int_def dec_nat.simps char_of_def bit_0)
  have c: "c_str (the (dg_realm digest_asked)) = Some ''r''" "c_str (the (dg_nonce digest_asked)) = Some ''n''"
    by (simp_all add: digest_asked_def c_str_def)
  from digest_rfc2617 [OF d e(4)] show ?thesis
    using d(1) digest_client_parse c unfolding e(1,2,5,6,7) by auto
qed

section \<open>Reading a challenge\<close>

lemma starts_param:
  assumes "starts (n @ ''='') (name @ ''='' @ x)" "CHR ''='' \<notin> set n" "CHR ''='' \<notin> set name"
  shows "n = name"
proof -
  obtain y where y: "name @ ''='' @ x = n @ ''='' @ y"
    using append_take_drop_id [of "length (n @ ''='')" "name @ ''='' @ x"] assms(1) unfolding starts_def by (metis append_assoc)
  have "takeWhile (\<lambda>c. c \<noteq> CHR ''='') (m @ ''='' @ z) = m" if "CHR ''='' \<notin> set m" for m z
    using that by (subst takeWhile_append2) auto
  from this [OF assms(2), of y] this [OF assms(3), of x] show ?thesis unfolding y by (rule trans [OF sym])
qed

lemma digest_param_hangs:
  assumes "CHR ''='' \<notin> set name" "name \<notin> {''realm'', ''nonce'', ''qop'', ''opaque'', ''algorithm''}" "c \<noteq> DQ"
  shows "digest_param v d (name @ ''='' @ DQ # c # rest) = (Dg_Hang, v)"
proof -
  let ?s = "name @ ''='' @ DQ # c # rest"
  have n: "\<not> starts (n @ ''='') ?s" if "n \<noteq> name" "CHR ''='' \<notin> set n" for n
    using starts_param [of n name "DQ # c # rest"] that assms(1) by auto
  have s: "\<not> starts ''realm='' ?s" "\<not> starts ''nonce='' ?s" "\<not> starts ''qop='' ?s" "\<not> starts ''opaque='' ?s" "\<not> starts ''algorithm='' ?s"
    using n [of "''realm''"] n [of "''nonce''"] n [of "''qop''"] n [of "''opaque''"] n [of "''algorithm''"] assms(2) by auto
  have "dropWhile (\<lambda>x. x \<noteq> CHR ''='') ?s = ''='' @ DQ # c # rest"
    using assms(1) by (subst dropWhile_append2) auto
  moreover have "skip_quoted False (c # rest) = None"
    using skip_quoted_returns [of False "c # rest"] assms(3) by (cases "skip_quoted False (c # rest)") auto
  ultimately show ?thesis
    unfolding digest_param_def Let_def if_not_P [OF s(1)] if_not_P [OF s(2)] if_not_P [OF s(3)] if_not_P [OF s(4)] if_not_P [OF s(5)]
    by simp
qed

text \<open>
  digest_authorization does not return for a challenge that starts with a quoted parameter it does not
  know, unless the quoted value is empty: the loop that is to skip the value never moves.
\<close>

theorem digest_hangs:
  assumes "proxy_user v = Some user" "proxy_pass v = Some pass" "auth_state (auth v AUTH_TYPE_DIGEST) = AUTH_AVAILABLE"
    and "challenge (auth v AUTH_TYPE_DIGEST) = Some (name @ ''='' @ DQ # c # rest)" "c \<noteq> DQ"
    and "CHR ''='' \<notin> set name" "name \<notin> {''realm'', ''nonce'', ''qop'', ''opaque'', ''algorithm''}"
  shows "digest_authorization v hdrbuf = None"
  using assms(1-4) digest_param_hangs [OF assms(6,7,5), of v no_params rest] by (simp add: digest_authorization_def digest_parse.simps)

definition domain_client :: "unit http_info" where
  "domain_client = upd_auth AUTH_TYPE_DIGEST (\<lambda>a. a\<lparr>challenge := Some (''domain='' @ DQ # ''/'' @ [DQ])\<rparr>) (http_sample ())"

theorem digest_hangs_witness: "digest_authorization domain_client (Some None) = None"
  by (rule digest_hangs [where name = "''domain''" and c = "CHR ''/''" and rest = "[DQ]" and user = "''me''" and pass = "''secret''"])
    (simp_all add: domain_client_def http_sample_def)

lemma get_qs_loop_escaped:
  assumes "tb_error b = None" "tb_len b = 0 \<or> tb_len b = 4096" "tb_pos b + length (escaped s) < 4096"
  shows "\<exists>b'. get_qs_loop (\<lambda>_. True) (Some b) False (escaped s @ DQ # rest) = Some (b', rest) \<and> tb_data b' = tb_data b @ escaped s \<and>
    tb_len b' = (if s = [] then tb_len b else 4096)"
  using assms
proof (induction s arbitrary: b)
  case (Cons c s)
  let ?x = "if c = DQ \<or> c = BSL then [BSL, c] else [c]"
  let ?b = "b\<lparr>tb_len := 4096, tb_data := tb_data b @ ?x\<rparr>"
  have e: "escaped (c # s) = ?x @ escaped s" by (simp add: escaped_def)
  have one: "tb_pos a + 1 < 4096 \<Longrightarrow> tb_error a = None \<Longrightarrow> tb_len a = 0 \<or> tb_len a = 4096 \<Longrightarrow>
      buf_append_bytes (\<lambda>_. True) (Some a) [x] = Some (a\<lparr>tb_len := 4096, tb_data := tb_data a @ [x]\<rparr>)" for a x
    by (simp add: buf_append_bytes_def chunk_room)
  have "get_qs_loop (\<lambda>_. True) (Some b) False (escaped (c # s) @ DQ # rest) = get_qs_loop (\<lambda>_. True) (Some ?b) False (escaped s @ DQ # rest)"
    using Cons.prems unfolding e by (auto simp: one)
  moreover from Cons.IH [of ?b] Cons.prems have "\<exists>b'. get_qs_loop (\<lambda>_. True) (Some ?b) False (escaped s @ DQ # rest) = Some (b', rest) \<and>
      tb_data b' = tb_data ?b @ escaped s \<and> tb_len b' = 4096"
    unfolding e by auto
  ultimately show ?case by (auto simp: e)
qed (simp add: escaped_def buf_error_def)

text \<open>
  What buf_append_unq writes between quotes, as the user name in the response, get_qs reads back in the
  escaped form and goes on after the closing quote.
\<close>

theorem get_qs_escaped:
  assumes "w_mem (world v) = (\<lambda>_. True)" "w_alloc (world v) = []" "2 * length s < 4096"
  shows "\<exists>b. get_qs v (DQ # put_written (buf_append_unq v (Some (Some empty_buf)) s) @ DQ # rest) = (Some (b, rest), v) \<and>
    tb_data b = escaped s \<and> c_str b = (if s = [] then None else Some (escaped s))"
proof -
  have "room v (Some (Some empty_buf)) (2 * length s + 0)" using assms by (simp add: room_def empty_buf_def)
  from room_ok [OF room_unq [OF this]] have "\<not> put_failed (buf_append_unq v (Some (Some empty_buf)) s)" .
  from adds_written [OF adds_unq [OF adds_refl] this]
  have w: "put_written (buf_append_unq v (Some (Some empty_buf)) s) = escaped s"
    by (simp add: put_written_def buf_written_def empty_buf_def)
  have "length (escaped s) \<le> 2 * length s"
    unfolding escaped_def by (induction s) auto
  with assms(3) have "tb_pos empty_buf + length (escaped s) < 4096" by (simp add: empty_buf_def)
  from get_qs_loop_escaped [OF _ _ this, of rest] obtain b where
    "get_qs_loop (\<lambda>_. True) (Some empty_buf) False (escaped s @ DQ # rest) = Some (b, rest)"
    "tb_data b = escaped s" "tb_len b = (if s = [] then 0 else 4096)"
    by (auto simp: empty_buf_def)
  with assms(1,2) show ?thesis unfolding w
    by (intro exI [of _ b]) (simp add: get_qs_def alloc_def buf_alloc_def c_str_def)
qed

theorem get_qs_escaped_witness:
  "\<exists>b. get_qs (http_sample ()) (DQ # put_written (buf_append_unq (http_sample ()) (Some (Some empty_buf)) (''a'' @ [DQ])) @ DQ # '', qop'') =
      (Some (b, '', qop''), http_sample ()) \<and> tb_data b = escaped (''a'' @ [DQ]) \<and> c_str b = Some (escaped (''a'' @ [DQ]))"
  using get_qs_escaped [of "http_sample ()" "''a'' @ [DQ]" "'', qop''"] by (simp add: http_sample_def quiet_world_def)

end
