(* ===== verification/Net_Io.thy ===== *)
theory Net_Io
  imports Prelude
begin

text \<open>
  Reading and writing under the HTTP code: the TLS connection (\<open>openconnect_openssl_read\<close>, \<open>_write\<close> and \<open>_gets\<close> of
  \<open>core/openssl.c\<close>) and the plain socket to a proxy (\<open>proxy_read\<close>, \<open>proxy_write\<close> and \<open>proxy_gets\<close> of
  \<open>core/http.c\<close>). Both are instances of one interface, the locale \<open>byte_source\<close>.
\<close>

section \<open>A connection\<close>

text \<open>
  What \<open>recv\<close> or \<open>SSL_read\<close> will answer, in order: bytes that are there, an error, the end of the
  connection; \<open>In_Idle\<close> is a round in which nothing could be read, after \<open>select\<close> returned for another reason or, with TLS, on
  \<open>SSL_ERROR_WANT_READ\<close> and \<open>SSL_ERROR_WANT_WRITE\<close>; \<open>In_Cancel\<close> is a round in which the application's command
  was seen by \<open>is_cancel_pending\<close>. With no answer left \<open>select\<close> blocks for ever. \<open>net_out\<close> is the same for
  \<open>send\<close> and \<open>SSL_write\<close>; \<open>Out n\<close> takes up to \<open>n\<close> bytes.
\<close>

datatype net_input = In string | In_Error errno | In_Closed | In_Idle | In_Cancel
datatype net_output = Out nat | Out_Error errno | Out_Idle | Out_Cancel

record net =
  net_open :: bool
  net_in :: "net_input list"
  net_out :: "net_output list"
  net_sent :: string
  net_cancelled :: bool

section \<open>The proxy socket\<close>

text \<open>
  The loop of \<open>proxy_read\<close>: \<open>got\<close> are the bytes already in the caller's buffer. Results carry what was
  stored, also when the call fails.
\<close>

fun proxy_read_loop :: "nat \<Rightarrow> string \<Rightarrow> net_input list \<Rightarrow> net \<Rightarrow> (int \<times> string \<times> net) option" where
  "proxy_read_loop len got rest c =
     (if len \<le> length got then Some (int (length got), got, c\<lparr>net_in := rest\<rparr>)
      else case rest of
        [] \<Rightarrow> None
      | In_Cancel # rest \<Rightarrow> Some (err EINTR, got, c\<lparr>net_in := rest, net_cancelled := True\<rparr>)
      | In_Idle # rest \<Rightarrow> proxy_read_loop len got rest c
      | In_Error e # rest \<Rightarrow> Some (err e, got, c\<lparr>net_in := rest\<rparr>)
      | In_Closed # rest \<Rightarrow> Some (err ECONNRESET, got, c\<lparr>net_in := In_Closed # rest\<rparr>)
      | In b # rest \<Rightarrow>
          (if b = [] then Some (err ECONNRESET, got, c\<lparr>net_in := rest\<rparr>)
           else let n = len - length got in
             if n < length b then Some (int len, got @ take n b, c\<lparr>net_in := In (drop n b) # rest\<rparr>)
             else proxy_read_loop len (got @ b) rest c))"

declare proxy_read_loop.simps [simp del]

definition proxy_read :: "nat \<Rightarrow> net \<Rightarrow> (int \<times> string \<times> net) option" where
  "proxy_read len c =
     (if \<not> net_open c then Some (err EINVAL, [], c) else proxy_read_loop len [] (net_in c) c)"

fun proxy_write_loop :: "string \<Rightarrow> nat \<Rightarrow> net_output list \<Rightarrow> net \<Rightarrow> (int \<times> net) option" where
  "proxy_write_loop buf count answers c =
     (if length buf \<le> count then Some (int count, c\<lparr>net_out := answers\<rparr>)
      else case answers of
        [] \<Rightarrow> None
      | Out_Cancel # answers \<Rightarrow> Some (err EINTR, c\<lparr>net_out := answers, net_cancelled := True\<rparr>)
      | Out_Idle # answers \<Rightarrow> proxy_write_loop buf count answers c
      | Out_Error e # answers \<Rightarrow> Some (err e, c\<lparr>net_out := answers\<rparr>)
      | Out n # answers \<Rightarrow>
          (let i = min n (length buf - count) in
           proxy_write_loop buf (count + i) answers (c\<lparr>net_sent := net_sent c @ take i (drop count buf)\<rparr>)))"

declare proxy_write_loop.simps [simp del]

definition proxy_write :: "string \<Rightarrow> net \<Rightarrow> (int \<times> net) option" where
  "proxy_write buf c =
     (if \<not> net_open c then Some (err EINVAL, c) else proxy_write_loop buf 0 (net_out c) c)"

text \<open>
  \<open>proxy_gets\<close> and \<open>openconnect_openssl_gets\<close> end a line at a newline, at the end of the buffer or on an error; the result
  is the length, or the error when nothing was read. The line may contain the character 0.
\<close>

abbreviation (input) LF :: char where "LF \<equiv> CHR 0x0A"
abbreviation (input) CR :: char where "CR \<equiv> CHR 0x0D"

definition chop :: "string \<Rightarrow> string" where
  "chop line = (if line \<noteq> [] \<and> last line = CR then butlast line else line)"

definition line_end :: "int \<Rightarrow> string \<Rightarrow> int" where
  "line_end ret line = (if line = [] then ret else int (length line))"

partial_function (option) proxy_gets_loop :: "nat \<Rightarrow> string \<Rightarrow> net \<Rightarrow> (int \<times> string \<times> net) option" where
  "proxy_gets_loop len buf c =
     (case proxy_read 1 c of
        None \<Rightarrow> None
      | Some (ret, b, c) \<Rightarrow>
          if ret = 1 then
            (if hd b = LF then Some (int (length (chop buf)), chop buf, c)
             else if len - 1 \<le> length buf + 1 then Some (int (length buf + 1), buf @ [hd b], c)
             else proxy_gets_loop len (buf @ [hd b]) c)
          else Some (line_end ret buf, buf, c))"

definition proxy_gets :: "nat \<Rightarrow> net \<Rightarrow> (int \<times> string \<times> net) option" where
  "proxy_gets len c = (if len < 2 then Some (err EINVAL, [], c) else proxy_gets_loop len [] c)"

section \<open>The TLS connection\<close>

text \<open>One \<open>SSL_read\<close>, repeated while it has to wait; 0 at the end of the connection.\<close>

fun ssl_read_loop :: "nat \<Rightarrow> net_input list \<Rightarrow> net \<Rightarrow> (int \<times> string \<times> net) option" where
  "ssl_read_loop len [] c = None"
| "ssl_read_loop len (a # rest) c =
     (case a of
        In b \<Rightarrow>
          (if length b \<le> len then Some (int (length b), b, c\<lparr>net_in := rest\<rparr>)
           else Some (int len, take len b, c\<lparr>net_in := In (drop len b) # rest\<rparr>))
      | In_Closed \<Rightarrow> Some (0, [], c\<lparr>net_in := In_Closed # rest\<rparr>)
      | In_Error e \<Rightarrow> Some (err EIO, [], c\<lparr>net_in := rest\<rparr>)
      | In_Cancel \<Rightarrow> Some (err EINTR, [], c\<lparr>net_in := rest, net_cancelled := True\<rparr>)
      | In_Idle \<Rightarrow> ssl_read_loop len rest c)"

definition openconnect_openssl_read :: "nat \<Rightarrow> net \<Rightarrow> (int \<times> string \<times> net) option" where
  "openconnect_openssl_read len c = ssl_read_loop len (net_in c) c"

text \<open>
  \<open>buf\<close> is not moved on after a partial write: the next \<open>SSL_write\<close> sends the first \<open>len\<close> bytes of the same buffer again.
\<close>

fun ssl_write_loop :: "string \<Rightarrow> nat \<Rightarrow> net_output list \<Rightarrow> net \<Rightarrow> (int \<times> net) option" where
  "ssl_write_loop buf len answers c =
     (if len = 0 then Some (int (length buf), c\<lparr>net_out := answers\<rparr>)
      else case answers of
        [] \<Rightarrow> None
      | Out n # answers \<Rightarrow>
          (if n = 0 then Some (err EIO, c\<lparr>net_out := answers\<rparr>)
           else let i = min n len in
             ssl_write_loop buf (len - i) answers (c\<lparr>net_sent := net_sent c @ take i buf\<rparr>))
      | Out_Error e # answers \<Rightarrow> Some (err EIO, c\<lparr>net_out := answers\<rparr>)
      | Out_Cancel # answers \<Rightarrow> Some (err EINTR, c\<lparr>net_out := answers, net_cancelled := True\<rparr>)
      | Out_Idle # answers \<Rightarrow> ssl_write_loop buf len answers c)"

declare ssl_write_loop.simps [simp del]

definition openconnect_openssl_write :: "string \<Rightarrow> net \<Rightarrow> (int \<times> net) option" where
  "openconnect_openssl_write buf c = ssl_write_loop buf (length buf) (net_out c) c"

text \<open>\<open>SSL_read\<close> of one byte; the end of the connection is an error here.\<close>

definition input_size :: "net_input list \<Rightarrow> nat" where
  "input_size l = (\<Sum>a \<leftarrow> l. case a of In b \<Rightarrow> Suc (length b) | _ \<Rightarrow> 1)"

function ssl_gets_loop :: "nat \<Rightarrow> string \<Rightarrow> net_input list \<Rightarrow> net \<Rightarrow> (int \<times> string \<times> net) option" where
  "ssl_gets_loop len buf answers c =
     (case answers of
        [] \<Rightarrow> None
      | In (x # b) # rest \<Rightarrow>
          (let rest = (if b = [] then rest else In b # rest) in
           if x = LF then Some (int (length (chop buf)), chop buf, c\<lparr>net_in := rest\<rparr>)
           else if len - 1 \<le> length buf + 1 then Some (int (length buf + 1), buf @ [x], c\<lparr>net_in := rest\<rparr>)
           else ssl_gets_loop len (buf @ [x]) rest c)
      | In [] # rest \<Rightarrow> Some (line_end (err EIO) buf, buf, c\<lparr>net_in := rest\<rparr>)
      | In_Closed # rest \<Rightarrow> Some (line_end (err EIO) buf, buf, c\<lparr>net_in := In_Closed # rest\<rparr>)
      | In_Error e # rest \<Rightarrow> Some (line_end (err EIO) buf, buf, c\<lparr>net_in := rest\<rparr>)
      | In_Cancel # rest \<Rightarrow> Some (line_end (err EINTR) buf, buf, c\<lparr>net_in := rest, net_cancelled := True\<rparr>)
      | In_Idle # rest \<Rightarrow> ssl_gets_loop len buf rest c)"
  by pat_completeness auto

termination
  by (relation "measure (\<lambda>(len, buf, answers, c). input_size answers)") (auto simp: input_size_def)

declare ssl_gets_loop.simps [simp del]

definition openconnect_openssl_gets :: "nat \<Rightarrow> net \<Rightarrow> (int \<times> string \<times> net) option" where
  "openconnect_openssl_gets len c =
     (if len < 2 then Some (err EINVAL, [], c) else ssl_gets_loop len [] (net_in c) c)"

section \<open>Transports\<close>

text \<open>
  \<open>ssl_gets\<close>, \<open>ssl_read\<close> and \<open>ssl_write\<close> of \<open>struct openconnect_info\<close>, and \<open>openconnect_close_https\<close>. While a proxy is asked
  there is no TLS connection yet, and closing it does nothing to the socket.
\<close>

record 'c transport =
  tr_gets :: "nat \<Rightarrow> 'c \<Rightarrow> (int \<times> string \<times> 'c) option"
  tr_read :: "nat \<Rightarrow> 'c \<Rightarrow> (int \<times> string \<times> 'c) option"
  tr_write :: "string \<Rightarrow> 'c \<Rightarrow> (int \<times> 'c) option"
  tr_close :: "'c \<Rightarrow> 'c"
  tr_connected :: "'c \<Rightarrow> bool"

definition ssl_transport :: "net transport" where
  "ssl_transport = \<lparr>tr_gets = openconnect_openssl_gets, tr_read = openconnect_openssl_read, tr_write = openconnect_openssl_write,
     tr_close = (\<lambda>c. c\<lparr>net_open := False\<rparr>), tr_connected = net_open\<rparr>"

definition proxy_transport :: "net transport" where
  "proxy_transport = \<lparr>tr_gets = proxy_gets, tr_read = proxy_read, tr_write = proxy_write, tr_close = (\<lambda>c. c), tr_connected = (\<lambda>c. False)\<rparr>"

text \<open>
  The interface: what the connection has been sent can be read line by line and piece by piece, and is not lost in between.
  \<open>holds c s\<close> says that \<open>s\<close> comes next.
\<close>

locale byte_source =
  fixes T :: "'c transport" and holds :: "'c \<Rightarrow> string \<Rightarrow> bool"
  assumes gets_line: "holds c (line @ LF # s) \<Longrightarrow> LF \<notin> set line \<Longrightarrow> length line + 1 < len \<Longrightarrow>
      \<exists>c'. tr_gets T len c = Some (int (length (chop line)), chop line, c') \<and> holds c' s"
    and read_some: "holds c s \<Longrightarrow> 0 < n \<Longrightarrow> n \<le> length s \<Longrightarrow>
      \<exists>i c'. 0 < i \<and> i \<le> n \<and> tr_read T n c = Some (int i, take i s, c') \<and> holds c' (drop i s)"

section \<open>What a connection delivers\<close>

fun next_char :: "net_input list \<Rightarrow> (char \<times> net_input list) option" where
  "next_char (In_Idle # l) = next_char l"
| "next_char (In (x # b) # l) = Some (x, if b = [] then l else In b # l)"
| "next_char l = None"

fun delivers :: "net_input list \<Rightarrow> string \<Rightarrow> bool" where
  "delivers l [] = True"
| "delivers l (x # s) = (case next_char l of None \<Rightarrow> False | Some (y, l) \<Rightarrow> x = y \<and> delivers l s)"

lemma next_char_idle:
  "next_char l = Some (x, r) \<Longrightarrow> \<exists>k b t. l = replicate k In_Idle @ In (x # b) # t \<and> r = (if b = [] then t else In b # t)"
proof (induction l rule: next_char.induct)
  case (1 l)
  then obtain k b t where "l = replicate k In_Idle @ In (x # b) # t" "r = (if b = [] then t else In b # t)" by auto
  then show ?case by (intro exI [of _ "Suc k"]) auto
next
  case (2 y b l)
  then show ?case by (intro exI [of _ 0]) auto
qed auto

lemma next_char_skip [simp]: "next_char (replicate k In_Idle @ l) = next_char l"
  by (induction k) auto

lemma delivers_skip: "s \<noteq> [] \<Longrightarrow> delivers (replicate k In_Idle @ l) s = delivers l s"
  by (cases s) auto

lemma delivers_chunk:
  "delivers (In b # l) s \<Longrightarrow> i \<le> length b \<Longrightarrow> i \<le> length s \<Longrightarrow> b \<noteq> [] \<Longrightarrow>
    take i s = take i b \<and> delivers (if i = length b then l else In (drop i b) # l) (drop i s)"
proof (induction i arbitrary: b s)
  case (Suc i)
  then obtain x bs y ss where b: "b = x # bs" "s = y # ss" by (cases b; cases s) auto
  have "x = y" "delivers (if bs = [] then l else In bs # l) ss" using Suc.prems(1) b by auto
  then show ?case using Suc.IH [of bs ss] Suc.prems b by (cases "bs = []") auto
qed auto

lemma ssl_gets_loop_char:
  assumes "next_char l = Some (x, r)"
  shows "ssl_gets_loop len buf l c =
    (if x = LF then Some (int (length (chop buf)), chop buf, c\<lparr>net_in := r\<rparr>)
     else if len - 1 \<le> length buf + 1 then Some (int (length buf + 1), buf @ [x], c\<lparr>net_in := r\<rparr>)
     else ssl_gets_loop len (buf @ [x]) r c)"
proof -
  obtain k b t where l: "l = replicate k In_Idle @ In (x # b) # t" "r = (if b = [] then t else In b # t)"
    using next_char_idle [OF assms] by blast
  have "ssl_gets_loop len buf (replicate k In_Idle @ m) c = ssl_gets_loop len buf m c" for m
    by (induction k) (simp_all add: ssl_gets_loop.simps [of _ _ "In_Idle # _"])
  then show ?thesis by (simp add: l(1) ssl_gets_loop.simps [of _ _ "In (x # b) # t"] Let_def l(2))
qed

lemma ssl_gets_loop_line:
  "delivers l (line @ LF # s) \<Longrightarrow> LF \<notin> set line \<Longrightarrow> length buf + length line + 1 < len \<Longrightarrow>
    \<exists>r. ssl_gets_loop len buf l c = Some (int (length (chop (buf @ line))), chop (buf @ line), c\<lparr>net_in := r\<rparr>) \<and> delivers r s"
proof (induction line arbitrary: buf l)
  case Nil
  then obtain r where "next_char l = Some (LF, r)" "delivers r s" by (auto split: option.splits)
  then show ?case by (auto simp: ssl_gets_loop_char)
next
  case (Cons x line)
  then obtain r where r: "next_char l = Some (x, r)" "delivers r (line @ LF # s)" by (auto split: option.splits)
  from Cons.IH [OF r(2), of "buf @ [x]"] Cons.prems show ?case
    by (auto simp: ssl_gets_loop_char [OF r(1)])
qed

lemma proxy_read_char:
  assumes "next_char (net_in c) = Some (x, r)" "net_open c"
  shows "proxy_read (Suc 0) c = Some (1, [x], c\<lparr>net_in := r\<rparr>)"
proof -
  obtain k b t where l: "net_in c = replicate k In_Idle @ In (x # b) # t" "r = (if b = [] then t else In b # t)"
    using next_char_idle [OF assms(1)] by blast
  have "proxy_read_loop (Suc 0) [] (replicate k In_Idle @ m) c = proxy_read_loop (Suc 0) [] m c" for m
    by (induction k) (simp_all add: proxy_read_loop.simps [of _ _ "In_Idle # _"])
  then show ?thesis using assms(2) by (auto simp: proxy_read_def l proxy_read_loop.simps)
qed

lemma proxy_gets_loop_line:
  "delivers (net_in c) (line @ LF # s) \<Longrightarrow> net_open c \<Longrightarrow> LF \<notin> set line \<Longrightarrow> length buf + length line + 1 < len \<Longrightarrow>
    \<exists>r. proxy_gets_loop len buf c = Some (int (length (chop (buf @ line))), chop (buf @ line), c\<lparr>net_in := r\<rparr>) \<and> delivers r s"
proof (induction line arbitrary: buf c)
  case Nil
  then obtain r where "next_char (net_in c) = Some (LF, r)" "delivers r s" by (auto split: option.splits)
  with Nil(2) show ?case by (auto simp: proxy_gets_loop.simps [of _ _ c] proxy_read_char)
next
  case (Cons x line)
  then obtain r where r: "next_char (net_in c) = Some (x, r)" "delivers r (line @ LF # s)" by (auto split: option.splits)
  from Cons.IH [of "c\<lparr>net_in := r\<rparr>" "buf @ [x]"] r Cons.prems show ?case
    by (auto simp: proxy_gets_loop.simps [of _ _ c] proxy_read_char)
qed

lemma ssl_read_chunk:
  assumes "delivers l s" "0 < n" "n \<le> length s"
  shows "\<exists>i r. 0 < i \<and> i \<le> n \<and> ssl_read_loop n l c = Some (int i, take i s, c\<lparr>net_in := r\<rparr>) \<and> delivers r (drop i s)"
proof -
  obtain x t where s: "s = x # t" using assms(2,3) by (cases s) auto
  with assms(1) obtain q where "next_char l = Some (x, q)" by (auto split: option.splits)
  then obtain k b m where l: "l = replicate k In_Idle @ In (x # b) # m" using next_char_idle by blast
  have "ssl_read_loop n l c = ssl_read_loop n (In (x # b) # m) c" unfolding l by (induction k) auto
  moreover have "delivers (In (x # b) # m) s" using assms(1) s delivers_skip [of s k] by (simp add: l)
  ultimately show ?thesis
    using delivers_chunk [of "x # b" m s "min n (length (x # b))"] assms(2,3)
    by (intro exI [of _ "min n (length (x # b))"] exI [of _ "if length (x # b) \<le> n then m else In (drop n (x # b)) # m"])
      (auto simp: min_def split: if_splits)
qed

lemma proxy_read_all:
  "delivers l s \<Longrightarrow> length got \<le> n \<Longrightarrow> n - length got \<le> length s \<Longrightarrow>
    \<exists>r. proxy_read_loop n got l c = Some (int n, got @ take (n - length got) s, c\<lparr>net_in := r\<rparr>) \<and> delivers r (drop (n - length got) s)"
proof (induction n got l c arbitrary: s rule: proxy_read_loop.induct)
  case (1 n got l c)
  show ?case
  proof (cases "length got = n")
    case True
    then show ?thesis using 1 by (auto simp: proxy_read_loop.simps)
  next
    case False
    then have len: "length got < n" using 1 by simp
    then obtain x t where s: "s = x # t" using 1 by (cases s) auto
    consider (idle) m where "l = In_Idle # m" | (data) b m where "l = In (x # b) # m"
      using "1.prems"(1) s by (cases l rule: next_char.cases) (auto split: option.splits)
    then show ?thesis
    proof cases
      case idle
      then show ?thesis using "1.IH"(2) [of In_Idle m s] "1.prems" s len by (auto simp: proxy_read_loop.simps [of _ _ "In_Idle # m"])
    next
      case data
      let ?k = "n - length got"
      show ?thesis
      proof (cases "?k < length (x # b)")
        case True
        then show ?thesis using delivers_chunk [of "x # b" m s ?k] "1.prems" data len
          by (auto simp: proxy_read_loop.simps [of _ _ "In (x # b) # m"] Let_def split: if_splits)
      next
        case False
        then have d: "take (length (x # b)) s = x # b" "delivers m (drop (length (x # b)) s)"
          using delivers_chunk [of "x # b" m s "length (x # b)"] "1.prems" data by auto
        have "\<exists>r. proxy_read_loop n (got @ x # b) m c =
            Some (int n, (got @ x # b) @ take (n - length (got @ x # b)) (drop (length (x # b)) s), c\<lparr>net_in := r\<rparr>) \<and>
            delivers r (drop (n - length (got @ x # b)) (drop (length (x # b)) s))"
          by (rule "1.IH"(1) [OF _ data refl _ refl False d(2)]) (use len False "1.prems"(3) in auto)
        moreover have "proxy_read_loop n got l c = proxy_read_loop n (got @ x # b) m c"
          using data len False by (simp add: proxy_read_loop.simps [of _ _ "In (x # b) # m"])
        moreover have "x # b @ take (n - length (got @ x # b)) (drop (length (x # b)) s) = take ?k s"
          using d(1) False by (metis append_Cons take_add le_add_diff_inverse not_less diff_diff_left length_append)
        ultimately show ?thesis using False len by (auto simp: Suc_diff_Suc)
      qed
    qed
  qed
qed

text \<open>The next characters of a connection.\<close>

definition net_holds :: "net \<Rightarrow> string \<Rightarrow> bool" where
  "net_holds c s \<longleftrightarrow> net_open c \<and> delivers (net_in c) s"

interpretation tls: byte_source ssl_transport net_holds
proof
  fix c line s and len :: nat
  assume "net_holds c (line @ LF # s)" "LF \<notin> set line" "length line + 1 < len"
  then show "\<exists>c'. tr_gets ssl_transport len c = Some (int (length (chop line)), chop line, c') \<and> net_holds c' s"
    using ssl_gets_loop_line [of "net_in c" line s "[]" len c]
    by (auto simp: ssl_transport_def openconnect_openssl_gets_def net_holds_def)
next
  fix c s and n :: nat
  assume "net_holds c s" "0 < n" "n \<le> length s"
  then show "\<exists>i c'. 0 < i \<and> i \<le> n \<and> tr_read ssl_transport n c = Some (int i, take i s, c') \<and> net_holds c' (drop i s)"
    using ssl_read_chunk [of "net_in c" s n c]
    by (fastforce simp: ssl_transport_def openconnect_openssl_read_def net_holds_def)
qed

interpretation plain: byte_source proxy_transport net_holds
proof
  fix c line s and len :: nat
  assume "net_holds c (line @ LF # s)" "LF \<notin> set line" "length line + 1 < len"
  then show "\<exists>c'. tr_gets proxy_transport len c = Some (int (length (chop line)), chop line, c') \<and> net_holds c' s"
    using proxy_gets_loop_line [of c line s "[]" len]
    by (auto simp: proxy_transport_def proxy_gets_def net_holds_def)
next
  fix c s and n :: nat
  assume "net_holds c s" "0 < n" "n \<le> length s"
  then show "\<exists>i c'. 0 < i \<and> i \<le> n \<and> tr_read proxy_transport n c = Some (int i, take i s, c') \<and> net_holds c' (drop i s)"
    using proxy_read_all [of "net_in c" s "[]" n c]
    by (intro exI [of _ n]) (auto simp: proxy_transport_def proxy_read_def net_holds_def)
qed

section \<open>Writing\<close>

text \<open>
  What is sent is the request, whole or up to the point where an error stopped it: on the proxy's socket always, over TLS
  only when no \<open>SSL_write\<close> takes a part of the buffer.
\<close>

lemma err_not_nonneg [simp]: "\<not> 0 \<le> err e"
  by (cases e) auto

lemma take_drop_piece:
  assumes "count + i \<le> k"
  shows "take i (drop count buf) @ drop (count + i) (take k buf) = drop count (take k buf)"
proof -
  have "k - count = i + (k - count - i)" using assms by simp
  then show ?thesis using take_add [of i "k - count - i" "drop count buf"] by (simp add: drop_take add.commute)
qed

lemma proxy_write_loop_sent:
  "count \<le> length buf \<Longrightarrow> proxy_write_loop buf count answers c = Some (r, d) \<Longrightarrow>
    (\<exists>k. count \<le> k \<and> k \<le> length buf \<and> net_sent d = net_sent c @ drop count (take k buf) \<and> (0 \<le> r \<longrightarrow> k = length buf \<and> r = int k))
    \<and> net_open d = net_open c \<and> net_in d = net_in c"
proof (induction buf count answers c rule: proxy_write_loop.induct)
  case (1 buf count answers c)
  show ?case
  proof (cases "count = length buf")
    case True
    with "1.prems" show ?thesis by (auto simp: proxy_write_loop.simps [of _ "length buf"] intro!: exI [of _ "length buf"])
  next
    case False
    with "1.prems" obtain a as where as: "answers = a # as" by (cases answers) (auto simp: proxy_write_loop.simps [of _ _ "[]"])
    show ?thesis
    proof (cases a)
      case (Out n)
      let ?i = "min n (length buf - count)" and ?d = "c\<lparr>net_sent := net_sent c @ take (min n (length buf - count)) (drop count buf)\<rparr>"
      have e: "proxy_write_loop buf (count + ?i) as ?d = Some (r, d)"
        using "1.prems" False as Out by (simp add: proxy_write_loop.simps [of _ count "_ # as"] Let_def)
      have ih: "(\<exists>k. count + ?i \<le> k \<and> k \<le> length buf \<and> net_sent d = net_sent ?d @ drop (count + ?i) (take k buf) \<and>
          (0 \<le> r \<longrightarrow> k = length buf \<and> r = int k)) \<and> net_open d = net_open ?d \<and> net_in d = net_in ?d"
        by (rule "1.IH"(1) [OF _ as Out refl _ e]) (use "1.prems"(1) False in simp_all)
      have t: "take ?i (drop count buf) @ drop (count + ?i) (take k buf) = drop count (take k buf)"
        if "count + ?i \<le> k" "k \<le> length buf" for k
        by (rule take_drop_piece) (use that in simp_all)
      from ih obtain k where k: "count + ?i \<le> k" "k \<le> length buf" "net_sent d = net_sent ?d @ drop (count + ?i) (take k buf)"
          "0 \<le> r \<longrightarrow> k = length buf \<and> r = int k" by blast
      have "count \<le> k" "net_sent d = net_sent c @ drop count (take k buf)" using k(1,3) t [OF k(1,2)] by simp_all
      with k(2,4) conjunct2 [OF ih] show ?thesis by auto
    next
      case (Out_Error e)
      with "1.prems" False as have "r = err e" "d = c\<lparr>net_out := as\<rparr>" by (auto simp: proxy_write_loop.simps [of _ count "_ # as"])
      with "1.prems"(1) show ?thesis by (auto intro: exI [of _ count])
    next
      case Out_Cancel
      with "1.prems" False as have "r = err EINTR" "d = c\<lparr>net_out := as, net_cancelled := True\<rparr>"
        by (auto simp: proxy_write_loop.simps [of _ count "_ # as"])
      with "1.prems"(1) show ?thesis by (auto intro: exI [of _ count])
    next
      case Out_Idle
      with "1.prems" False as have "proxy_write_loop buf count as c = Some (r, d)" by (auto simp: proxy_write_loop.simps [of _ count "_ # as"])
      from "1.IH"(2) [OF _ as Out_Idle "1.prems"(1) this] "1.prems"(1) False show ?thesis by simp
    qed
  qed
qed

lemma proxy_write_sent:
  assumes "proxy_write buf c = Some (r, d)"
  shows "(\<exists>k \<le> length buf. net_sent d = net_sent c @ take k buf \<and> (0 \<le> r \<longrightarrow> k = length buf \<and> r = int k)) \<and>
    net_open d = net_open c \<and> net_in d = net_in c"
  using assms proxy_write_loop_sent [of 0 buf "net_out c" c r d]
  by (fastforce simp: proxy_write_def split: if_splits intro: exI [of _ 0])

text \<open>The reference: what the calls of \<open>SSL_write\<close> take, one number for each that takes something, until \<open>len\<close> bytes are taken.\<close>

fun ssl_takes :: "nat \<Rightarrow> net_output list \<Rightarrow> nat list" where
  "ssl_takes len [] = []"
| "ssl_takes len (a # as) =
     (if len = 0 then []
      else case a of Out n \<Rightarrow> min n len # ssl_takes (len - min n len) as | _ \<Rightarrow> ssl_takes len as)"

lemma ssl_takes_0 [simp]: "ssl_takes 0 as = []"
  by (cases as) auto

lemma ssl_write_loop_sent:
  "len \<le> length buf \<Longrightarrow> ssl_write_loop buf len answers c = Some (r, d) \<Longrightarrow> 0 \<le> r \<Longrightarrow>
    r = int (length buf) \<and> sum_list (ssl_takes len answers) = len \<and>
    net_sent d = net_sent c @ concat (map (\<lambda>n. take n buf) (ssl_takes len answers))"
proof (induction buf len answers c rule: ssl_write_loop.induct)
  case (1 buf len answers c)
  show ?case
  proof (cases "len = 0")
    case True
    with "1.prems" show ?thesis by (auto simp: ssl_write_loop.simps [of _ 0])
  next
    case False
    with "1.prems" obtain a as where as: "answers = a # as" by (cases answers) (auto simp: ssl_write_loop.simps [of _ _ "[]"])
    show ?thesis
    proof (cases a)
      case (Out n)
      then have n: "n \<noteq> 0" using "1.prems" False as by (auto simp: ssl_write_loop.simps [of _ len "_ # as"] split: if_splits)
      let ?i = "min n len" and ?d = "c\<lparr>net_sent := net_sent c @ take (min n len) buf\<rparr>"
      have e: "ssl_write_loop buf (len - ?i) as ?d = Some (r, d)"
        using "1.prems" False as Out n by (simp add: ssl_write_loop.simps [of _ len "_ # as"] Let_def)
      have "r = int (length buf) \<and> sum_list (ssl_takes (len - ?i) as) = len - ?i \<and>
          net_sent d = net_sent ?d @ concat (map (\<lambda>n. take n buf) (ssl_takes (len - ?i) as))"
        by (rule "1.IH"(1) [OF False as Out n refl _ e "1.prems"(3)]) (use "1.prems" in auto)
      then show ?thesis using n False as Out by auto
    next
      case (Out_Error e)
      with "1.prems" False as have "r = err EIO" by (auto simp: ssl_write_loop.simps [of _ len "_ # as"])
      with "1.prems"(3) show ?thesis by (simp del: err.simps)
    next
      case Out_Cancel
      with "1.prems" False as have "r = err EINTR" by (auto simp: ssl_write_loop.simps [of _ len "_ # as"])
      with "1.prems"(3) show ?thesis by (simp del: err.simps)
    next
      case Out_Idle
      with "1.prems" False as have "ssl_write_loop buf len as c = Some (r, d)" by (auto simp: ssl_write_loop.simps [of _ len "_ # as"])
      from "1.IH"(2) [OF False as Out_Idle "1.prems"(1) this "1.prems"(3)] show ?thesis using False as Out_Idle by simp
    qed
  qed
qed

lemma ssl_takes_whole:
  "sum_list (ssl_takes len as) = len \<Longrightarrow> \<forall>n. Out n \<in> set as \<longrightarrow> len \<le> n \<Longrightarrow> 0 < len \<Longrightarrow> ssl_takes len as = [len]"
  by (induction as) (auto split: net_output.splits)

text \<open>
  C22 (tls_write_whole): When openconnect_openssl_write reports success, the wire holds, for each \<open>SSL_write\<close> that took \<open>n\<close>
  bytes, the first \<open>n\<close> bytes of the request, because the buffer is not moved on; the numbers are those that the calls took, and add up to the
  length. So the request is on the wire exactly once when every \<open>SSL_write\<close> takes all that it is given, as OpenSSL does unless partial writes are
  enabled.
\<close>

theorem tls_write_whole:
  assumes "openconnect_openssl_write buf c = Some (r, d)" "0 \<le> r"
  shows "r = int (length buf) \<and> sum_list (ssl_takes (length buf) (net_out c)) = length buf \<and>
    net_sent d = net_sent c @ concat (map (\<lambda>n. take n buf) (ssl_takes (length buf) (net_out c))) \<and>
    ((\<forall>n. Out n \<in> set (net_out c) \<longrightarrow> length buf \<le> n) \<longrightarrow> net_sent d = net_sent c @ buf)"
proof -
  note sent = ssl_write_loop_sent [OF order_refl, of buf "net_out c" c r d] assms
  show ?thesis
    using sent ssl_takes_whole [of "length buf" "net_out c"] by (cases buf) (auto simp: openconnect_openssl_write_def)
qed

definition net_sample :: "net_input list \<Rightarrow> net_output list \<Rightarrow> net" where
  "net_sample i out = \<lparr>net_open = True, net_in = i, net_out = out, net_sent = [], net_cancelled = False\<rparr>"

theorem tls_write_whole_witness:
  "\<exists>d. openconnect_openssl_write ''abc'' (net_sample [] [Out_Idle, Out 2, Out 2]) = Some (3, d) \<and> net_sent d = ''aba'' \<and>
    ssl_takes 3 [Out_Idle, Out 2, Out 2] = [2, 1]"
proof -
  have e: "openconnect_openssl_write ''abc'' (net_sample [] [Out_Idle, Out 2, Out 2]) = Some (3, (net_sample [] [])\<lparr>net_sent := ''aba''\<rparr>)"
    by (simp add: openconnect_openssl_write_def net_sample_def ssl_write_loop.simps)
  let ?takes = "ssl_takes (length ''abc'') [Out_Idle, Out 2, Out 2]"
  from tls_write_whole [OF e] have "''aba'' = concat (map (\<lambda>n. take n ''abc'') ?takes)"
    by (simp add: net_sample_def del: ssl_takes.simps)
  moreover have "?takes = [2, 1]" by simp
  ultimately show ?thesis using e by (intro exI [of _ "(net_sample [] [])\<lparr>net_sent := ''aba''\<rparr>"]) simp
qed

end
