(* ===== verification/Http.thy ===== *)
theory Http
  imports Http_State Net_Io
begin

text \<open>
  The HTTP client of \<open>core/http.c\<close>: cookies, the response parser, the request, URLs and redirects. The connection is a
  transport; \<open>None\<close> is a call that does not return or leaves the defined behaviour of C. The result of a \<open>strdup\<close> that the code does not
  check is taken to be there.
\<close>

abbreviation (input) NUL :: char where "NUL \<equiv> CHR 0x00"
abbreviation (input) CRLF :: string where "CRLF \<equiv> [CR, LF]"

text \<open>The C string in a buffer that holds \<open>line\<close>.\<close>

definition cstr :: "string \<Rightarrow> string" where
  "cstr line = takeWhile (\<lambda>c. c \<noteq> NUL) line"

definition has_prefix :: "string \<Rightarrow> string \<Rightarrow> bool" where
  "has_prefix p s \<longleftrightarrow> take (length p) s = p"

text \<open>The parts of a string between separators.\<close>

fun split_on :: "char \<Rightarrow> string \<Rightarrow> string list" where
  "split_on d [] = [[]]"
| "split_on d (c # s) = (if c = d then [] # split_on d s else case split_on d s of [] \<Rightarrow> [[c]] | x # xs \<Rightarrow> (c # x) # xs)"

definition close_https :: "'c transport \<Rightarrow> 'c http_info \<Rightarrow> 'c http_info" where
  "close_https T v = v\<lparr>conn := tr_close T (conn v)\<rparr>"

section \<open>Cookies\<close>

type_synonym jar = "(string \<times> string) list"

fun jar_put :: "string \<Rightarrow> string option \<Rightarrow> jar \<Rightarrow> jar" where
  "jar_put n new [] = (case new of None \<Rightarrow> [] | Some x \<Rightarrow> [(n, x)])"
| "jar_put n new (c # jar) =
     (if n = fst c then (case new of None \<Rightarrow> jar | Some x \<Rightarrow> (n, x) # jar) else c # jar_put n new jar)"

definition http_add_cookie :: "'c http_info \<Rightarrow> string \<Rightarrow> string \<Rightarrow> int \<times> 'c http_info" where
  "http_add_cookie v n x =
     (if x = [] then (0, v\<lparr>cookies := jar_put n None (cookies v)\<rparr>)
      else case alloc v of
        (False, v) \<Rightarrow> (err ENOMEM, v)
      | (True, v) \<Rightarrow>
          (case alloc v of (ok1, v) \<Rightarrow> case alloc v of (ok2, v) \<Rightarrow>
             if ok1 \<and> ok2 then (0, v\<lparr>cookies := jar_put n (Some x) (cookies v)\<rparr>) else (err ENOMEM, v)))"

definition clear_cookies :: "'c http_info \<Rightarrow> 'c http_info" where
  "clear_cookies v = v\<lparr>cookies := []\<rparr>"

text \<open>
  Name and value of a \<open>Set-Cookie\<close> header: the value ends at the first semicolon, but the equals sign is looked for in the whole
  header.
\<close>

definition cookie_parts :: "string \<Rightarrow> (string \<times> string) option" where
  "cookie_parts val =
     (if CHR ''='' \<notin> set val then None
      else let n = takeWhile (\<lambda>c. c \<noteq> CHR ''='') val; x = tl (dropWhile (\<lambda>c. c \<noteq> CHR ''='') val) in
        if CHR '';'' \<in> set n then Some (takeWhile (\<lambda>c. c \<noteq> CHR '';'') n, x)
        else Some (n, takeWhile (\<lambda>c. c \<noteq> CHR '';'') x))"

section \<open>The header of a response\<close>

abbreviation (input) BODY_HTTP10 :: int where "BODY_HTTP10 \<equiv> - 1"
abbreviation (input) BODY_CHUNKED :: int where "BODY_CHUNKED \<equiv> - 2"

text \<open>
  The state between two header lines: the client, \<open>closeconn\<close> and \<open>bodylen\<close>. A step either goes on or returns from
  \<open>process_http_response\<close>.
\<close>

type_synonym 'c header_state = "'c http_info \<times> bool \<times> int"
type_synonym 'c header_step = "(int \<times> 'c http_info) + 'c header_state"

definition after_step :: "'c header_step \<Rightarrow> ('c header_state \<Rightarrow> 'c header_step) \<Rightarrow> 'c header_step" where
  "after_step s f = (case s of Inl e \<Rightarrow> Inl e | Inr st \<Rightarrow> f st)"

definition header_connection :: "string \<Rightarrow> string \<Rightarrow> 'c header_state \<Rightarrow> 'c header_step" where
  "header_connection name val st =
     (case st of (v, closeconn, bodylen) \<Rightarrow>
        Inr (v, closeconn \<or> strcaseeq name ''Connection'' \<and> strcaseeq val ''Close'', bodylen))"

definition header_location :: "string \<Rightarrow> string \<Rightarrow> 'c header_state \<Rightarrow> 'c header_step" where
  "header_location name val st =
     (case st of (v, closeconn, bodylen) \<Rightarrow>
        if strcaseeq name ''Location'' then
          (case alloc v of
             (True, v) \<Rightarrow> Inr (v\<lparr>redirect_url := Some val\<rparr>, closeconn, bodylen)
           | (False, v) \<Rightarrow> Inl (err ENOMEM, v\<lparr>redirect_url := None\<rparr>))
        else Inr st)"

definition header_length :: "'c transport \<Rightarrow> string \<Rightarrow> string \<Rightarrow> 'c header_state \<Rightarrow> 'c header_step" where
  "header_length T name val st =
     (case st of (v, closeconn, bodylen) \<Rightarrow>
        if strcaseeq name ''Content-Length'' then
          (if atoi val < 0 then Inl (err EINVAL, close_https T v) else Inr (v, closeconn, atoi val))
        else Inr st)"

definition header_encoding :: "'c transport \<Rightarrow> string \<Rightarrow> string \<Rightarrow> 'c header_state \<Rightarrow> 'c header_step" where
  "header_encoding T name val st =
     (case st of (v, closeconn, bodylen) \<Rightarrow>
        if strcaseeq name ''Transfer-Encoding'' then
          (if strcaseeq val ''chunked'' then Inr (v, closeconn, BODY_CHUNKED) else Inl (err EINVAL, close_https T v))
        else Inr st)"

text \<open>
  \<open>header_cb\<close> gets the name and the value; its own result is not looked at. A cookie cuts the value down to the cookie's name.
\<close>

type_synonym 'c header_cb = "'c http_info \<Rightarrow> string \<Rightarrow> string \<Rightarrow> 'c http_info"

definition header_rest :: "'c transport \<Rightarrow> 'c header_cb \<Rightarrow> string \<Rightarrow> string \<Rightarrow> 'c header_state \<Rightarrow> 'c header_step" where
  "header_rest T cb name val st =
     after_step (after_step (after_step (after_step
       (header_connection name val st) (header_location name val))
       (header_length T name val)) (header_encoding T name val))
       (\<lambda>(v, closeconn, bodylen). Inr (cb v name val, closeconn, bodylen))"

definition http_header :: "'c transport \<Rightarrow> 'c header_cb \<Rightarrow> string \<Rightarrow> 'c header_state \<Rightarrow> 'c header_step" where
  "http_header T cb line st =
     (case st of (v, closeconn, bodylen) \<Rightarrow>
      let buf = cstr line; name = takeWhile (\<lambda>c. c \<noteq> CHR '':'') buf in
      case dropWhile (\<lambda>c. c \<noteq> CHR '':'') buf of
        [] \<Rightarrow> Inr st
      | _ # colon \<Rightarrow>
          let val = (if has_prefix '' '' colon then tl colon else colon) in
          if strcaseeq name ''Set-Cookie'' then
            (case cookie_parts val of
               None \<Rightarrow> Inl (err EINVAL, v)
             | Some (n, x) \<Rightarrow>
                 (case http_add_cookie v n x of
                    (ret, v) \<Rightarrow> if ret \<noteq> 0 then Inl (ret, v) else header_rest T cb name n (v, closeconn, bodylen)))
          else header_rest T cb name val st)"

partial_function (option) http_headers :: "'c transport \<Rightarrow> 'c header_cb \<Rightarrow> 'c header_state \<Rightarrow> 'c header_step option" where
  "http_headers T cb st =
     (case st of (v, closeconn, bodylen) \<Rightarrow>
        case tr_gets T MAX_BUF_LEN (conn v) of
          None \<Rightarrow> None
        | Some (i, line, c) \<Rightarrow>
            let v = v\<lparr>conn := c\<rparr> in
            if i = 0 then Some (Inr (v, closeconn, bodylen))
            else if i < 0 then Some (Inl (err EINVAL, close_https T v))
            else (case http_header T cb line (v, closeconn, bodylen) of
                    Inl e \<Rightarrow> Some (Inl e)
                  | Inr st \<Rightarrow> http_headers T cb st))"

text \<open>
  The status line. Once \<open>closeconn\<close> is set its version is not looked at again, and the number is read from the
  tenth character whatever the length of the line: the first \<open>None\<close> is reading what an earlier line left there.
\<close>

definition http_status :: "bool \<Rightarrow> string \<Rightarrow> (bool \<times> int option) option" where
  "http_status closeconn line =
     (let buf = cstr line; closeconn = (closeconn \<or> has_prefix ''HTTP/1.0 '' buf) in
      if \<not> closeconn \<and> \<not> has_prefix ''HTTP/1.1 '' buf then Some (closeconn, None)
      else if length buf < 9 then None
      else let result = atoi (drop 9 buf) in Some (closeconn, if result = 0 then None else Some result))"

partial_function (option) http_start ::
  "'c transport \<Rightarrow> 'c header_cb \<Rightarrow> 'c header_state \<Rightarrow> ((int \<times> 'c http_info) + (int \<times> 'c header_state)) option" where
  "http_start T cb st =
     (case st of (v, closeconn, bodylen) \<Rightarrow>
        case tr_gets T MAX_BUF_LEN (conn v) of
          None \<Rightarrow> None
        | Some (i, line, c) \<Rightarrow>
            let v = v\<lparr>conn := c\<rparr> in
            if i < 0 then Some (Inl (err EINVAL, close_https T v))
            else (case http_status closeconn line of
                    None \<Rightarrow> None
                  | Some (closeconn, None) \<Rightarrow> Some (Inl (err EINVAL, close_https T v))
                  | Some (closeconn, Some result) \<Rightarrow>
                      (case http_headers T cb (v, closeconn, bodylen) of
                         None \<Rightarrow> None
                       | Some (Inl e) \<Rightarrow> Some (Inl e)
                       | Some (Inr st) \<Rightarrow> if result = 100 then http_start T cb st else Some (Inr (result, st)))))"

section \<open>The body of a response\<close>

text \<open>\<open>strtol(buf, NULL, 16)\<close>\<close>

definition hex_value :: "char \<Rightarrow> int option" where
  "hex_value c =
     (if is_digit c then Some (digit_val c)
      else if in_range c 97 102 then Some (of_char c - 87)
      else if in_range c 65 70 then Some (of_char c - 55)
      else None)"

fun hex_digits :: "int \<Rightarrow> string \<Rightarrow> int" where
  "hex_digits a [] = a"
| "hex_digits a (c # cs) = (case hex_value c of None \<Rightarrow> a | Some d \<Rightarrow> hex_digits (16 * a + d) cs)"

definition hex_prefix :: "string \<Rightarrow> string" where
  "hex_prefix s =
     (if (has_prefix ''0x'' s \<or> has_prefix ''0X'' s) \<and> drop 2 s \<noteq> [] \<and> hex_value (s ! 2) \<noteq> None then drop 2 s else s)"

definition strtol16 :: "string \<Rightarrow> int" where
  "strtol16 s =
     (case dropWhile is_space s of
        [] \<Rightarrow> 0
      | c # cs \<Rightarrow>
          if c = CHR ''-'' then clamp_long (- hex_digits 0 (hex_prefix cs))
          else if c = CHR ''+'' then clamp_long (hex_digits 0 (hex_prefix cs))
          else clamp_long (hex_digits 0 (hex_prefix (c # cs))))"

text \<open>
  Reading until the body has \<open>len\<close> characters. The result is the body, or what \<open>ssl_read\<close> returned; a connection that goes on
  returning 0 is asked for ever.
\<close>

partial_function (option) read_until :: "'c transport \<Rightarrow> nat \<Rightarrow> string \<Rightarrow> 'c http_info \<Rightarrow> ((int + string) \<times> 'c http_info) option" where
  "read_until T len body v =
     (if len \<le> length body then Some (Inr body, v)
      else case tr_read T (len - length body) (conn v) of
        None \<Rightarrow> None
      | Some (i, data, c) \<Rightarrow>
          let v = v\<lparr>conn := c\<rparr> in
          if i < 0 then Some (Inl i, v) else read_until T len (body @ data) v)"

abbreviation (input) C_INT_MAX :: int where "C_INT_MAX \<equiv> 2147483647"

text \<open>
  \<open>body\<close> is null before the first chunk. A negative chunk length makes the new size smaller than the old one; when \<open>realloc\<close> grants
  it, the following \<open>ssl_read\<close> is given a length close to \<open>SIZE_MAX\<close>.
\<close>

definition body_text :: "string option \<Rightarrow> string" where
  "body_text body = (case body of None \<Rightarrow> [] | Some s \<Rightarrow> s)"

definition chunk_end :: "'c transport \<Rightarrow> 'c http_info \<Rightarrow> (bool \<times> 'c http_info) option" where
  "chunk_end T v =
     (case tr_gets T MAX_BUF_LEN (conn v) of
        None \<Rightarrow> None
      | Some (i, line, c) \<Rightarrow> Some (i = 0, v\<lparr>conn := c\<rparr>))"

partial_function (option) http_chunks ::
  "'c transport \<Rightarrow> string option \<Rightarrow> 'c http_info \<Rightarrow> ((int + string option) \<times> 'c http_info) option" where
  "http_chunks T body v =
     (case tr_gets T MAX_BUF_LEN (conn v) of
        None \<Rightarrow> None
      | Some (i, line, c) \<Rightarrow>
          let v = v\<lparr>conn := c\<rparr> in
          if i = 0 then Some (Inr body, v)
          else if i < 0 then Some (Inl i, v)
          else let chunklen = to_int (strtol16 (cstr line)); size = int (length (body_text body)) + chunklen + 1 in
            if chunklen = 0 then
              (case chunk_end T v of
                 None \<Rightarrow> None
               | Some (ok, v) \<Rightarrow> Some (if ok then Inr body else Inl (err EINVAL), v))
            else if size > C_INT_MAX then None
            else if size < 0 \<or> \<not> w_mem (world v) (nat size) then Some (Inl (err ENOMEM), v)
            else if chunklen < 0 then None
            else (case read_until T (length (body_text body) + nat chunklen) (body_text body) v of
                    None \<Rightarrow> None
                  | Some (Inl e, v) \<Rightarrow> Some (Inl (err EINVAL), v)
                  | Some (Inr s, v) \<Rightarrow>
                      (case chunk_end T v of
                         None \<Rightarrow> None
                       | Some (ok, v) \<Rightarrow> if ok then http_chunks T (Some s) v else Some (Inl (err EINVAL), v))))"

partial_function (option) http_rest ::
  "'c transport \<Rightarrow> string \<Rightarrow> 'c http_info \<Rightarrow> ((int + string option) \<times> 'c http_info) option" where
  "http_rest T body v =
     (if int (length body) + 16384 > C_INT_MAX then None
      else if \<not> w_mem (world v) (length body + 16384) then Some (Inl (err ENOMEM), v)
      else case tr_read T 16384 (conn v) of
        None \<Rightarrow> None
      | Some (i, data, c) \<Rightarrow>
          let v = v\<lparr>conn := c\<rparr> in
          if 0 < i then http_rest T (body @ data) v
          else if i < 0 then Some (Inl i, close_https T v)
          else if w_mem (world v) (length body + 1) then Some (Inr (Some body), v)
          else Some (Inl (err ENOMEM), v))"

definition http_body :: "'c transport \<Rightarrow> 'c header_state \<Rightarrow> ((int + string option) \<times> 'c http_info) option" where
  "http_body T st =
     (case st of (v, closeconn, bodylen) \<Rightarrow>
        if bodylen > 0 then
          (if bodylen = C_INT_MAX then None
           else case alloc v of
             (False, v) \<Rightarrow> Some (Inl (err ENOMEM), v)
           | (True, v) \<Rightarrow>
               (case read_until T (nat bodylen) [] v of
                  None \<Rightarrow> None
                | Some (Inl e, v) \<Rightarrow> Some (Inl (err EINVAL), close_https T v)
                | Some (Inr s, v) \<Rightarrow> Some (Inr (Some s), v)))
        else if bodylen = BODY_CHUNKED then http_chunks T None v
        else if bodylen = BODY_HTTP10 then
          (if \<not> closeconn then Some (Inl (err EINVAL), close_https T v) else http_rest T [] v)
        else Some (Inr None, v))"

text \<open>
  The whole response: \<open>Inl\<close> a negative return value, \<open>Inr\<close> the returned length, \<open>*result\<close> and \<open>*body_ret\<close>.
\<close>

definition process_http_response ::
  "'c transport \<Rightarrow> bool \<Rightarrow> 'c header_cb \<Rightarrow> 'c http_info \<Rightarrow> ((int + (int \<times> int \<times> string option)) \<times> 'c http_info) option" where
  "process_http_response T connect cb v =
     (case http_start T cb (v, False, BODY_HTTP10) of
        None \<Rightarrow> None
      | Some (Inl (e, v)) \<Rightarrow> Some (Inl e, v)
      | Some (Inr (result, v, closeconn, bodylen)) \<Rightarrow>
          if connect \<and> result = 200 then Some (Inr (0, result, None), v)
          else (case http_body T (v, closeconn, bodylen) of
                  None \<Rightarrow> None
                | Some (Inl e, v) \<Rightarrow> Some (Inl e, v)
                | Some (Inr body, v) \<Rightarrow>
                    let v = (if closeconn \<or> no_http_keepalive v then close_https T v else v) in
                    Some (Inr (int (length (body_text body)), result, body), v)))"

section \<open>Requests\<close>

abbreviation (input) openconnect_version_str :: string where "openconnect_version_str \<equiv> ''v6.00-unknown''"

fun cookie_header :: "'c http_info \<Rightarrow> header \<Rightarrow> jar \<Rightarrow> header" where
  "cookie_header v h [] = h"
| "cookie_header v h ((n, x) # jar) =
     cookie_header v (put v h (n @ ''='' @ x @ (if jar \<noteq> [] then ''; '' else CRLF))) jar"

definition add_common_headers :: "'c http_info \<Rightarrow> header \<Rightarrow> header" where
  "add_common_headers v h =
     (let h = put v h (''Host: '' @ hostname v @ CRLF);
          h = put v h (''User-Agent: '' @ useragent v @ CRLF);
          h = put v h (''Accept: */*'' @ CRLF);
          h = put v h (''Accept-Encoding: identity'' @ CRLF);
          h = (if cookies v \<noteq> [] then cookie_header v (put v h ''Cookie: '') (cookies v) else h);
          h = put v h (''X-Transcend-Version: 1'' @ CRLF);
          h = (if xmlpost v then put v (put v h (''X-Aggregate-Auth: 1'' @ CRLF)) (''X-AnyConnect-Platform: '' @ platname v @ CRLF) else h) in
      case mobile_platform_version v of
        None \<Rightarrow> h
      | Some ver \<Rightarrow>
          let h = put v h (''X-AnyConnect-Identifier-ClientVersion: '' @ openconnect_version_str @ CRLF);
              h = put v h (''X-AnyConnect-Identifier-Platform: '' @ platname v @ CRLF);
              h = put v h (''X-AnyConnect-Identifier-PlatformVersion: '' @ ver @ CRLF);
              h = put v h (''X-AnyConnect-Identifier-DeviceType: '' @ mobile_device_type v @ CRLF) in
          put v h (''X-AnyConnect-Identifier-Device-UniqueID: '' @ mobile_device_uniqueid v @ CRLF))"

text \<open>The padding of a request body: \<open>"%0*d"\<close> of 0 is that many zeros.\<close>

definition pad_length :: "nat \<Rightarrow> nat" where
  "pad_length rlen = 64 * (1 + rlen div 64) - rlen"

definition body_headers :: "'c http_info \<Rightarrow> header \<Rightarrow> string \<Rightarrow> string \<Rightarrow> header" where
  "body_headers v h body_type body =
     (let rlen = length body;
          h = put v h (''X-Pad: '' @ replicate (pad_length rlen) (CHR ''0'') @ CRLF);
          h = put v h (''Content-Type: '' @ body_type @ CRLF) in
      put v h (''Content-Length: '' @ dec_int (int rlen) @ CRLF))"

definition https_request :: "'c http_info \<Rightarrow> string \<Rightarrow> (string \<times> string) option \<Rightarrow> header \<times> 'c http_info" where
  "https_request v meth body =
     (case new_header v of
        (h, v) \<Rightarrow>
          let h = put v h (meth @ '' /'' @ (case urlpath v of None \<Rightarrow> [] | Some p \<Rightarrow> p) @ '' HTTP/1.1'' @ CRLF);
              h = add_common_headers v h;
              h = (case body of None \<Rightarrow> h | Some (body_type, text) \<Rightarrow> body_headers v h body_type text);
              h = put v h CRLF in
          (case body of None \<Rightarrow> h | Some (body_type, text) \<Rightarrow> put v h text, v))"

section \<open>URLs\<close>

text \<open>The first place of a separator: what comes before it and what comes after it.\<close>

fun split_at :: "string \<Rightarrow> string \<Rightarrow> (string \<times> string) option" where
  "split_at sep [] = (if sep = [] then Some ([], []) else None)"
| "split_at sep (c # s) =
     (if has_prefix sep (c # s) then Some ([], drop (length sep) (c # s))
      else map_option (\<lambda>(a, b). (c # a, b)) (split_at sep s))"

text \<open>
  \<open>strtol\<close> with its end pointer at the end of the string; without a digit it stays at the start.
\<close>

definition whole_number :: "string \<Rightarrow> int option" where
  "whole_number s =
     (let t = dropWhile is_space s; d = (if t \<noteq> [] \<and> (hd t = CHR ''-'' \<or> hd t = CHR ''+'') then tl t else t) in
      if s = [] then Some 0
      else if d \<noteq> [] \<and> (\<forall>c \<in> set d. is_digit c) then Some (to_int (atol s))
      else None)"

definition host_port :: "int \<Rightarrow> string \<Rightarrow> string \<times> int" where
  "host_port prt s =
     (if CHR '':'' \<notin> set s then (s, prt)
      else let after = rev (takeWhile (\<lambda>c. c \<noteq> CHR '':'') (rev s)) in
        case whole_number after of
          None \<Rightarrow> (s, prt)
        | Some n \<Rightarrow> (take (length s - length after - 1) s, n))"

definition proto_port :: "string \<Rightarrow> int option" where
  "proto_port proto =
     (if strcaseeq proto ''https'' then Some 443
      else if strcaseeq proto ''http'' then Some 80
      else if strcaseeq proto ''socks'' \<or> strcaseeq proto ''socks4'' \<or> strcaseeq proto ''socks5'' then Some 1080
      else None)"

definition url_rest :: "string \<Rightarrow> int \<Rightarrow> string \<times> int \<times> string option" where
  "url_rest s prt =
     (let path = tl (dropWhile (\<lambda>c. c \<noteq> CHR ''/'') s); (host, prt) = host_port prt (takeWhile (\<lambda>c. c \<noteq> CHR ''/'') s) in
      (host, prt, if dropWhile (\<lambda>c. c \<noteq> CHR ''/'') s = [] \<or> path = [] then None else Some path))"

definition internal_parse_url :: "string \<Rightarrow> int \<Rightarrow> errno + (string option \<times> string \<times> int \<times> string option)" where
  "internal_parse_url url default_port =
     (case split_at ''://'' url of
        Some (proto, rest) \<Rightarrow>
          (case proto_port proto of
             None \<Rightarrow> Inl EPROTONOSUPPORT
           | Some prt \<Rightarrow> Inr (Some proto, url_rest rest prt))
      | None \<Rightarrow> if default_port \<noteq> 0 then Inr (None, url_rest url default_port) else Inl EINVAL)"

section \<open>Redirects\<close>

definition openconnect_set_hostname :: "'c http_info \<Rightarrow> string \<Rightarrow> 'c http_info" where
  "openconnect_set_hostname v host = v\<lparr>hostname := host, unique_hostname := None, peer_addr := None\<rparr>"

definition redirect_https :: "'c transport \<Rightarrow> 'c http_info \<Rightarrow> string \<Rightarrow> int \<times> 'c http_info" where
  "redirect_https T v url =
     (let v = v\<lparr>urlpath := None\<rparr> in
      case internal_parse_url url 0 of
        Inl e \<Rightarrow> (err e, v\<lparr>redirect_url := None\<rparr>)
      | Inr (_, host, prt, path) \<Rightarrow>
          let v = v\<lparr>urlpath := path\<rparr>;
              v = (if \<not> strcaseeq (hostname v) host \<or> prt \<noteq> port v
                   then (clear_cookies (close_https T ((openconnect_set_hostname v host)\<lparr>port := prt\<rparr>)))\<lparr>redirect_type := REDIR_TYPE_NEWHOST\<rparr>
                   else v) in
          (0, v\<lparr>redirect_url := None\<rparr>))"

definition redirect_relative :: "'c http_info \<Rightarrow> string \<Rightarrow> int \<times> 'c http_info" where
  "redirect_relative v url =
     (case urlpath v of
        Some p \<Rightarrow>
          if CHR ''/'' \<in> set p then
            (case alloc v of
               (True, v) \<Rightarrow>
                 (0, v\<lparr>urlpath := Some (rev (tl (dropWhile (\<lambda>c. c \<noteq> CHR ''/'') (rev p))) @ ''/'' @ url), redirect_url := None\<rparr>)
             | (False, v) \<Rightarrow> (err ENOMEM, v\<lparr>urlpath := None\<rparr>))
          else (0, v\<lparr>urlpath := Some url, redirect_url := None\<rparr>)
      | None \<Rightarrow> (0, v\<lparr>urlpath := Some url, redirect_url := None\<rparr>))"

definition handle_redirect :: "'c transport \<Rightarrow> 'c http_info \<Rightarrow> (int \<times> 'c http_info) option" where
  "handle_redirect T v =
     (let v = v\<lparr>redirect_type := REDIR_TYPE_LOCAL\<rparr> in
      case redirect_url v of
        None \<Rightarrow> None
      | Some url \<Rightarrow> Some (
          if has_prefix ''https://'' url then redirect_https T v url
          else if split_at ''://'' url \<noteq> None then (err EINVAL, v\<lparr>redirect_url := None\<rparr>)
          else if has_prefix ''/'' url then
            (case alloc v of (ok, v) \<Rightarrow> (0, v\<lparr>urlpath := (if ok then Some (tl url) else None), redirect_url := None\<rparr>))
          else redirect_relative v url))"

section \<open>A request and its answer\<close>

text \<open>\<open>openconnect_open_https\<close> is an argument: it opens the connection of the client.\<close>

type_synonym 'c opener = "'c http_info \<Rightarrow> (int \<times> 'c http_info) option"

text \<open>Opening and sending: \<open>Inl\<close> is the value to return, \<open>Inr\<close> that the request is sent.\<close>

partial_function (option) https_send :: "'c transport \<Rightarrow> 'c opener \<Rightarrow> string \<Rightarrow> 'c http_info \<Rightarrow> ((int + unit) \<times> 'c http_info) option" where
  "https_send T open_https buf v =
     (let rq_retry = tr_connected T (conn v) in
      case (if rq_retry then Some (0, v) else open_https v) of
        None \<Rightarrow> None
      | Some (result, v) \<Rightarrow>
          if result \<noteq> 0 then Some (Inl result, v)
          else (case tr_write T buf (conn v) of
                  None \<Rightarrow> None
                | Some (result, c) \<Rightarrow>
                    let v = v\<lparr>conn := c\<rparr> in
                    if rq_retry \<and> result < 0 then https_send T open_https buf (close_https T v)
                    else Some (if result < 0 then Inl result else Inr (), v)))"

text \<open>
  \<open>do_https_request\<close>: the result and \<open>*form_buf\<close>. \<open>*form_buf\<close> is freed and null
  until the answer's body is there.
\<close>

definition no_cb :: "'c header_cb" where
  "no_cb v name val = v"

partial_function (option) do_https_request ::
  "'c transport \<Rightarrow> 'c opener \<Rightarrow> string \<Rightarrow> (string \<times> string) option \<Rightarrow> bool \<Rightarrow> 'c http_info \<Rightarrow> (int \<times> string option \<times> 'c http_info) option" where
  "do_https_request T open_https meth body fetch_redirect v =
     (case https_request (v\<lparr>redirect_type := REDIR_TYPE_NONE\<rparr>) meth body of
        (h, v) \<Rightarrow>
          (case h of
             None \<Rightarrow> None
           | Some buf \<Rightarrow>
               (case buf_error buf of
                  Some e \<Rightarrow> Some (err e, None, v)
                | None \<Rightarrow>
                    (case https_send T open_https (put_written h) v of
                       None \<Rightarrow> None
                     | Some (Inl e, v) \<Rightarrow> Some (e, None, v)
                     | Some (Inr _, v) \<Rightarrow>
                         (case process_http_response T False no_cb v of
                            None \<Rightarrow> None
                          | Some (Inl e, v) \<Rightarrow> Some (e, None, v)
                          | Some (Inr (buflen, result, form), v) \<Rightarrow>
                              if result \<noteq> 200 \<and> redirect_url v \<noteq> None then
                                (case handle_redirect T v of
                                   None \<Rightarrow> None
                                 | Some (r, v) \<Rightarrow>
                                     if r \<noteq> 0 then Some (r, None, v)
                                     else if \<not> fetch_redirect then Some (0, form, v)
                                     else do_https_request T open_https meth body fetch_redirect v)
                              else if form = None \<or> result \<noteq> 200 then Some (err EINVAL, None, v)
                              else Some (buflen, form, v))))))"

text \<open>What kind of page an answer is: 1 for one that refreshes, 0 for XML. \<open>strcasestr\<close> looks for the lower-case text.\<close>

fun strcasestr :: "string \<Rightarrow> string \<Rightarrow> bool" where
  "strcasestr [] n = (n = [])"
| "strcasestr (c # s) n = (strcaseeq (take (length n) (c # s)) n \<or> strcasestr s n)"

definition check_response_type :: "string \<Rightarrow> int" where
  "check_response_type form =
     (if \<not> has_prefix ''<?xml'' form then
        (if strcasestr form (''http-equiv='' @ [CHR 0x22] @ ''refresh'' @ [CHR 0x22]) then 1 else err EINVAL)
      else 0)"

text \<open>
  \<open>fetch_config\<close>: \<open>sha1\<close> is \<open>openconnect_sha1\<close>, and \<open>write_new_config\<close> the application's callback, where it has one. A cookie header
  repeats the session cookie when XML posts are on.
\<close>

definition lower_hex2 :: "byte \<Rightarrow> string" where
  "lower_hex2 b = [''0123456789abcdef'' ! (unat b div 16), ''0123456789abcdef'' ! (unat b mod 16)]"

definition fetch_config ::
  "'c transport \<Rightarrow> 'c opener \<Rightarrow> (string \<Rightarrow> bytes) \<Rightarrow> (string \<Rightarrow> int) option \<Rightarrow> 'c http_info \<Rightarrow> (int \<times> 'c http_info) option" where
  "fetch_config T open_https sha1 write_new_config v =
     (case (profile_url (login v), profile_sha1 (login v), write_new_config) of
        (Some url, Some sha, Some write) \<Rightarrow>
          if strcaseeq (take 40 (xmlsha1 (login v))) (take 40 sha) then Some (0, v)
          else (case open_https v of
            None \<Rightarrow> None
          | Some (result, v) \<Rightarrow>
              if result \<noteq> 0 then Some (result, v)
              else (case new_header v of
                (h, v) \<Rightarrow>
                  let h = put v h (''GET '' @ url @ '' HTTP/1.1'' @ CRLF);
                      h = add_common_headers v h;
                      h = (if xmlpost v then putf v h [Some ''Cookie: webvpn='', cookie (login v), Some CRLF] else h);
                      h = put v h CRLF in
                  (case h of
                     None \<Rightarrow> None
                   | Some buf \<Rightarrow>
                       (case buf_error buf of
                          Some e \<Rightarrow> Some (err e, v)
                        | None \<Rightarrow>
                            (case tr_write T (put_written h) (conn v) of
                               None \<Rightarrow> None
                             | Some (i, c) \<Rightarrow>
                                 let v = v\<lparr>conn := c\<rparr> in
                                 if i \<noteq> int (length (put_written h)) then Some (err EIO, v)
                                 else (case process_http_response T False no_cb v of
                                    None \<Rightarrow> None
                                  | Some (Inl e, v) \<Rightarrow> Some (err EINVAL, v)
                                  | Some (Inr (buflen, result, form), v) \<Rightarrow>
                                      if result \<noteq> 200 then Some (err EINVAL, v)
                                      else if \<not> strcaseeq sha (concat (map lower_hex2 (take 20 (sha1 (body_text form))))) then Some (err EINVAL, v)
                                      else Some (write (body_text form), v)))))))
      | _ \<Rightarrow> Some (err ENOENT, v))"

end
