(* ===== verification/Http_Facts.thy ===== *)
theory Http_Facts
  imports Http
begin

text \<open>
  What the HTTP client guarantees: the cookie jar as a map, reading a response of a server to its last character, and what a
  request, a URL and a redirect come to.
\<close>

section \<open>The cookie jar\<close>

lemma jar_put_names: "fst ` set (jar_put n new jar) \<subseteq> insert n (fst ` set jar)"
  by (induction jar) (auto split: option.splits)

lemma jar_put_distinct: "distinct (map fst jar) \<Longrightarrow> distinct (map fst (jar_put n new jar))"
proof (induction jar)
  case (Cons c jar)
  then show ?case using jar_put_names [of n new jar] by (auto split: option.splits)
qed (auto split: option.splits)

lemma jar_put_map: "distinct (map fst jar) \<Longrightarrow> map_of (jar_put n new jar) = (map_of jar)(n := new)"
proof (induction jar)
  case (Cons c jar)
  then show ?case by (cases c) (auto simp: fun_eq_iff map_of_eq_None_iff split: option.splits)
qed (auto split: option.splits)

definition jar_ok :: "'c http_info \<Rightarrow> bool" where
  "jar_ok v \<longleftrightarrow> distinct (map fst (cookies v))"

lemma alloc_cookies: "alloc v = (b, w) \<Longrightarrow> cookies w = cookies v"
  by (auto simp: alloc_def upd_world_def split: list.splits)

text \<open>
  C29 (cookie_jar_refines): The list of cookies is a map from names to values: http_add_cookie sets the name to
  the value, or removes it when the value is empty, touches no other cookie, and changes nothing when there is no memory.
\<close>

theorem cookie_jar_refines:
  assumes "jar_ok v" "http_add_cookie v n x = (r, w)"
  shows "jar_ok w \<and>
    (r = 0 \<and> map_of (cookies w) = (map_of (cookies v))(n := (if x = [] then None else Some x)) \<or> r = err ENOMEM \<and> cookies w = cookies v)"
  using assms
  by (auto simp: http_add_cookie_def jar_ok_def jar_put_map jar_put_distinct dest!: alloc_cookies split: if_splits prod.splits bool.splits)

theorem cookie_jar_refines_witness:
  "\<exists>w. http_add_cookie ((http_sample ())\<lparr>cookies := [(''a'', ''1''), (''b'', ''2'')]\<rparr>) ''a'' ''3'' = (0, w) \<and>
     map_of (cookies w) = [''a'' \<mapsto> ''3'', ''b'' \<mapsto> ''2'']"
proof -
  let ?v = "(http_sample ())\<lparr>cookies := [(''a'', ''1''), (''b'', ''2'')]\<rparr>"
  obtain w where w: "http_add_cookie ?v ''a'' ''3'' = (0, w)"
    by (simp add: http_add_cookie_def alloc_def http_sample_def quiet_world_def)
  have "jar_ok ?v" by (simp add: jar_ok_def)
  from cookie_jar_refines [OF this w] w show ?thesis by (auto simp: fun_eq_iff)
qed

section \<open>Invariants of reading a response\<close>

text \<open>
  A property of the client that survives reading from the connection, closing it, an allocation, a new redirect and a new cookie, and that the callback
  keeps, survives a whole response.
\<close>

definition step_client :: "'c header_step \<Rightarrow> 'c http_info" where
  "step_client s = (case s of Inl e \<Rightarrow> snd e | Inr st \<Rightarrow> fst st)"

definition start_client :: "(int \<times> 'c http_info) + (int \<times> 'c header_state) \<Rightarrow> 'c http_info" where
  "start_client s = (case s of Inl e \<Rightarrow> snd e | Inr r \<Rightarrow> fst (snd r))"

lemma clients [simp]:
  "step_client (Inl e) = snd e" "step_client (Inr st) = fst st" "start_client (Inl e) = snd e" "start_client (Inr r) = fst (snd r)"
  by (simp_all add: step_client_def start_client_def)

locale client_invariant =
  fixes I :: "'c http_info \<Rightarrow> bool" and cb :: "'c header_cb" and T :: "'c transport"
  assumes gets_inv: "I v \<Longrightarrow> tr_gets T len (conn v) = Some (i, l, c) \<Longrightarrow> I (v\<lparr>conn := c\<rparr>)"
    and read_inv: "I v \<Longrightarrow> tr_read T len (conn v) = Some (i, l, c) \<Longrightarrow> I (v\<lparr>conn := c\<rparr>)"
    and close_inv: "I v \<Longrightarrow> I (close_https T v)"
    and world_inv: "I v \<Longrightarrow> I (upd_world f v)"
    and redirect_inv: "I v \<Longrightarrow> I (v\<lparr>redirect_url := u\<rparr>)"
    and cookie_inv: "I v \<Longrightarrow> I (v\<lparr>cookies := jar_put n new (cookies v)\<rparr>)"
    and cb_inv: "I v \<Longrightarrow> I (cb v name val)"
begin

lemma alloc_inv: "I v \<Longrightarrow> I (snd (alloc v))"
  by (auto simp: alloc_def intro: world_inv split: list.splits)

lemma add_cookie_inv:
  assumes "I v"
  shows "I (snd (http_add_cookie v n x))"
proof -
  note a = alloc_inv [OF assms] alloc_inv [OF alloc_inv [OF assms]] alloc_inv [OF alloc_inv [OF alloc_inv [OF assms]]]
  show ?thesis using assms a
    by (simp add: http_add_cookie_def case_prod_beta cookie_inv split: bool.split)
qed

lemma after_step_inv:
  "I (step_client s) \<Longrightarrow> (\<And>st. I (fst st) \<Longrightarrow> I (step_client (f st))) \<Longrightarrow> I (step_client (after_step s f))"
  by (cases s) (auto simp: after_step_def step_client_def)

lemma header_steps_inv:
  assumes "I (fst st)"
  shows "I (step_client (header_connection name val st))" "I (step_client (header_location name val st))"
    "I (step_client (header_length T name val st))" "I (step_client (header_encoding T name val st))"
  using assms alloc_inv [OF assms]
  by (simp_all add: step_client_def header_connection_def header_location_def header_length_def header_encoding_def
      case_prod_beta redirect_inv close_inv split: bool.split)

lemma header_rest_inv: "I (fst st) \<Longrightarrow> I (step_client (header_rest T cb name val st))"
  unfolding header_rest_def by (intro after_step_inv header_steps_inv) (simp_all add: step_client_def cb_inv case_prod_beta)

lemma header_inv:
  assumes "I (fst st)"
  shows "I (step_client (http_header T cb line st))"
  using assms header_rest_inv [OF assms] add_cookie_inv [OF assms] header_rest_inv [of "(_, _)"]
  by (simp add: http_header_def Let_def case_prod_beta step_client_def split: list.split option.split)

lemma headers_inv:
  assumes "http_headers T cb st = Some s" "I (fst st)"
  shows "I (step_client s)"
proof -
  have "T = T \<longrightarrow> cb = cb \<longrightarrow> I (fst st) \<longrightarrow> I (step_client s)"
  proof (rule http_headers.raw_induct [where P = "\<lambda>U d st s. U = T \<longrightarrow> d = cb \<longrightarrow> I (fst st) \<longrightarrow> I (step_client s)", OF _ assms(1)], intro impI)
    fix f U d st s
    assume IH: "\<And>U d st s. f U d st = Some s \<Longrightarrow> U = T \<longrightarrow> d = cb \<longrightarrow> I (fst st) \<longrightarrow> I (step_client s)" and U: "U = T" and d: "d = cb" "I (fst st)"
      and eq: "(case st of (v, closeconn, bodylen) \<Rightarrow> case tr_gets U MAX_BUF_LEN (conn v) of None \<Rightarrow> None
        | Some (i, line, c) \<Rightarrow> let v = v\<lparr>conn := c\<rparr> in
            if i = 0 then Some (Inr (v, closeconn, bodylen)) else if i < 0 then Some (Inl (err EINVAL, close_https U v))
            else (case http_header U d line (v, closeconn, bodylen) of Inl e \<Rightarrow> Some (Inl e) | Inr st \<Rightarrow> f U d st)) = Some s"
    obtain v b n where st: "st = (v, b, n)" by (cases st)
    from eq obtain i line c where g: "tr_gets T MAX_BUF_LEN (conn v) = Some (i, line, c)" by (auto simp: st U split: option.splits)
    have u: "I (v\<lparr>conn := c\<rparr>)" using d(2) gets_inv [OF _ g] by (simp add: st)
    then have h: "I (step_client (http_header T cb line (v\<lparr>conn := c\<rparr>, b, n)))" using header_inv by simp
    show "I (step_client s)"
      using eq u h d(1) IH close_inv [OF u]
      by (cases "http_header T cb line (v\<lparr>conn := c\<rparr>, b, n)") (auto simp: st g h U Let_def split: if_splits)
  qed
  then show ?thesis using assms(2) by simp
qed

lemma start_inv:
  assumes "http_start T cb st = Some s" "I (fst st)"
  shows "I (start_client s)"
proof -
  have "T = T \<longrightarrow> cb = cb \<longrightarrow> I (fst st) \<longrightarrow> I (start_client s)"
  proof (rule http_start.raw_induct [where P = "\<lambda>U d st s. U = T \<longrightarrow> d = cb \<longrightarrow> I (fst st) \<longrightarrow> I (start_client s)", OF _ assms(1)], intro impI)
    fix f U d st s
    assume IH: "\<And>U d st s. f U d st = Some s \<Longrightarrow> U = T \<longrightarrow> d = cb \<longrightarrow> I (fst st) \<longrightarrow> I (start_client s)" and U: "U = T" and d: "d = cb" "I (fst st)"
      and eq: "(case st of (v, closeconn, bodylen) \<Rightarrow> case tr_gets U MAX_BUF_LEN (conn v) of None \<Rightarrow> None
        | Some (i, line, c) \<Rightarrow> let v = v\<lparr>conn := c\<rparr> in
            if i < 0 then Some (Inl (err EINVAL, close_https U v))
            else (case http_status closeconn line of None \<Rightarrow> None
              | Some (closeconn, None) \<Rightarrow> Some (Inl (err EINVAL, close_https U v))
              | Some (closeconn, Some result) \<Rightarrow>
                  (case http_headers U d (v, closeconn, bodylen) of None \<Rightarrow> None
                   | Some (Inl e) \<Rightarrow> Some (Inl e)
                   | Some (Inr st) \<Rightarrow> if result = 100 then f U d st else Some (Inr (result, st))))) = Some s"
    obtain v b n where st: "st = (v, b, n)" by (cases st)
    from eq obtain i line c where g: "tr_gets T MAX_BUF_LEN (conn v) = Some (i, line, c)" by (auto simp: st U split: option.splits)
    have u: "I (v\<lparr>conn := c\<rparr>)" using d(2) gets_inv [OF _ g] by (simp add: st)
    have h: "I (step_client t)" if "http_headers T cb (v\<lparr>conn := c\<rparr>, b', n) = Some t" for b' t
      using headers_inv [OF that] u by simp
    show "I (start_client s)"
      using eq u d(1) IH close_inv [OF u] h
      by (fastforce simp: st g U Let_def split: if_splits option.splits sum.splits)
  qed
  then show ?thesis using assms(2) by simp
qed

lemma read_until_inv:
  assumes "read_until T len body v = Some (r, w)" "I v"
  shows "I w"
proof -
  have "T = T \<longrightarrow> I v \<longrightarrow> I (snd (r, w))"
    by (rule read_until.raw_induct [where P = "\<lambda>U _ _ v s. U = T \<longrightarrow> I v \<longrightarrow> I (snd s)", OF _ assms(1)])
      (auto simp: Let_def dest: read_inv split: if_splits option.splits)
  then show ?thesis using assms(2) by simp
qed

lemma chunk_end_inv: "chunk_end T v = Some (b, w) \<Longrightarrow> I v \<Longrightarrow> I w"
  by (auto simp: chunk_end_def dest: gets_inv split: option.splits)

lemma chunks_inv:
  assumes "http_chunks T body v = Some (r, w)" "I v"
  shows "I w"
proof -
  have "T = T \<longrightarrow> I v \<longrightarrow> I (snd (r, w))"
  proof (rule http_chunks.raw_induct [where P = "\<lambda>U _ v s. U = T \<longrightarrow> I v \<longrightarrow> I (snd s)", OF _ assms(1)], intro impI)
    fix f U body v s
    assume IH: "\<And>U body v s. f U body v = Some s \<Longrightarrow> U = T \<longrightarrow> I v \<longrightarrow> I (snd s)" and U: "U = T" and v: "I v"
      and eq: "(case tr_gets U MAX_BUF_LEN (conn v) of None \<Rightarrow> None | Some (i, line, c) \<Rightarrow>
          let v = v\<lparr>conn := c\<rparr> in
          if i = 0 then Some (Inr body, v)
          else if i < 0 then Some (Inl i, v)
          else let chunklen = to_int (strtol16 (cstr line)); size = int (length (body_text body)) + chunklen + 1 in
            if chunklen = 0 then
              (case chunk_end U v of None \<Rightarrow> None | Some (ok, v) \<Rightarrow> Some (if ok then Inr body else Inl (err EINVAL), v))
            else if size > C_INT_MAX then None
            else if size < 0 \<or> \<not> w_mem (world v) (nat size) then Some (Inl (err ENOMEM), v)
            else if chunklen < 0 then None
            else (case read_until U (length (body_text body) + nat chunklen) (body_text body) v of None \<Rightarrow> None
                  | Some (Inl e, v) \<Rightarrow> Some (Inl (err EINVAL), v)
                  | Some (Inr s, v) \<Rightarrow>
                      (case chunk_end U v of None \<Rightarrow> None
                       | Some (ok, v) \<Rightarrow> if ok then f U (Some s) v else Some (Inl (err EINVAL), v)))) = Some s"
    from eq obtain i line c where g: "tr_gets T MAX_BUF_LEN (conn v) = Some (i, line, c)" by (auto simp: U split: option.splits)
    show "I (snd s)"
      using eq gets_inv [OF v g]
      by (fastforce simp: g U Let_def split: if_splits option.splits sum.splits dest: read_until_inv chunk_end_inv IH)
  qed
  then show ?thesis using assms(2) by simp
qed

lemma rest_inv:
  assumes "http_rest T body v = Some (r, w)" "I v"
  shows "I w"
proof -
  have "T = T \<longrightarrow> I v \<longrightarrow> I (snd (r, w))"
    by (rule http_rest.raw_induct [where P = "\<lambda>U _ v s. U = T \<longrightarrow> I v \<longrightarrow> I (snd s)", OF _ assms(1)])
      (auto simp: Let_def close_inv dest: read_inv split: if_splits option.splits)
  then show ?thesis using assms(2) by simp
qed

lemma body_inv:
  assumes "http_body T st = Some (r, w)" "I (fst st)"
  shows "I w"
proof -
  obtain v b n where st: "st = (v, b, n)" by (cases st)
  have v: "I v" using assms(2) by (simp add: st)
  obtain ok u where al: "alloc v = (ok, u)" by fastforce
  then have u: "I u" using alloc_inv [OF v] by simp
  have r: "read_until T m t u = Some (x, y) \<Longrightarrow> I y" for m t x y using read_until_inv u by blast
  have k: "http_chunks T t v = Some (x, y) \<Longrightarrow> I y" "http_rest T t' v = Some (x', y') \<Longrightarrow> I y'" for t x y t' x' y'
    using chunks_inv rest_inv v by blast+
  show ?thesis using assms(1) u v
    by (auto simp: http_body_def st al split: if_splits option.splits sum.splits bool.splits dest: k intro!: close_inv intro: r)
qed

lemma response_inv:
  assumes "process_http_response T connect cb v = Some (r, w)" "I v"
  shows "I w"
proof -
  obtain s where s: "http_start T cb (v, False, BODY_HTTP10) = Some s"
    using assms(1) by (cases "http_start T cb (v, False, BODY_HTTP10)") (auto simp: process_http_response_def)
  have i: "I (start_client s)" by (rule start_inv [OF s]) (simp add: assms(2))
  show ?thesis
  proof (cases s)
    case (Inl e)
    with i assms(1) s show ?thesis by (cases e) (auto simp: process_http_response_def)
  next
    case (Inr x)
    then obtain result u b n where x: "s = Inr (result, u, b, n)" by (cases x) auto
    with i have "I u" by simp
    then have "http_body T (u, b, n) = Some (r', w') \<Longrightarrow> I w'" for r' w' using body_inv by fastforce
    then show ?thesis using assms(1) \<open>I u\<close>
      by (auto simp: process_http_response_def s x Let_def intro: close_inv split: if_splits option.splits sum.splits)
  qed
qed

end

interpretation jar: client_invariant jar_ok no_cb T for T
  by unfold_locales (simp_all add: jar_ok_def no_cb_def jar_put_distinct upd_world_def close_https_def)

section \<open>Numbers on the wire\<close>

text \<open>A number with something behind it that is not a digit.\<close>

lemma atoi_dec:
  assumes "n < 2 ^ 31" "r = [] \<or> \<not> is_digit (hd r)"
  shows "atoi (dec_nat n @ r) = int n"
proof -
  obtain d ds where d: "dec_nat n = d # ds" by (cases "dec_nat n") auto
  have dd: "is_digit d" using dec_nat_digits [of n] by (simp add: d)
  have stop: "digits_val a r = a" for a using assms(2) by (cases r) auto
  have "atol_signed (dec_nat n @ r) = digits_val 0 (dec_nat n @ r)"
    using dd unfolding d by (cases "d # ds @ r" rule: atol_signed.cases) (auto simp: is_digit_def)
  moreover have "dropWhile is_space (dec_nat n @ r) = dec_nat n @ r" using dd by (auto simp: d is_space_def is_digit_def)
  moreover have "digits_val 0 (dec_nat n @ r) = int n"
    using dec_nat_digits by (simp add: digits_val_append digits_val_dec_nat stop)
  ultimately show ?thesis using assms(1) by (simp add: atoi_def atol_def clamp_long_def)
qed

lemma length_dec_nat: "n < 10 ^ k \<Longrightarrow> 0 < k \<Longrightarrow> length (dec_nat n) \<le> k"
proof (induction k arbitrary: n)
  case (Suc k)
  show ?case
  proof (cases "n < 10")
    case False
    then have "n div 10 < 10 ^ k" "0 < k" using Suc.prems by (auto simp: less_mult_imp_div_less mult.commute intro: gr0I)
    with Suc.IH [of "n div 10"] False show ?thesis by (subst dec_nat.simps) simp
  qed (subst dec_nat.simps, simp)
qed simp

text \<open>Hexadecimal, as servers write the length of a chunk.\<close>

fun hex_nat :: "nat \<Rightarrow> string" where
  "hex_nat n = (if n < 16 then [''0123456789abcdef'' ! n] else hex_nat (n div 16) @ [''0123456789abcdef'' ! (n mod 16)])"

declare hex_nat.simps [simp del]

lemma less_16: "n < 16 \<Longrightarrow> n \<in> {0, 1, 2, 3, 4, 5, 6, 7, 8, 9, 10, 11, 12, 13, 14, 15 :: nat}"
  by (simp add: less_Suc_eq numeral_eq_Suc)

lemma hex_value_digit:
  assumes "n < 16"
  shows "hex_value (''0123456789abcdef'' ! n) = Some (int n)"
  using less_16 [OF assms] by (elim insertE) (simp_all add: hex_value_def is_digit_def digit_val_def in_range_def)

definition hex_char :: "char \<Rightarrow> bool" where
  "hex_char c \<longleftrightarrow> hex_value c \<noteq> None"

lemma hex_nat_chars: "\<forall>c \<in> set (hex_nat n). hex_char c"
proof (induction n rule: hex_nat.induct)
  case (1 n)
  then show ?case by (subst hex_nat.simps) (auto simp: hex_char_def hex_value_digit)
qed

lemma hex_nat_nonempty [simp]: "hex_nat n \<noteq> []"
  by (subst hex_nat.simps) simp

lemma hex_digits_append: "\<forall>c \<in> set xs. hex_char c \<Longrightarrow> hex_digits a (xs @ ys) = hex_digits (hex_digits a xs) ys"
  by (induction xs arbitrary: a) (auto simp: hex_char_def)

lemma hex_digits_hex_nat: "hex_digits 0 (hex_nat n) = int n"
proof (induction n rule: hex_nat.induct)
  case (1 n)
  show ?case
  proof (cases "n < 16")
    case True
    then show ?thesis by (subst hex_nat.simps) (simp add: hex_value_digit)
  next
    case False
    then have "hex_digits 0 (hex_nat n) = 16 * int (n div 16) + int (n mod 16)"
      using 1 by (subst hex_nat.simps) (simp add: hex_digits_append hex_nat_chars hex_value_digit)
    then show ?thesis by (simp add: zdiv_int zmod_int)
  qed
qed

lemma hex_char_cases:
  assumes "hex_char c"
  shows "c \<noteq> CHR ''-''" "c \<noteq> CHR ''+''" "c \<noteq> CHR ''x''" "c \<noteq> CHR ''X''" "c \<noteq> LF" "c \<noteq> NUL" "\<not> is_space c"
  using assms by (auto simp: hex_char_def hex_value_def is_digit_def in_range_def is_space_def split: if_splits)

lemma strtol16_hex_nat:
  assumes "n < 2 ^ 63"
  shows "strtol16 (hex_nat n) = int n"
proof -
  obtain c cs where c: "hex_nat n = c # cs" by (cases "hex_nat n") auto
  note h = hex_nat_chars [of n, unfolded c]
  have "hex_prefix (c # cs) = c # cs"
    using h hex_char_cases [of "cs ! 0"] by (cases cs) (auto simp: hex_prefix_def has_prefix_def)
  then show ?thesis
    using h hex_char_cases [of c] hex_digits_hex_nat [of n] assms by (simp add: strtol16_def c clamp_long_def)
qed

lemma length_hex_nat: "n < 16 ^ k \<Longrightarrow> 0 < k \<Longrightarrow> length (hex_nat n) \<le> k"
proof (induction k arbitrary: n)
  case (Suc k)
  show ?case
  proof (cases "n < 16")
    case False
    then have "n div 16 < 16 ^ k" "0 < k" using Suc.prems by (auto simp: less_mult_imp_div_less mult.commute intro: gr0I)
    with Suc.IH [of "n div 16"] False show ?thesis by (subst hex_nat.simps) simp
  qed (subst hex_nat.simps, simp)
qed simp

section \<open>Reading what a server sent\<close>

definition plain_line :: "string \<Rightarrow> bool" where
  "plain_line l \<longleftrightarrow> l \<noteq> [] \<and> LF \<notin> set l \<and> length l < 131070"

definition header_name :: "string \<Rightarrow> string" where
  "header_name l = takeWhile (\<lambda>c. c \<noteq> CHR '':'') (cstr l)"

text \<open>A header line that means nothing to the client.\<close>

definition other_header :: "string \<Rightarrow> bool" where
  "other_header l \<longleftrightarrow> plain_line l \<and>
     (\<forall>n \<in> {''Set-Cookie'', ''Connection'', ''Location'', ''Content-Length'', ''Transfer-Encoding''}. \<not> strcaseeq (header_name l) n)"

definition lines_text :: "string list \<Rightarrow> string" where
  "lines_text ls = concat (map (\<lambda>l. l @ CRLF) ls)"

definition chunk_text :: "string list \<Rightarrow> string" where
  "chunk_text chunks = concat (map (\<lambda>d. hex_nat (length d) @ CRLF @ d @ CRLF) chunks) @ ''0'' @ CRLF @ CRLF"

definition status_line :: "nat \<Rightarrow> string \<Rightarrow> string" where
  "status_line code reason = ''HTTP/1.1 '' @ dec_nat code @ CHR '' '' # reason"

text \<open>An answer with one header line \<open>l\<close> that matters, and what is sent after it.\<close>

definition answer_text :: "nat \<Rightarrow> string \<Rightarrow> string list \<Rightarrow> string \<Rightarrow> string list \<Rightarrow> string \<Rightarrow> string" where
  "answer_text code reason ls l ls' s = status_line code reason @ CRLF @ lines_text ls @ l @ CRLF @ lines_text ls' @ CRLF @ s"

definition answer_ok :: "nat \<Rightarrow> string \<Rightarrow> string list \<Rightarrow> string list \<Rightarrow> bool" where
  "answer_ok code reason ls ls' \<longleftrightarrow> plain_line (status_line code reason) \<and> NUL \<notin> set reason \<and> 0 < code \<and> code < 2 ^ 31 \<and> code \<noteq> 100 \<and>
     (\<forall>l \<in> set ls \<union> set ls'. other_header l)"

lemma other_header_quiet: "other_header l \<Longrightarrow> http_header T no_cb l st = Inr st"
  by (cases st)
    (auto simp: http_header_def header_rest_def header_connection_def header_location_def header_length_def header_encoding_def
      after_step_def other_header_def header_name_def no_cb_def Let_def split: list.split)

lemma conn_twice [simp]: "v\<lparr>conn := a, conn := b\<rparr> = v\<lparr>conn := b\<rparr>"
  by simp

context byte_source
begin

lemma gets_crlf:
  assumes "holds c (l @ CRLF @ s)" "LF \<notin> set l" "length l + 2 < len"
  shows "\<exists>c'. tr_gets T len c = Some (int (length l), l, c') \<and> holds c' s"
  using gets_line [of c "l @ [CR]" s len] assms by (simp add: chop_def)

lemma read_until_exact:
  "holds (conn v) (s @ rest) \<Longrightarrow>
    \<exists>c. read_until T (length body + length s) body v = Some (Inr (body @ s), v\<lparr>conn := c\<rparr>) \<and> holds c rest"
proof (induction "length s" arbitrary: s body v rule: less_induct)
  case less
  show ?case
  proof (cases "s = []")
    case True
    then show ?thesis using less.prems by (intro exI [of _ "conn v"]) (simp add: read_until.simps)
  next
    case False
    with read_some [OF less.prems, of "length s"] obtain i c where i: "0 < i" "i \<le> length s"
        "tr_read T (length s) (conn v) = Some (int i, take i s, c)" "holds c (drop i s @ rest)" by auto
    let ?u = "v\<lparr>conn := c\<rparr>"
    have "\<exists>c. read_until T (length (body @ take i s) + length (drop i s)) (body @ take i s) ?u =
        Some (Inr ((body @ take i s) @ drop i s), ?u\<lparr>conn := c\<rparr>) \<and> holds c rest"
      by (rule less.hyps) (use i False in auto)
    then show ?thesis using i False by (auto simp: read_until.simps [of _ _ body] Let_def)
  qed
qed

lemma chunk_end_read:
  assumes "holds (conn v) (CRLF @ s)"
  shows "\<exists>c. chunk_end T v = Some (True, v\<lparr>conn := c\<rparr>) \<and> holds c s"
  using gets_crlf [of "conn v" "[]" s MAX_BUF_LEN] assms by (auto simp: chunk_end_def)

lemma chunks_read:
  "holds (conn v) (chunk_text chunks @ rest) \<Longrightarrow> \<forall>d \<in> set chunks. d \<noteq> [] \<Longrightarrow>
    length (body_text body) + length (concat chunks) < 2147483647 \<Longrightarrow> w_mem (world v) = (\<lambda>_. True) \<Longrightarrow>
    \<exists>c. http_chunks T body v = Some (Inr (if chunks = [] then body else Some (body_text body @ concat chunks)), v\<lparr>conn := c\<rparr>) \<and> holds c rest"
proof (induction chunks arbitrary: body v)
  case Nil
  then have "holds (conn v) (''0'' @ CRLF @ CRLF @ rest)" by (simp add: chunk_text_def)
  then obtain c where c: "tr_gets T MAX_BUF_LEN (conn v) = Some (1, ''0'', c)" "holds c (CRLF @ rest)"
    using gets_crlf [of "conn v" "''0''" "CRLF @ rest" MAX_BUF_LEN] by auto
  then obtain d where d: "chunk_end T (v\<lparr>conn := c\<rparr>) = Some (True, v\<lparr>conn := d\<rparr>)" "holds d rest"
    using chunk_end_read [of "v\<lparr>conn := c\<rparr>" rest] by auto
  have "strtol16 (cstr ''0'') = 0" using strtol16_hex_nat [of 0] by (simp add: cstr_def hex_nat.simps)
  then show ?case using c d by (auto simp: http_chunks.simps [of _ body] Let_def)
next
  case (Cons d chunks)
  let ?l = "hex_nat (length d)" and ?n = "length (body_text body)"
  have small: "length d < 2147483647" using Cons.prems(3) by simp
  have hex: "LF \<notin> set ?l" "NUL \<notin> set ?l" using hex_nat_chars [of "length d"] hex_char_cases(5,6) by blast+
  have "length ?l \<le> 8" using small by (intro length_hex_nat) simp_all
  with Cons.prems(1) hex obtain c where c: "tr_gets T MAX_BUF_LEN (conn v) = Some (int (length ?l), ?l, c)"
      "holds c (d @ CRLF @ chunk_text chunks @ rest)"
    using gets_crlf [of "conn v" ?l "d @ CRLF @ chunk_text chunks @ rest" MAX_BUF_LEN] by (auto simp: chunk_text_def)
  let ?u = "v\<lparr>conn := c\<rparr>"
  obtain e where e: "read_until T (?n + length d) (body_text body) ?u = Some (Inr (body_text body @ d), v\<lparr>conn := e\<rparr>)"
      "holds e (CRLF @ chunk_text chunks @ rest)"
    using read_until_exact [of ?u d "CRLF @ chunk_text chunks @ rest" "body_text body"] c(2) by auto
  obtain g where g: "chunk_end T (v\<lparr>conn := e\<rparr>) = Some (True, v\<lparr>conn := g\<rparr>)" "holds g (chunk_text chunks @ rest)"
    using chunk_end_read [of "v\<lparr>conn := e\<rparr>" "chunk_text chunks @ rest"] e(2) by auto
  let ?b = "Some (body_text body @ d)"
  have t: "body_text ?b = body_text body @ d" by (simp add: body_text_def)
  have "\<exists>c. http_chunks T ?b (v\<lparr>conn := g\<rparr>) = Some (Inr (if chunks = [] then ?b else Some (body_text ?b @ concat chunks)), v\<lparr>conn := g\<rparr>\<lparr>conn := c\<rparr>) \<and> holds c rest"
    by (rule Cons.IH) (use g Cons.prems in \<open>simp_all add: t\<close>)
  then obtain x where x: "http_chunks T ?b (v\<lparr>conn := g\<rparr>) = Some (Inr (Some (body_text body @ d @ concat chunks)), v\<lparr>conn := x\<rparr>)" "holds x rest"
    by (auto simp: t split: if_splits)
  have k: "cstr ?l = ?l" using hex(2) by (auto simp: cstr_def takeWhile_eq_all_conv)
  have "to_int (strtol16 (cstr ?l)) = int (length d)" using small by (simp add: k strtol16_hex_nat)
  then show ?case
    using c e g x Cons.prems(2-4) by (auto simp: http_chunks.simps [of _ body] Let_def)
qed

lemma headers_end:
  assumes "holds (conn v) (CRLF @ s)"
  shows "\<exists>c. http_headers T cb (v, b, n) = Some (Inr (v\<lparr>conn := c\<rparr>, b, n)) \<and> holds c s"
  using gets_crlf [of "conn v" "[]" s MAX_BUF_LEN] assms by (auto simp: http_headers.simps)

lemma headers_line:
  assumes "holds (conn v) (l @ CRLF @ s)" "plain_line l"
  shows "\<exists>c. holds c s \<and> http_headers T cb (v, b, n) =
    (case http_header T cb l (v\<lparr>conn := c\<rparr>, b, n) of Inl e \<Rightarrow> Some (Inl e) | Inr st \<Rightarrow> http_headers T cb st)"
  using gets_crlf [of "conn v" l s MAX_BUF_LEN] assms by (auto simp: http_headers.simps [of _ _ "(v, b, n)"] plain_line_def)

lemma headers_skip:
  "holds (conn v) (lines_text ls @ s) \<Longrightarrow> \<forall>l \<in> set ls. other_header l \<Longrightarrow>
    \<exists>c. holds c s \<and> http_headers T no_cb (v, b, n) = http_headers T no_cb (v\<lparr>conn := c\<rparr>, b, n)"
proof (induction ls arbitrary: v)
  case Nil
  then show ?case by (intro exI [of _ "conn v"]) (simp add: lines_text_def)
next
  case (Cons l ls)
  from Cons.prems have p: "plain_line l" "other_header l" by (simp_all add: other_header_def)
  obtain c where c: "holds c (lines_text ls @ s)" "http_headers T no_cb (v, b, n) = http_headers T no_cb (v\<lparr>conn := c\<rparr>, b, n)"
    using headers_line [of v l "lines_text ls @ s" no_cb b n] Cons.prems(1) p by (auto simp: lines_text_def other_header_quiet)
  from Cons.IH [of "v\<lparr>conn := c\<rparr>"] c Cons.prems(2) show ?case by auto
qed

text \<open>A header line that sets the length of the body, among others.\<close>

lemma headers_read:
  assumes "holds (conn v) (lines_text ls @ l @ CRLF @ lines_text ls' @ CRLF @ s)" "\<forall>l \<in> set ls \<union> set ls'. other_header l"
    and "plain_line l" "\<And>c. http_header T no_cb l (v\<lparr>conn := c\<rparr>, b, n) = Inr (v\<lparr>conn := c\<rparr>, b', n')"
  shows "\<exists>c. holds c s \<and> http_headers T no_cb (v, b, n) = Some (Inr (v\<lparr>conn := c\<rparr>, b', n'))"
proof -
  obtain c where c: "holds c (l @ CRLF @ lines_text ls' @ CRLF @ s)" "http_headers T no_cb (v, b, n) = http_headers T no_cb (v\<lparr>conn := c\<rparr>, b, n)"
    using headers_skip [OF assms(1)] assms(2) by blast
  obtain d where d: "holds d (lines_text ls' @ CRLF @ s)" "http_headers T no_cb (v\<lparr>conn := c\<rparr>, b, n) = http_headers T no_cb (v\<lparr>conn := d\<rparr>, b', n')"
    using headers_line [of "v\<lparr>conn := c\<rparr>" l "lines_text ls' @ CRLF @ s" no_cb b n] c(1) assms(3,4) by auto
  obtain e where e: "holds e (CRLF @ s)" "http_headers T no_cb (v\<lparr>conn := d\<rparr>, b', n') = http_headers T no_cb (v\<lparr>conn := e\<rparr>, b', n')"
    using headers_skip [of "v\<lparr>conn := d\<rparr>" ls' "CRLF @ s" b' n'] d(1) assms(2) by auto
  show ?thesis using headers_end [of "v\<lparr>conn := e\<rparr>" s no_cb b' n'] c d e by auto
qed

lemma start_read:
  assumes "holds (conn v) (answer_text code reason ls l ls' s)" "answer_ok code reason ls ls'" "plain_line l"
    and "\<And>c. http_header T no_cb l (v\<lparr>conn := c\<rparr>, False, n) = Inr (v\<lparr>conn := c\<rparr>, False, n')"
  shows "\<exists>c. holds c s \<and> http_start T no_cb (v, False, n) = Some (Inr (int code, v\<lparr>conn := c\<rparr>, False, n'))"
proof -
  let ?l = "status_line code reason" and ?s = "lines_text ls @ l @ CRLF @ lines_text ls' @ CRLF @ s"
  note ok = assms(2) [unfolded answer_ok_def]
  obtain c where c: "tr_gets T MAX_BUF_LEN (conn v) = Some (int (length ?l), ?l, c)" "holds c ?s"
    using gets_crlf [of "conn v" ?l ?s MAX_BUF_LEN] assms(1) ok by (auto simp: plain_line_def answer_text_def)
  have "NUL \<notin> set (dec_nat code)" using dec_nat_digits [of code] by (auto simp: is_digit_def)
  then have k: "cstr ?l = ?l" using ok by (auto simp: cstr_def takeWhile_eq_all_conv status_line_def)
  have "atoi (drop 9 ?l) = int code"
    using atoi_dec [of code "CHR '' '' # reason"] ok by (simp add: status_line_def is_digit_def)
  then have st: "http_status False ?l = Some (False, Some (int code))"
    using ok by (simp add: http_status_def k Let_def) (simp add: status_line_def has_prefix_def)
  obtain d where "holds d s" "http_headers T no_cb (v\<lparr>conn := c\<rparr>, False, n) = Some (Inr (v\<lparr>conn := d\<rparr>, False, n'))"
    using headers_read [of "v\<lparr>conn := c\<rparr>" ls l ls' s False n False n'] c(2) ok assms(3,4) by auto
  then show ?thesis using c ok by (intro exI [of _ d]) (simp add: http_start.simps [of _ _ "(v, False, n)"] st Let_def)
qed

lemma response_chunked:
  assumes "holds (conn v) (answer_text code reason ls ''Transfer-Encoding: chunked'' ls' (chunk_text chunks @ rest))"
    and "answer_ok code reason ls ls'" "\<forall>d \<in> set chunks. d \<noteq> []" "length (concat chunks) < 2147483647"
    and "w_mem (world v) = (\<lambda>_. True)" "\<not> no_http_keepalive v"
  shows "\<exists>c. holds c rest \<and> process_http_response T False no_cb v =
    Some (Inr (int (length (concat chunks)), int code, if chunks = [] then None else Some (concat chunks)), v\<lparr>conn := c\<rparr>)"
proof -
  have h: "http_header T no_cb ''Transfer-Encoding: chunked'' (u, False, BODY_HTTP10) = Inr (u, False, BODY_CHUNKED)" for u
    by (simp add: http_header_def header_rest_def header_connection_def header_location_def header_length_def header_encoding_def
        after_step_def cstr_def strcaseeq_def has_prefix_def no_cb_def to_lower_def char_of_def bit_0 Let_def)
  obtain c where c: "holds c (chunk_text chunks @ rest)"
      "http_start T no_cb (v, False, BODY_HTTP10) = Some (Inr (int code, v\<lparr>conn := c\<rparr>, False, BODY_CHUNKED))"
    using start_read [OF assms(1,2), of BODY_HTTP10 BODY_CHUNKED] h by (auto simp: plain_line_def)
  obtain d where d: "http_chunks T None (v\<lparr>conn := c\<rparr>) = Some (Inr (if chunks = [] then None else Some (concat chunks)), v\<lparr>conn := d\<rparr>)"
      "holds d rest"
    using chunks_read [of "v\<lparr>conn := c\<rparr>" chunks rest None] c(1) assms(3-5) by (auto simp: body_text_def)
  show ?thesis using c(2) d assms(6)
    by (intro exI [of _ d]) (simp add: process_http_response_def http_body_def body_text_def Let_def)
qed

lemma response_length:
  assumes "holds (conn v) (answer_text code reason ls (''Content-Length: '' @ dec_nat (length body)) ls' (body @ rest))"
    and "answer_ok code reason ls ls'" "body \<noteq> []" "length body < 2147483647" "w_alloc (world v) = []" "\<not> no_http_keepalive v"
  shows "\<exists>c. holds c rest \<and> process_http_response T False no_cb v =
    Some (Inr (int (length body), int code, Some body), v\<lparr>conn := c\<rparr>)"
proof -
  let ?l = "''Content-Length: '' @ dec_nat (length body)"
  have a: "atoi (dec_nat (length body)) = int (length body)" using atoi_dec [of "length body" "[]"] assms(4) by simp
  have "NUL \<notin> set (dec_nat (length body))" using dec_nat_digits [of "length body"] by (auto simp: is_digit_def)
  then have k: "cstr ?l = ?l" by (auto simp: cstr_def takeWhile_eq_all_conv)
  have h: "http_header T no_cb ?l (u, False, BODY_HTTP10) = Inr (u, False, int (length body))" for u
    unfolding http_header_def k prod.case Let_def
    by (simp add: header_rest_def header_connection_def header_location_def header_length_def header_encoding_def
        after_step_def strcaseeq_def has_prefix_def no_cb_def to_lower_def a)
  have "LF \<notin> set (dec_nat (length body))" using dec_nat_digits [of "length body"] by (auto simp: is_digit_def)
  moreover have "length (dec_nat (length body)) \<le> 10" using assms(4) by (intro length_dec_nat) simp_all
  ultimately have "plain_line ?l" by (simp add: plain_line_def)
  then obtain c where c: "holds c (body @ rest)"
      "http_start T no_cb (v, False, BODY_HTTP10) = Some (Inr (int code, v\<lparr>conn := c\<rparr>, False, int (length body)))"
    using start_read [OF assms(1,2), of BODY_HTTP10 "int (length body)"] h by auto
  obtain d where d: "read_until T (length body) [] (v\<lparr>conn := c\<rparr>) = Some (Inr body, v\<lparr>conn := d\<rparr>)" "holds d rest"
    using read_until_exact [of "v\<lparr>conn := c\<rparr>" body rest "[]"] c(1) by auto
  have "alloc (v\<lparr>conn := c\<rparr>) = (True, v\<lparr>conn := c\<rparr>)" using assms(5) by (simp add: alloc_def)
  then show ?thesis using c(2) d assms(3,4,6)
    by (intro exI [of _ d]) (simp add: process_http_response_def http_body_def body_text_def Let_def)
qed

end

text \<open>
  C14 (chunked_answer_read): An answer whose body comes in chunks is read whole: for every status but 100, with further headers that are none of those
  the client acts on (Set-Cookie, Connection, Location, Content-Length, another Transfer-Encoding), for every chunking of the body and way in which
  the bytes arrive, over TLS and from a proxy, process_http_response, with memory and on a connection that is kept, returns the body with its length and
  the status and leaves on the connection what follows the answer.
\<close>

theorem chunked_answer_read:
  assumes "T = ssl_transport \<or> T = proxy_transport"
    and "net_holds (conn v) (answer_text code reason ls ''Transfer-Encoding: chunked'' ls' (chunk_text chunks @ rest))"
    and "answer_ok code reason ls ls'" "\<forall>d \<in> set chunks. d \<noteq> []" "length (concat chunks) < 2147483647"
    and "w_mem (world v) = (\<lambda>_. True)" "\<not> no_http_keepalive v"
  shows "\<exists>c. net_holds c rest \<and> process_http_response T False no_cb v =
    Some (Inr (int (length (concat chunks)), int code, if chunks = [] then None else Some (concat chunks)), v\<lparr>conn := c\<rparr>)"
  using assms(1) tls.response_chunked [OF assms(2-7)] plain.response_chunked [OF assms(2-7)] by blast

text \<open>
  The same for an answer with a Content-Length.
\<close>

theorem sized_answer_read:
  assumes "T = ssl_transport \<or> T = proxy_transport"
    and "net_holds (conn v) (answer_text code reason ls (''Content-Length: '' @ dec_nat (length body)) ls' (body @ rest))"
    and "answer_ok code reason ls ls'" "body \<noteq> []" "length body < 2147483647" "w_alloc (world v) = []" "\<not> no_http_keepalive v"
  shows "\<exists>c. net_holds c rest \<and> process_http_response T False no_cb v = Some (Inr (int (length body), int code, Some body), v\<lparr>conn := c\<rparr>)"
  using assms(1) tls.response_length [OF assms(2-7)] plain.response_length [OF assms(2-7)] by blast

text \<open>An answer that arrives in two pieces.\<close>

definition arrives :: "string \<Rightarrow> net" where
  "arrives s = \<lparr>net_open = True, net_in = [In_Idle, In s], net_out = [], net_sent = [], net_cancelled = False\<rparr>"

lemma arrives_holds: "net_holds (arrives s) s"
proof -
  have "delivers [In s] s"
    by (induction s) (auto split: list.split simp: neq_Nil_conv)
  then show ?thesis by (cases s) (auto simp: arrives_def net_holds_def)
qed

lemma sample_fields:
  "w_mem (world (http_sample c)) = (\<lambda>_. True)" "w_alloc (world (http_sample c)) = []" "\<not> no_http_keepalive (http_sample c)"
  "(http_sample c)\<lparr>conn := d\<rparr> = http_sample d"
  by (simp_all add: http_sample_def quiet_world_def)

lemma sample_holds: "net_holds (conn (http_sample (arrives s))) s"
  by (simp add: http_sample_def arrives_holds)

theorem chunked_answer_read_witness:
  "\<exists>c. process_http_response ssl_transport False no_cb
      (http_sample (arrives (answer_text 200 ''OK'' [''Server: x''] ''Transfer-Encoding: chunked'' [] (chunk_text [''abc'', ''de''] @ ''HTTP''))))
    = Some (Inr (5, 200, Some ''abcde''), http_sample c) \<and> net_holds c ''HTTP''"
proof -
  let ?a = "answer_text 200 ''OK'' [''Server: x''] ''Transfer-Encoding: chunked'' [] (chunk_text [''abc'', ''de''] @ ''HTTP'')"
  have "answer_ok 200 ''OK'' [''Server: x''] []"
    by (simp add: answer_ok_def plain_line_def status_line_def dec_nat.simps other_header_def header_name_def cstr_def strcaseeq_def
        to_lower_def char_of_def bit_0)
  from chunked_answer_read [OF disjI1 [OF refl] sample_holds this, of "[''abc'', ''de'']" "''HTTP''"] obtain c where
    "process_http_response ssl_transport False no_cb (http_sample (arrives ?a)) =
      Some (Inr (int (length (concat [''abc'', ''de''])), int 200, Some (concat [''abc'', ''de''])), (http_sample (arrives ?a))\<lparr>conn := c\<rparr>)"
    "net_holds c ''HTTP''" by (auto simp: sample_fields)
  then show ?thesis by (auto simp: sample_fields)
qed

theorem sized_answer_read_witness:
  "\<exists>c. process_http_response proxy_transport False no_cb
      (http_sample (arrives (answer_text 404 ''Not Found'' [] (''Content-Length: '' @ dec_nat (length ''abc'')) [] (''abc'' @ []))))
    = Some (Inr (3, 404, Some ''abc''), http_sample c)"
proof -
  let ?a = "answer_text 404 ''Not Found'' [] (''Content-Length: '' @ dec_nat (length ''abc'')) [] (''abc'' @ [])"
  have "answer_ok 404 ''Not Found'' [] []"
    by (simp add: answer_ok_def plain_line_def status_line_def dec_nat.simps char_of_def bit_0)
  from sized_answer_read [OF disjI2 [OF refl] sample_holds this, of "''abc''" "[]"] obtain c where
    "process_http_response proxy_transport False no_cb (http_sample (arrives ?a)) =
      Some (Inr (int (length ''abc''), int 404, Some ''abc''), (http_sample (arrives ?a))\<lparr>conn := c\<rparr>)"
    by (auto simp: sample_fields)
  then show ?thesis by (auto simp: sample_fields)
qed

section \<open>The request\<close>

definition common_text :: "'c http_info \<Rightarrow> string" where
  "common_text v =
     ''Host: '' @ hostname v @ CRLF @ ''User-Agent: '' @ useragent v @ CRLF @ ''Accept: */*'' @ CRLF @ ''Accept-Encoding: identity'' @ CRLF @
     (if cookies v = [] then [] else ''Cookie: '' @ concat (map (\<lambda>(n, x). n @ ''='' @ x @ ''; '') (butlast (cookies v))) @
        fst (last (cookies v)) @ ''='' @ snd (last (cookies v)) @ CRLF) @
     ''X-Transcend-Version: 1'' @ CRLF @
     (if xmlpost v then ''X-Aggregate-Auth: 1'' @ CRLF @ ''X-AnyConnect-Platform: '' @ platname v @ CRLF else []) @
     (case mobile_platform_version v of None \<Rightarrow> []
      | Some ver \<Rightarrow> ''X-AnyConnect-Identifier-ClientVersion: '' @ openconnect_version_str @ CRLF @
          ''X-AnyConnect-Identifier-Platform: '' @ platname v @ CRLF @ ''X-AnyConnect-Identifier-PlatformVersion: '' @ ver @ CRLF @
          ''X-AnyConnect-Identifier-DeviceType: '' @ mobile_device_type v @ CRLF @
          ''X-AnyConnect-Identifier-Device-UniqueID: '' @ mobile_device_uniqueid v @ CRLF)"

lemma adds_cookies:
  "jar \<noteq> [] \<Longrightarrow> adds h g t \<Longrightarrow> adds h (cookie_header v g jar) (t @ concat (map (\<lambda>(n, x). n @ ''='' @ x @ ''; '') (butlast jar)) @
    fst (last jar) @ ''='' @ snd (last jar) @ CRLF)"
proof (induction jar arbitrary: g t)
  case (Cons c jar)
  obtain n x where c: "c = (n, x)" by (cases c)
  show ?case
  proof (cases "jar = []")
    case True
    then show ?thesis using adds_put [OF Cons.prems(2), of v "n @ ''='' @ x @ CRLF"] by (simp add: c)
  next
    case False
    from Cons.IH [OF False adds_put [OF Cons.prems(2), of v "n @ ''='' @ x @ ''; ''"]] False show ?thesis
      by (simp add: c)
  qed
qed simp

lemma adds_common: "adds h (add_common_headers v h) (common_text v)"
proof -
  let ?h = "put v (put v (put v (put v h (''Host: '' @ hostname v @ CRLF)) (''User-Agent: '' @ useragent v @ CRLF)) (''Accept: */*'' @ CRLF)) (''Accept-Encoding: identity'' @ CRLF)"
  let ?t = "''Host: '' @ hostname v @ CRLF @ ''User-Agent: '' @ useragent v @ CRLF @ ''Accept: */*'' @ CRLF @ ''Accept-Encoding: identity'' @ CRLF"
  have "adds h ?h ?t" by (rule adds_eq, (rule adds_intros)+) simp
  then have c: "adds h (if cookies v \<noteq> [] then cookie_header v (put v ?h ''Cookie: '') (cookies v) else ?h)
     (?t @ (if cookies v = [] then [] else ''Cookie: '' @ concat (map (\<lambda>(n, x). n @ ''='' @ x @ ''; '') (butlast (cookies v))) @
        fst (last (cookies v)) @ ''='' @ snd (last (cookies v)) @ CRLF))"
    using adds_cookies [OF _ adds_put [of h ?h ?t v "''Cookie: ''"], of "cookies v" v] by simp
  let ?c = "if cookies v \<noteq> [] then cookie_header v (put v ?h ''Cookie: '') (cookies v) else ?h"
  let ?x = "put v ?c (''X-Transcend-Version: 1'' @ CRLF)"
  let ?y = "if xmlpost v then put v (put v ?x (''X-Aggregate-Auth: 1'' @ CRLF)) (''X-AnyConnect-Platform: '' @ platname v @ CRLF) else ?x"
  have y: "adds ?c ?y (''X-Transcend-Version: 1'' @ CRLF @
     (if xmlpost v then ''X-Aggregate-Auth: 1'' @ CRLF @ ''X-AnyConnect-Platform: '' @ platname v @ CRLF else []))"
    by (cases "xmlpost v"; simp only: if_True if_False) (rule adds_eq, (rule adds_intros)+, simp)+
  have z: "adds ?y (case mobile_platform_version v of None \<Rightarrow> ?y
      | Some ver \<Rightarrow> put v (put v (put v (put v (put v ?y (''X-AnyConnect-Identifier-ClientVersion: '' @ openconnect_version_str @ CRLF))
          (''X-AnyConnect-Identifier-Platform: '' @ platname v @ CRLF)) (''X-AnyConnect-Identifier-PlatformVersion: '' @ ver @ CRLF))
          (''X-AnyConnect-Identifier-DeviceType: '' @ mobile_device_type v @ CRLF)) (''X-AnyConnect-Identifier-Device-UniqueID: '' @ mobile_device_uniqueid v @ CRLF))
     (case mobile_platform_version v of None \<Rightarrow> []
      | Some ver \<Rightarrow> ''X-AnyConnect-Identifier-ClientVersion: '' @ openconnect_version_str @ CRLF @
          ''X-AnyConnect-Identifier-Platform: '' @ platname v @ CRLF @ ''X-AnyConnect-Identifier-PlatformVersion: '' @ ver @ CRLF @
          ''X-AnyConnect-Identifier-DeviceType: '' @ mobile_device_type v @ CRLF @
          ''X-AnyConnect-Identifier-Device-UniqueID: '' @ mobile_device_uniqueid v @ CRLF)"
  proof (cases "mobile_platform_version v")
    case (Some ver)
    show ?thesis unfolding Some option.case by (rule adds_eq, (rule adds_intros)+) simp
  qed (simp add: adds_refl)
  show ?thesis
    unfolding add_common_headers_def Let_def common_text_def
    by (rule adds_eq [OF adds_trans [OF adds_trans [OF c y] z]]) simp
qed

lemma pad_length: "64 dvd rlen + pad_length rlen \<and> 1 \<le> pad_length rlen \<and> pad_length rlen \<le> 64"
proof -
  obtain q where q: "q = rlen div 64" "rlen < 64 + 64 * q" "64 * q \<le> rlen" by simp
  then have "rlen + pad_length rlen = 64 * (1 + q)" by (simp add: pad_length_def)
  then have "64 dvd rlen + pad_length rlen" by (metis dvd_triv_left)
  moreover have "1 \<le> pad_length rlen" "pad_length rlen \<le> 64" using q by (simp_all add: pad_length_def flip: q(1))
  ultimately show ?thesis by blast
qed

text \<open>
  C30 (https_request_text): A request that was built is the request line, the common headers with every cookie, and for a body its type, its length and
  zeros in an X-Pad header that bring body and padding to a multiple of 64, so that the size does not give the
  length of a password away within a block.
\<close>

theorem https_request_text:
  assumes "https_request v meth body = (h, w)" "\<not> put_failed h"
  shows "\<exists>pad. put_written h = meth @ '' /'' @ (case urlpath v of None \<Rightarrow> [] | Some p \<Rightarrow> p) @ '' HTTP/1.1'' @ CRLF @ common_text v @
      (case body of None \<Rightarrow> CRLF
       | Some (body_type, text) \<Rightarrow> ''X-Pad: '' @ replicate pad (CHR ''0'') @ CRLF @ ''Content-Type: '' @ body_type @ CRLF @
           ''Content-Length: '' @ dec_int (int (length text)) @ CRLF @ CRLF @ text) \<and>
    (\<forall>t b. body = Some (t, b) \<longrightarrow> 64 dvd length b + pad \<and> 1 \<le> pad \<and> pad \<le> 64)"
proof -
  obtain g u where u: "new_header v = (g, u)" by fastforce
  have same: "urlpath u = urlpath v" "common_text u = common_text v"
  proof -
    have "common_text (v\<lparr>world := x\<rparr>) = common_text v" for x by (simp add: common_text_def cong: option.case_cong)
    then show "urlpath u = urlpath v" "common_text u = common_text v"
      using u by (auto simp: new_header_def alloc_def upd_world_def split: list.splits)
  qed
  show ?thesis
  proof (cases body)
    case None
    have "h = put u (add_common_headers u (put u g (meth @ '' /'' @ (case urlpath u of None \<Rightarrow> [] | Some p \<Rightarrow> p) @ '' HTTP/1.1'' @ CRLF))) CRLF"
      using assms(1) u None by (auto simp: https_request_def Let_def)
    moreover have "adds g (put u (add_common_headers u (put u g (meth @ '' /'' @ (case urlpath u of None \<Rightarrow> [] | Some p \<Rightarrow> p) @ '' HTTP/1.1'' @ CRLF))) CRLF)
        (meth @ '' /'' @ (case urlpath u of None \<Rightarrow> [] | Some p \<Rightarrow> p) @ '' HTTP/1.1'' @ CRLF @ common_text u @ CRLF)"
      by (rule adds_eq, rule adds_put, rule adds_trans, rule adds_one_put, rule adds_common) simp
    ultimately show ?thesis
      using adds_written assms(2) new_header_written [OF u] None same by fastforce
  next
    case (Some tb)
    obtain t b where tb: "tb = (t, b)" by (cases tb)
    let ?h = "body_headers u (add_common_headers u (put u g (meth @ '' /'' @ (case urlpath u of None \<Rightarrow> [] | Some p \<Rightarrow> p) @ '' HTTP/1.1'' @ CRLF))) t b"
    have "h = put u (put u ?h CRLF) b"
      using assms(1) u Some tb by (auto simp: https_request_def Let_def)
    moreover have "adds g (put u (put u ?h CRLF) b)
        (meth @ '' /'' @ (case urlpath u of None \<Rightarrow> [] | Some p \<Rightarrow> p) @ '' HTTP/1.1'' @ CRLF @ common_text u @
         ''X-Pad: '' @ replicate (pad_length (length b)) (CHR ''0'') @ CRLF @ ''Content-Type: '' @ t @ CRLF @
           ''Content-Length: '' @ dec_int (int (length b)) @ CRLF @ CRLF @ b)"
      unfolding body_headers_def Let_def
      by (rule adds_eq, rule adds_put, rule adds_put, rule adds_put, rule adds_put, rule adds_put, rule adds_trans, rule adds_one_put, rule adds_common) simp
    ultimately have "put_written h = meth @ '' /'' @ (case urlpath u of None \<Rightarrow> [] | Some p \<Rightarrow> p) @ '' HTTP/1.1'' @ CRLF @ common_text u @
         ''X-Pad: '' @ replicate (pad_length (length b)) (CHR ''0'') @ CRLF @ ''Content-Type: '' @ t @ CRLF @
           ''Content-Length: '' @ dec_int (int (length b)) @ CRLF @ CRLF @ b"
      using adds_written assms(2) new_header_written [OF u] by fastforce
    then show ?thesis using pad_length [of "length b"] Some tb same by (intro exI [of _ "pad_length (length b)"]) auto
  qed
qed


lemma sample_request:
  "\<exists>h. https_request (http_sample ()) ''POST'' (Some (''t'', ''b'')) = (h, http_sample ()) \<and> \<not> put_failed h"
proof -
  let ?v = "http_sample ()"
  have nh: "new_header ?v = (Some (buf_alloc True), ?v)" by (simp add: new_header_def alloc_def sample_fields)
  have c: "cookies ?v = []" "\<not> xmlpost ?v" "mobile_platform_version ?v = None" "urlpath ?v = None"
    by (simp_all add: http_sample_def)
  obtain h where h: "https_request ?v ''POST'' (Some (''t'', ''b'')) = (h, ?v)" by (simp add: https_request_def nh Let_def)
  have "room ?v h 0"
    using h unfolding https_request_def nh prod.case Let_def option.case c(4) add_common_headers_def c(1,3) if_not_P [OF c(2)] body_headers_def
    apply simp
    apply (erule subst)
    apply (rule room_put)+
    apply (rule room_new(1) [OF nh])
    apply (simp_all add: sample_fields)
    apply (simp add: http_sample_def pad_length_def dec_int_def dec_nat.simps)
    done
  then show ?thesis using h room_ok by blast
qed

lemma split_at_sep:
  assumes "CHR '':'' \<notin> set a"
  shows "split_at ''://'' (a @ ''://'' @ b) = Some (a, b)"
  using assms by (induction a) (auto simp: has_prefix_def)

lemma split_at_none: "CHR '':'' \<notin> set s \<Longrightarrow> split_at ''://'' s = None"
  by (induction s) (auto simp: has_prefix_def)

lemma rev_part:
  assumes "CHR '':'' \<notin> set b"
  shows "rev (takeWhile (\<lambda>c. c \<noteq> CHR '':'') (rev (a @ CHR '':'' # b))) = b"
proof -
  have "takeWhile (\<lambda>c. c \<noteq> CHR '':'') (rev b @ CHR '':'' # rev a) = rev b"
    using assms by (subst takeWhile_append2) auto
  then show ?thesis by simp
qed

lemma whole_number_dec: "n < 2 ^ 31 \<Longrightarrow> whole_number (dec_nat n) = Some (int n)"
proof -
  assume n: "n < 2 ^ 31"
  obtain d ds where d: "dec_nat n = d # ds" by (cases "dec_nat n") auto
  have all: "\<forall>c \<in> set (d # ds). is_digit c" using dec_nat_digits [of n] by (simp add: d)
  then have "is_digit d" by simp
  then have "\<not> is_space d" "d \<noteq> CHR ''-''" "d \<noteq> CHR ''+''" by (auto simp: is_digit_def is_space_def)
  moreover have "to_int (atol (dec_nat n)) = int n" using atoi_dec [OF n, of "[]"] by (simp add: atoi_def)
  ultimately show ?thesis using all by (simp add: whole_number_def d)
qed

text \<open>
  C31 (url_roundtrip): A URL put together from a known scheme, a host, a port and a path is taken apart into the same parts; without a port the scheme's
  own is given, and without a scheme the caller's default.
\<close>

theorem url_roundtrip:
  assumes "CHR '':'' \<notin> set scheme" "proto_port scheme = Some standard" "CHR '':'' \<notin> set host" "CHR ''/'' \<notin> set host" "n < 65536"
  shows "internal_parse_url (scheme @ ''://'' @ host @ '':'' @ dec_nat n @ ''/'' @ path) d = Inr (Some scheme, host, int n, if path = [] then None else Some path) \<and>
    internal_parse_url (scheme @ ''://'' @ host @ ''/'' @ path) d = Inr (Some scheme, host, standard, if path = [] then None else Some path) \<and>
    (d \<noteq> 0 \<longrightarrow> internal_parse_url (host @ '':'' @ dec_nat n) d = Inr (None, host, int n, None) \<and> internal_parse_url host d = Inr (None, host, d, None))"
proof -
  have dig: "CHR ''/'' \<notin> set (dec_nat n)" "CHR '':'' \<notin> set (dec_nat n)" using dec_nat_digits [of n] by (auto simp: is_digit_def)
  have hp: "host_port p (host @ '':'' @ dec_nat n) = (host, int n)" for p
    using rev_part [OF dig(2), of host] whole_number_dec [of n] assms(5) by (simp add: host_port_def)
  have h: "host_port p host = (host, p)" for p using assms(3) by (simp add: host_port_def)
  have tw: "takeWhile (\<lambda>c. c \<noteq> CHR ''/'') (x @ ''/'' @ path) = x" "dropWhile (\<lambda>c. c \<noteq> CHR ''/'') (x @ ''/'' @ path) = CHR ''/'' # path"
      "takeWhile (\<lambda>c. c \<noteq> CHR ''/'') x = x" "dropWhile (\<lambda>c. c \<noteq> CHR ''/'') x = []"
    if "CHR ''/'' \<notin> set x" for x
    using that by (induction x) auto
  have hd: "CHR ''/'' \<notin> set (host @ '':'' @ dec_nat n)" using assms(4) dig(1) by simp
  have nosep: "split_at ''://'' (host @ '':'' @ dec_nat n) = None"
  proof -
    have t: "take k s = ''//'' \<Longrightarrow> CHR ''/'' \<in> set s" for k and s :: string by (metis in_set_takeD list.set_intros(1))
    have "split_at ''://'' s = None" if "CHR ''/'' \<notin> set s" for s
      using that t by (induction s) (auto simp: has_prefix_def)
    with hd show ?thesis by blast
  qed
  have rest: "url_rest (x @ ''/'' @ path) p = (fst (host_port p x), snd (host_port p x), if path = [] then None else Some path)"
      "url_rest x p = (fst (host_port p x), snd (host_port p x), None)" if "CHR ''/'' \<notin> set x" for x p
    unfolding url_rest_def tw [OF that] by (simp_all add: Let_def case_prod_beta)
  have "internal_parse_url (scheme @ ''://'' @ s) d = Inr (Some scheme, url_rest s standard)" for s
    using split_at_sep [OF assms(1), of s] assms(2) by (simp add: internal_parse_url_def)
  moreover have "internal_parse_url s d = Inr (None, url_rest s d)" if "split_at ''://'' s = None" "d \<noteq> 0" for s
    using that by (simp add: internal_parse_url_def)
  ultimately show ?thesis
    using rest(1) [OF hd, of standard] rest [OF assms(4), of standard] rest(2) [OF hd, of d] rest(2) [OF assms(4), of d]
      split_at_none [OF assms(3)] nosep hp h by simp
qed

theorem url_roundtrip_witness:
  "internal_parse_url ''https://vpn.example.com:8443/group'' 0 = Inr (Some ''https'', ''vpn.example.com'', 8443, Some ''group'')"
  using url_roundtrip [of "''https''" 443 "''vpn.example.com''" 8443 "''group''" 0]
  by (simp add: proto_port_def strcaseeq_def dec_nat.simps char_of_def bit_0)

lemma alloc_keeps:
  "cookies (snd (alloc u)) = cookies u" "port (snd (alloc u)) = port u" "hostname (snd (alloc u)) = hostname u"
  "redirect_type (snd (alloc u)) = redirect_type u"
  by (auto simp: alloc_def upd_world_def split: list.splits)

text \<open>A redirect within the host.\<close>

definition stays_local :: "'c http_info \<Rightarrow> int \<Rightarrow> 'c http_info \<Rightarrow> bool" where
  "stays_local v r w \<longleftrightarrow> cookies w = cookies v \<and> port w = port v \<and> hostname w = hostname v \<and> redirect_type w = redirect_type v \<and>
     (r = 0 \<longrightarrow> redirect_url w = None)"

lemma redirect_relative_local: "redirect_relative v url = (r, w) \<Longrightarrow> stays_local v r w"
  by (auto simp: redirect_relative_def stays_local_def case_prod_beta alloc_keeps split: option.splits if_splits bool.splits)

lemma handle_redirect_cases:
  assumes "handle_redirect T v = Some (r, w)"
  shows "\<exists>url. redirect_url v = Some url \<and>
    (if has_prefix ''https://'' url then redirect_https T (v\<lparr>redirect_type := REDIR_TYPE_LOCAL\<rparr>) url = (r, w)
     else stays_local (v\<lparr>redirect_type := REDIR_TYPE_LOCAL\<rparr>) r w)"
proof -
  let ?v = "v\<lparr>redirect_type := REDIR_TYPE_LOCAL\<rparr>"
  obtain url where url: "redirect_url v = Some url" using assms by (cases "redirect_url v") (auto simp: handle_redirect_def Let_def)
  have "stays_local ?v (err EINVAL) (?v\<lparr>redirect_url := None\<rparr>)"
    "stays_local ?v 0 ((snd (alloc ?v))\<lparr>urlpath := p, redirect_url := None\<rparr>)" for p
    by (simp_all add: stays_local_def alloc_keeps)
  with assms url redirect_relative_local [of ?v url r w] show ?thesis
    by (auto simp: handle_redirect_def Let_def case_prod_beta split: if_splits)
qed

text \<open>
  C15 (redirect_safe): A redirect is followed to https URLs and within the host only. When it names another host or port, every cookie is
  forgotten and the connection closed before the next request; otherwise the cookies stay.
\<close>

theorem redirect_safe:
  assumes "handle_redirect T v = Some (r, w)"
  shows "(if strcaseeq (hostname v) (hostname w) \<and> port w = port v then cookies w = cookies v \<and> redirect_type w \<noteq> REDIR_TYPE_NEWHOST
     else r = 0 \<and> cookies w = [] \<and> redirect_type w = REDIR_TYPE_NEWHOST \<and> conn w = tr_close T (conn v) \<and>
       (\<exists>url path. redirect_url v = Some url \<and> has_prefix ''https://'' url \<and> internal_parse_url url 0 = Inr (path, hostname w, port w, urlpath w))) \<and>
    (r = 0 \<longrightarrow> redirect_url w = None)"
proof -
  have s: "strcaseeq x x" for x by (simp add: strcaseeq_def)
  obtain url where url: "redirect_url v = Some url"
      "if has_prefix ''https://'' url then redirect_https T (v\<lparr>redirect_type := REDIR_TYPE_LOCAL\<rparr>) url = (r, w)
       else stays_local (v\<lparr>redirect_type := REDIR_TYPE_LOCAL\<rparr>) r w"
    using handle_redirect_cases [OF assms] by blast
  show ?thesis
  proof (cases "has_prefix ''https://'' url")
    case True
    then show ?thesis using url
      by (auto simp: redirect_https_def Let_def s clear_cookies_def close_https_def openconnect_set_hostname_def split: sum.splits prod.splits if_splits)
  next
    case False
    with url show ?thesis by (simp add: stays_local_def s)
  qed
qed

theorem redirect_safe_witness:
  "\<exists>w. handle_redirect ssl_transport ((http_sample (net_sample [] []))\<lparr>cookies := [(''webvpn'', ''x'')], redirect_url := Some ''https://other/''\<rparr>) = Some (0, w) \<and>
     cookies w = [] \<and> hostname w = ''other''"
proof -
  let ?v = "(http_sample (net_sample [] []))\<lparr>cookies := [(''webvpn'', ''x'')], redirect_url := Some ''https://other/''\<rparr>"
  have u: "internal_parse_url ''https://other/'' 0 = Inr (Some ''https'', ''other'', 443, None)"
    by (simp add: internal_parse_url_def url_rest_def host_port_def proto_port_def strcaseeq_def has_prefix_def Let_def)
  obtain w where w: "handle_redirect ssl_transport ?v = Some (0, w)" "hostname w = ''other''"
    by (simp add: handle_redirect_def redirect_https_def has_prefix_def u Let_def http_sample_def strcaseeq_def
        clear_cookies_def close_https_def openconnect_set_hostname_def)
  have "\<not> strcaseeq (hostname ?v) ''other''" by (simp add: http_sample_def strcaseeq_def)
  with redirect_safe [OF w(1)] w(2) have "cookies w = []" by auto
  with w show ?thesis by blast
qed

theorem https_request_text_witness:
  "\<exists>h pad. https_request (http_sample ()) ''POST'' (Some (''t'', ''b'')) = (h, http_sample ()) \<and>
     put_written h = ''POST / HTTP/1.1'' @ CRLF @ common_text (http_sample ()) @ ''X-Pad: '' @ replicate pad (CHR ''0'') @ CRLF @
       ''Content-Type: t'' @ CRLF @ ''Content-Length: '' @ dec_int 1 @ CRLF @ CRLF @ ''b'' \<and> 64 dvd 1 + pad"
proof -
  obtain h where h: "https_request (http_sample ()) ''POST'' (Some (''t'', ''b'')) = (h, http_sample ())" "\<not> put_failed h"
    using sample_request by blast
  have "urlpath (http_sample ()) = None" by (simp add: http_sample_def)
  with https_request_text [OF h] h(1) show ?thesis by auto
qed

section \<open>What a request comes to\<close>

lemma response_length_known:
  assumes "process_http_response T connect cb v = Some (Inr (n, result, body), w)"
  shows "n = int (length (body_text body)) \<or> connect \<and> result = 200 \<and> n = 0 \<and> body = None"
  using assms by (auto simp: process_http_response_def Let_def split: option.splits sum.splits prod.splits if_splits)

lemma http_header_error:
  assumes "http_header T cb line st = Inl (e, w)"
  shows "e < 0"
proof -
  have rest: "e < 0" if "header_rest T cb name val u = Inl (e, w)" for name val u
    using that
    by (auto simp: header_rest_def after_step_def header_connection_def header_location_def header_length_def header_encoding_def
        split: sum.splits prod.splits if_splits bool.splits)
  obtain v b n where st: "st = (v, b, n)" by (cases st)
  have cookie: "e < 0" if "http_add_cookie v k x = (e, w)" "e \<noteq> 0" for k x
    using that by (auto simp: http_add_cookie_def case_prod_beta split: bool.splits if_splits)
  show ?thesis
    using assms cookie rest by (auto simp: http_header_def st Let_def split: prod.splits list.splits if_splits option.splits)
qed

lemma http_headers_error:
  assumes "http_headers T cb st = Some (Inl (e, w))"
  shows "e < 0"
proof -
  have "(\<lambda>s. case s of Inl e \<Rightarrow> fst e < 0 | Inr _ \<Rightarrow> True) (Inl (e, w) :: 'a header_step)"
    by (rule http_headers.raw_induct [where P = "\<lambda>_ _ _ s. case s of Inl e \<Rightarrow> fst e < 0 | Inr _ \<Rightarrow> True", OF _ assms])
      (fastforce simp: Let_def split: prod.splits option.splits if_splits sum.splits dest: http_header_error)
  then show ?thesis by simp
qed

lemma http_start_error:
  assumes "http_start T cb st = Some (Inl (e, w))"
  shows "e < 0"
proof -
  have "(\<lambda>s. case s of Inl e \<Rightarrow> fst e < 0 | Inr _ \<Rightarrow> True) (Inl (e, w) :: (int \<times> 'a http_info) + (int \<times> 'a header_state))"
    by (rule http_start.raw_induct [where P = "\<lambda>_ _ _ s. case s of Inl e \<Rightarrow> fst e < 0 | Inr _ \<Rightarrow> True", OF _ assms])
      (fastforce simp: Let_def split: prod.splits option.splits if_splits sum.splits dest: http_headers_error)
  then show ?thesis by simp
qed

lemma http_chunks_error:
  assumes "http_chunks T body v = Some (Inl e, w)"
  shows "e < 0"
proof -
  have "(\<lambda>s. case s of (Inl e, _) \<Rightarrow> e < 0 | (Inr _, _) \<Rightarrow> True) (Inl e :: int + string option, w)"
    by (rule http_chunks.raw_induct [where P = "\<lambda>_ _ _ s. case s of (Inl e, _) \<Rightarrow> e < 0 | (Inr _, _) \<Rightarrow> True", OF _ assms])
      (fastforce simp: Let_def split: prod.splits option.splits if_splits sum.splits)
  then show ?thesis by simp
qed

lemma http_rest_error:
  assumes "http_rest T body v = Some (Inl e, w)"
  shows "e < 0"
proof -
  have "(\<lambda>s. case s of (Inl e, _) \<Rightarrow> e < 0 | (Inr _, _) \<Rightarrow> True) (Inl e :: int + string option, w)"
    by (rule http_rest.raw_induct [where P = "\<lambda>_ _ _ s. case s of (Inl e, _) \<Rightarrow> e < 0 | (Inr _, _) \<Rightarrow> True", OF _ assms])
      (fastforce simp: Let_def split: prod.splits option.splits if_splits sum.splits)
  then show ?thesis by simp
qed

lemma response_error:
  assumes "process_http_response T connect cb v = Some (Inl e, w)"
  shows "e < 0"
proof -
  have "e < 0" if "http_body T st = Some (Inl e, u)" for st u
    using that http_chunks_error http_rest_error
    by (auto simp: http_body_def split: prod.splits if_splits bool.splits option.splits sum.splits)
  with assms http_start_error show ?thesis
    by (fastforce simp: process_http_response_def Let_def split: option.splits sum.splits prod.splits if_splits)
qed

lemma https_send_error:
  assumes "https_send T open_https buf v = Some (Inl e, w)" "\<And>u r u'. open_https u = Some (r, u') \<Longrightarrow> r \<le> 0"
  shows "e < 0"
proof -
  have "(\<lambda>s. open_https = open_https \<longrightarrow> (case s of (Inl e, _) \<Rightarrow> e < 0 | (Inr _, _) \<Rightarrow> True)) (Inl e :: int + unit, w)"
  proof (rule https_send.raw_induct [where P = "\<lambda>_ op _ _ s. op = open_https \<longrightarrow> (case s of (Inl e, _) \<Rightarrow> e < 0 | (Inr _, _) \<Rightarrow> True)", OF _ assms(1)], intro impI)
    fix f T op buf v s
    assume IH: "\<And>T op buf v s. f T op buf v = Some s \<Longrightarrow> op = open_https \<longrightarrow> (case s of (Inl e, _) \<Rightarrow> e < 0 | (Inr _, _) \<Rightarrow> True)"
      and op: "op = open_https"
      and eq: "(let rq_retry = tr_connected T (conn v) in
      case (if rq_retry then Some (0, v) else op v) of None \<Rightarrow> None
      | Some (result, v) \<Rightarrow>
          if result \<noteq> 0 then Some (Inl result, v)
          else (case tr_write T buf (conn v) of None \<Rightarrow> None
                | Some (result, c) \<Rightarrow>
                    let v = v\<lparr>conn := c\<rparr> in
                    if rq_retry \<and> result < 0 then f T op buf (close_https T v)
                    else Some (if result < 0 then Inl result else Inr (), v))) = Some s"
    obtain result u where o: "(if tr_connected T (conn v) then Some (0, v) else op v) = Some (result, u)"
      using eq by (cases "if tr_connected T (conn v) then Some (0, v) else op v") (auto simp: Let_def)
    then have "result \<le> 0" using assms(2) op by (auto split: if_splits)
    then show "case s of (Inl e, _) \<Rightarrow> e < 0 | (Inr _, _) \<Rightarrow> True"
      using eq [unfolded Let_def o] IH op by (cases s) (fastforce split: if_splits option.splits sum.splits)
  qed
  then show ?thesis by simp
qed

lemma handle_redirect_error:
  assumes "handle_redirect T v = Some (r, w)"
  shows "r \<le> 0"
  using assms by (auto simp: handle_redirect_def redirect_https_def redirect_relative_def Let_def case_prod_beta order_less_imp_le
      split: option.splits if_splits sum.splits prod.splits bool.splits)

text \<open>What holds of the result and the page a request gives.\<close>

definition page_ok :: "bool \<Rightarrow> int \<Rightarrow> string option \<Rightarrow> bool" where
  "page_ok fetch_redirect r form \<longleftrightarrow>
     (r < 0 \<longrightarrow> form = None) \<and> (0 \<le> r \<and> fetch_redirect \<longrightarrow> (\<exists>page. form = Some page \<and> r = int (length page)))"

lemma page_ok_error: "r < 0 \<Longrightarrow> page_ok fr r None"
  by (simp add: page_ok_def)

lemma request_page:
  assumes "do_https_request T open_https meth body fetch_redirect v = Some (r, form, w)"
    "\<And>u s u'. open_https u = Some (s, u') \<Longrightarrow> s \<le> 0"
  shows "page_ok fetch_redirect r form"
proof -
  have "open_https = open_https \<longrightarrow> page_ok fetch_redirect (fst (r, form, w)) (fst (snd (r, form, w)))"
  proof (rule do_https_request.raw_induct
      [where P = "\<lambda>_ op _ _ fr _ s. op = open_https \<longrightarrow> page_ok fr (fst s) (fst (snd s))", OF _ assms(1)], intro impI)
    fix f T op meth body fr v s
    assume IH: "\<And>T op meth body fr v s. f T op meth body fr v = Some s \<Longrightarrow> op = open_https \<longrightarrow> page_ok fr (fst s) (fst (snd s))"
      and op: "op = open_https"
      and eq: "(case https_request (v\<lparr>redirect_type := REDIR_TYPE_NONE\<rparr>) meth body of (h, v) \<Rightarrow>
          (case h of None \<Rightarrow> None | Some buf \<Rightarrow>
               (case buf_error buf of Some e \<Rightarrow> Some (err e, None, v)
                | None \<Rightarrow>
                    (case https_send T op (put_written h) v of None \<Rightarrow> None
                     | Some (Inl e, v) \<Rightarrow> Some (e, None, v)
                     | Some (Inr _, v) \<Rightarrow>
                         (case process_http_response T False no_cb v of None \<Rightarrow> None
                          | Some (Inl e, v) \<Rightarrow> Some (e, None, v)
                          | Some (Inr (buflen, result, form), v) \<Rightarrow>
                              if result \<noteq> 200 \<and> redirect_url v \<noteq> None then
                                (case handle_redirect T v of None \<Rightarrow> None
                                 | Some (r, v) \<Rightarrow>
                                     if r \<noteq> 0 then Some (r, None, v)
                                     else if \<not> fr then Some (0, form, v)
                                     else f T op meth body fr v)
                              else if form = None \<or> result \<noteq> 200 then Some (err EINVAL, None, v)
                              else Some (buflen, form, v)))))) = Some s"
    obtain h u where hu: "https_request (v\<lparr>redirect_type := REDIR_TYPE_NONE\<rparr>) meth body = (h, u)" by fastforce
    have send: "https_send T open_https b u = Some (Inl e, x) \<Longrightarrow> e < 0" for b e x
      by (rule https_send_error [of T open_https b u e x]) (simp_all add: assms(2))
    have page: "n = int (length p)" if "process_http_response T False no_cb x = Some (Inr (n, result, Some p), y)" for n result p x y
      using response_length_known [OF that] by (auto simp: body_text_def)
    have redirect: "r < 0" if "handle_redirect T x = Some (r, y)" "r \<noteq> 0" for r x y
      using handle_redirect_error [OF that(1)] that(2) by simp
    show "page_ok fr (fst s) (fst (snd s))"
      using eq op unfolding hu prod.case
      by (auto split: option.splits sum.splits prod.splits if_splits dest: IH send response_error redirect page
          simp: page_ok_def)
  qed
  then show ?thesis by simp
qed

text \<open>
  When the opener reports errors by negative numbers, an error of do_https_request leaves no page behind, and a result that
  is not negative is the length of the page it hands over, unless redirects are left to the caller.
\<close>

theorem https_request_result:
  assumes "do_https_request T open_https meth body fetch_redirect v = Some (r, form, w)"
    "\<And>u s u'. open_https u = Some (s, u') \<Longrightarrow> s \<le> 0"
  shows "(r < 0 \<longrightarrow> form = None) \<and> (0 \<le> r \<and> fetch_redirect \<longrightarrow> (\<exists>page. form = Some page \<and> r = int (length page)))"
  using request_page [OF assms] by (simp add: page_ok_def)

section \<open>A body cut short\<close>

lemma proxy_read_cut:
  "length got + length (concat bs) < len \<Longrightarrow> \<forall>b \<in> set bs. b \<noteq> [] \<Longrightarrow>
    \<exists>d. proxy_read_loop len got (map In bs @ [In_Closed]) c = Some (err ECONNRESET, d)"
proof (induction bs arbitrary: got)
  case Nil
  then show ?case by (simp add: proxy_read_loop.simps [of _ _ "In_Closed # _"])
next
  case (Cons b bs)
  from Cons.IH [of "got @ b"] Cons.prems show ?case by (simp add: proxy_read_loop.simps [of _ _ "In b # _"] Let_def)
qed

text \<open>
  When the server closes the connection before the announced body is complete, reading it over TLS never ends: openconnect_openssl_read
  goes on returning 0, which the loop does not take as an error. A proxy's socket reports the error.
\<close>

theorem cut_body_hangs:
  assumes "net_in (conn v) = map In bs @ [In_Closed]" "\<forall>b \<in> set bs. b \<noteq> []" "length body + length (concat bs) < len" "net_open (conn v)"
  shows "read_until ssl_transport len body v = None \<and> (\<exists>w. read_until proxy_transport len body v = Some (Inl (err ECONNRESET), w))"
proof
  show "read_until ssl_transport len body v = None"
  proof (rule ccontr)
    assume "read_until ssl_transport len body v \<noteq> None"
    then obtain s where "read_until ssl_transport len body v = Some s" by blast
    then have "ssl_transport = ssl_transport \<and> (\<exists>bs. net_in (conn v) = map In bs @ [In_Closed] \<and> length body + length (concat bs) < len) \<longrightarrow> False"
    proof (rule read_until.raw_induct [where P = "\<lambda>T len body v s.
        T = ssl_transport \<and> (\<exists>bs. net_in (conn v) = map In bs @ [In_Closed] \<and> length body + length (concat bs) < len) \<longrightarrow> False", rotated], intro impI)
      fix f T len body and v :: "net http_info" and s
      assume IH: "\<And>T len body v s. f T len body v = Some s \<Longrightarrow>
          T = ssl_transport \<and> (\<exists>bs. net_in (conn v) = map In bs @ [In_Closed] \<and> length body + length (concat bs) < len) \<longrightarrow> False"
        and eq: "(if len \<le> length body then Some (Inr body, v) else case tr_read T (len - length body) (conn v) of None \<Rightarrow> None
          | Some (i, data, c) \<Rightarrow> let v = v\<lparr>conn := c\<rparr> in if i < 0 then Some (Inl i, v) else f T len (body @ data) v) = Some s"
        and a: "T = ssl_transport \<and> (\<exists>bs. net_in (conn v) = map In bs @ [In_Closed] \<and> length body + length (concat bs) < len)"
      then obtain bs where bs: "net_in (conn v) = map In bs @ [In_Closed]" "length body + length (concat bs) < len" by blast
      show False
      proof (cases bs)
        case Nil
        with eq a bs have "f ssl_transport len body (v\<lparr>conn := (conn v)\<lparr>net_in := [In_Closed]\<rparr>\<rparr>) = Some s"
          by (simp add: ssl_transport_def openconnect_openssl_read_def Let_def)
        from IH [OF this] bs(2) Nil show False by (auto intro: exI [of _ "[]"])
      next
        case (Cons b bs')
        then have "length b \<le> len - length body" "len > length body" using bs(2) by auto
        with Cons eq conjunct1 [OF a] bs have "f ssl_transport len (body @ b) (v\<lparr>conn := (conn v)\<lparr>net_in := map In bs' @ [In_Closed]\<rparr>\<rparr>) = Some s"
          by (simp add: ssl_transport_def openconnect_openssl_read_def Let_def)
        from IH [OF this] bs(2) Cons show False by auto
      qed
    qed
    then show False using assms by blast
  qed
  obtain d where d: "proxy_read_loop (len - length body) [] (net_in (conn v)) (conn v) = Some (err ECONNRESET, d)"
  proof -
    have "length ([] :: string) + length (concat bs) < len - length body" using assms(3) by simp
    from proxy_read_cut [OF this assms(2)] that show thesis unfolding assms(1) by blast
  qed
  show "\<exists>w. read_until proxy_transport len body v = Some (Inl (err ECONNRESET), w)"
    using assms(3,4) d by (cases d) (simp add: read_until.simps [of _ len body v] proxy_transport_def proxy_read_def Let_def)
qed

theorem cut_body_hangs_witness:
  "read_until ssl_transport 10 [] (http_sample (net_sample [In ''abc'', In_Closed] [])) = None"
  using cut_body_hangs [of "http_sample (net_sample [In ''abc'', In_Closed] [])" "[''abc'']" "[]" 10]
  by (simp add: http_sample_def net_sample_def)

end
