(* ===== verification/Proxy.thy ===== *)
theory Proxy
  imports Http_Facts Ntlm Digest
begin

text \<open>
  The proxies of \<open>core/http.c\<close> and the connection that is made through them (\<open>connect_https_socket\<close> of
  \<open>core/ssl.c\<close>): SOCKS5 with a password, HTTP CONNECT with NTLM, Digest and Basic authentication, and the settings. The build has no
  GSSAPI. While a proxy is asked the connection of the client is the plain socket.
\<close>

section \<open>SOCKS\<close>

text \<open>The value of a \<open>char\<close>, which is signed, and the character a number is stored as.\<close>

definition schar :: "char \<Rightarrow> int" where
  "schar c = (if of_char c < (128 :: int) then of_char c else of_char c - 256)"

definition byte_char :: "int \<Rightarrow> char" where
  "byte_char n = char_of (n mod 256)"

definition socks_password_auth :: "net http_info \<Rightarrow> (int \<times> net http_info) option" where
  "socks_password_auth v =
     (case (proxy_user v, proxy_pass v) of
        (Some user, Some pass) \<Rightarrow>
          if length user > 255 \<or> length pass > 255 then Some (err EINVAL, v)
          else (case proxy_write ([CHR 0x01, byte_char (int (length user))] @ user @ [byte_char (int (length pass))] @ pass) (conn v) of
            None \<Rightarrow> None
          | Some (i, c) \<Rightarrow>
              let v = v\<lparr>conn := c\<rparr> in
              if i < 0 then Some (i, v)
              else (case proxy_read 2 (conn v) of
                None \<Rightarrow> None
              | Some (i, buf, c) \<Rightarrow>
                  let v = v\<lparr>conn := c\<rparr> in
                  Some (if i < 0 then i else if buf ! 0 \<noteq> CHR 0x01 then err EIO else if buf ! 1 = CHR 0x00 then 0 else err EIO, v)))
      | _ \<Rightarrow> Some (err EIO, v))"

abbreviation (input) SOCKS_AUTH_NONE :: char where "SOCKS_AUTH_NONE \<equiv> CHR 0x00"
abbreviation (input) SOCKS_AUTH_PASSWORD :: char where "SOCKS_AUTH_PASSWORD \<equiv> CHR 0x02"

definition socks_greeting :: "net http_info \<Rightarrow> string" where
  "socks_greeting v =
     (let methods = SOCKS_AUTH_NONE #
        (if auth_state (auth v AUTH_TYPE_BASIC) \<noteq> AUTH_DISABLED \<and> proxy_user v \<noteq> None \<and> proxy_pass v \<noteq> None
         then [SOCKS_AUTH_PASSWORD] else []) in
      CHR 0x05 # byte_char (int (length methods)) # methods)"

definition socks_hello :: "net http_info \<Rightarrow> (int \<times> net http_info) option" where
  "socks_hello v =
     (case proxy_write (socks_greeting v) (conn v) of
        None \<Rightarrow> None
      | Some (i, c) \<Rightarrow>
          let v = v\<lparr>conn := c\<rparr> in
          if i < 0 then Some (i, v)
          else (case proxy_read 2 (conn v) of
            None \<Rightarrow> None
          | Some (i, buf, c) \<Rightarrow>
              let v = v\<lparr>conn := c\<rparr> in
              if i < 0 then Some (i, v)
              else if buf ! 0 \<noteq> CHR 0x05 then Some (err EIO, v)
              else if buf ! 1 = SOCKS_AUTH_NONE then Some (0, v)
              else if buf ! 1 = SOCKS_AUTH_PASSWORD then
                (case socks_password_auth v of
                   None \<Rightarrow> None
                 | Some (ret, v) \<Rightarrow> Some (if ret \<noteq> 0 then err EIO else 0, v))
              else Some (err EIO, v)))"

text \<open>
  The request; the buffer has 1024 bytes. \<open>strcpy\<close> and the two bytes of the port need no more unless the host name is longer than
  1017.
\<close>

definition socks_connect :: "net http_info \<Rightarrow> string option" where
  "socks_connect v =
     (if length (hostname v) > 1017 then None
      else Some ([CHR 0x05, CHR 0x01, CHR 0x00, CHR 0x03, byte_char (int (length (hostname v)))] @ hostname v @
        [byte_char (port v div 256), byte_char (port v)]))"

text \<open>
  How many bytes are read after the first byte of the address. A negative length is a \<open>size_t\<close> close to the largest one; storing
  more than the buffer holds is undefined.
\<close>

definition socks_address_rest :: "string \<Rightarrow> int option" where
  "socks_address_rest buf =
     (if buf ! 3 = CHR 0x01 then Some 5
      else if buf ! 3 = CHR 0x03 then Some (schar (buf ! 4) + 2)
      else if buf ! 3 = CHR 0x04 then Some 17
      else None)"

definition size_of :: "int \<Rightarrow> nat" where
  "size_of i = nat (i mod 2 ^ 64)"

definition socks_answer :: "net http_info \<Rightarrow> (int \<times> net http_info) option" where
  "socks_answer v =
     (case proxy_read 5 (conn v) of
        None \<Rightarrow> None
      | Some (i, buf, c) \<Rightarrow>
          let v = v\<lparr>conn := c\<rparr> in
          if i < 0 then Some (i, v)
          else if i \<noteq> 5 \<or> buf ! 0 \<noteq> CHR 0x05 then Some (err EIO, v)
          else if buf ! 1 \<noteq> CHR 0x00 then Some (err EIO, v)
          else (case socks_address_rest buf of
            None \<Rightarrow> Some (err EIO, v)
          | Some i \<Rightarrow>
              (case proxy_read (size_of i) (conn v) of
                 None \<Rightarrow> None
               | Some (i, rest, c) \<Rightarrow>
                   let v = v\<lparr>conn := c\<rparr> in
                   if length rest > 1024 then None else Some (if i < 0 then i else 0, v))))"

definition process_socks_proxy :: "net http_info \<Rightarrow> (int \<times> net http_info) option" where
  "process_socks_proxy v =
     (case socks_hello v of
        None \<Rightarrow> None
      | Some (ret, v) \<Rightarrow>
          if ret \<noteq> 0 then Some (ret, v)
          else (case socks_connect v of
            None \<Rightarrow> None
          | Some buf \<Rightarrow>
              (case proxy_write buf (conn v) of
                 None \<Rightarrow> None
               | Some (i, c) \<Rightarrow>
                   let v = v\<lparr>conn := c\<rparr> in if i < 0 then Some (i, v) else socks_answer v)))"

section \<open>Authentication to an HTTP proxy\<close>

definition basic_authorization :: "'c http_info \<Rightarrow> header \<Rightarrow> (int \<times> 'c http_info \<times> header) option" where
  "basic_authorization v hdrbuf =
     (case (proxy_user v, proxy_pass v) of
        (Some user, Some pass) \<Rightarrow>
          if \<not> authmethods_set v then Some (err EINVAL, set_auth AUTH_TYPE_BASIC AUTH_FAILED v, hdrbuf)
          else if auth_state (auth v AUTH_TYPE_BASIC) = AUTH_IN_PROGRESS then
            Some (err EAGAIN, set_auth AUTH_TYPE_BASIC AUTH_FAILED v, hdrbuf)
          else (case new_header v of
            (text, v) \<Rightarrow>
              let text = put v text (user @ '':'' @ pass) in
              (case text of
                 None \<Rightarrow> None
               | Some buf \<Rightarrow>
                   (case buf_error buf of
                      Some e \<Rightarrow> Some (err e, v, hdrbuf)
                    | None \<Rightarrow>
                        let hdrbuf = put v hdrbuf ''Proxy-Authorization: Basic '';
                            hdrbuf = put_base64 v hdrbuf (bytes_of (put_written text));
                            hdrbuf = put v hdrbuf CRLF in
                        Some (0, set_auth AUTH_TYPE_BASIC AUTH_IN_PROGRESS v, hdrbuf))))
      | _ \<Rightarrow> Some (err EINVAL, v, hdrbuf))"

record 'c auth_method =
  state_index :: auth_type
  method_name :: string
  authorization :: "'c http_info \<Rightarrow> header \<Rightarrow> (int \<times> 'c http_info \<times> header) option"
  cleanup :: "('c http_info \<Rightarrow> 'c http_info) option"

definition auth_methods :: "'c auth_method list" where
  "auth_methods =
     [\<lparr>state_index = AUTH_TYPE_NTLM, method_name = ''NTLM'', authorization = ntlm_authorization, cleanup = Some cleanup_ntlm_auth\<rparr>,
      \<lparr>state_index = AUTH_TYPE_DIGEST, method_name = ''Digest'', authorization = digest_authorization, cleanup = None\<rparr>,
      \<lparr>state_index = AUTH_TYPE_BASIC, method_name = ''Basic'', authorization = basic_authorization, cleanup = None\<rparr>]"

fun try_methods :: "'c auth_method list \<Rightarrow> 'c http_info \<Rightarrow> header \<Rightarrow> (int \<times> 'c http_info \<times> header) option" where
  "try_methods [] v buf = Some (err ENOENT, v, buf)"
| "try_methods (m # ms) v buf =
     (if auth_state (auth v (state_index m)) > AUTH_UNSEEN then
        (case authorization m v buf of
           None \<Rightarrow> None
         | Some (ret, v, buf) \<Rightarrow> if ret = err EAGAIN \<or> ret = 0 then Some (ret, v, buf) else try_methods ms v buf)
      else try_methods ms v buf)"

definition proxy_authorization :: "'c http_info \<Rightarrow> header \<Rightarrow> (int \<times> 'c http_info \<times> header) option" where
  "proxy_authorization v buf = try_methods auth_methods v buf"

definition handle_auth_proto :: "'c http_info \<Rightarrow> 'c auth_method \<Rightarrow> string \<Rightarrow> 'c http_info" where
  "handle_auth_proto v m hdr =
     (let st = auth_state (auth v (state_index m)); l = length (method_name m) in
      if st \<le> AUTH_FAILED \<or> \<not> has_prefix (method_name m) hdr then v
      else if drop l hdr \<noteq> [] \<and> hdr ! l \<noteq> CHR '' '' then v
      else let v = (if st = AUTH_UNSEEN then set_auth (state_index m) AUTH_AVAILABLE v else v) in
        if drop l hdr \<noteq> [] then
          (case alloc v of (ok, v) \<Rightarrow> upd_auth (state_index m) (\<lambda>a. a\<lparr>challenge := if ok then Some (drop (l + 1) hdr) else None\<rparr>) v)
        else upd_auth (state_index m) (\<lambda>a. a\<lparr>challenge := None\<rparr>) v)"

definition proxy_hdrs :: "'c header_cb" where
  "proxy_hdrs v hdr val =
     (if \<not> strcaseeq hdr ''Proxy-Authenticate'' then v else fold (\<lambda>m v. handle_auth_proto v m val) auth_methods v)"

definition clear_auth_state :: "'c auth_method \<Rightarrow> bool \<Rightarrow> 'c http_info \<Rightarrow> 'c http_info" where
  "clear_auth_state m reset v =
     (let v = (case cleanup m of None \<Rightarrow> v | Some f \<Rightarrow> if reset then f v else v);
          v = upd_auth (state_index m) (\<lambda>a. a\<lparr>challenge := None\<rparr>) v; st = auth_state (auth v (state_index m)) in
      if st \<le> AUTH_FAILED then v
      else if reset \<or> st = AUTH_AVAILABLE then set_auth (state_index m) AUTH_UNSEEN v
      else v)"

definition clear_auth_states :: "bool \<Rightarrow> 'c http_info \<Rightarrow> 'c http_info" where
  "clear_auth_states reset v = fold (\<lambda>m. clear_auth_state m reset) auth_methods v"

definition connect_headers :: "'c http_info \<Rightarrow> header \<Rightarrow> header" where
  "connect_headers v h =
     (let h = put v h (''CONNECT '' @ hostname v @ '':'' @ dec_int (port v) @ '' HTTP/1.1'' @ CRLF);
          h = put v h (''Host: '' @ hostname v @ CRLF);
          h = put v h (''User-Agent: '' @ useragent v @ CRLF);
          h = put v h (''Proxy-Connection: keep-alive'' @ CRLF);
          h = put v h (''Connection: keep-alive'' @ CRLF) in
      put v h (''Accept-Encoding: identity'' @ CRLF))"

text \<open>The request of one round: what there is to send, or the value to return.\<close>

definition proxy_request :: "bool \<Rightarrow> 'c http_info \<Rightarrow> ((int + string) \<times> 'c http_info) option" where
  "proxy_request authed v =
     (case new_header v of
        (h, v) \<Rightarrow>
          let h = connect_headers v h in
          (case (if authed then proxy_authorization v h else Some (0, v, h)) of
             None \<Rightarrow> None
           | Some (result, v, h) \<Rightarrow>
               if result \<noteq> 0 then Some (Inl result, v)
               else let v = (if authed then clear_auth_states False v else v); h = put v h CRLF in
                 (case h of
                    None \<Rightarrow> None
                  | Some buf \<Rightarrow> Some (case buf_error buf of Some e \<Rightarrow> Inl (err e) | None \<Rightarrow> Inr (put_written h), v))))"

partial_function (option) process_http_proxy :: "bool \<Rightarrow> net http_info \<Rightarrow> (int \<times> net http_info) option" where
  "process_http_proxy authed v =
     (case proxy_request authed v of
        None \<Rightarrow> None
      | Some (Inl e, v) \<Rightarrow> Some (e, v)
      | Some (Inr req, v) \<Rightarrow>
          (case proxy_write req (conn v) of
             None \<Rightarrow> None
           | Some (result, c) \<Rightarrow>
               let v = v\<lparr>conn := c\<rparr> in
               if result < 0 then Some (result, v)
               else (case process_http_response proxy_transport True proxy_hdrs v of
                  None \<Rightarrow> None
                | Some (Inl e, v) \<Rightarrow> Some (err EINVAL, v)
                | Some (Inr (resplen, result, resp), v) \<Rightarrow>
                    if result = 407 then process_http_proxy True v
                    else Some (if result = 200 then 0 else err EIO, v))))"

text \<open>\<open>proxy_fd\<close> is the socket while the proxy is asked.\<close>

definition process_proxy :: "net http_info \<Rightarrow> (int \<times> net http_info) option" where
  "process_proxy v =
     (let v = v\<lparr>conn := (conn v)\<lparr>net_open := True\<rparr>\<rparr> in
      case (if proxy_type v = None \<or> proxy_type v = Some ''http'' then process_http_proxy False v
            else if proxy_type v = Some ''socks'' \<or> proxy_type v = Some ''socks5'' then process_socks_proxy v
            else Some (err EIO, v)) of
        None \<Rightarrow> None
      | Some (ret, v) \<Rightarrow> Some (ret, clear_auth_states True (v\<lparr>conn := (conn v)\<lparr>net_open := False\<rparr>\<rparr>)))"

section \<open>Settings\<close>

fun enable_method :: "string \<Rightarrow> 'c auth_method list \<Rightarrow> 'c http_info \<Rightarrow> 'c http_info" where
  "enable_method name [] v = v"
| "enable_method name (m # ms) v =
     (if strcaseeq name (method_name m) \<or> state_index m = AUTH_TYPE_GSSAPI \<and> strcaseeq name ''gssapi''
      then set_auth (state_index m) AUTH_UNSEEN v else enable_method name ms v)"

function enable_methods :: "string option \<Rightarrow> 'c http_info \<Rightarrow> 'c http_info" where
  "enable_methods None v = v"
| "enable_methods (Some methods) v =
     (let name = takeWhile (\<lambda>c. c \<noteq> CHR '','') methods; p = dropWhile (\<lambda>c. c \<noteq> CHR '','') methods in
      enable_methods (if p = [] then None else Some (tl p)) (enable_method name auth_methods v))"
  by pat_completeness auto

termination
  by (relation "measure (\<lambda>(m, v). case m of None \<Rightarrow> 0 | Some s \<Rightarrow> Suc (length s))") (auto simp: less_Suc_eq_le length_dropWhile_le)

definition openconnect_set_proxy_auth :: "'c http_info \<Rightarrow> string option \<Rightarrow> int \<times> 'c http_info" where
  "openconnect_set_proxy_auth v methods =
     (let v = fold (\<lambda>m. set_auth (state_index m) AUTH_DISABLED) (auth_methods :: 'c auth_method list) v in
      (0, (enable_methods methods v)\<lparr>authmethods_set := True\<rparr>))"

definition proxy_login :: "'c http_info \<Rightarrow> string \<Rightarrow> 'c http_info" where
  "proxy_login v host =
     (if CHR ''@'' \<notin> set host then v\<lparr>proxy := Some host\<rparr>
      else let user = takeWhile (\<lambda>c. c \<noteq> CHR ''@'') host;
               v = v\<lparr>proxy_user := Some (takeWhile (\<lambda>c. c \<noteq> CHR '':'') user),
                     proxy := Some (tl (dropWhile (\<lambda>c. c \<noteq> CHR ''@'') host))\<rparr> in
        if CHR '':'' \<in> set user then v\<lparr>proxy_pass := Some (tl (dropWhile (\<lambda>c. c \<noteq> CHR '':'') user))\<rparr> else v)"

definition openconnect_set_http_proxy :: "'c http_info \<Rightarrow> string option \<Rightarrow> int \<times> 'c http_info" where
  "openconnect_set_http_proxy v url =
     (case url of
        None \<Rightarrow> (err ENOMEM, v)
      | Some url \<Rightarrow>
          let v = v\<lparr>proxy_type := None, proxy := None\<rparr> in
          (case internal_parse_url url 80 of
             Inl e \<Rightarrow> (err e, v)
           | Inr (proto, host, prt, _) \<Rightarrow>
               let v = proxy_login (v\<lparr>proxy_type := proto, proxy_port := prt\<rparr>) host in
               if proto \<noteq> None \<and> proto \<noteq> Some ''http'' \<and> proto \<noteq> Some ''socks'' \<and> proto \<noteq> Some ''socks5''
               then (err EINVAL, v\<lparr>proxy_type := None, proxy := None\<rparr>)
               else (0, v)))"

section \<open>Connecting\<close>

text \<open>
  What the system answers when a socket is made and connected: whether there is a socket, whether \<open>connect\<close> goes ahead, the rounds
  of waiting, whether \<open>getpeername\<close> finds a peer, and the connection. With no round left \<open>select\<close> blocks for ever. A pause command
  stays pending.
\<close>

datatype connect_round = Connect_Cancel | Connect_Pause | Connect_Wait | Connect_Writable

record dial =
  dial_socket :: bool
  dial_start :: bool
  dial_rounds :: "connect_round list"
  dial_peer :: bool
  dial_net :: net

fun connect_wait :: "connect_round list \<Rightarrow> 'c http_info \<Rightarrow> (bool \<times> 'c http_info) option" where
  "connect_wait [] v = None"
| "connect_wait (r # rounds) v =
     (if r = Connect_Cancel then Some (False, v)
      else let v = (if r = Connect_Pause then upd_world (\<lambda>w. w\<lparr>w_paused := True\<rparr>) v else v) in
        if r = Connect_Writable \<or> w_paused (world v) then Some (True, v) else connect_wait rounds v)"

definition cancellable_connect :: "dial \<Rightarrow> 'c http_info \<Rightarrow> (int \<times> 'c http_info) option" where
  "cancellable_connect d v =
     (if \<not> dial_start d then Some (- 1, v)
      else case connect_wait (dial_rounds d) v of
        None \<Rightarrow> None
      | Some (ok, v) \<Rightarrow> Some (if ok \<and> dial_peer d then 0 else - 1, v))"

text \<open>
  The part of \<open>connect_https_socket\<close> from \<open>reconnect\<close> on: \<open>Inr\<close> is the connected socket. Every attempt to connect uses up one of the
  answers \<open>dials\<close>; without one the call does not return.
\<close>

fun through_proxy :: "dial list \<Rightarrow> net http_info \<Rightarrow> ((int + unit) \<times> net http_info \<times> dial list) option" where
  "through_proxy dials v =
     (if proxy v = None then Some (Inr (), v, dials)
      else case process_proxy v of
        None \<Rightarrow> None
      | Some (e, v) \<Rightarrow>
          if e = 0 then Some (Inr (), v, dials)
          else if e = err EAGAIN then
            (case dials of
               [] \<Rightarrow> None
             | d # dials \<Rightarrow>
                 if \<not> dial_socket d then Some (Inl (err EINVAL), v, dials)
                 else (case cancellable_connect d v of
                   None \<Rightarrow> None
                 | Some (r, v) \<Rightarrow>
                     if r \<noteq> 0 then Some (Inl (err EINVAL), v, dials)
                     else through_proxy dials (v\<lparr>conn := dial_net d\<rparr>)))
          else Some (Inl e, v, dials))"

declare through_proxy.simps [simp del]

text \<open>The addresses are tried in order; \<open>several\<close> is whether another one comes before or after this one.\<close>

definition note_peer :: "bool \<Rightarrow> sockaddr \<Rightarrow> 'c http_info \<Rightarrow> (int + unit) \<times> 'c http_info" where
  "note_peer several rp v =
     (case alloc v of
        (False, v) \<Rightarrow> (Inl (err ENOMEM), v\<lparr>peer_addr := None\<rparr>)
      | (True, v) \<Rightarrow>
          let v = v\<lparr>peer_addr := Some rp\<rparr> in
          (case sa_host rp of
             None \<Rightarrow> (Inr (), v)
           | Some host \<Rightarrow>
               if proxy v = None \<and> several \<and> host \<noteq> [] then
                 (case alloc v of
                    (ok, v) \<Rightarrow> (Inr (), if ok then v\<lparr>unique_hostname := Some (if sa_inet6 rp then ''['' @ host @ '']'' else host)\<rparr> else v))
               else (Inr (), v)))"

fun try_addresses :: "bool \<Rightarrow> sockaddr list \<Rightarrow> dial list \<Rightarrow> net http_info \<Rightarrow> ((int + unit) \<times> net http_info \<times> dial list) option" where
  "try_addresses later [] dials v = Some (Inl (err EINVAL), v, dials)"
| "try_addresses later (rp # rps) [] v = None"
| "try_addresses later (rp # rps) (d # dials) v =
     (if \<not> dial_socket d then try_addresses True rps dials v
      else case cancellable_connect d v of
        None \<Rightarrow> None
      | Some (r, v) \<Rightarrow>
          if r < 0 then try_addresses True rps dials v
          else (case note_peer (later \<or> rps \<noteq> []) rp (v\<lparr>conn := dial_net d\<rparr>) of (s, v) \<Rightarrow> Some (s, v, dials)))"

text \<open>\<open>getaddrinfo\<close> gets the host, the port in at most five characters, and whether the host is a literal address.\<close>

definition dial_host :: "'c http_info \<Rightarrow> string \<times> string" where
  "dial_host v = (case proxy v of Some p \<Rightarrow> (p, take 5 (dec_int (proxy_port v))) | None \<Rightarrow> (hostname v, take 5 (dec_int (port v))))"

definition connect_https_socket ::
  "(string \<Rightarrow> string \<Rightarrow> bool \<Rightarrow> sockaddr list option) \<Rightarrow> dial list \<Rightarrow> net http_info \<Rightarrow> ((int + unit) \<times> net http_info \<times> dial list) option" where
  "connect_https_socket getaddrinfo dials v =
     (let v = (if port v = 0 then v\<lparr>port := 443\<rparr> else v) in
      if peer_addr v \<noteq> None then
        (case dials of
           [] \<Rightarrow> None
         | d # dials \<Rightarrow>
             if \<not> dial_socket d then Some (Inl (err EINVAL), v, dials)
             else (case cancellable_connect d v of
               None \<Rightarrow> None
             | Some (r, v) \<Rightarrow>
                 if r \<noteq> 0 then Some (Inl (err EINVAL), v, dials) else through_proxy dials (v\<lparr>conn := dial_net d\<rparr>)))
      else (case dial_host v of
        (host, prt) \<Rightarrow>
          let literal = (has_prefix ''['' host \<and> last host = CHR '']'') in
          (case (if literal then alloc v else (True, v)) of
             (False, v) \<Rightarrow> Some (Inl (err ENOMEM), v, dials)
           | (True, v) \<Rightarrow>
               (case getaddrinfo (if literal then butlast (tl host) else host) prt literal of
                  None \<Rightarrow> Some (Inl (err EINVAL), v, dials)
                | Some rps \<Rightarrow>
                    (case try_addresses False rps dials v of
                       None \<Rightarrow> None
                     | Some (Inl e, v, dials) \<Rightarrow> Some (Inl e, v, dials)
                     | Some (Inr _, v, dials) \<Rightarrow> through_proxy dials v)))))"

end
