(* ===== verification/Proxy_Auth.thy ===== *)
theory Proxy_Auth
  imports Proxy
begin

text \<open>
  What an attempt to authenticate changes: the world, the state of one method and the helper. An attempt that fails with \<open>EAGAIN\<close>, which
  means another connection to the proxy, has given its method up, or the helper of NTLM was asked.
\<close>


section \<open>What an authorization changes\<close>

definition only_world :: "'c http_info \<Rightarrow> 'c http_info \<Rightarrow> bool" where
  "only_world v w \<longleftrightarrow> (\<exists>x. w = v\<lparr>world := x\<rparr>)"

named_theorems world_only

lemma only_world_refl [simp]: "only_world v v"
  unfolding only_world_def by (rule exI [of _ "world v"]) simp

lemma only_world_trans: "only_world u v \<Longrightarrow> only_world v w \<Longrightarrow> only_world u w"
  by (auto simp: only_world_def)

lemma only_world_upd [simp]: "only_world v (upd_world f v)"
  by (auto simp: only_world_def upd_world_def)

lemma alloc_snd_world [simp]: "only_world v (snd (alloc v))"
  by (auto simp: alloc_def split: list.splits)

lemma alloc_world [world_only]: "alloc v = (b, w) \<Longrightarrow> only_world v w"
  using alloc_snd_world [of v] by simp

lemma header_world [world_only]: "new_header v = (h, w) \<Longrightarrow> only_world v w"
  by (auto simp: new_header_def split: prod.splits dest: alloc_world)

lemma random_world [world_only]: "random_bytes n v = (r, w) \<Longrightarrow> only_world v w"
  by (auto simp: random_bytes_def split: list.splits)

lemma get_qs_world [world_only]: "get_qs v s = (r, w) \<Longrightarrow> only_world v w"
  by (auto simp: get_qs_def split: prod.splits bool.splits list.splits if_splits dest: alloc_world)

lemma digest_param_world: "digest_param v d s = (r, w) \<Longrightarrow> only_world v w"
  by (auto simp: digest_param_def Let_def split: if_splits prod.splits option.splits list.splits dest: get_qs_world)

lemma digest_parse_world: "digest_parse v d s = (r, w) \<Longrightarrow> only_world v w"
proof (induction v d s rule: digest_parse.induct)
  case (1 v d s)
  obtain t u where p: "digest_param v d s = (t, u)" by fastforce
  from digest_param_world [OF p] have u: "only_world v u" .
  show ?case
  proof (cases "s = []")
    case True
    with "1.prems" show ?thesis by (simp add: digest_parse.simps [of v d "[]"])
  next
    case False
    then show ?thesis
      using "1.prems" u "1.IH" [OF False p [symmetric]]
      by (auto simp: digest_parse.simps [of v d s] p split: digest_step.splits list.splits if_splits intro: only_world_trans)
  qed
qed

lemma digest_a1_world [world_only]: "digest_a1 v d user pass realm nonce cnonce = (r, w) \<Longrightarrow> only_world v w"
  by (auto simp: digest_a1_def Let_def split: prod.splits if_splits dest!: header_world intro: only_world_trans)

lemma digest_kd_world [world_only]: "digest_kd v d nonce cnonce a1 a2 = (r, w) \<Longrightarrow> only_world v w"
  by (auto simp: digest_kd_def Let_def split: prod.splits dest!: header_world)

lemma digest_respond_result:
  assumes "digest_respond v h d user pass = Some (r, w, h')"
  shows "\<exists>u. only_world v u \<and> (r = err EINVAL \<and> w = u \<or> r = 0 \<and> w = set_auth AUTH_TYPE_DIGEST AUTH_IN_PROGRESS u)"
proof (cases "dg_realm d = None \<or> dg_nonce d = None")
  case True
  with assms show ?thesis by (auto simp: digest_respond_def split: option.splits intro: exI [of _ v])
next
  case False
  then obtain realm nonce where d: "dg_realm d = Some realm" "dg_nonce d = Some nonce" by auto
  obtain rnd v1 where r: "random_bytes 32 v = (rnd, v1)" by fastforce
  show ?thesis
  proof (cases rnd)
    case None
    with assms random_world [OF r] show ?thesis by (auto simp: digest_respond_def d r)
  next
    case (Some bytes)
    obtain cn v2 where cn: "new_header v1 = (cn, v2)" by fastforce
    let ?cn = "data_of (put_base64 v2 cn bytes)"
    obtain a1 v3 where a1: "digest_a1 v2 d user pass (c_str realm) (c_str nonce) ?cn = (a1, v3)" by fastforce
    obtain a2 v4 where a2: "new_header v3 = (a2, v4)" by fastforce
    obtain kd v5 where kd: "digest_kd v4 d (c_str nonce) ?cn (data_of a1)
        (data_of (put v4 a2 (''CONNECT:'' @ hostname v4 @ '':'' @ dec_int (port v4)))) = (kd, v5)" by fastforce
    have "only_world v v1" "only_world v v2" "only_world v v3" "only_world v v4" "only_world v v5"
      using random_world [OF r] header_world [OF cn] digest_a1_world [OF a1] header_world [OF a2] digest_kd_world [OF kd]
      by (meson only_world_trans)+
    then show ?thesis
      using assms kd by (auto simp: digest_respond_def d r cn a1 a2 Some Let_def split: option.splits if_splits)
  qed
qed

lemma nt_hash_world: "ntlm_nt_hash pass v = Some (r, w) \<Longrightarrow> only_world v w"
  by (auto simp: ntlm_nt_hash_def Let_def split_beta split: if_splits option.splits sum.splits)

lemma responses_world: "ntlm_responses pass hash token v = (r, w) \<Longrightarrow> only_world v w"
  by (auto simp: ntlm_responses_def Let_def split: if_splits option.splits prod.splits dest: random_world)

lemma manual_challenge_world:
  assumes "ntlm_manual_challenge v h = Some (r, w, h')"
  shows "only_world v w"
proof (cases "challenge (auth v AUTH_TYPE_NTLM) = None")
  case True
  with assms show ?thesis by (auto simp: ntlm_manual_challenge_def)
next
  case False
  then obtain chall pass user where c: "challenge (auth v AUTH_TYPE_NTLM) = Some chall" "proxy_pass v = Some pass" "proxy_user v = Some user"
    using assms by (auto simp: ntlm_manual_challenge_def split: option.splits)
  obtain hash v1 where h: "ntlm_nt_hash pass v = Some (hash, v1)"
    using assms by (cases "ntlm_nt_hash pass v") (auto simp: ntlm_manual_challenge_def c)
  obtain ok v2 where a: "alloc v1 = (ok, v2)" by fastforce
  have w: "only_world v v1" "only_world v v2" using nt_hash_world [OF h] alloc_world [OF a] by (meson only_world_trans)+
  show ?thesis
  proof (cases hash)
    case (Inl e)
    with assms w show ?thesis by (auto simp: ntlm_manual_challenge_def c h)
  next
    case (Inr hs)
    show ?thesis
    proof (cases "openconnect_base64_decode ok chall")
      case (Decoded token)
      obtain x v3 where x: "ntlm_responses pass hs token v2 = (x, v3)" by fastforce
      obtain ok' v4 where a': "alloc v3 = (ok', v4)" by fastforce
      have "only_world v v3" "only_world v v4" using w responses_world [OF x] alloc_world [OF a'] by (meson only_world_trans)+
      with w show ?thesis using assms
        by (auto simp: ntlm_manual_challenge_def c h a a' x Inr Decoded Let_def split: option.splits sum.splits if_splits)
    qed (use assms w in \<open>auto simp: ntlm_manual_challenge_def c h a Inr\<close>)
  qed
qed

text \<open>A text buffer never reports EAGAIN, which means another connection to the proxy.\<close>

definition no_again :: "header \<Rightarrow> bool" where
  "no_again h \<longleftrightarrow> (\<forall>b. h = Some b \<longrightarrow> buf_error b \<noteq> Some EAGAIN)"

named_theorems again_intros

lemma ensure_no_again: "buf_ensure_space mem b n = (r, c) \<Longrightarrow> tb_error b \<noteq> Some EAGAIN \<Longrightarrow> tb_error c \<noteq> Some EAGAIN \<and> r \<noteq> Some EAGAIN"
  by (auto simp: buf_ensure_space_def Let_def split: if_splits)

lemma loop_no_again:
  assumes "append_loop mem b fmt = Some c" "tb_error b \<noteq> Some EAGAIN"
  shows "tb_error c \<noteq> Some EAGAIN"
proof -
  have "tb_error b \<noteq> Some EAGAIN \<longrightarrow> tb_error c \<noteq> Some EAGAIN"
    by (rule append_loop.raw_induct [where P = "\<lambda>_ b _ c. tb_error b \<noteq> Some EAGAIN \<longrightarrow> tb_error c \<noteq> Some EAGAIN", OF _ assms(1)])
      (auto split: option.splits if_splits prod.splits dest: ensure_no_again)
  then show ?thesis using assms(2) by simp
qed

lemma put_no_again [again_intros]:
  assumes "no_again h"
  shows "no_again (put v h s)"
proof (cases h)
  case (Some buf)
  show ?thesis
  proof (cases buf)
    case (Some b)
    obtain r c where e: "buf_ensure_space (w_mem (world v)) b (Suc 0) = (r, c)" by fastforce
    have b: "tb_error b \<noteq> Some EAGAIN" using assms \<open>h = _\<close> Some by (simp add: no_again_def buf_error_def)
    note c = ensure_no_again [OF e b]
    have "tb_error d \<noteq> Some EAGAIN" if "append_loop (w_mem (world v)) c (Some s) = Some d" for d
      using loop_no_again [OF that] c by simp
    then show ?thesis using b c
      by (auto simp: put_def buf_put_def buf_vappend_def buf_error_def no_again_def \<open>h = _\<close> Some e split: option.splits if_splits)
  qed (simp add: put_def buf_put_def buf_vappend_def buf_error_def no_again_def \<open>h = _\<close>)
qed (simp add: put_def buf_put_def no_again_def)

lemma ensured_no_again:
  assumes "no_again h" "\<And>b. tb_error (g b) = tb_error b"
  shows "no_again (map_option (\<lambda>buf. case buf of None \<Rightarrow> None
     | Some b \<Rightarrow> if tb_error b \<noteq> None then Some b
         else (case buf_ensure_space mem b n of (Some e, b) \<Rightarrow> Some b | (None, b) \<Rightarrow> Some (g b))) h)"
proof (cases h)
  case (Some buf)
  show ?thesis
  proof (cases buf)
    case (Some b)
    obtain r c where e: "buf_ensure_space mem b n = (r, c)" by fastforce
    have b: "tb_error b \<noteq> Some EAGAIN" using assms \<open>h = _\<close> Some by (simp add: no_again_def buf_error_def)
    from ensure_no_again [OF e b] b show ?thesis
      by (auto simp: no_again_def buf_error_def \<open>h = _\<close> Some e assms(2) split: option.splits)
  qed (simp add: no_again_def buf_error_def \<open>h = _\<close>)
qed (simp add: no_again_def)

lemma bytes_no_again [again_intros]: "no_again h \<Longrightarrow> no_again (put_bytes v h s)"
  unfolding put_bytes_def buf_append_bytes_def by (rule ensured_no_again) simp_all

lemma base64_no_again [again_intros]: "no_again h \<Longrightarrow> no_again (put_base64 v h s)"
  unfolding put_base64_def buf_append_base64_def by (rule ensured_no_again) simp_all

lemma putf_no_again [again_intros]: "no_again h \<Longrightarrow> no_again (putf v h args)"
  by (auto simp: putf_def intro: put_no_again split: option.splits if_splits) (simp add: no_again_def)

lemma new_no_again: "new_header v = (h, w) \<Longrightarrow> no_again h"
  by (auto simp: new_header_def no_again_def buf_error_def buf_alloc_def empty_buf_def split: prod.splits if_splits)

lemma foldl_no_again: "no_again h \<Longrightarrow> (\<And>h x. no_again h \<Longrightarrow> no_again (f h x)) \<Longrightarrow> no_again (foldl f h xs)"
  by (induction xs arbitrary: h) auto

lemma unq_no_again [again_intros]: "no_again h \<Longrightarrow> no_again (buf_append_unq v h s)"
  unfolding buf_append_unq_def by (rule foldl_no_again) (auto intro: again_intros)

lemma md5_no_again [again_intros]: "no_again h \<Longrightarrow> no_again (buf_append_md5 v h s)"
  by (auto simp: buf_append_md5_def intro: foldl_no_again again_intros split: option.splits) (simp_all add: no_again_def buf_error_def)

lemma digest_header_no_again: "no_again h \<Longrightarrow> no_again (digest_header v h d user realm nonce cnonce kd)"
  unfolding digest_header_def Let_def by (auto intro!: again_intros split: option.split)

section \<open>States\<close>

definition auth_range :: "auth_type \<Rightarrow> int set" where
  "auth_range t = (if t = AUTH_TYPE_NTLM then {AUTH_DISABLED..NTLM_MANUAL_REQ} else {AUTH_DISABLED..AUTH_IN_PROGRESS})"

definition auth_states_ok :: "'c http_info \<Rightarrow> bool" where
  "auth_states_ok v \<longleftrightarrow> (\<forall>t. auth_state (auth v t) \<in> auth_range t) \<and>
     (ntlm_helper_fd v \<longrightarrow> auth_state (auth v AUTH_TYPE_NTLM) = NTLM_SSO_REQ)"

text \<open>
  \<open>tried t v w\<close>: the attempt only changed the world, the state of method \<open>t\<close>, which is a state of it, and the helper of NTLM.
\<close>

definition tried :: "auth_type \<Rightarrow> 'c http_info \<Rightarrow> 'c http_info \<Rightarrow> bool" where
  "tried t v w \<longleftrightarrow> (\<exists>u s b. only_world v u \<and> w = (set_auth t s u)\<lparr>ntlm_helper_fd := b\<rparr> \<and>
     (if t = AUTH_TYPE_NTLM then s \<in> auth_range t \<and> (b \<longrightarrow> s = NTLM_SSO_REQ) \<and> (s = NTLM_SSO_REQ \<longrightarrow> proxy_pass v = None)
      else (s \<in> auth_range t \<or> s = auth_state (auth v t)) \<and> b = ntlm_helper_fd v))"

lemma set_auth_same [simp]: "set_auth t (auth_state (auth u t)) u = u"
  by (simp add: upd_auth_def)

lemma only_worldD: "only_world v w \<Longrightarrow> auth w = auth v \<and> ntlm_helper_fd w = ntlm_helper_fd v \<and> proxy_pass w = proxy_pass v \<and> conn w = conn v \<and>
    hostname w = hostname v \<and> port w = port v"
  by (auto simp: only_world_def)

lemma tried_same: "only_world v w \<Longrightarrow> t \<noteq> AUTH_TYPE_NTLM \<Longrightarrow> tried t v w"
  unfolding tried_def by (rule exI [of _ w], rule exI [of _ "auth_state (auth w t)"], rule exI [of _ "ntlm_helper_fd w"]) (auto simp: only_world_def upd_auth_def)

lemma tried_set: "only_world v u \<Longrightarrow> t \<noteq> AUTH_TYPE_NTLM \<Longrightarrow> s \<in> auth_range t \<Longrightarrow> tried t v (set_auth t s u)"
  unfolding tried_def by (rule exI [of _ u], rule exI [of _ s], rule exI [of _ "ntlm_helper_fd u"]) (simp add: only_worldD upd_auth_def)

lemma digest_tried:
  assumes "digest_authorization v h = Some (r, w, h')"
  shows "tried AUTH_TYPE_DIGEST v w \<and> (r = err EAGAIN \<longrightarrow> auth_state (auth w AUTH_TYPE_DIGEST) = AUTH_FAILED)"
proof (cases "proxy_user v = None \<or> proxy_pass v = None \<or> auth_state (auth v AUTH_TYPE_DIGEST) < AUTH_AVAILABLE \<or>
    auth_state (auth v AUTH_TYPE_DIGEST) = AUTH_IN_PROGRESS \<or> challenge (auth v AUTH_TYPE_DIGEST) = None")
  case True
  with assms show ?thesis
    by (auto simp: digest_authorization_def auth_range_def intro: tried_same tried_set split: option.splits if_splits)
next
  case False
  then obtain user pass chall where c: "proxy_user v = Some user" "proxy_pass v = Some pass" "challenge (auth v AUTH_TYPE_DIGEST) = Some chall" by auto
  obtain p u where p: "digest_parse v no_params chall = (p, u)" by fastforce
  then have u: "only_world v u" using digest_parse_world by blast
  have "tried AUTH_TYPE_DIGEST v w \<and> r \<noteq> err EAGAIN" if "digest_respond u h d user pass = Some (r, w, h')" for d
    using digest_respond_result [OF that] u
    by (auto simp: auth_range_def intro: tried_same tried_set only_world_trans)
  then show ?thesis using assms False u
    by (auto simp: digest_authorization_def c p split: option.splits if_splits intro: tried_same)
qed


lemma digest_respond_no_again:
  assumes "digest_respond v h d user pass = Some (r, w, h')" "no_again h"
  shows "no_again h'"
  using assms by (auto simp: digest_respond_def Let_def digest_header_no_again split: option.splits prod.splits if_splits)

lemma digest_auth_no_again:
  assumes "digest_authorization v h = Some (r, w, h')" "no_again h"
  shows "no_again h'"
  using assms by (auto simp: digest_authorization_def split: option.splits prod.splits if_splits dest: digest_respond_no_again)

lemma err_again: "err e = - 35 \<longleftrightarrow> e = EAGAIN"
  by (cases e) simp_all

lemma error_no_again: "no_again h \<Longrightarrow> h = Some b \<Longrightarrow> buf_error b \<noteq> Some EAGAIN"
  by (simp add: no_again_def)

lemma basic_tried:
  assumes "basic_authorization v h = Some (r, w, h')" "no_again h"
  shows "tried AUTH_TYPE_BASIC v w \<and> (r = err EAGAIN \<longrightarrow> auth_state (auth w AUTH_TYPE_BASIC) = AUTH_FAILED) \<and> no_again h'"
proof (cases "proxy_user v = None \<or> proxy_pass v = None \<or> \<not> authmethods_set v \<or> auth_state (auth v AUTH_TYPE_BASIC) = AUTH_IN_PROGRESS")
  case True
  with assms show ?thesis
    by (auto simp: basic_authorization_def auth_range_def intro: tried_same tried_set split: option.splits if_splits)
next
  case False
  then obtain user pass where c: "proxy_user v = Some user" "proxy_pass v = Some pass" by auto
  obtain t u where t: "new_header v = (t, u)" by fastforce
  note u = header_world [OF t] and n = put_no_again [OF new_no_again [OF t], of u "user @ '':'' @ pass"]
  have "no_again (put u (put_base64 u (put u h ''Proxy-Authorization: Basic '') x) CRLF)" for x
    by (intro again_intros assms(2))
  with False assms u error_no_again [OF n] show ?thesis
    by (auto simp: basic_authorization_def c t Let_def auth_range_def err_again intro: tried_same tried_set split: option.splits if_splits)
qed

lemma manual_challenge_no_again:
  assumes "ntlm_manual_challenge v h = Some (r, w, h')" "no_again h"
  shows "no_again h'"
proof -
  have "no_again (put u (put_base64 u (put u h ''Proxy-Authorization: NTLM '') x) [CHR 0x0D, CHR 0x0A])" for u x
    by (intro again_intros assms(2))
  then show ?thesis
    using assms by (auto simp: ntlm_manual_challenge_def Let_def split: option.splits sum.splits prod.splits b64_result.splits if_splits)
qed

text \<open>The last part of NTLM, which no helper takes part in.\<close>

lemma ntlm_manual_result:
  assumes "ntlm_manual v h = Some (r, w, h')" "no_again h"
  shows "no_again h' \<and> (\<exists>u s. only_world v u \<and> w = set_auth AUTH_TYPE_NTLM s u \<and>
    (r = 0 \<and> s = NTLM_MANUAL_REQ \<or> r = err EAGAIN \<and> s = AUTH_FAILED))"
proof -
  let ?req = "put v h (''Proxy-Authorization: NTLM '' @ ntlm_type1 @ [CHR 0x0D, CHR 0x0A])"
  have res: "\<exists>u s. only_world v u \<and> set_auth AUTH_TYPE_NTLM t x = set_auth AUTH_TYPE_NTLM s u \<and> P s" if "only_world v x" "P t" for t x P
    using that by blast
  consider (start) "auth_state (auth v AUTH_TYPE_NTLM) = NTLM_MANUAL \<and> proxy_user v \<noteq> None \<and> proxy_pass v \<noteq> None"
    | (answer) "auth_state (auth v AUTH_TYPE_NTLM) = NTLM_MANUAL_REQ"
    | (failed) "\<not> (auth_state (auth v AUTH_TYPE_NTLM) = NTLM_MANUAL \<and> proxy_user v \<noteq> None \<and> proxy_pass v \<noteq> None)"
        "auth_state (auth v AUTH_TYPE_NTLM) \<noteq> NTLM_MANUAL_REQ" by blast
  then show ?thesis
  proof cases
    case start
    with assms have "w = set_auth AUTH_TYPE_NTLM NTLM_MANUAL_REQ v" "r = 0" "h' = ?req" by (auto simp: ntlm_manual_def Let_def)
    then show ?thesis using put_no_again [OF assms(2)] only_world_refl [of v] by blast
  next
    case failed
    with assms have "w = set_auth AUTH_TYPE_NTLM AUTH_FAILED v" "r = err EAGAIN" "h' = h" by (auto simp: ntlm_manual_def Let_def)
    then show ?thesis using assms(2) only_world_refl [of v] by blast
  next
    case answer
    then obtain ret x g where m: "ntlm_manual_challenge v h = Some (ret, x, g)"
      using assms(1) by (cases "ntlm_manual_challenge v h") (auto simp: ntlm_manual_def Let_def)
    note x = manual_challenge_world [OF m] and g = manual_challenge_no_again [OF m assms(2)]
    have st: "set_auth AUTH_TYPE_NTLM NTLM_MANUAL_REQ x = x" using answer x set_auth_same [of AUTH_TYPE_NTLM x] by (simp add: only_worldD)
    show ?thesis
    proof (cases "ret = 0")
      case True
      with assms answer m have w: "w = x" "r = 0" "h' = g" by (auto simp: ntlm_manual_def Let_def)
      have "w = set_auth AUTH_TYPE_NTLM NTLM_MANUAL_REQ x" unfolding w(1) by (rule st [symmetric])
      then show ?thesis using x g w(2,3) by blast
    next
      case False
      with assms answer m have "w = set_auth AUTH_TYPE_NTLM AUTH_FAILED x" "r = err EAGAIN" "h' = g" by (auto simp: ntlm_manual_def Let_def)
      then show ?thesis using x g by blast
    qed
  qed
qed

lemma helper_results:
  "ntlm_helper_spawn v h = (r, w, h') \<Longrightarrow> no_again h \<Longrightarrow>
    no_again h' \<and> (r = 0 \<and> w = v\<lparr>ntlm_helper_fd := True\<rparr> \<or> r < 0 \<and> w = v \<and> h' = h)"
  "ntlm_helper_challenge v h = (r, w, h') \<Longrightarrow> no_again h \<Longrightarrow>
    no_again h' \<and> (r = 0 \<and> w = v \<or> r = err EAGAIN \<and> w = v\<lparr>ntlm_helper_fd := False\<rparr>)"
  by (auto simp: ntlm_helper_spawn_def ntlm_helper_challenge_def Let_def put_no_again split: spawn_answer.splits option.splits if_splits)

lemma ntlm_tried:
  assumes "ntlm_authorization v h = Some (r, w, h')" "no_again h" "ntlm_helper_fd v \<longrightarrow> auth_state (auth v AUTH_TYPE_NTLM) = NTLM_SSO_REQ"
  shows "tried AUTH_TYPE_NTLM v w \<and> no_again h' \<and>
    (r = err EAGAIN \<longrightarrow> auth_state (auth w AUTH_TYPE_NTLM) = AUTH_FAILED \<or> auth_state (auth v AUTH_TYPE_NTLM) = NTLM_SSO_REQ)"
proof -
  let ?t = AUTH_TYPE_NTLM and ?v = "set_auth AUTH_TYPE_NTLM NTLM_MANUAL v"
  have tr: "tried ?t v ((set_auth ?t s u)\<lparr>ntlm_helper_fd := b\<rparr>)"
    if "only_world v u" "s \<in> auth_range ?t" "b \<longrightarrow> s = NTLM_SSO_REQ" "s = NTLM_SSO_REQ \<longrightarrow> proxy_pass v = None" for u s b
    unfolding tried_def using that by (intro exI [of _ u] exI [of _ s] exI [of _ b]) simp
  have manual: "tried ?t v w \<and> no_again h' \<and> (r = err EAGAIN \<longrightarrow> auth_state (auth w ?t) = AUTH_FAILED)"
    if m: "ntlm_manual x h = Some (r, w, h')" and x: "x = v \<and> \<not> ntlm_helper_fd v \<or> x = ?v \<and> \<not> ntlm_helper_fd v" for x
  proof -
    obtain u s where u: "no_again h'" "only_world x u" "w = set_auth ?t s u" "r = 0 \<and> s = NTLM_MANUAL_REQ \<or> r = err EAGAIN \<and> s = AUTH_FAILED"
      using ntlm_manual_result [OF m assms(2)] by blast
    obtain y where y: "u = x\<lparr>world := y\<rparr>" using u(2) by (auto simp: only_world_def)
    have "w = (set_auth ?t s (v\<lparr>world := y\<rparr>))\<lparr>ntlm_helper_fd := False\<rparr>" using x u(3) by (auto simp: y upd_auth_def)
    moreover have "only_world v (v\<lparr>world := y\<rparr>)" by (auto simp: only_world_def)
    ultimately show ?thesis using tr [of "v\<lparr>world := y\<rparr>" s False] u(1,3,4) by (auto simp: auth_range_def)
  qed
  consider (start) "auth_state (auth v ?t) = AUTH_AVAILABLE" | (helper) "auth_state (auth v ?t) = NTLM_SSO_REQ"
    | (other) "auth_state (auth v ?t) \<noteq> AUTH_AVAILABLE" "auth_state (auth v ?t) \<noteq> NTLM_SSO_REQ" by blast
  then show ?thesis
  proof cases
    case start
    then have f: "\<not> ntlm_helper_fd v" using assms(3) by auto
    show ?thesis
    proof (cases "proxy_pass v = None")
      case True
      obtain ret x g where sp: "ntlm_helper_spawn ?v h = (ret, x, g)" by (cases "ntlm_helper_spawn ?v h")
      note sp' = helper_results(1) [OF sp assms(2)]
      show ?thesis
      proof (cases "ret = 0")
        case True
        with assms(1) start sp sp' \<open>proxy_pass v = None\<close> have "w = (set_auth ?t NTLM_SSO_REQ v)\<lparr>ntlm_helper_fd := True\<rparr>" "r = 0" "h' = g"
          by (auto simp: ntlm_authorization_def Let_def upd_auth_def)
        then show ?thesis using tr [of v NTLM_SSO_REQ True] sp' \<open>proxy_pass v = None\<close> by (auto simp: auth_range_def)
      next
        case False
        with assms(1) start sp sp' True have "ntlm_manual ?v h = Some (r, w, h')" by (auto simp: ntlm_authorization_def Let_def)
        then show ?thesis using manual f by blast
      qed
    next
      case False
      with assms(1) start have "ntlm_manual ?v h = Some (r, w, h')" by (auto simp: ntlm_authorization_def Let_def)
      then show ?thesis using manual f by blast
    qed
  next
    case helper
    obtain ret x g where hc: "ntlm_helper_challenge v h = (ret, x, g)" by (cases "ntlm_helper_challenge v h")
    note hc' = helper_results(2) [OF hc assms(2)]
    have "w = (set_auth ?t NTLM_MANUAL v)\<lparr>ntlm_helper_fd := False\<rparr>" "h' = g"
      using assms(1) helper hc hc' by (auto simp: ntlm_authorization_def Let_def cleanup_ntlm_auth_def upd_auth_def split: if_splits)
    then show ?thesis using tr [of v NTLM_MANUAL False] hc' helper by (auto simp: auth_range_def)
  next
    case other
    then have "ntlm_manual v h = Some (r, w, h')" using assms(1) by (simp add: ntlm_authorization_def Let_def)
    then show ?thesis using manual other assms(3) by blast
  qed
qed
end
