(* ===== verification/Proxy_Facts.thy ===== *)
theory Proxy_Facts
  imports Proxy_Auth
begin

text \<open>
  What asking a proxy keeps of the states of the authentication methods, when it is tried again, and what a SOCKS proxy is sent.
\<close>


section \<open>The state between attempts\<close>

definition given_up :: "'c http_info \<Rightarrow> auth_type set" where
  "given_up v = {t. auth_state (auth v t) \<le> AUTH_FAILED}"

text \<open>With a password there is no helper.\<close>

definition proxy_ok :: "auth_type set \<Rightarrow> 'c http_info \<Rightarrow> bool" where
  "proxy_ok F v \<longleftrightarrow> auth_states_ok v \<and> F \<subseteq> given_up v \<and> (proxy_pass v = None \<or> auth_state (auth v AUTH_TYPE_NTLM) \<noteq> NTLM_SSO_REQ)"

lemma auth_range_other: "t \<noteq> AUTH_TYPE_NTLM \<Longrightarrow> auth_range t = {AUTH_DISABLED..AUTH_IN_PROGRESS}"
  by (simp add: auth_range_def)

lemma tried_ok:
  assumes "tried t v w" "proxy_ok F v" "AUTH_UNSEEN < auth_state (auth v t)"
  shows "proxy_ok F w \<and> conn w = conn v \<and> proxy_pass w = proxy_pass v \<and> t \<notin> F"
proof -
  obtain x s b where w: "w = (set_auth t s (v\<lparr>world := x\<rparr>))\<lparr>ntlm_helper_fd := b\<rparr>"
      and c: "if t = AUTH_TYPE_NTLM then s \<in> auth_range t \<and> (b \<longrightarrow> s = NTLM_SSO_REQ) \<and> (s = NTLM_SSO_REQ \<longrightarrow> proxy_pass v = None)
        else (s \<in> auth_range t \<or> s = auth_state (auth v t)) \<and> b = ntlm_helper_fd v"
    using assms(1) by (auto simp: tried_def only_world_def)
  have t: "t \<notin> F" using assms(2,3) by (auto simp: proxy_ok_def given_up_def)
  have "s \<in> auth_range t" using c assms(2) by (auto simp: proxy_ok_def auth_states_ok_def split: if_splits)
  then have "auth_states_ok w" using assms(2) c by (auto simp: w auth_states_ok_def proxy_ok_def upd_auth_def split: if_splits)
  moreover have "F \<subseteq> given_up w" using assms(2) t by (auto simp: w proxy_ok_def given_up_def upd_auth_def)
  ultimately show ?thesis using assms(2) c t by (auto simp: w proxy_ok_def upd_auth_def split: if_splits)
qed

lemma method_ok:
  assumes "m \<in> set auth_methods" "authorization m v h = Some (r, w, h')" "no_again h" "proxy_ok F v" "AUTH_UNSEEN < auth_state (auth v (state_index m))"
  shows "proxy_ok F w \<and> conn w = conn v \<and> proxy_pass w = proxy_pass v \<and> no_again h' \<and>
    (r = err EAGAIN \<and> proxy_pass v \<noteq> None \<longrightarrow> state_index m \<in> given_up w - F)"
proof -
  consider "m = auth_methods ! 0" | "m = auth_methods ! 1" | "m = auth_methods ! 2" using assms(1) by (auto simp: auth_methods_def)
  then show ?thesis
  proof cases
    case 1
    with assms have a: "ntlm_authorization v h = Some (r, w, h')" "state_index m = AUTH_TYPE_NTLM" by (simp_all add: auth_methods_def)
    have "ntlm_helper_fd v \<longrightarrow> auth_state (auth v AUTH_TYPE_NTLM) = NTLM_SSO_REQ" using assms(4) by (simp add: proxy_ok_def auth_states_ok_def)
    note n = ntlm_tried [OF a(1) assms(3) this]
    from tried_ok [OF conjunct1 [OF n] assms(4)] n assms(4,5) a(2) show ?thesis by (auto simp: proxy_ok_def given_up_def)
  next
    case 2
    with assms have a: "digest_authorization v h = Some (r, w, h')" "state_index m = AUTH_TYPE_DIGEST" by (simp_all add: auth_methods_def)
    note n = digest_tried [OF a(1)] digest_auth_no_again [OF a(1) assms(3)]
    from tried_ok [OF conjunct1 [OF n(1)] assms(4)] n assms(5) a(2) show ?thesis by (auto simp: given_up_def)
  next
    case 3
    with assms have a: "basic_authorization v h = Some (r, w, h')" "state_index m = AUTH_TYPE_BASIC" by (simp_all add: auth_methods_def)
    note n = basic_tried [OF a(1) assms(3)]
    from tried_ok [OF conjunct1 [OF n] assms(4)] n assms(5) a(2) show ?thesis by (auto simp: given_up_def)
  qed
qed

definition http_auth_types :: "auth_type set" where
  "http_auth_types = {AUTH_TYPE_NTLM, AUTH_TYPE_DIGEST, AUTH_TYPE_BASIC}"

lemma method_type: "m \<in> set auth_methods \<Longrightarrow> state_index m \<in> http_auth_types"
  by (auto simp: auth_methods_def http_auth_types_def)

lemma methods_ok:
  "try_methods ms v h = Some (r, w, h') \<Longrightarrow> set ms \<subseteq> set auth_methods \<Longrightarrow> no_again h \<Longrightarrow> proxy_ok F v \<Longrightarrow>
    proxy_ok F w \<and> conn w = conn v \<and> proxy_pass w = proxy_pass v \<and> no_again h' \<and> (r = 0 \<or> r = err EAGAIN \<or> r = err ENOENT) \<and>
    (r = err EAGAIN \<and> proxy_pass v \<noteq> None \<longrightarrow> (\<exists>t \<in> http_auth_types. t \<in> given_up w - F))"
proof (induction ms arbitrary: v h)
  case (Cons m ms)
  have m: "m \<in> set auth_methods" "set ms \<subseteq> set auth_methods" using Cons.prems(2) by auto
  show ?case
  proof (cases "AUTH_UNSEEN < auth_state (auth v (state_index m))")
    case True
    then obtain s u g where a: "authorization m v h = Some (s, u, g)"
      using Cons.prems(1) by (cases "authorization m v h") auto
    note ok = method_ok [OF m(1) a Cons.prems(3,4) True]
    show ?thesis
    proof (cases "s = err EAGAIN \<or> s = 0")
      case True
      with Cons.prems(1) a \<open>AUTH_UNSEEN < _\<close> have "r = s" "w = u" "h' = g" by (auto split: if_splits)
      with ok True method_type [OF m(1)] show ?thesis by (intro conjI impI bexI [of _ "state_index m"]) auto
    next
      case False
      with Cons.prems(1) a \<open>AUTH_UNSEEN < _\<close> have "try_methods ms u g = Some (r, w, h')" by (auto split: if_splits)
      from Cons.IH [OF this m(2)] ok show ?thesis by simp
    qed
  next
    case False
    with Cons.prems(1) have "try_methods ms v h = Some (r, w, h')" by simp
    from Cons.IH [OF this m(2) Cons.prems(3,4)] show ?thesis .
  qed
qed simp

lemma unseen_range: "AUTH_UNSEEN \<in> auth_range t" "AUTH_AVAILABLE \<in> auth_range t" "AUTH_DISABLED \<in> auth_range t"
  by (simp_all add: auth_range_def)

lemma clear_ok:
  assumes "proxy_ok F v" "m \<in> set auth_methods"
  shows "proxy_ok F (clear_auth_state m reset v) \<and> conn (clear_auth_state m reset v) = conn v \<and>
    proxy_pass (clear_auth_state m reset v) = proxy_pass v"
proof -
  let ?t = "state_index m"
  let ?u = "case cleanup m of None \<Rightarrow> v | Some f \<Rightarrow> if reset then f v else v"
  have u: "auth ?u = auth v" "conn ?u = conn v" "proxy_pass ?u = proxy_pass v"
      "ntlm_helper_fd ?u \<longrightarrow> ntlm_helper_fd v \<and> (?t = AUTH_TYPE_NTLM \<and> reset \<longrightarrow> auth_state (auth v ?t) \<noteq> NTLM_SSO_REQ)"
    using assms(2) by (auto simp: auth_methods_def cleanup_ntlm_auth_def split: if_splits)
  have "proxy_ok F w \<and> conn w = conn v \<and> proxy_pass w = proxy_pass v"
    if w: "w = upd_auth ?t (\<lambda>a. a\<lparr>challenge := None, auth_state := s\<rparr>) ?u"
      and s: "s = auth_state (auth v ?t) \<or> AUTH_FAILED < auth_state (auth v ?t) \<and> (reset \<or> auth_state (auth v ?t) = AUTH_AVAILABLE) \<and> s = AUTH_UNSEEN" for w s
  proof -
    have st: "auth_state (auth w t) = (if t = ?t then s else auth_state (auth v t))" for t by (simp add: w u(1))
    have "s \<in> auth_range ?t" using s assms(1) unseen_range(1) [of ?t] by (auto simp: proxy_ok_def auth_states_ok_def)
    moreover have "F \<subseteq> given_up w" using assms(1) s st by (auto simp: proxy_ok_def given_up_def)
    moreover have "ntlm_helper_fd w \<longrightarrow> auth_state (auth w AUTH_TYPE_NTLM) = NTLM_SSO_REQ"
      using u(4) s assms(1) st [of AUTH_TYPE_NTLM] by (auto simp: w proxy_ok_def auth_states_ok_def)
    ultimately show ?thesis using assms(1) s st u by (auto simp: w proxy_ok_def auth_states_ok_def)
  qed
  note step = this [OF refl]
  let ?s = "if AUTH_FAILED < auth_state (auth v ?t) \<and> (reset \<or> auth_state (auth v ?t) = AUTH_AVAILABLE) then AUTH_UNSEEN else auth_state (auth v ?t)"
  have e: "clear_auth_state m reset v = upd_auth ?t (\<lambda>a. a\<lparr>challenge := None, auth_state := ?s\<rparr>) ?u"
    using u(1) by (auto simp: clear_auth_state_def Let_def upd_auth_def)
  show ?thesis unfolding e by (rule step) simp
qed

lemma clears_ok:
  assumes "proxy_ok F v"
  shows "proxy_ok F (clear_auth_states reset v) \<and> conn (clear_auth_states reset v) = conn v \<and> proxy_pass (clear_auth_states reset v) = proxy_pass v"
proof -
  have "proxy_ok F (fold (\<lambda>m. clear_auth_state m reset) ms v) \<and> conn (fold (\<lambda>m. clear_auth_state m reset) ms v) = conn v \<and>
      proxy_pass (fold (\<lambda>m. clear_auth_state m reset) ms v) = proxy_pass v" if "set ms \<subseteq> set auth_methods" "proxy_ok F v" for ms :: "'a auth_method list" and v
    using that by (induction ms arbitrary: v) (auto simp: clear_ok)
  then show ?thesis using assms by (simp add: clear_auth_states_def)
qed

section \<open>Quiet sockets\<close>

text \<open>A socket that never reports EAGAIN when it is ready.\<close>

definition quiet :: "net \<Rightarrow> bool" where
  "quiet c \<longleftrightarrow> In_Error EAGAIN \<notin> set (net_in c) \<and> Out_Error EAGAIN \<notin> set (net_out c)"

lemma proxy_read_loop_quiet:
  "proxy_read_loop len got rest c = Some (r, b, d) \<Longrightarrow> In_Error EAGAIN \<notin> set rest \<Longrightarrow>
    In_Error EAGAIN \<notin> set (net_in d) \<and> net_out d = net_out c \<and> r \<noteq> err EAGAIN"
proof (induction len got rest c rule: proxy_read_loop.induct)
  case (1 len got rest c)
  show ?case
  proof (cases "len \<le> length got \<or> rest = []")
    case True
    with "1.prems" show ?thesis by (auto simp: proxy_read_loop.simps [of len got rest] split: if_splits)
  next
    case False
    then obtain a as where rest: "rest = a # as" by (cases rest) auto
    from "1.prems" False "1.IH" show ?thesis
      by (cases a) (auto simp: proxy_read_loop.simps [of len got "_ # as"] rest err_again Let_def split: if_splits)
  qed
qed

lemma proxy_read_quiet: "proxy_read len c = Some (r, b, d) \<Longrightarrow> quiet c \<Longrightarrow> quiet d \<and> r \<noteq> err EAGAIN"
  by (auto simp: proxy_read_def quiet_def split: if_splits dest: proxy_read_loop_quiet)

lemma proxy_write_loop_quiet:
  "proxy_write_loop buf count answers c = Some (r, d) \<Longrightarrow> Out_Error EAGAIN \<notin> set answers \<Longrightarrow>
    Out_Error EAGAIN \<notin> set (net_out d) \<and> net_in d = net_in c \<and> r \<noteq> err EAGAIN"
proof (induction buf count answers c rule: proxy_write_loop.induct)
  case (1 buf count answers c)
  show ?case
  proof (cases "length buf \<le> count \<or> answers = []")
    case True
    with "1.prems" show ?thesis by (auto simp: proxy_write_loop.simps [of buf count answers] split: if_splits)
  next
    case False
    then obtain a as where rest: "answers = a # as" by (cases answers) auto
    from "1.prems" False "1.IH" show ?thesis
      by (cases a) (auto simp: proxy_write_loop.simps [of buf count "_ # as"] rest err_again Let_def split: if_splits)
  qed
qed

lemma proxy_write_quiet: "proxy_write buf c = Some (r, d) \<Longrightarrow> quiet c \<Longrightarrow> quiet d \<and> r \<noteq> err EAGAIN"
  by (auto simp: proxy_write_def quiet_def split: if_splits dest: proxy_write_loop_quiet)

lemma proxy_gets_quiet:
  assumes "proxy_gets len c = Some (r, b, d)" "quiet c"
  shows "quiet d"
proof -
  have "quiet d" if "proxy_gets_loop len [] c = Some (r, b, d)"
  proof -
    have "quiet c \<longrightarrow> quiet (snd (snd (r, b, d)))"
      by (rule proxy_gets_loop.raw_induct [where P = "\<lambda>_ _ c s. quiet c \<longrightarrow> quiet (snd (snd s))", OF _ that])
        (fastforce split: option.splits if_splits dest: proxy_read_quiet)
    then show ?thesis using assms(2) by simp
  qed
  then show ?thesis using assms by (auto simp: proxy_gets_def split: if_splits)
qed

section \<open>A round\<close>

lemma alloc_ok: "proxy_ok F v \<Longrightarrow> proxy_ok F (snd (alloc v))"
  using only_worldD [OF alloc_snd_world, of v] by (simp add: proxy_ok_def auth_states_ok_def given_up_def)

lemma auth_proto_ok:
  assumes "proxy_ok F v"
  shows "proxy_ok F (handle_auth_proto v m hdr) \<and> conn (handle_auth_proto v m hdr) = conn v \<and> proxy_pass (handle_auth_proto v m hdr) = proxy_pass v"
proof -
  let ?t = "state_index m"
  have chall: "proxy_ok F (upd_auth ?t (\<lambda>a. a\<lparr>challenge := c\<rparr>) u)" if "proxy_ok F u" for c u
    using that by (auto simp: proxy_ok_def auth_states_ok_def given_up_def upd_auth_def)
  have avail: "proxy_ok F (set_auth ?t AUTH_AVAILABLE v)" if "auth_state (auth v ?t) = AUTH_UNSEEN"
    using assms that unseen_range(2) [of ?t] by (auto simp: proxy_ok_def auth_states_ok_def given_up_def upd_auth_def)
  show ?thesis
    using assms avail by (auto simp: handle_auth_proto_def Let_def case_prod_beta intro!: chall alloc_ok)
qed

lemma proxy_hdrs_ok:
  assumes "proxy_ok F v"
  shows "proxy_ok F (proxy_hdrs v hdr val) \<and> conn (proxy_hdrs v hdr val) = conn v \<and> proxy_pass (proxy_hdrs v hdr val) = proxy_pass v"
proof -
  have "proxy_ok F (fold (\<lambda>m v. handle_auth_proto v m val) ms v) \<and> conn (fold (\<lambda>m v. handle_auth_proto v m val) ms v) = conn v \<and>
      proxy_pass (fold (\<lambda>m v. handle_auth_proto v m val) ms v) = proxy_pass v" if "proxy_ok F v" for ms :: "'a auth_method list" and v
    using that by (induction ms arbitrary: v) (auto simp: auth_proto_ok)
  then show ?thesis using assms by (simp add: proxy_hdrs_def)
qed

text \<open>
  What holds of the client while the proxy is asked; \<open>pass\<close> is the password, and \<open>q\<close> says that the socket is a quiet one.
\<close>

definition asking :: "bool \<Rightarrow> auth_type set \<Rightarrow> string option \<Rightarrow> net http_info \<Rightarrow> bool" where
  "asking q F pass v \<longleftrightarrow> proxy_ok F v \<and> (q \<longrightarrow> quiet (conn v)) \<and> proxy_pass v = pass"

lemma proxy_ok_fields: "auth w = auth v \<Longrightarrow> ntlm_helper_fd w = ntlm_helper_fd v \<Longrightarrow> proxy_pass w = proxy_pass v \<Longrightarrow> proxy_ok F w = proxy_ok F v"
  by (simp add: proxy_ok_def auth_states_ok_def given_up_def)

interpretation asked: client_invariant "asking q F pass" proxy_hdrs proxy_transport for q F pass
proof
  fix v :: "net http_info" and len i l c u n new f name val
  assume a: "asking q F pass v"
  show "asking q F pass (v\<lparr>conn := c\<rparr>)" if "tr_gets proxy_transport len (conn v) = Some (i, l, c)"
    using a that proxy_gets_quiet proxy_ok_fields [of "v\<lparr>conn := c\<rparr>" v F] by (auto simp: asking_def proxy_transport_def)
  show "asking q F pass (v\<lparr>conn := c\<rparr>)" if "tr_read proxy_transport len (conn v) = Some (i, l, c)"
    using a that proxy_read_quiet proxy_ok_fields [of "v\<lparr>conn := c\<rparr>" v F] by (auto simp: asking_def proxy_transport_def)
  show "asking q F pass (close_https proxy_transport v)" using a by (simp add: close_https_def proxy_transport_def)
  show "asking q F pass (upd_world f v)"
    using a by (auto simp: asking_def proxy_ok_def auth_states_ok_def given_up_def)
  show "asking q F pass (v\<lparr>redirect_url := u\<rparr>)" "asking q F pass (v\<lparr>cookies := jar_put n new (cookies v)\<rparr>)"
    using a proxy_ok_fields [of "v\<lparr>redirect_url := u\<rparr>" v F] proxy_ok_fields [of "v\<lparr>cookies := jar_put n new (cookies v)\<rparr>" v F]
    by (simp_all add: asking_def)
  show "asking q F pass (proxy_hdrs v name val)" using a proxy_hdrs_ok [of F v] by (simp add: asking_def)
qed

lemma header_ok: "new_header v = (h, w) \<Longrightarrow> proxy_ok F v \<Longrightarrow> proxy_ok F w \<and> conn w = conn v \<and> proxy_pass w = proxy_pass v \<and> no_again h"
  using only_worldD [OF header_world, of v h w] new_no_again [of v h w] proxy_ok_fields [of w v F] by auto

lemma request_ok:
  assumes "proxy_request authed v = Some (s, w)" "proxy_ok F v"
  shows "proxy_ok F w \<and> conn w = conn v \<and> proxy_pass w = proxy_pass v \<and>
    (\<forall>r. s = Inl r \<and> r = err EAGAIN \<and> proxy_pass v \<noteq> None \<longrightarrow> (\<exists>t \<in> http_auth_types. t \<in> given_up w - F))"
proof -
  obtain h u where h: "new_header v = (h, u)" by fastforce
  note u = header_ok [OF h assms(2)]
  let ?g = "connect_headers u h"
  have g: "no_again ?g" using u unfolding connect_headers_def Let_def by (intro again_intros) simp
  obtain r x k where k: "(if authed then proxy_authorization u ?g else Some (0, u, ?g)) = Some (r, x, k)"
    using assms(1) by (cases "if authed then proxy_authorization u ?g else Some (0, u, ?g)") (auto simp: proxy_request_def h Let_def)
  have x: "proxy_ok F x \<and> conn x = conn u \<and> proxy_pass x = proxy_pass u \<and> no_again k \<and>
      (r = err EAGAIN \<and> proxy_pass u \<noteq> None \<longrightarrow> (\<exists>t \<in> http_auth_types. t \<in> given_up x - F))"
    using k methods_ok [of auth_methods u ?g r x k F] u g by (auto simp: proxy_authorization_def split: if_splits)
  have last: "no_again (put x k CRLF)" for x using x by (intro again_intros) simp
  show ?thesis
  proof (cases "r = 0")
    case False
    with assms(1) k have "s = Inl r" "w = x" by (auto simp: proxy_request_def h Let_def)
    with x u show ?thesis by simp
  next
    case True
    let ?x = "if authed then clear_auth_states False x else x"
    have "proxy_ok F ?x \<and> conn ?x = conn x \<and> proxy_pass ?x = proxy_pass x" using clears_ok [of F x False] x by simp
    moreover obtain b where b: "put ?x k CRLF = Some b" "w = ?x" "s = (case buf_error b of Some e \<Rightarrow> Inl (err e) | None \<Rightarrow> Inr (put_written (Some b)))"
      using assms(1) k True by (auto simp: proxy_request_def h Let_def split: option.splits)
    moreover have "s \<noteq> Inl (err EAGAIN)" using error_no_again [OF last b(1)] b(3) by (auto split: option.splits simp: err_again)
    ultimately show ?thesis using x u by auto
  qed
qed

lemma response_asked:
  "process_http_response proxy_transport True proxy_hdrs v = Some (r, w) \<Longrightarrow> asking q F pass v \<Longrightarrow> asking q F pass w"
  by (rule asked.response_inv)

lemma http_proxy_ok:
  assumes "process_http_proxy authed v = Some (r, w)" "asking q F pass v"
  shows "asking q F pass w \<and> (q \<and> r = err EAGAIN \<and> pass \<noteq> None \<longrightarrow> (\<exists>t \<in> http_auth_types. t \<in> given_up w - F))"
proof -
  let ?Q = "\<lambda>r w. asking q F pass w \<and> (q \<and> r = err EAGAIN \<and> pass \<noteq> None \<longrightarrow> (\<exists>t \<in> http_auth_types. t \<in> given_up w - F))"
  have "asking q F pass v \<longrightarrow> ?Q (fst (r, w)) (snd (r, w))"
  proof (rule process_http_proxy.raw_induct [where P = "\<lambda>_ v s. asking q F pass v \<longrightarrow> ?Q (fst s) (snd s)", OF _ assms(1)], intro impI)
    fix f authed v s
    assume IH: "\<And>authed v s. f authed v = Some s \<Longrightarrow> asking q F pass v \<longrightarrow> ?Q (fst s) (snd s)" and v: "asking q F pass v"
      and eq: "(case proxy_request authed v of None \<Rightarrow> None
        | Some (Inl e, v) \<Rightarrow> Some (e, v)
        | Some (Inr req, v) \<Rightarrow>
          (case proxy_write req (conn v) of None \<Rightarrow> None
           | Some (result, c) \<Rightarrow>
               let v = v\<lparr>conn := c\<rparr> in
               if result < 0 then Some (result, v)
               else (case process_http_response proxy_transport True proxy_hdrs v of None \<Rightarrow> None
                | Some (Inl e, v) \<Rightarrow> Some (err EINVAL, v)
                | Some (Inr (resplen, result, resp), v) \<Rightarrow>
                    if result = 407 then f True v else Some (if result = 200 then 0 else err EIO, v)))) = Some s"
    obtain t u where t: "proxy_request authed v = Some (t, u)" using eq by (cases "proxy_request authed v") auto
    note rq = request_ok [OF t, of F]
    have u: "asking q F pass u" using rq v by (simp add: asking_def)
    show "?Q (fst s) (snd s)"
    proof (cases t)
      case (Inl e)
      then show ?thesis using eq t rq u v by (auto simp: asking_def)
    next
      case (Inr req)
      then obtain result c where w: "proxy_write req (conn u) = Some (result, c)" using eq t by (auto split: option.splits)
      have c: "q \<longrightarrow> quiet c \<and> result \<noteq> err EAGAIN" using proxy_write_quiet [OF w] u by (simp add: asking_def)
      then have uc: "asking q F pass (u\<lparr>conn := c\<rparr>)" using u proxy_ok_fields [of "u\<lparr>conn := c\<rparr>" u F] by (simp add: asking_def)
      have resp: "asking q F pass x" if "process_http_response proxy_transport True proxy_hdrs (u\<lparr>conn := c\<rparr>) = Some (y, x)" for y x
        by (rule response_asked [OF that uc])
      show ?thesis
      proof (cases "\<exists>n resp x. process_http_response proxy_transport True proxy_hdrs (u\<lparr>conn := c\<rparr>) = Some (Inr (n, 407, resp), x) \<and> \<not> result < 0")
        case True
        then obtain n resp' x where x: "process_http_response proxy_transport True proxy_hdrs (u\<lparr>conn := c\<rparr>) = Some (Inr (n, 407, resp'), x)"
            "\<not> result < 0" by blast
        then have "f True x = Some s" using eq by (simp add: t Inr w)
        from IH [OF this] resp [OF x(1)] show ?thesis by blast
      next
        case False
        then show ?thesis
          using eq c uc by (auto simp: t Inr w Let_def split: if_splits option.splits sum.splits dest!: resp)
      qed
    qed
  qed
  then show ?thesis using assms(2) by simp
qed

lemma asking_conn: "asking q F pass v \<Longrightarrow> (q \<longrightarrow> quiet c) \<Longrightarrow> asking q F pass (v\<lparr>conn := c\<rparr>)"
  using proxy_ok_fields [of "v\<lparr>conn := c\<rparr>" v F] by (simp add: asking_def)

lemma asking_io:
  "proxy_write req (conn v) = Some (i, c) \<Longrightarrow> asking q F pass v \<Longrightarrow> asking q F pass (v\<lparr>conn := c\<rparr>) \<and> (q \<longrightarrow> i \<noteq> err EAGAIN)"
  "proxy_read len (conn v) = Some (i, b, c) \<Longrightarrow> asking q F pass v \<Longrightarrow> asking q F pass (v\<lparr>conn := c\<rparr>) \<and> (q \<longrightarrow> i \<noteq> err EAGAIN)"
  using proxy_write_quiet [of req "conn v" i c] proxy_read_quiet [of len "conn v" i b c] asking_conn [of q F pass v c] by (auto simp: asking_def)

text \<open>One write followed by a read, which all parts of the SOCKS exchange begin with.\<close>

lemma asking_exchange:
  assumes "asking q F pass v" "proxy_write req (conn v) = Some (i, c)"
  shows "asking q F pass (v\<lparr>conn := c\<rparr>)" "(q \<longrightarrow> i \<noteq> err EAGAIN)"
    "proxy_read len c = Some (j, b, d) \<Longrightarrow> asking q F pass (v\<lparr>conn := d\<rparr>)" "proxy_read len c = Some (j, b, d) \<Longrightarrow> (q \<longrightarrow> j \<noteq> err EAGAIN)"
proof -
  note w = asking_io(1) [OF assms(2,1)]
  then show "asking q F pass (v\<lparr>conn := c\<rparr>)" "(q \<longrightarrow> i \<noteq> err EAGAIN)" by simp_all
  show "asking q F pass (v\<lparr>conn := d\<rparr>)" "(q \<longrightarrow> j \<noteq> err EAGAIN)" if "proxy_read len c = Some (j, b, d)"
    using asking_io(2) [of len "v\<lparr>conn := c\<rparr>" j b d q F pass] that w by simp_all
qed

lemma socks_password_ok:
  assumes "socks_password_auth v = Some (r, w)" "asking q F pass v"
  shows "asking q F pass w"
  using assms asking_exchange [OF assms(2)]
  by (auto simp: socks_password_auth_def Let_def split: option.splits if_splits)

lemma socks_hello_ok:
  assumes "socks_hello v = Some (r, w)" "asking q F pass v"
  shows "asking q F pass w \<and> (q \<longrightarrow> r \<noteq> err EAGAIN)"
proof -
  obtain i c where i: "proxy_write (socks_greeting v) (conn v) = Some (i, c)"
    using assms(1) by (cases "proxy_write (socks_greeting v) (conn v)") (auto simp: socks_hello_def)
  note x = asking_exchange [OF assms(2) i]
  show ?thesis
  proof (cases "i < 0")
    case True
    with assms(1) i x(1,2) show ?thesis by (auto simp: socks_hello_def)
  next
    case False
    then obtain j buf d where j: "proxy_read 2 c = Some (j, buf, d)"
      using assms(1) i by (cases "proxy_read 2 c") (auto simp: socks_hello_def)
    show ?thesis
      using assms(1) False socks_password_ok [OF _ x(3) [OF j]] x(3,4) [OF j]
      by (auto simp: socks_hello_def i j Let_def split: option.splits if_splits)
  qed
qed

lemma socks_answer_ok:
  assumes "socks_answer v = Some (r, w)" "asking q F pass v"
  shows "asking q F pass w \<and> (q \<longrightarrow> r \<noteq> err EAGAIN)"
proof -
  obtain i buf c where i: "proxy_read 5 (conn v) = Some (i, buf, c)"
    using assms(1) by (cases "proxy_read 5 (conn v)") (auto simp: socks_answer_def)
  note x = asking_io(2) [OF i assms(2)]
  have y: "proxy_read len c = Some (j, b, d) \<Longrightarrow> asking q F pass (v\<lparr>conn := d\<rparr>)" "proxy_read len c = Some (j, b, d) \<Longrightarrow> (q \<longrightarrow> j \<noteq> err EAGAIN)" for len j b d
    using asking_io(2) [of len "v\<lparr>conn := c\<rparr>" j b d q F pass] x by simp_all
  show ?thesis
    using assms(1) x by (auto simp: socks_answer_def i Let_def split: option.splits if_splits dest: y)
qed

lemma socks_proxy_ok:
  assumes "process_socks_proxy v = Some (r, w)" "asking q F pass v"
  shows "asking q F pass w \<and> (q \<longrightarrow> r \<noteq> err EAGAIN)"
proof -
  obtain i u where i: "socks_hello v = Some (i, u)" using assms(1) by (cases "socks_hello v") (auto simp: process_socks_proxy_def)
  note u = socks_hello_ok [OF i assms(2)]
  show ?thesis
  proof (cases "i = 0")
    case False
    with assms(1) i u show ?thesis by (simp add: process_socks_proxy_def)
  next
    case True
    then obtain req j c where j: "socks_connect u = Some req" "proxy_write req (conn u) = Some (j, c)"
      using assms(1) i by (auto simp: process_socks_proxy_def split: option.splits)
    note x = asking_exchange(1,2) [OF conjunct1 [OF u] j(2)]
    from socks_answer_ok [OF _ x(1)] show ?thesis
      using assms(1) True i j x by (auto simp: process_socks_proxy_def Let_def split: if_splits)
  qed
qed

section \<open>A proxy is asked\<close>

definition after_proxy :: "net http_info \<Rightarrow> net http_info" where
  "after_proxy v = clear_auth_states True (v\<lparr>conn := (conn v)\<lparr>net_open := False\<rparr>\<rparr>)"

lemma clears_given_up: "given_up v \<subseteq> given_up (clear_auth_states reset v)"
proof -
  have "given_up v \<subseteq> given_up (clear_auth_state m reset v)" if "m \<in> set auth_methods" for v :: "'a http_info" and m
  proof -
    have "auth (case cleanup m of None \<Rightarrow> v | Some f \<Rightarrow> if reset then f v else v) = auth v" using that by (auto simp: auth_methods_def)
    then show ?thesis by (auto simp: given_up_def clear_auth_state_def Let_def)
  qed
  moreover have "given_up v \<subseteq> given_up (fold (\<lambda>m. clear_auth_state m reset) ms v)"
    if "\<And>m v. m \<in> set ms \<Longrightarrow> given_up v \<subseteq> given_up (clear_auth_state m reset v)" for ms and v :: "'a http_info"
    using that by (induction ms arbitrary: v) fastforce+
  ultimately show ?thesis unfolding clear_auth_states_def by blast
qed

lemma process_proxy_ok:
  assumes "process_proxy v = Some (r, w)" "asking q F pass v"
  shows "asking q F pass w \<and> (\<exists>u. w = after_proxy u \<and> asking q F pass u) \<and> (q \<and> r = err EAGAIN \<and> pass \<noteq> None \<longrightarrow> (\<exists>t \<in> http_auth_types. t \<in> given_up w - F))"
proof -
  let ?v = "v\<lparr>conn := (conn v)\<lparr>net_open := True\<rparr>\<rparr>"
  let ?ask = "if proxy_type v = None \<or> proxy_type v = Some ''http'' then process_http_proxy False ?v
    else if proxy_type v = Some ''socks'' \<or> proxy_type v = Some ''socks5'' then process_socks_proxy ?v else Some (err EIO, ?v)"
  have v: "asking q F pass ?v" using assms(2) by (intro asking_conn) (auto simp: asking_def quiet_def)
  obtain u where u: "?ask = Some (r, u)" and w: "w = after_proxy u"
  proof -
    obtain s where s: "?ask = s" by blast
    have "process_proxy v = map_option (\<lambda>(r, u). (r, after_proxy u)) ?ask"
      by (simp add: process_proxy_def after_proxy_def Let_def split: option.split)
    then show thesis using assms(1) that unfolding s by (cases s) auto
  qed
  have ok: "asking q F pass u \<and> (q \<and> r = err EAGAIN \<and> pass \<noteq> None \<longrightarrow> (\<exists>t \<in> http_auth_types. t \<in> given_up u - F))"
  proof -
    consider "process_http_proxy False ?v = Some (r, u)" | "process_socks_proxy ?v = Some (r, u)" | "r = err EIO" "u = ?v"
      using u by (auto split: if_splits)
    then show ?thesis
      using http_proxy_ok [OF _ v, of False r u] socks_proxy_ok [OF _ v, of r u] v by cases auto
  qed
  let ?u = "u\<lparr>conn := (conn u)\<lparr>net_open := False\<rparr>\<rparr>"
  have "asking q F pass ?u" using ok by (intro asking_conn) (auto simp: asking_def quiet_def)
  then have a: "asking q F pass w" using clears_ok [of F ?u True] by (auto simp: w after_proxy_def asking_def)
  have "given_up u = given_up ?u" by (simp add: given_up_def)
  with clears_given_up [of ?u True] have "given_up u \<subseteq> given_up w" by (simp add: w after_proxy_def)
  with a ok w show ?thesis by blast
qed

text \<open>The reset at the end.\<close>

lemma reset_states:
  assumes "m \<in> set auth_methods"
  shows "auth_state (auth (clear_auth_states True v) (state_index m)) \<le> AUTH_UNSEEN"
    "challenge (auth (clear_auth_states True v) (state_index m)) = None"
    "ntlm_helper_fd v \<longrightarrow> auth_state (auth v AUTH_TYPE_NTLM) = NTLM_SSO_REQ \<Longrightarrow> \<not> ntlm_helper_fd (clear_auth_states True v)"
  using assms
  by (auto simp: clear_auth_states_def auth_methods_def clear_auth_state_def cleanup_ntlm_auth_def Let_def)


section \<open>Between two connections\<close>

definition proxy_idle :: "'c http_info \<Rightarrow> bool" where
  "proxy_idle v \<longleftrightarrow> (\<forall>t. auth_state (auth v t) \<in> auth_range t) \<and> \<not> ntlm_helper_fd v \<and>
     (\<forall>t \<in> http_auth_types. auth_state (auth v t) \<le> AUTH_UNSEEN \<and> challenge (auth v t) = None)"

lemma idle_asking: "proxy_idle v \<Longrightarrow> q \<longrightarrow> quiet (conn v) \<Longrightarrow> asking q (given_up v) (proxy_pass v) v"
  by (auto simp: proxy_idle_def asking_def proxy_ok_def auth_states_ok_def http_auth_types_def)

lemma method_of_type: "t \<in> http_auth_types \<Longrightarrow> \<exists>m \<in> set auth_methods. state_index m = t"
  by (auto simp: http_auth_types_def auth_methods_def)

lemma after_idle:
  assumes "proxy_ok F u"
  shows "proxy_idle (after_proxy u)"
proof -
  let ?u = "u\<lparr>conn := (conn u)\<lparr>net_open := False\<rparr>\<rparr>"
  have ok: "proxy_ok F ?u" using assms proxy_ok_fields [of ?u u F] by simp
  then have "proxy_ok F (after_proxy u)" using clears_ok [of F ?u True] by (simp add: after_proxy_def)
  moreover have "\<not> ntlm_helper_fd (after_proxy u)"
    using reset_states(3) [of "auth_methods ! 0" ?u] ok by (simp add: after_proxy_def proxy_ok_def auth_states_ok_def auth_methods_def)
  moreover have "auth_state (auth (after_proxy u) t) \<le> AUTH_UNSEEN \<and> challenge (auth (after_proxy u) t) = None" if "t \<in> http_auth_types" for t
    using method_of_type [OF that] reset_states(1,2) [of _ ?u] by (fastforce simp: after_proxy_def)
  ultimately show ?thesis by (auto simp: proxy_idle_def proxy_ok_def auth_states_ok_def)
qed

text \<open>
  C9 (proxy_states): Between two connections every method is unseen, disabled or given up, without a challenge and without a helper process: asking a
  proxy keeps it so whatever the proxy answers, on success and on failure, and a method that was given up or disabled stays so.
\<close>

theorem proxy_states:
  assumes "proxy_idle v" "process_proxy v = Some (r, w)"
  shows "proxy_idle w \<and> given_up v \<subseteq> given_up w"
proof -
  have a: "asking False (given_up v) (proxy_pass v) v" by (rule idle_asking [OF assms(1)]) simp
  obtain u where "w = after_proxy u" "asking False (given_up v) (proxy_pass v) u" "asking False (given_up v) (proxy_pass v) w"
    using process_proxy_ok [OF assms(2) a] by blast
  then show ?thesis using after_idle by (auto simp: asking_def proxy_ok_def)
qed

section \<open>Trying again\<close>

lemma dial_asking:
  assumes "cancellable_connect d v = Some (r, w)" "proxy_idle v"
  shows "proxy_idle w \<and> given_up w = given_up v \<and> proxy_pass w = proxy_pass v"
proof -
  have "connect_wait rounds v = Some (b, w) \<Longrightarrow> only_world v w" for rounds b w
  proof (induction rounds arbitrary: v)
    case (Cons x rounds)
    then show ?case by (auto simp: Let_def split: if_splits intro: only_world_trans [OF only_world_upd])
  qed simp
  then have "only_world v w" using assms(1) by (auto simp: cancellable_connect_def split: if_splits option.splits)
  then show ?thesis using assms(2) by (auto simp: proxy_idle_def given_up_def dest!: only_worldD)
qed

lemma idle_conn: "proxy_idle v \<Longrightarrow> proxy_idle (v\<lparr>conn := c\<rparr>)" "given_up (v\<lparr>conn := c\<rparr>) = given_up v"
  by (simp_all add: proxy_idle_def given_up_def)

lemma retries_bounded:
  "proxy_idle v \<Longrightarrow> quiet (conn v) \<Longrightarrow> proxy_pass v \<noteq> None \<Longrightarrow> \<forall>d \<in> set ds. quiet (dial_net d) \<Longrightarrow> card (http_auth_types - given_up v) \<le> length ds \<Longrightarrow>
    through_proxy (ds @ es) v = map_option (\<lambda>(r, w, rest). (r, w, rest @ es)) (through_proxy ds v)"
proof (induction ds arbitrary: v)
  case Nil
  have fin: "finite http_auth_types" by (simp add: http_auth_types_def)
  have a: "asking True (given_up v) (proxy_pass v) v" using idle_asking Nil.prems(1,2) by blast
  have "r \<noteq> err EAGAIN" if "process_proxy v = Some (r, w)" for r w
    using process_proxy_ok [OF that a] Nil.prems(3,5) fin by auto
  then show ?case by (auto simp: through_proxy.simps [of _ v] err_again split: option.split)
next
  case (Cons d ds)
  have fin: "finite http_auth_types" by (simp add: http_auth_types_def)
  have a: "asking True (given_up v) (proxy_pass v) v" using idle_asking Cons.prems(1,2) by blast
  show ?case
  proof (cases "\<exists>w x. process_proxy v = Some (err EAGAIN, w) \<and> cancellable_connect d w = Some (0, x) \<and> dial_socket d \<and> proxy v \<noteq> None")
    case False
    then show ?thesis by (fastforce simp: through_proxy.simps [of _ v] split: option.split)
  next
    case True
    then obtain w x where w: "process_proxy v = Some (err EAGAIN, w)" "cancellable_connect d w = Some (0, x)" "dial_socket d" "proxy v \<noteq> None" by blast
    note p = process_proxy_ok [OF w(1) a]
    have i: "proxy_idle w" using p after_idle by (auto simp: asking_def)
    from p Cons.prems(3) obtain t where t: "t \<in> http_auth_types" "t \<in> given_up w" "t \<notin> given_up v" by auto
    have sub: "given_up v \<subseteq> given_up w" "proxy_pass w = proxy_pass v" using p by (auto simp: asking_def proxy_ok_def)
    then have "http_auth_types - given_up w \<subset> http_auth_types - given_up v" using t by blast
    then have less: "card (http_auth_types - given_up w) < card (http_auth_types - given_up v)" using fin by (intro psubset_card_mono) auto
    note x = dial_asking [OF w(2) i]
    let ?x = "x\<lparr>conn := dial_net d\<rparr>"
    have "through_proxy (ds @ es) ?x = map_option (\<lambda>(r, w, rest). (r, w, rest @ es)) (through_proxy ds ?x)"
      by (rule Cons.IH) (use x sub less Cons.prems in \<open>auto simp: idle_conn\<close>)
    then show ?thesis using w by (auto simp: through_proxy.simps [of _ v])
  qed
qed

text \<open>
  C10 (proxy_retries_bounded): With a password, and sockets that never report EAGAIN by themselves, connect_https_socket goes back to a proxy that rejects the
  authentication at most three times, once for each method: of the connections it could make, it looks at no more than three. So the loop through
  reconnect ends.
\<close>

theorem proxy_retries_bounded:
  assumes "proxy_idle v" "quiet (conn v)" "proxy_pass v \<noteq> None" "\<forall>d \<in> set dials. quiet (dial_net d)" "3 \<le> length dials"
  shows "through_proxy (dials @ others) v = map_option (\<lambda>(r, w, rest). (r, w, rest @ others)) (through_proxy dials v)"
proof (rule retries_bounded [OF assms(1-4)])
  have "card (http_auth_types - given_up v) \<le> card http_auth_types" by (intro card_mono) (auto simp: http_auth_types_def)
  also have "card http_auth_types = 3" by (simp add: http_auth_types_def)
  finally show "card (http_auth_types - given_up v) \<le> length dials" using assms(5) by simp
qed

text \<open>A client with a password before its first connection, and a SOCKS proxy that grants the request.\<close>

definition proxied :: "string option \<Rightarrow> net \<Rightarrow> net http_info" where
  "proxied kind c = (http_sample c)\<lparr>proxy := Some ''proxy'', proxy_type := kind, auth := (\<lambda>_. \<lparr>auth_state = AUTH_UNSEEN, challenge = None\<rparr>)\<rparr>"

definition socks_net :: net where
  "socks_net = net_sample [In [CHR 0x05, CHR 0x00], In [CHR 0x05, CHR 0x00, CHR 0x00, CHR 0x01, CHR 0x0A, CHR 0x00, CHR 0x00, CHR 0x01, CHR 0x00, CHR 0x50]]
     [Out 100, Out 100]"

lemma proxied_fields [simp]:
  "proxy_idle (proxied kind c)" "conn (proxied kind c) = c" "proxy_pass (proxied kind c) = Some ''secret''" "proxy_user (proxied kind c) = Some ''me''"
  "proxy_type (proxied kind c) = kind" "hostname (proxied kind c) = ''vpn.example.com''" "port (proxied kind c) = 443" "proxy (proxied kind c) = Some ''proxy''"
  "auth_state (auth (proxied kind c) t) = AUTH_UNSEEN"
  by (simp_all add: proxied_def http_sample_def proxy_idle_def auth_range_def)

lemma socks_run: "\<exists>w. process_socks_proxy (proxied (Some ''socks'') socks_net) = Some (0, w)"
  by (simp add: process_socks_proxy_def socks_hello_def socks_answer_def socks_greeting_def socks_connect_def socks_address_rest_def size_of_def socks_net_def
      net_sample_def proxy_write_def proxy_write_loop.simps proxy_read_def proxy_read_loop.simps Let_def)

lemma socks_asked: "\<exists>w. process_proxy (proxied (Some ''socks'') socks_net) = Some (0, w)"
proof -
  let ?v = "proxied (Some ''socks'') socks_net"
  have o: "?v\<lparr>conn := (conn ?v)\<lparr>net_open := True\<rparr>\<rparr> = ?v" by (simp add: proxied_def http_sample_def socks_net_def net_sample_def)
  show ?thesis using socks_run unfolding process_proxy_def Let_def o by auto
qed

theorem proxy_states_witness:
  "\<exists>w. process_proxy (proxied (Some ''socks'') socks_net) = Some (0, w) \<and> proxy_idle w"
proof -
  obtain w where w: "process_proxy (proxied (Some ''socks'') socks_net) = Some (0, w)" using socks_asked by blast
  from proxy_states [OF _ w] w show ?thesis by auto
qed

definition ready_dial :: dial where
  "ready_dial = \<lparr>dial_socket = True, dial_start = True, dial_rounds = [Connect_Writable], dial_peer = True, dial_net = socks_net\<rparr>"

theorem proxy_retries_bounded_witness:
  "\<exists>w. through_proxy (replicate 3 ready_dial @ [ready_dial]) (proxied (Some ''socks'') socks_net) = Some (Inr (), w, replicate 3 ready_dial @ [ready_dial])"
proof -
  let ?v = "proxied (Some ''socks'') socks_net"
  obtain w where "process_proxy ?v = Some (0, w)" using socks_asked by blast
  then have t: "through_proxy (replicate 3 ready_dial) ?v = Some (Inr (), w, replicate 3 ready_dial)" by (simp add: through_proxy.simps [of _ ?v])
  have "quiet socks_net" by (simp add: quiet_def socks_net_def net_sample_def)
  then have "through_proxy (replicate 3 ready_dial @ [ready_dial]) ?v =
      map_option (\<lambda>(r, w, rest). (r, w, rest @ [ready_dial])) (through_proxy (replicate 3 ready_dial) ?v)"
    by (intro proxy_retries_bounded) (simp_all add: ready_dial_def)
  then show ?thesis unfolding t by auto
qed

section \<open>What a SOCKS proxy is sent\<close>

definition rfc1928_connect :: "string \<Rightarrow> int \<Rightarrow> string" where
  "rfc1928_connect host prt =
     [CHR 0x05, CHR 0x01, CHR 0x00, CHR 0x03, char_of (int (length host))] @ host @ [char_of (prt div 256), char_of (prt mod 256)]"

definition rfc1929_login :: "string \<Rightarrow> string \<Rightarrow> string" where
  "rfc1929_login user pass = [CHR 0x01, char_of (int (length user))] @ user @ [char_of (int (length pass))] @ pass"

lemma byte_char_nat: "n < 256 \<Longrightarrow> byte_char (int n) = char_of (int n)"
  by (simp add: byte_char_def)

lemma proxy_read_loop_result:
  "proxy_read_loop len got rest c = Some (r, b, d) \<Longrightarrow> length got \<le> len \<Longrightarrow>
    net_sent d = net_sent c \<and> (r < 0 \<or> r = int len \<and> length b = len)"
proof (induction len got rest c rule: proxy_read_loop.induct)
  case (1 len got rest c)
  show ?case
  proof (cases "len \<le> length got \<or> rest = []")
    case True
    with "1.prems" show ?thesis by (auto simp: proxy_read_loop.simps [of len got rest] split: if_splits)
  next
    case False
    then obtain a as where rest: "rest = a # as" by (cases rest) auto
    show ?thesis
    proof (cases a)
      case (In x)
      show ?thesis
      proof (cases "x \<noteq> [] \<and> length x \<le> len - length got")
        case True
        then have "proxy_read_loop len (got @ x) as c = Some (r, b, d)"
          using "1.prems" False by (simp add: proxy_read_loop.simps [of len got "_ # as"] rest In Let_def)
        with "1.IH"(1) [OF _ rest In _ refl] True False show ?thesis by auto
      qed (use "1.prems" False in \<open>auto simp: proxy_read_loop.simps [of len got "_ # as"] rest In Let_def split: if_splits\<close>)
    next
      case In_Idle
      then have "proxy_read_loop len got as c = Some (r, b, d)"
        using "1.prems" False by (simp add: proxy_read_loop.simps [of len got "_ # as"] rest)
      with "1.IH"(2) [OF _ rest In_Idle] False "1.prems"(2) show ?thesis by auto
    qed (use "1.prems" False in \<open>auto simp: proxy_read_loop.simps [of len got "_ # as"] rest\<close>)
  qed
qed

lemma proxy_read_result: "proxy_read len c = Some (r, b, d) \<Longrightarrow> net_sent d = net_sent c \<and> (r < 0 \<or> r = int len \<and> length b = len)"
  by (auto simp: proxy_read_def split: if_splits dest: proxy_read_loop_result)

lemma write_result: "proxy_write buf c = Some (r, d) \<Longrightarrow> \<not> r < 0 \<Longrightarrow> net_sent d = net_sent c @ buf"
  using proxy_write_sent [of buf c r d] by auto

lemma password_sent:
  assumes "socks_password_auth v = Some (0, w)"
  shows "\<exists>user pass c. proxy_user v = Some user \<and> proxy_pass v = Some pass \<and> w = v\<lparr>conn := c\<rparr> \<and> net_sent c = net_sent (conn v) @ rfc1929_login user pass"
proof -
  obtain user pass where u: "proxy_user v = Some user" "proxy_pass v = Some pass" "length user \<le> 255" "length pass \<le> 255"
    using assms by (auto simp: socks_password_auth_def split: option.splits if_splits)
  have req: "[CHR 0x01, byte_char (int (length user))] @ user @ [byte_char (int (length pass))] @ pass = rfc1929_login user pass"
    using u(3,4) by (simp add: rfc1929_login_def byte_char_nat)
  obtain i c where i: "proxy_write (rfc1929_login user pass) (conn v) = Some (i, c)" "\<not> i < 0"
    using assms u unfolding socks_password_auth_def u option.case prod.case req by (auto simp: Let_def split: option.splits if_splits)
  then obtain j b d where j: "proxy_read 2 c = Some (j, b, d)" "w = v\<lparr>conn := d\<rparr>"
    using assms u unfolding socks_password_auth_def u option.case prod.case req by (auto simp: Let_def split: option.splits if_splits)
  have "net_sent d = net_sent (conn v) @ rfc1929_login user pass" using write_result [OF i] proxy_read_result [OF j(1)] by simp
  then show ?thesis using u j(2) by blast
qed

definition login_sent :: "net http_info \<Rightarrow> string \<Rightarrow> bool" where
  "login_sent v msg \<longleftrightarrow> msg = [] \<or> (\<exists>user pass. proxy_user v = Some user \<and> proxy_pass v = Some pass \<and> msg = rfc1929_login user pass)"

lemma hello_sent:
  assumes "socks_hello v = Some (0, w)"
  shows "\<exists>msg c. login_sent v msg \<and> w = v\<lparr>conn := c\<rparr> \<and> net_sent c = net_sent (conn v) @ socks_greeting v @ msg"
proof -
  obtain i c where i: "proxy_write (socks_greeting v) (conn v) = Some (i, c)" "\<not> i < 0"
    using assms by (auto simp: socks_hello_def Let_def split: option.splits if_splits)
  then obtain j b d where j: "proxy_read 2 c = Some (j, b, d)" "\<not> j < 0"
    using assms by (auto simp: socks_hello_def Let_def split: option.splits if_splits)
  have d: "net_sent d = net_sent (conn v) @ socks_greeting v" using write_result [OF i] proxy_read_result [OF j(1)] by simp
  consider "w = v\<lparr>conn := d\<rparr>" | "socks_password_auth (v\<lparr>conn := d\<rparr>) = Some (0, w)"
    using assms i j by (auto simp: socks_hello_def Let_def split: option.splits if_splits)
  then show ?thesis
  proof cases
    case 1
    then show ?thesis using d by (intro exI [of _ "[]"] exI [of _ d]) (simp add: login_sent_def)
  next
    case 2
    from password_sent [OF this] obtain user pass c where "proxy_user v = Some user" "proxy_pass v = Some pass" "w = v\<lparr>conn := c\<rparr>"
      "net_sent c = net_sent d @ rfc1929_login user pass" by auto
    then show ?thesis using d by (intro exI [of _ "rfc1929_login user pass"] exI [of _ c]) (simp add: login_sent_def)
  qed
qed

lemma answer_sent: "socks_answer v = Some (0, w) \<Longrightarrow> net_sent (conn w) = net_sent (conn v)"
  by (auto simp: socks_answer_def Let_def split: option.splits if_splits dest!: proxy_read_result)

text \<open>
  C32 (socks_request_sent): When a SOCKS proxy grants the connection, it was sent the greeting, at most the user's own login as RFC 1929 has it, and the
  CONNECT request of RFC 1928 for the host and the port, and nothing else.
\<close>

theorem socks_request_sent:
  assumes "process_socks_proxy v = Some (0, w)" "length (hostname v) \<le> 255" "0 \<le> port v" "port v < 65536"
  shows "\<exists>msg. net_sent (conn w) = net_sent (conn v) @ socks_greeting v @ msg @ rfc1928_connect (hostname v) (port v) \<and>
    (msg = [] \<or> (\<exists>user pass. proxy_user v = Some user \<and> proxy_pass v = Some pass \<and> msg = rfc1929_login user pass))"
proof -
  obtain u where u: "socks_hello v = Some (0, u)" using assms(1) by (auto simp: process_socks_proxy_def split: option.splits if_splits)
  from hello_sent [OF u] obtain msg c where c: "login_sent v msg" "u = v\<lparr>conn := c\<rparr>" "net_sent c = net_sent (conn v) @ socks_greeting v @ msg" by blast
  have req: "socks_connect u = Some (rfc1928_connect (hostname v) (port v))"
    using assms(2-4) by (simp add: socks_connect_def c(2) rfc1928_connect_def byte_char_nat) (simp add: byte_char_def)
  obtain i d where i: "proxy_write (rfc1928_connect (hostname v) (port v)) c = Some (i, d)" "\<not> i < 0" "socks_answer (v\<lparr>conn := d\<rparr>) = Some (0, w)"
    using assms(1) by (auto simp: process_socks_proxy_def u req [unfolded c(2)] c(2) Let_def split: option.splits if_splits)
  have "net_sent (conn w) = net_sent (conn v) @ socks_greeting v @ msg @ rfc1928_connect (hostname v) (port v)"
    using answer_sent [OF i(3)] write_result [OF i(1,2)] c(3) by simp
  then show ?thesis using c(1) by (auto simp: login_sent_def)
qed

theorem socks_request_sent_witness:
  "\<exists>w msg. process_socks_proxy (proxied (Some ''socks'') socks_net) = Some (0, w) \<and>
     net_sent (conn w) = socks_greeting (proxied (Some ''socks'') socks_net) @ msg @ rfc1928_connect ''vpn.example.com'' 443"
proof -
  obtain w where w: "process_socks_proxy (proxied (Some ''socks'') socks_net) = Some (0, w)" using socks_run by blast
  have "net_sent socks_net = []" by (simp add: socks_net_def net_sample_def)
  with socks_request_sent [OF w] w show ?thesis by auto
qed

text \<open>
  A proxy that grants the connection and names itself by a domain name of 128 to 253 characters, which RFC 1928 allows, is never
  accepted: the length is read as a negative char, and the client waits for almost \<open>SIZE_MAX\<close> bytes to store in 1024.
\<close>

theorem socks_long_name_fails:
  assumes "proxy_read 5 (conn v) = Some (5, [CHR 0x05, CHR 0x00, x, CHR 0x03, c], d)" "128 \<le> (of_char c :: int)" "of_char c < (254 :: int)"
  shows "socks_answer v \<noteq> Some (0, w)"
proof -
  let ?i = "schar c + 2"
  have "?i = of_char c - 254" using assms(2) by (simp add: schar_def)
  then have i: "?i < 0" "- 200 < ?i" using assms(2,3) by simp_all
  then have "?i mod 2 ^ 64 = ?i + 2 ^ 64" by (subst mod_add_self2 [symmetric]) (rule mod_pos_pos_trivial, auto)
  then have size: "size_of ?i > 1024" using i by (simp add: size_of_def)
  then have "1024 < length b" if "proxy_read (size_of ?i) d = Some (j, b, e)" "\<not> j < 0" for j b e
    using proxy_read_result [OF that(1)] that(2) by simp
  then show ?thesis
    using assms(1) by (auto simp: socks_answer_def socks_address_rest_def Let_def split: option.splits if_splits)
qed

theorem socks_long_name_fails_witness:
  "socks_answer (proxied None (net_sample [In [CHR 0x05, CHR 0x00, CHR 0x00, CHR 0x03, CHR 0xC8]] [])) \<noteq> Some (0, proxied None socks_net)"
proof -
  have "proxy_read 5 (conn (proxied None (net_sample [In [CHR 0x05, CHR 0x00, CHR 0x00, CHR 0x03, CHR 0xC8]] []))) =
      Some (5, [CHR 0x05, CHR 0x00, CHR 0x00, CHR 0x03, CHR 0xC8], net_sample [] [])"
    by (simp add: net_sample_def proxy_read_def proxy_read_loop.simps)
  from socks_long_name_fails [OF this] show ?thesis by simp
qed


section \<open>Settings\<close>

fun comma_list :: "string list \<Rightarrow> string" where
  "comma_list [] = []"
| "comma_list [n] = n"
| "comma_list (n # ns) = n @ '','' @ comma_list ns"

declare enable_methods.simps(2) [simp del]

lemma before_comma:
  assumes "CHR '','' \<notin> set n"
  shows "takeWhile (\<lambda>c. c \<noteq> CHR '','') n = n" "dropWhile (\<lambda>c. c \<noteq> CHR '','') n = []"
    "takeWhile (\<lambda>c. c \<noteq> CHR '','') (n @ CHR '','' # s) = n" "dropWhile (\<lambda>c. c \<noteq> CHR '','') (n @ CHR '','' # s) = CHR '','' # s"
  using assms by (induction n) auto

lemma enable_list:
  "names \<noteq> [] \<Longrightarrow> \<forall>n \<in> set names. CHR '','' \<notin> set n \<Longrightarrow>
    enable_methods (Some (comma_list names)) v = fold (\<lambda>n. enable_method n auth_methods) names v"
proof (induction names arbitrary: v rule: comma_list.induct)
  case (2 n)
  then have n: "CHR '','' \<notin> set n" by simp
  show ?case unfolding comma_list.simps enable_methods.simps(2) Let_def before_comma(1,2) [OF n] by simp
next
  case (3 n m ns)
  then have n: "CHR '','' \<notin> set n" by simp
  have ih: "enable_methods (Some (comma_list (m # ns))) u = fold (\<lambda>n. enable_method n auth_methods) (m # ns) u" for u :: "'a http_info" using 3 by simp
  show ?case unfolding comma_list.simps append_Cons append_Nil
    by (subst enable_methods.simps(2)) (simp only: Let_def before_comma(3,4) [OF n] ih list.sel if_False list.distinct fold_simps)
qed simp

lemma enable_method_state:
  assumes "m \<in> set auth_methods"
  shows "auth_state (auth (enable_method n auth_methods v) (state_index m)) =
    (if strcaseeq n (method_name m) then AUTH_UNSEEN else auth_state (auth v (state_index m)))"
proof -
  have distinct: "strcaseeq n a \<Longrightarrow> strcaseeq n b \<Longrightarrow> strcaseeq a b" for a b by (simp add: strcaseeq_def)
  have "\<not> strcaseeq ''NTLM'' ''Digest''" "\<not> strcaseeq ''NTLM'' ''Basic''" "\<not> strcaseeq ''Digest'' ''Basic''" "\<not> strcaseeq ''Digest'' ''NTLM''"
    "\<not> strcaseeq ''Basic'' ''NTLM''" "\<not> strcaseeq ''Basic'' ''Digest''"
    by (simp_all add: strcaseeq_def to_lower_def char_of_def bit_0)
  then show ?thesis using assms distinct by (auto simp: auth_methods_def)
qed

text \<open>
  After openconnect_set_proxy_auth with a list of names exactly the methods that are named, in whatever case, may be used,
  unknown names are passed over, and the choice counts as the user's.
\<close>

theorem proxy_auth_enabled:
  assumes "openconnect_set_proxy_auth v (Some (comma_list names)) = (r, w)" "\<forall>n \<in> set names. CHR '','' \<notin> set n" "m \<in> set auth_methods"
  shows "r = 0 \<and> authmethods_set w \<and>
    auth_state (auth w (state_index m)) = (if \<exists>n \<in> set names. strcaseeq n (method_name m) then AUTH_UNSEEN else AUTH_DISABLED)"
proof -
  let ?u = "fold (\<lambda>m. set_auth (state_index m) AUTH_DISABLED) (auth_methods :: 'a auth_method list) v"
  have off: "auth_state (auth ?u (state_index m)) = AUTH_DISABLED" using assms(3) by (auto simp: auth_methods_def)
  have run: "auth_state (auth (fold (\<lambda>n. enable_method n auth_methods) ns u) (state_index m)) =
      (if \<exists>n \<in> set ns. strcaseeq n (method_name m) then AUTH_UNSEEN else auth_state (auth u (state_index m)))" for ns and u :: "'a http_info"
    by (induction ns arbitrary: u) (auto simp: enable_method_state [OF assms(3)])
  have "auth_state (auth (enable_methods (Some (comma_list names)) ?u) (state_index m)) =
      (if \<exists>n \<in> set names. strcaseeq n (method_name m) then AUTH_UNSEEN else AUTH_DISABLED)"
  proof (cases "names = []")
    case True
    have "\<not> strcaseeq [] (method_name m)" using assms(3) by (auto simp: auth_methods_def strcaseeq_def)
    then show ?thesis using True off by (simp add: enable_methods.simps(2) enable_method_state [OF assms(3)])
  next
    case False
    then show ?thesis using enable_list [OF False assms(2), of ?u] run [of names ?u] off by simp
  qed
  then show ?thesis using assms(1) by (auto simp: openconnect_set_proxy_auth_def Let_def)
qed

theorem proxy_auth_enabled_witness:
  "auth_state (auth (snd (openconnect_set_proxy_auth (http_sample ()) (Some ''digest,negotiate''))) AUTH_TYPE_DIGEST) = AUTH_UNSEEN"
proof -
  let ?m = "auth_methods ! 1 :: unit auth_method"
  have m: "?m \<in> set auth_methods" "state_index ?m = AUTH_TYPE_DIGEST" "method_name ?m = ''Digest''" by (simp_all add: auth_methods_def)
  have "strcaseeq ''digest'' ''Digest''" by (simp add: strcaseeq_def to_lower_def char_of_def bit_0)
  with proxy_auth_enabled [OF _ _ m(1), of "http_sample ()" "[''digest'', ''negotiate'']"] m show ?thesis
    by (cases "openconnect_set_proxy_auth (http_sample ()) (Some ''digest,negotiate'')") auto
qed

text \<open>A password for Basic authentication is not sent unless the user chose the methods.\<close>

lemma basic_needs_choice:
  "basic_authorization v h = Some (r, w, h') \<Longrightarrow> \<not> authmethods_set v \<Longrightarrow> h' = h \<and> r = err EINVAL"
  by (auto simp: basic_authorization_def split: option.splits)

end
