(* ===== verification/Auth_Form.thy ===== *)
theory Auth_Form
  imports Http "HOL-Library.Monad_Syntax"
begin

text \<open>
  The login forms of \<open>core/auth.c\<close>: reading the answer of the server into a form, letting the application fill it in, and
  writing it into the next request, as a query string or as XML. The XML parser is \<open>read_xml\<close>, which gives the nodes from
  the root element on; the application is a function that may use the world behind the connection. \<open>None\<close> is a call
  that leaves the defined behaviour of C, or does not return. The allocations of libxml2 succeed.
\<close>

section \<open>Forms\<close>

datatype opt_type = OC_FORM_OPT_TEXT | OC_FORM_OPT_PASSWORD | OC_FORM_OPT_SELECT | OC_FORM_OPT_HIDDEN | OC_FORM_OPT_TOKEN

record oc_choice =
  choice_name :: string
  choice_label :: string
  auth_type :: "string option"
  override_name :: "string option"
  override_label :: "string option"
  second_auth :: bool
  secondary_username :: "string option"
  secondary_username_editable :: bool
  noaaa :: bool

record oc_form_opt =
  opt_type :: opt_type
  opt_name :: string
  opt_label :: "string option"
  opt_value :: "string option"
  flag_second_auth :: bool
  flag_ignore :: bool
  choices :: "oc_choice list"

text \<open>
  \<open>authgroup_opt\<close> of the C structure points to the selection named \<open>group_list\<close> that was read last: selections are
  linked in at the front, so it is the first one in the list.
\<close>

record oc_auth_form =
  banner :: "string option"
  form_message :: "string option"
  form_error :: "string option"
  auth_id :: "string option"
  form_method :: "string option"
  form_action :: "string option"
  opts :: "oc_form_opt list"
  authgroup_selection :: nat

definition new_form :: oc_auth_form where
  "new_form = \<lparr>banner = None, form_message = None, form_error = None, auth_id = None, form_method = None, form_action = None,
     opts = [], authgroup_selection = 0\<rparr>"

definition is_group_list :: "oc_form_opt \<Rightarrow> bool" where
  "is_group_list o1 \<longleftrightarrow> opt_type o1 = OC_FORM_OPT_SELECT \<and> opt_name o1 = ''group_list''"

definition authgroup_opt :: "oc_auth_form \<Rightarrow> oc_form_opt option" where
  "authgroup_opt f = find is_group_list (opts f)"

section \<open>Token codes\<close>

text \<open>The build has neither libstoken nor liboath.\<close>

definition prepare_stoken :: int where
  "prepare_stoken = err EOPNOTSUPP"

definition can_gen_stoken_code :: int where
  "can_gen_stoken_code = err EOPNOTSUPP"

definition can_gen_totp_code :: int where
  "can_gen_totp_code = err EOPNOTSUPP"

definition can_gen_hotp_code :: int where
  "can_gen_hotp_code = err EOPNOTSUPP"

definition can_gen_tokencode :: "token_mode \<Rightarrow> int" where
  "can_gen_tokencode m =
     (case m of
        OC_TOKEN_MODE_STOKEN \<Rightarrow> can_gen_stoken_code
      | OC_TOKEN_MODE_TOTP \<Rightarrow> can_gen_totp_code
      | OC_TOKEN_MODE_HOTP \<Rightarrow> can_gen_hotp_code
      | OC_TOKEN_MODE_NONE \<Rightarrow> err EINVAL)"

definition do_gen_tokencode :: "token_mode \<Rightarrow> oc_auth_form \<Rightarrow> int" where
  "do_gen_tokencode m f =
     (if \<forall>o1 \<in> set (opts f). opt_type o1 \<noteq> OC_FORM_OPT_TOKEN then 0
      else if m = OC_TOKEN_MODE_NONE then err EINVAL else 0)"

section \<open>Reading XML\<close>

definition prop_equals :: "xml \<Rightarrow> string \<Rightarrow> string \<Rightarrow> bool" where
  "prop_equals n name val = (case xmlGetProp n name of None \<Rightarrow> False | Some s \<Rightarrow> strcaseeq s val)"

definition xmlnode_is_named :: "xml \<Rightarrow> string \<Rightarrow> bool" where
  "xmlnode_is_named n name \<longleftrightarrow> xml_name n = name"

text \<open>The new value of the variable.\<close>

definition xmlnode_get_prop :: "xml \<Rightarrow> string \<Rightarrow> string option \<Rightarrow> string option" where
  "xmlnode_get_prop n name var = (case xmlGetProp n name of None \<Rightarrow> var | Some s \<Rightarrow> Some s)"

definition xmlnode_match_prop :: "xml \<Rightarrow> string \<Rightarrow> string \<Rightarrow> int" where
  "xmlnode_match_prop n name val =
     (case xmlGetProp n name of None \<Rightarrow> err ENOENT | Some s \<Rightarrow> if s = val then 0 else err EEXIST)"

text \<open>
  Memory from \<open>malloc\<close>: a character, or \<open>None\<close> where nothing has been written yet. \<open>store\<close> is \<open>memcpy\<close>,
  \<open>c_string\<close> reads to the next null character.
\<close>

type_synonym memory = "char option list"

definition store :: "'a list \<Rightarrow> nat \<Rightarrow> 'a list \<Rightarrow> 'a list option" where
  "store buf i xs = (if i + length xs \<le> length buf then Some (take i buf @ xs @ drop (i + length xs) buf) else None)"

fun c_string :: "memory \<Rightarrow> string option" where
  "c_string [] = None"
| "c_string (None # m) = None"
| "c_string (Some c # m) = (if c = NUL then Some [] else map_option (\<lambda>s. c # s) (c_string m))"

text \<open>
  The parameters are put into the copy of the text, each at the next \<open>%s\<close>; anything else after a per cent sign ends it. The rest of the
  text is moved one place too far down.
\<close>

fun msg_params :: "string option list \<Rightarrow> memory \<Rightarrow> nat \<Rightarrow> memory option" where
  "msg_params [] buf pct = Some buf"
| "msg_params (p # ps) buf pct = do {
     s \<leftarrow> c_string (drop pct buf);
     if CHR ''%'' \<notin> set s then Some buf
     else let i = pct + length (takeWhile (\<lambda>c. c \<noteq> CHR ''%'') s) in
       if take 2 (dropWhile (\<lambda>c. c \<noteq> CHR ''%'') s) \<noteq> ''%s'' then Some buf
       else case p of
         None \<Rightarrow> msg_params ps buf (i + 1)
       | Some param \<Rightarrow>
           if i + length param = 0 then None
           else do {
             buf \<leftarrow> store buf (i + length param - 1) (take (length s - (i - pct) - 1) (drop (i + 2) buf));
             buf \<leftarrow> store buf i (map Some param);
             msg_params ps buf (i + length param)
           }
   }"

definition param_room :: "string option \<Rightarrow> nat" where
  "param_room p = (case p of None \<Rightarrow> 0 | Some s \<Rightarrow> length s)"

definition xmlnode_msg :: "'c http_info \<Rightarrow> xml \<Rightarrow> (string option \<times> 'c http_info) option" where
  "xmlnode_msg v n =
     (let fmt = node_content n; p1 = xmlGetProp n ''param1''; p2 = xmlGetProp n ''param2'' in
      if fmt = [] then Some (None, v)
      else case alloc v of
        (False, v) \<Rightarrow> Some (Some fmt, v)
      | (True, v) \<Rightarrow> do {
          buf \<leftarrow> msg_params [p1, p2] (map Some (fmt @ [NUL]) @ replicate (param_room p1 + param_room p2) None) 0;
          s \<leftarrow> c_string buf;
          Some (Some s, v)
        })"

definition xmlnode_get_text :: "'c http_info \<Rightarrow> xml \<Rightarrow> string \<Rightarrow> string option \<Rightarrow> (string option \<times> 'c http_info) option" where
  "xmlnode_get_text v n name var =
     (if \<not> xmlnode_is_named n name then Some (var, v)
      else case xmlnode_msg v n of
        None \<Rightarrow> None
      | Some (None, v) \<Rightarrow> Some (var, v)
      | Some (Some s, v) \<Rightarrow> Some (Some s, v))"

section \<open>Reading a form\<close>

text \<open>The choices read and the index of the selected one; \<open>None\<close> when there is no memory.\<close>

definition read_choice :: "xml \<Rightarrow> oc_choice" where
  "read_choice n =
     \<lparr>choice_name = (case xmlGetProp n ''value'' of None \<Rightarrow> node_content n | Some s \<Rightarrow> s),
      choice_label = node_content n,
      auth_type = xmlGetProp n ''auth-type'',
      override_name = xmlGetProp n ''override-name'',
      override_label = xmlGetProp n ''override-label'',
      second_auth = prop_equals n ''second-auth'' ''1'',
      secondary_username = xmlGetProp n ''secondary_username'',
      secondary_username_editable = prop_equals n ''secondary_username_editable'' ''true'',
      noaaa = prop_equals n ''noaaa'' ''1''\<rparr>"

fun parse_choices :: "xml list \<Rightarrow> oc_choice list \<Rightarrow> nat \<Rightarrow> 'c http_info \<Rightarrow> (oc_choice list \<times> nat) option \<times> 'c http_info" where
  "parse_choices [] cs selection v = (Some (cs, selection), v)"
| "parse_choices (n # ns) cs selection v =
     (if \<not> is_element n \<or> xml_name n \<noteq> ''option'' then parse_choices ns cs selection v
      else case alloc v of
        (False, v) \<Rightarrow> (None, v)
      | (True, v) \<Rightarrow>
          parse_choices ns (cs @ [read_choice n]) (if prop_equals n ''selected'' ''true'' then length cs else selection) v)"

definition parse_auth_choice :: "'c http_info \<Rightarrow> oc_auth_form \<Rightarrow> xml \<Rightarrow> int \<times> oc_auth_form \<times> 'c http_info" where
  "parse_auth_choice v f n =
     (case alloc v of
        (False, v) \<Rightarrow> (err ENOMEM, f, v)
      | (True, v) \<Rightarrow>
          (case xmlGetProp n ''name'' of
             None \<Rightarrow> (err EINVAL, f, v)
           | Some name \<Rightarrow>
               (case alloc v of
                  (False, v) \<Rightarrow> (err ENOMEM, f, v)
                | (True, v) \<Rightarrow>
                    (case parse_choices (xml_children n) [] 0 v of
                       (None, v) \<Rightarrow> (err ENOMEM, f, v)
                     | (Some (cs, selection), v) \<Rightarrow>
                         let o1 = \<lparr>opt_type = OC_FORM_OPT_SELECT, opt_name = name, opt_label = xmlGetProp n ''label'', opt_value = None,
                                  flag_second_auth = False, flag_ignore = False, choices = cs\<rparr>;
                             f = (if name = ''group_list'' then f\<lparr>authgroup_selection := selection\<rparr> else f) in
                         (0, f\<lparr>opts := o1 # opts f\<rparr>, v)))))"

text \<open>The type and the value of an input; \<open>None\<close> for a type that is not known.\<close>

definition input_kind :: "token_mode \<Rightarrow> xml \<Rightarrow> string \<Rightarrow> (opt_type \<times> string option) option" where
  "input_kind m n input_type =
     (if input_type = ''hidden'' then Some (OC_FORM_OPT_HIDDEN, xmlGetProp n ''value'')
      else if input_type = ''text'' then Some (OC_FORM_OPT_TEXT, None)
      else if input_type = ''password'' then
        Some (if m \<noteq> OC_TOKEN_MODE_NONE \<and> can_gen_tokencode m = 0 then OC_FORM_OPT_TOKEN else OC_FORM_OPT_PASSWORD, None)
      else None)"

definition parse_input :: "'c http_info \<Rightarrow> oc_auth_form \<Rightarrow> xml \<Rightarrow> int \<times> oc_auth_form \<times> 'c http_info" where
  "parse_input v f n =
     (case xmlGetProp n ''type'' of
        None \<Rightarrow> (0, f, v)
      | Some input_type \<Rightarrow>
          if input_type = ''submit'' \<or> input_type = ''reset'' then (0, f, v)
          else (case xmlGetProp n ''name'' of
            None \<Rightarrow> (0, f, v)
          | Some name \<Rightarrow>
              (case alloc v of
                 (False, v) \<Rightarrow> (err ENOMEM, f, v)
               | (True, v) \<Rightarrow>
                   (case input_kind (mode (login v)) n input_type of
                      None \<Rightarrow> (0, f, v)
                    | Some (t, val) \<Rightarrow>
                        (0, f\<lparr>opts := opts f @ [\<lparr>opt_type = t, opt_name = name, opt_label = xmlGetProp n ''label'', opt_value = val,
                           flag_second_auth = prop_equals n ''second-auth'' ''1'', flag_ignore = False, choices = []\<rparr>]\<rparr>, v)))))"

fun parse_form :: "'c http_info \<Rightarrow> oc_auth_form \<Rightarrow> xml list \<Rightarrow> int \<times> oc_auth_form \<times> 'c http_info" where
  "parse_form v f [] = (0, f, v)"
| "parse_form v f (n # ns) =
     (if \<not> is_element n then parse_form v f ns
      else if xml_name n = ''select'' then
        (case parse_auth_choice v f n of (r, f, v) \<Rightarrow> if r \<noteq> 0 then (err EINVAL, f, v) else parse_form v f ns)
      else if xml_name n \<noteq> ''input'' then parse_form v f ns
      else (case parse_input v f n of (r, f, v) \<Rightarrow> if r \<noteq> 0 then (r, f, v) else parse_form v f ns))"

section \<open>Reading an answer\<close>

definition read_form :: "'c http_info \<Rightarrow> oc_auth_form \<Rightarrow> xml \<Rightarrow> int \<times> oc_auth_form \<times> 'c http_info" where
  "read_form v f n =
     (case alloc v of (ok1, v) \<Rightarrow> case alloc v of (ok2, v) \<Rightarrow>
        let meth = xmlnode_get_prop n ''method'' (if ok1 then Some ''POST'' else None);
            action = xmlnode_get_prop n ''action'' (if ok2 then Some ''/'' else None);
            f = f\<lparr>form_method := meth, form_action := action\<rparr> in
        case (meth, action) of
          (Some m, Some a) \<Rightarrow> if \<not> strcaseeq m ''POST'' \<or> a = [] then (err EINVAL, f, v) else parse_form v f (xml_children n)
        | _ \<Rightarrow> (err EINVAL, f, v))"

text \<open>The host scan's properties. Copying \<open>urlpath\<close> when there is none is undefined.\<close>

definition csd_tokens :: "xml \<Rightarrow> 'c http_info \<Rightarrow> 'c http_info" where
  "csd_tokens n v =
     upd_login (\<lambda>l. l\<lparr>csd_token := xmlnode_get_prop n ''token'' (csd_token l), csd_ticket := xmlnode_get_prop n ''ticket'' (csd_ticket l)\<rparr>) v"

definition csd_urls :: "xml \<Rightarrow> 'c http_info \<Rightarrow> 'c http_info option" where
  "csd_urls n v =
     (if csd_scriptname (login v) \<noteq> None \<or> \<not> xmlnode_is_named n (csd_xmltag (login v)) then Some v
      else case urlpath v of
        None \<Rightarrow> None
      | Some path \<Rightarrow>
          (case alloc v of (ok, v) \<Rightarrow>
             Some (upd_login (\<lambda>l. l\<lparr>
               csd_stuburl := (if csd_nostub l then csd_stuburl l else xmlnode_get_prop n ''stuburl'' (csd_stuburl l)),
               csd_starturl := xmlnode_get_prop n ''starturl'' (csd_starturl l),
               csd_waiturl := xmlnode_get_prop n ''waiturl'' (csd_waiturl l),
               csd_preurl := (if ok then Some path else None)\<rparr>) v)))"

fun parse_auth_node :: "'c http_info \<Rightarrow> oc_auth_form \<Rightarrow> xml list \<Rightarrow> (int \<times> oc_auth_form \<times> 'c http_info) option" where
  "parse_auth_node v f [] = Some (0, f, v)"
| "parse_auth_node v f (n # ns) =
     (if \<not> is_element n then parse_auth_node v f ns
      else do {
        (s, v) \<leftarrow> xmlnode_get_text v n ''banner'' (banner f);
        let f = f\<lparr>banner := s\<rparr>;
        (s, v) \<leftarrow> xmlnode_get_text v n ''message'' (form_message f);
        let f = f\<lparr>form_message := s\<rparr>;
        (s, v) \<leftarrow> xmlnode_get_text v n ''error'' (form_error f);
        let f = f\<lparr>form_error := s\<rparr>;
        let (r, f, v) = (if xmlnode_is_named n ''form'' then read_form v f n
          else (0, f, if csd_scriptname (login v) = None \<and> xmlnode_is_named n ''csd'' then csd_tokens n v else v));
        if r < 0 then Some (r, f, v)
        else do { v \<leftarrow> csd_urls n v; parse_auth_node v f ns }
      })"

fun host_scan_nodes :: "'c http_info \<Rightarrow> xml list \<Rightarrow> 'c http_info option" where
  "host_scan_nodes v [] = Some v"
| "host_scan_nodes v (n # ns) =
     (if \<not> is_element n then host_scan_nodes v ns
      else do {
        (s, v) \<leftarrow> xmlnode_get_text v n ''host-scan-ticket'' (csd_ticket (login v));
        let v = upd_login (\<lambda>l. l\<lparr>csd_ticket := s\<rparr>) v;
        (s, v) \<leftarrow> xmlnode_get_text v n ''host-scan-token'' (csd_token (login v));
        let v = upd_login (\<lambda>l. l\<lparr>csd_token := s\<rparr>) v;
        (s, v) \<leftarrow> xmlnode_get_text v n ''host-scan-base-uri'' (csd_starturl (login v));
        let v = upd_login (\<lambda>l. l\<lparr>csd_starturl := s\<rparr>) v;
        (s, v) \<leftarrow> xmlnode_get_text v n ''host-scan-wait-uri'' (csd_waiturl (login v));
        host_scan_nodes (upd_login (\<lambda>l. l\<lparr>csd_waiturl := s\<rparr>) v) ns
      })"

definition parse_host_scan_node :: "'c http_info \<Rightarrow> xml \<Rightarrow> 'c http_info option" where
  "parse_host_scan_node v n =
     (if csd_scriptname (login v) \<noteq> None then Some v else host_scan_nodes v (xml_children n))"

fun profile_nodes :: "'c http_info \<Rightarrow> xml list \<Rightarrow> 'c http_info option" where
  "profile_nodes v [] = Some v"
| "profile_nodes v (n # ns) =
     (if \<not> is_element n then profile_nodes v ns
      else do {
        (s, v) \<leftarrow> xmlnode_get_text v n ''uri'' (profile_url (login v));
        let v = upd_login (\<lambda>l. l\<lparr>profile_url := s\<rparr>) v;
        (s, v) \<leftarrow> xmlnode_get_text v n ''hash'' (profile_sha1 (login v));
        profile_nodes (upd_login (\<lambda>l. l\<lparr>profile_sha1 := s\<rparr>) v) ns
      })"

definition is_vpn_rev1 :: "xml \<Rightarrow> bool" where
  "is_vpn_rev1 n \<longleftrightarrow> is_element n \<and> xmlnode_is_named n ''vpn'' \<and> xmlnode_match_prop n ''rev'' ''1.0'' = 0"

definition is_profile_file :: "xml \<Rightarrow> bool" where
  "is_profile_file n \<longleftrightarrow> is_element n \<and> xmlnode_is_named n ''file'' \<and> xmlnode_match_prop n ''type'' ''profile'' = 0 \<and>
     xmlnode_match_prop n ''service-type'' ''user'' = 0"

definition parse_profile_node :: "'c http_info \<Rightarrow> xml \<Rightarrow> 'c http_info option" where
  "parse_profile_node v n =
     (if profile_url (login v) \<noteq> None \<and> profile_sha1 (login v) \<noteq> None then Some v
      else case find is_vpn_rev1 (xml_children n) of
        None \<Rightarrow> Some v
      | Some vpn \<Rightarrow>
          (case find is_profile_file (xml_children vpn) of
             None \<Rightarrow> Some v
           | Some file \<Rightarrow> profile_nodes v (xml_children file)))"

fun parse_config_node :: "'c http_info \<Rightarrow> xml list \<Rightarrow> 'c http_info option" where
  "parse_config_node v [] = Some v"
| "parse_config_node v (n # ns) =
     (if is_element n \<and> xmlnode_is_named n ''vpn-profile-manifest'' then do { v \<leftarrow> parse_profile_node v n; parse_config_node v ns }
      else parse_config_node v ns)"

text \<open>
  One node of the answer: the value of \<open>ret\<close>, the form, \<open>*cert_rq\<close> and the client. \<open>want_cert\<close> says that the
  caller passed a \<open>cert_rq\<close>.
\<close>

definition parse_node ::
  "bool \<Rightarrow> 'c http_info \<Rightarrow> oc_auth_form \<Rightarrow> bool \<Rightarrow> xml \<Rightarrow> (int \<times> oc_auth_form \<times> bool \<times> 'c http_info) option" where
  "parse_node want_cert v f cert_rq n =
     (if xmlnode_is_named n ''client-cert-request'' then
        Some (if want_cert then (0, f, True, v) else (err EINVAL, f, cert_rq, v))
      else if xmlnode_is_named n ''auth'' then do {
        (r, f, v) \<leftarrow> parse_auth_node v (f\<lparr>auth_id := xmlnode_get_prop n ''id'' (auth_id f)\<rparr>) (xml_children n);
        Some (r, f, cert_rq, v)
      }
      else if xmlnode_is_named n ''opaque'' then Some (0, f, cert_rq, upd_login (\<lambda>l. l\<lparr>opaque_srvdata := Some n\<rparr>) v)
      else if xmlnode_is_named n ''host-scan'' then do {
        v \<leftarrow> parse_host_scan_node v n;
        Some (0, f, cert_rq, v)
      }
      else if xmlnode_is_named n ''config'' then do {
        v \<leftarrow> parse_config_node v (xml_children n);
        Some (0, f, cert_rq, v)
      }
      else do {
        (s, v) \<leftarrow> xmlnode_get_text v n ''session-token'' (cookie (login v));
        let v = upd_login (\<lambda>l. l\<lparr>cookie := s\<rparr>) v;
        (s, v) \<leftarrow> xmlnode_get_text v n ''error'' (form_error f);
        Some (0, f\<lparr>form_error := s\<rparr>, cert_rq, v)
      })"

text \<open>The walk over the nodes; a \<open>config-auth\<close> node is left for its children.\<close>

function parse_nodes ::
  "bool \<Rightarrow> 'c http_info \<Rightarrow> oc_auth_form \<Rightarrow> bool \<Rightarrow> xml list \<Rightarrow> (int \<times> oc_auth_form \<times> bool \<times> 'c http_info) option" where
  "parse_nodes want_cert v f cert_rq [] = Some (0, f, cert_rq, v)"
| "parse_nodes want_cert v f cert_rq (n # ns) =
     (if \<not> is_element n then parse_nodes want_cert v f cert_rq ns
      else if xmlnode_is_named n ''config-auth'' then parse_nodes want_cert v f cert_rq (xml_children n)
      else do {
        (r, f, cert_rq, v) \<leftarrow> parse_node want_cert v f cert_rq n;
        if r \<noteq> 0 then Some (r, f, cert_rq, v) else parse_nodes want_cert v f cert_rq ns
      })"
  by pat_completeness auto
termination
  by (relation "measure (\<lambda>(_, _, _, _, ns). size_list size ns)") (auto simp: is_element_def split: xml.splits)

text \<open>\<open>parse_xml_response\<close>: the result, \<open>*formp\<close>, \<open>*cert_rq\<close> and the client.\<close>

definition parse_xml_response ::
  "(string \<Rightarrow> xml list option) \<Rightarrow> bool \<Rightarrow> 'c http_info \<Rightarrow> string option \<Rightarrow> (int \<times> oc_auth_form option \<times> bool \<times> 'c http_info) option" where
  "parse_xml_response read_xml want_cert v response =
     (case response of
        None \<Rightarrow> Some (err EINVAL, None, False, v)
      | Some text \<Rightarrow>
          (case alloc v of
             (False, v) \<Rightarrow> Some (err ENOMEM, None, False, v)
           | (True, v) \<Rightarrow>
               (case read_xml text of
                  None \<Rightarrow> Some (err EINVAL, None, False, v)
                | Some ns \<Rightarrow> do {
                    (r, f, cert_rq, v) \<leftarrow> parse_nodes want_cert v new_form False ns;
                    Some (if r \<noteq> 0 then (r, None, cert_rq, v)
                          else if auth_id f = None \<and> \<not> cert_rq then (err EINVAL, None, cert_rq, v)
                          else (0, Some f, cert_rq, v))
                  })))"

end
