(* ===== verification/Form_Post.thy ===== *)
theory Form_Post
  imports Auth_Form
begin

text \<open>
  Filling in and sending a login form (\<open>core/auth.c\<close>). A request body is the whole buffer, as long as the caller says
  (\<open>bodylen\<close>); writing beyond it is undefined. \<open>isalnum\<close> is that of the C locale. The copies that
  \<open>process_auth_form\<close> makes with \<open>strdup\<close> succeed.
\<close>

section \<open>Query strings\<close>

definition isalnum :: "char \<Rightarrow> bool" where
  "isalnum c \<longleftrightarrow> is_digit c \<or> in_range c 65 90 \<or> in_range c 97 122"

definition c_string_of :: "string \<Rightarrow> string option" where
  "c_string_of body = (if NUL \<in> set body then Some (cstr body) else None)"

text \<open>
  \<open>%02x\<close> or \<open>%02X\<close> of a \<open>char\<close>: it is signed and becomes an \<open>int\<close>, so from 128 on it has eight digits.
\<close>

definition form_hex_digit :: "bool \<Rightarrow> nat \<Rightarrow> char" where
  "form_hex_digit upper n = (if upper then ''0123456789ABCDEF'' else ''0123456789abcdef'') ! n"

definition hex_of_char :: "bool \<Rightarrow> char \<Rightarrow> string" where
  "hex_of_char upper c =
     (let n = of_char c :: nat; d = [form_hex_digit upper (n div 16), form_hex_digit upper (n mod 16)] in
      if n < 128 then d else replicate 6 (form_hex_digit upper 15) @ d)"

type_synonym cursor = "nat \<times> string"

text \<open>Writing at the end of the body: the place of the end and the buffer, or the error.\<close>

definition write_char :: "char \<Rightarrow> cursor \<Rightarrow> (int + cursor) option" where
  "write_char c cur =
     (case cur of (len, body) \<Rightarrow>
        if length body \<le> len + 1 then Some (Inl (err ENOSPC))
        else map_option (\<lambda>b. Inr (len + 1, b)) (store body len [c]))"

definition write_escaped :: "bool \<Rightarrow> char \<Rightarrow> cursor \<Rightarrow> (int + cursor) option" where
  "write_escaped upper c cur =
     (case cur of (len, body) \<Rightarrow>
        if isalnum c then write_char c cur
        else if length body \<le> len + 3 then Some (Inl (err ENOSPC))
        else map_option (\<lambda>b. Inr (len + 3, b)) (store body len (CHR ''%'' # hex_of_char upper c @ [NUL])))"

fun write_string :: "bool \<Rightarrow> string \<Rightarrow> cursor \<Rightarrow> (int + cursor) option" where
  "write_string upper [] cur = Some (Inr cur)"
| "write_string upper (c # s) cur =
     (case write_escaped upper c cur of
        None \<Rightarrow> None
      | Some (Inl e) \<Rightarrow> Some (Inl e)
      | Some (Inr cur) \<Rightarrow> write_string upper s cur)"

definition then_write :: "(int + cursor) option \<Rightarrow> (cursor \<Rightarrow> (int + cursor) option) \<Rightarrow> (int + cursor) option" where
  "then_write r f = (case r of None \<Rightarrow> None | Some (Inl e) \<Rightarrow> Some (Inl e) | Some (Inr cur) \<Rightarrow> f cur)"

text \<open>
  The result is the error, or the new body. What an error leaves in the body is not used by any caller.
\<close>

definition append_opt :: "string \<Rightarrow> string \<Rightarrow> string option \<Rightarrow> (int + string) option" where
  "append_opt body name val = do {
     s \<leftarrow> c_string_of body;
     r \<leftarrow> then_write (then_write (then_write
        (if s = [] then Some (Inr (0, body)) else write_char (CHR 0x26) (length s, body))
        (write_string False name)) (write_char (CHR ''='')))
        (write_string True (case val of None \<Rightarrow> [] | Some x \<Rightarrow> x));
     case r of
       Inl e \<Rightarrow> Some (Inl e)
     | Inr (len, body) \<Rightarrow> map_option Inr (store body len [NUL])
   }"

fun append_form_opts :: "oc_form_opt list \<Rightarrow> string \<Rightarrow> (int + string) option" where
  "append_form_opts [] body = Some (Inr body)"
| "append_form_opts (o1 # os) body =
     (case append_opt body (opt_name o1) (opt_value o1) of
        None \<Rightarrow> None
      | Some (Inl e) \<Rightarrow> Some (Inl e)
      | Some (Inr body) \<Rightarrow> append_form_opts os body)"

section \<open>XML requests\<close>

definition xmlpost_new_query :: "'c http_info \<Rightarrow> string \<Rightarrow> xml" where
  "xmlpost_new_query v type =
     Element ''config-auth'' [(''client'', ''vpn''), (''type'', type)]
       [Element ''version'' [(''who'', ''vpn'')] [Text openconnect_version_str],
        Element ''device-id''
          (case mobile_platform_version v of
             None \<Rightarrow> []
           | Some ver \<Rightarrow> [(''platform-version'', ver), (''device-type'', mobile_device_type v), (''unique-id'', mobile_device_uniqueid v)])
          [Text (platname v)]]"

text \<open>A document of exactly the length of the body has its final null character written behind it.\<close>

definition xmlpost_complete :: "xml \<Rightarrow> string \<Rightarrow> (int + string) option" where
  "xmlpost_complete root body =
     (let mem = xmlDocDumpMemoryEnc root in
      if length body < length mem then Some (Inl (err E2BIG))
      else map_option Inr (store body 0 (mem @ [NUL])))"

definition xmlpost_initial_req :: "'c http_info \<Rightarrow> string \<Rightarrow> bool \<Rightarrow> ((int + string) option) \<times> 'c http_info" where
  "xmlpost_initial_req v body cert_fail =
     (case alloc v of (ok, v) \<Rightarrow>
        let url = ''https://'' @ hostname v @ (case urlpath v of None \<Rightarrow> [] | Some p \<Rightarrow> ''/'' @ p);
            root = xmlNewTextChild (xmlpost_new_query v ''init'') ''group-access'' (Some url);
            root = (if cert_fail then xmlNewTextChild root ''client-cert-fail'' None else root);
            root = (case authgroup (login v) of None \<Rightarrow> root | Some g \<Rightarrow> xmlNewTextChild root ''group-select'' (Some g)) in
        (if ok then xmlpost_complete root body else Some (Inl (err ENOMEM)), v))"

text \<open>
  The options of a form go below the document's element, or below its \<open>auth\<close> element: the last child of it so far, which is
  kept apart until the end.
\<close>

definition add_opt_node :: "oc_form_opt \<Rightarrow> xml list \<times> xml \<Rightarrow> xml list \<times> xml" where
  "add_opt_node o1 st =
     (case st of (after, node) \<Rightarrow>
        if opt_name o1 = ''group_list'' then
          (after @ [Element ''group-select'' [] (case opt_value o1 of None \<Rightarrow> [] | Some x \<Rightarrow> [Text x])], node)
        else if opt_name o1 = ''answer'' \<or> opt_name o1 = ''whichpin'' \<or> opt_name o1 = ''new_password'' then
          (after, xmlNewTextChild node ''password'' (opt_value o1))
        else if opt_name o1 = ''verify_pin'' \<or> opt_name o1 = ''verify_password'' then (after, node)
        else (after, xmlNewTextChild node (opt_name o1) (opt_value o1)))"

definition xmlpost_reply :: "'c http_info \<Rightarrow> oc_auth_form \<Rightarrow> xml" where
  "xmlpost_reply v f =
     (let root = xmlpost_new_query v ''auth-reply'';
          root = (case opaque_srvdata (login v) of None \<Rightarrow> root | Some n \<Rightarrow> add_child root n);
          (after, node) = fold add_opt_node (opts f) ([], Element ''auth'' [] []);
          root = foldl add_child (add_child root node) after in
      case csd_token (login v) of None \<Rightarrow> root | Some t \<Rightarrow> xmlNewTextChild root ''host-scan-token'' (Some t))"

definition xmlpost_append_form_opts :: "'c http_info \<Rightarrow> oc_auth_form \<Rightarrow> string \<Rightarrow> (int + string) option" where
  "xmlpost_append_form_opts v f body = xmlpost_complete (xmlpost_reply v f) body"

section \<open>Asking the user\<close>

abbreviation (input) OC_FORM_RESULT_ERR :: int where "OC_FORM_RESULT_ERR \<equiv> - 1"
abbreviation (input) OC_FORM_RESULT_OK :: int where "OC_FORM_RESULT_OK \<equiv> 0"
abbreviation (input) OC_FORM_RESULT_CANCELLED :: int where "OC_FORM_RESULT_CANCELLED \<equiv> 1"
abbreviation (input) OC_FORM_RESULT_NEWGROUP :: int where "OC_FORM_RESULT_NEWGROUP \<equiv> 2"
abbreviation (input) OC_FORM_RESULT_LOGGEDIN :: int where "OC_FORM_RESULT_LOGGEDIN \<equiv> 255"

text \<open>The application's callback: it gets the form, and returns its result and the form filled in.\<close>

type_synonym 'c form_handler = "oc_auth_form \<Rightarrow> 'c \<Rightarrow> int \<times> oc_auth_form \<times> 'c"

definition nuke_opt_values :: "oc_auth_form \<Rightarrow> oc_auth_form" where
  "nuke_opt_values f =
     f\<lparr>opts := map (\<lambda>o1. if opt_type o1 = OC_FORM_OPT_TEXT \<or> opt_type o1 = OC_FORM_OPT_PASSWORD then o1\<lparr>opt_value := None\<rparr> else o1) (opts f)\<rparr>"

text \<open>The last choice of the name, and the choice selected; \<open>None\<close> outside the array.\<close>

fun last_choice :: "string \<Rightarrow> oc_choice list \<Rightarrow> nat \<Rightarrow> nat \<Rightarrow> nat" where
  "last_choice g [] i found = found"
| "last_choice g (c # cs) i found = last_choice g cs (i + 1) (if choice_name c = g then i else found)"

definition select_group :: "'c http_info \<Rightarrow> oc_auth_form \<Rightarrow> (oc_choice option \<times> oc_auth_form) option" where
  "select_group v f =
     (case authgroup_opt f of
        None \<Rightarrow> Some (None, f)
      | Some grp \<Rightarrow>
          if choices grp = [] \<or> xmlpost v then Some (None, f)
          else let f = (case authgroup (login v) of
                 None \<Rightarrow> f
               | Some g \<Rightarrow> f\<lparr>authgroup_selection := last_choice g (choices grp) 0 (authgroup_selection f)\<rparr>) in
            if authgroup_selection f < length (choices grp) then Some (Some (choices grp ! authgroup_selection f), f) else None)"

definition mark_opt :: "oc_choice option \<Rightarrow> oc_form_opt \<Rightarrow> oc_form_opt" where
  "mark_opt choice o1 =
     (let o1 = o1\<lparr>flag_ignore := False\<rparr> in
      case choice of
        None \<Rightarrow> o1
      | Some ch \<Rightarrow>
          if opt_type o1 \<noteq> OC_FORM_OPT_TEXT \<and> opt_type o1 \<noteq> OC_FORM_OPT_PASSWORD then o1
          else if noaaa ch \<or> (\<not> second_auth ch \<and> flag_second_auth o1) then o1\<lparr>flag_ignore := True\<rparr>
          else if opt_name o1 = ''secondary_username'' \<and> flag_second_auth o1 then
            (let o1 = (case secondary_username ch of None \<Rightarrow> o1 | Some u \<Rightarrow> o1\<lparr>opt_value := Some u\<rparr>) in
             if secondary_username_editable ch then o1 else o1\<lparr>flag_ignore := True\<rparr>)
          else o1)"

definition chosen_group :: "oc_auth_form \<Rightarrow> string option" where
  "chosen_group f = (case authgroup_opt f of None \<Rightarrow> None | Some grp \<Rightarrow> opt_value grp)"

partial_function (option) process_auth_form ::
  "'c form_handler option \<Rightarrow> 'c http_info \<Rightarrow> oc_auth_form \<Rightarrow> (int \<times> oc_auth_form \<times> 'c http_info) option" where
  "process_auth_form handler v f =
     (case handler of
        None \<Rightarrow> Some (OC_FORM_RESULT_ERR, f, v)
      | Some ask \<Rightarrow>
          (case select_group v f of
             None \<Rightarrow> None
           | Some (choice, f) \<Rightarrow>
               (case ask (f\<lparr>opts := map (mark_opt choice) (opts f)\<rparr>) (conn v) of
                  (ret, f, c) \<Rightarrow>
                    let v = v\<lparr>conn := c\<rparr>;
                        new = ret = OC_FORM_RESULT_NEWGROUP \<and> chosen_group f \<noteq> None;
                        v = (if new then upd_login (\<lambda>l. l\<lparr>authgroup := chosen_group f\<rparr>) v else v) in
                    if new \<and> \<not> xmlpost v then process_auth_form handler v f
                    else Some (ret, if ret = OC_FORM_RESULT_CANCELLED \<or> ret < 0 then nuke_opt_values f else f, v))))"

section \<open>Handling a form\<close>

text \<open>The next request: \<open>*method\<close>, \<open>*request_body_type\<close> and \<open>request_body\<close>.\<close>

record request =
  rq_method :: string
  rq_type :: "string option"
  rq_body :: string

definition csd_ready :: "login_state \<Rightarrow> bool" where
  "csd_ready l \<longleftrightarrow> csd_token l \<noteq> None \<and> csd_ticket l \<noteq> None \<and> csd_starturl l \<noteq> None \<and> csd_waiturl l \<noteq> None"

definition handle_auth_form ::
  "'c form_handler option \<Rightarrow> 'c http_info \<Rightarrow> oc_auth_form \<Rightarrow> request \<Rightarrow> (int \<times> oc_auth_form \<times> request \<times> 'c http_info) option" where
  "handle_auth_form handler v f rq =
     (case auth_id f of
        None \<Rightarrow> None
      | Some i \<Rightarrow>
          if i = ''success'' then Some (OC_FORM_RESULT_LOGGEDIN, f, rq, v)
          else if nopasswd (login v) then Some (err EPERM, f, rq, v)
          else if csd_ready (login v) then Some (OC_FORM_RESULT_OK, f, rq, clear_cookies v)
          else if opts f = [] then Some (err EPERM, f, rq, v)
          else do {
            (ret, f, v) \<leftarrow> process_auth_form handler v f;
            if ret \<noteq> 0 then Some (ret, f, rq, v)
            else let ret = do_gen_tokencode (mode (login v)) f in
              if ret \<noteq> 0 then Some (ret, f, rq, v)
              else do {
                r \<leftarrow> (if xmlpost v then xmlpost_append_form_opts v f (rq_body rq) else append_form_opts (opts f) (rq_body rq));
                Some (case r of
                    Inl e \<Rightarrow> (e, f, rq, v)
                  | Inr body \<Rightarrow> (0, f, \<lparr>rq_method = ''POST'', rq_type = Some ''application/x-www-form-urlencoded'', rq_body = body\<rparr>, v))
              }
          })"

end
