(* ===== verification/Form_Query.thy ===== *)
theory Form_Query
  imports Form_Post
begin

text \<open>
  The query string of a form: what \<open>append_form_opts\<close> writes is the text of the form's names and values, written
  completely or refused, and for ASCII it is decoded to them again.
\<close>

section \<open>The text of a query string\<close>

text \<open>
  What is written for a character: the first two of its hexadecimal digits, which are all of them for a character below 128 and the sign
  for the others.
\<close>

definition form_escape :: "bool \<Rightarrow> string \<Rightarrow> string" where
  "form_escape upper s = concat (map (\<lambda>c. if isalnum c then [c] else CHR ''%'' # take 2 (hex_of_char upper c)) s)"

definition form_pair :: "string \<times> string option \<Rightarrow> string" where
  "form_pair p = form_escape False (fst p) @ ''='' @ form_escape True (case snd p of None \<Rightarrow> [] | Some x \<Rightarrow> x)"

fun form_text :: "(string \<times> string option) list \<Rightarrow> string" where
  "form_text [] = []"
| "form_text [p] = form_pair p"
| "form_text (p # ps) = form_pair p @ AMP @ form_text ps"

definition pair_of :: "oc_form_opt \<Rightarrow> string \<times> string option" where
  "pair_of o1 = (opt_name o1, opt_value o1)"

definition ascii :: "string \<Rightarrow> bool" where
  "ascii s \<longleftrightarrow> (\<forall>c \<in> set s. (of_char c :: nat) < 128)"

definition ascii_pair :: "string \<times> string option \<Rightarrow> bool" where
  "ascii_pair p \<longleftrightarrow> ascii (fst p) \<and> ascii (case snd p of None \<Rightarrow> [] | Some x \<Rightarrow> x)"

lemma isalnum_not_nul: "isalnum c \<Longrightarrow> c \<noteq> NUL"
  by (auto simp: isalnum_def is_digit_def in_range_def)

lemma form_hex_digit_not_nul: "n < 16 \<Longrightarrow> form_hex_digit u n \<noteq> NUL"
  by (auto simp: form_hex_digit_def less_Suc_eq numeral_eq_Suc)

lemma hex_of_char_length: "length (hex_of_char u c) = (if (of_char c :: nat) < 128 then 2 else 8)"
  by (simp add: hex_of_char_def Let_def)

lemma hex_of_char_not_nul: "NUL \<notin> set (hex_of_char u c)"
proof -
  have "(of_char c :: nat) < 256" by (rule nat_of_char_less_256)
  then have "of_char c div 16 < (16 :: nat)" "of_char c mod 16 < (16 :: nat)" by (simp_all add: less_mult_imp_div_less)
  then show ?thesis by (simp add: hex_of_char_def Let_def form_hex_digit_not_nul [THEN not_sym])
qed

text \<open>
  \<open>wrote t n cur\<close>: the cursor stands behind \<open>t\<close> in a body of length \<open>n\<close>. \<open>writes t n r\<close>: \<open>r\<close> has written
  \<open>t\<close>, or has failed because it does not fit.
\<close>

definition wrote :: "string \<Rightarrow> nat \<Rightarrow> cursor \<Rightarrow> bool" where
  "wrote t n cur \<longleftrightarrow> (case cur of (len, body) \<Rightarrow> len = length t \<and> len < length body \<and> length body = n \<and> take len body = t \<and> NUL \<notin> set t)"

definition writes :: "string \<Rightarrow> nat \<Rightarrow> (int + cursor) option \<Rightarrow> bool" where
  "writes t n r \<longleftrightarrow> (if length t < n then \<exists>cur. r = Some (Inr cur) \<and> wrote t n cur else r = Some (Inl (err ENOSPC)))"

lemma writes_then:
  assumes "writes t n r" "\<And>cur. wrote t n cur \<Longrightarrow> writes (t @ s) n (f cur)"
  shows "writes (t @ s) n (then_write r f)"
  using assms by (cases "length t < n") (auto simp: writes_def then_write_def)

lemma store_take:
  assumes "store body (length t) xs = Some b" "take (length t) body = t" "k \<le> length xs"
  shows "take (length t + k) b = t @ take k xs" "length b = length body"
  using assms by (auto simp: store_def split: if_splits)

lemma write_char_writes:
  assumes "wrote t n cur" "c \<noteq> NUL"
  shows "writes (t @ [c]) n (write_char c cur)"
proof -
  obtain body where cur: "cur = (length t, body)" "length t < n" "length body = n" "take (length t) body = t" "NUL \<notin> set t"
    using assms(1) by (auto simp: wrote_def split: prod.splits)
  show ?thesis
  proof (cases "length t + 1 < n")
    case True
    then obtain b where b: "store body (length t) [c] = Some b" using cur by (simp add: store_def)
    from store_take [OF b cur(4), of 1] True cur assms(2) b show ?thesis
      by (simp add: write_char_def wrote_def writes_def)
  qed (use cur in \<open>simp add: write_char_def writes_def\<close>)
qed

lemma write_escaped_writes:
  assumes "wrote t n cur" "c \<noteq> NUL" "(of_char c :: nat) < 128 \<or> length t + 10 \<le> n"
  shows "writes (t @ form_escape u [c]) n (write_escaped u c cur)"
proof (cases "isalnum c")
  case True
  then show ?thesis using write_char_writes [OF assms(1,2)]
    by (auto simp: write_escaped_def form_escape_def split: prod.splits)
next
  case False
  obtain body where cur: "cur = (length t, body)" "length t < n" "length body = n" "take (length t) body = t" "NUL \<notin> set t"
    using assms(1) by (auto simp: wrote_def split: prod.splits)
  define xs where "xs = CHR ''%'' # hex_of_char u c @ [NUL]"
  have two: "2 \<le> length (hex_of_char u c)" by (simp add: hex_of_char_length)
  then have e: "form_escape u [c] = take 3 xs" using False by (simp add: form_escape_def xs_def)
  have k: "length (take 3 xs) = 3" using two by (simp add: xs_def)
  have nul: "NUL \<notin> set (take 3 xs)"
    using hex_of_char_not_nul [of u c] two by (auto simp: xs_def dest: in_set_takeD)
  show ?thesis
  proof (cases "length t + 3 < n")
    case True
    have "length t + length xs \<le> n" using assms(3) True by (auto simp: xs_def hex_of_char_length)
    then obtain b where b: "store body (length t) xs = Some b" using cur by (simp add: store_def)
    have "take (length t + 3) b = t @ take 3 xs" "length b = length body"
      using store_take [OF b cur(4), of 3] two by (simp_all add: xs_def)
    then have "wrote (t @ take 3 xs) n (length t + 3, b)" using True cur k nul by (simp add: wrote_def)
    moreover have "write_escaped u c cur = Some (Inr (length t + 3, b))"
      using False True cur b by (simp add: write_escaped_def xs_def)
    ultimately show ?thesis unfolding e writes_def using True k by (auto simp del: take_append)
  next
    case no: False
    then show ?thesis unfolding e writes_def using False cur k by (simp add: write_escaped_def)
  qed
qed

text \<open>Where every write fits: for a character beyond 127 seven more places are needed than the text takes.\<close>

definition fits :: "string \<Rightarrow> string \<Rightarrow> nat \<Rightarrow> bool" where
  "fits s t n \<longleftrightarrow> ascii s \<or> length t + 7 \<le> n"

lemma form_escape_Cons: "form_escape u (c # s) = form_escape u [c] @ form_escape u s"
  by (simp add: form_escape_def)

lemma write_string_writes:
  assumes "wrote t n cur" "NUL \<notin> set s" "fits s (t @ form_escape u s) n"
  shows "writes (t @ form_escape u s) n (write_string u s cur)"
  using assms
proof (induction s arbitrary: t cur)
  case Nil
  then show ?case by (auto simp: form_escape_def writes_def wrote_def)
next
  case (Cons c s)
  have len: "(of_char c :: nat) < 128 \<or> 3 \<le> length (form_escape u [c])"
    by (auto simp: form_escape_def hex_of_char_length isalnum_def is_digit_def in_range_def)
  have c: "writes (t @ form_escape u [c]) n (write_escaped u c cur)"
    by (rule write_escaped_writes [OF Cons.prems(1)])
      (use Cons.prems len in \<open>auto simp: fits_def ascii_def form_escape_Cons [of u c s]\<close>)
  have "writes ((t @ form_escape u [c]) @ form_escape u s) n (then_write (write_escaped u c cur) (write_string u s))"
  proof (rule writes_then [OF c])
    fix d
    assume "wrote (t @ form_escape u [c]) n d"
    then show "writes ((t @ form_escape u [c]) @ form_escape u s) n (write_string u s d)"
      by (rule Cons.IH) (use Cons.prems in \<open>auto simp: fits_def ascii_def form_escape_Cons [of u c s]\<close>)
  qed
  then show ?case by (simp add: then_write_def form_escape_Cons [of u c s] cong: option.case_cong sum.case_cong)
qed


definition pair_fits :: "string \<times> string option \<Rightarrow> string \<Rightarrow> nat \<Rightarrow> bool" where
  "pair_fits p t n \<longleftrightarrow> ascii_pair p \<or> length t + 7 \<le> n"

definition no_nul :: "string \<times> string option \<Rightarrow> bool" where
  "no_nul p \<longleftrightarrow> NUL \<notin> set (fst p) \<and> NUL \<notin> set (case snd p of None \<Rightarrow> [] | Some x \<Rightarrow> x)"

definition joined :: "string \<Rightarrow> string \<Rightarrow> string" where
  "joined t s = (if t = [] then s else t @ AMP @ s)"

text \<open>The body as a C string: what is written, in a buffer of that length.\<close>

definition holds_text :: "string \<Rightarrow> string \<Rightarrow> nat \<Rightarrow> bool" where
  "holds_text body t n \<longleftrightarrow> c_string_of body = Some t \<and> length body = n"

lemma holds_text_wrote:
  assumes "holds_text body t n"
  shows "wrote t n (length t, body)"
proof -
  have t: "NUL \<in> set body" "t = takeWhile (\<lambda>c. c \<noteq> NUL) body"
    using assms by (auto simp: holds_text_def c_string_of_def cstr_def split: if_splits)
  have "length body = length t + length (dropWhile (\<lambda>c. c \<noteq> NUL) body)"
    unfolding t(2) by (metis length_append takeWhile_dropWhile_id)
  with t have "length t < length body" "NUL \<notin> set t" by (auto dest: set_takeWhileD)
  moreover have "take (length t) body = t" unfolding t(2) by (rule takeWhile_eq_take [symmetric])
  ultimately show ?thesis using assms by (simp add: wrote_def holds_text_def)
qed

lemma wrote_holds_text:
  assumes "wrote t n (len, body)"
  shows "\<exists>b. store body len [NUL] = Some b \<and> holds_text b t n"
proof -
  have body: "len = length t" "len < length body" "length body = n" "take len body = t" "NUL \<notin> set t"
    using assms by (auto simp: wrote_def)
  then have "takeWhile (\<lambda>c. c \<noteq> NUL) (t @ NUL # drop (len + 1) body) = t" by (auto simp: takeWhile_append)
  with body show ?thesis by (auto simp: store_def holds_text_def c_string_of_def cstr_def)
qed

lemma append_opt_text:
  assumes body: "holds_text body t n" and nul: "no_nul (name, val)"
    and room: "pair_fits (name, val) (joined t (form_pair (name, val))) n"
  shows "if length (joined t (form_pair (name, val))) < n
         then \<exists>b. append_opt body name val = Some (Inr b) \<and> holds_text b (joined t (form_pair (name, val))) n
         else append_opt body name val = Some (Inl (err ENOSPC))"
proof -
  define x where "x = (case val of None \<Rightarrow> [] | Some x \<Rightarrow> x)"
  define sep where "sep = (if t = [] then [] else AMP)"
  define r where "r = then_write (then_write (then_write
     (if t = [] then Some (Inr (0, body)) else write_char (CHR 0x26) (length t, body))
     (write_string False name)) (write_char (CHR ''=''))) (write_string True x)"
  have whole: "joined t (form_pair (name, val)) = ((((t @ sep) @ form_escape False name) @ ''='') @ form_escape True x)"
    by (simp add: joined_def form_pair_def sep_def x_def)
  have x: "NUL \<notin> set name" "NUL \<notin> set x" using nul by (simp_all add: no_nul_def x_def)
  have f: "fits name ((t @ sep) @ form_escape False name) n" "fits x ((((t @ sep) @ form_escape False name) @ ''='') @ form_escape True x) n"
    using room by (auto simp: pair_fits_def ascii_pair_def fits_def whole x_def)
  have w: "wrote t n (length t, body)" by (rule holds_text_wrote [OF body])
  have first: "writes (t @ sep) n (if t = [] then Some (Inr (0, body)) else write_char (CHR 0x26) (length t, body))"
    using w write_char_writes [OF w, of "CHR 0x26"] by (auto simp: sep_def writes_def wrote_def)
  have r: "writes (joined t (form_pair (name, val))) n r"
    unfolding whole r_def
    by (intro writes_then first write_string_writes x f write_char_writes) simp_all
  have eq: "append_opt body name val =
      (case r of None \<Rightarrow> None | Some (Inl e) \<Rightarrow> Some (Inl e) | Some (Inr (len, body)) \<Rightarrow> map_option Inr (store body len [NUL]))"
    using body by (simp add: append_opt_def holds_text_def r_def x_def split: option.split sum.split)
  show ?thesis
  proof (cases "length (joined t (form_pair (name, val))) < n")
    case True
    then obtain len b where b: "r = Some (Inr (len, b))" "wrote (joined t (form_pair (name, val))) n (len, b)"
      using r by (auto simp: writes_def)
    from wrote_holds_text [OF b(2)] show ?thesis using True b(1) eq by auto
  next
    case False
    then have "r = Some (Inl (err ENOSPC))" using r by (simp add: writes_def)
    with False eq show ?thesis by simp
  qed
qed

lemma form_text_Cons: "form_text (p # ps) = joined (form_pair p) (form_text ps) \<or> ps = []"
  by (cases ps) (auto simp: joined_def form_pair_def)

fun joined_all :: "string \<Rightarrow> (string \<times> string option) list \<Rightarrow> string" where
  "joined_all t [] = t"
| "joined_all t (p # ps) = joined_all (joined t (form_pair p)) ps"

lemma form_pair_nonempty: "form_pair p \<noteq> []"
  by (simp add: form_pair_def)

lemma joined_nonempty: "joined t (form_pair p) \<noteq> []"
  by (simp add: joined_def form_pair_nonempty)

lemma joined_all_length: "length t \<le> length (joined_all t ps)"
proof (induction ps arbitrary: t)
  case (Cons p ps)
  have "length t \<le> length (joined t (form_pair p))" by (simp add: joined_def)
  also have "\<dots> \<le> length (joined_all (joined t (form_pair p)) ps)" by (rule Cons.IH)
  finally show ?case by simp
qed simp

lemma joined_all_form_text: "ps \<noteq> [] \<Longrightarrow> joined_all t ps = joined t (form_text ps)"
proof (induction ps arbitrary: t rule: form_text.induct)
  case (3 p q ps)
  then show ?case by (simp add: joined_def form_pair_nonempty)
qed simp_all

lemma append_form_opts_joined:
  assumes "holds_text body t n" "\<forall>o1 \<in> set os. no_nul (pair_of o1)"
    "(\<forall>o1 \<in> set os. ascii_pair (pair_of o1)) \<or> length (joined_all t (map pair_of os)) + 7 \<le> n"
  shows "if os = [] \<or> length (joined_all t (map pair_of os)) < n
         then \<exists>b. append_form_opts os body = Some (Inr b) \<and> holds_text b (joined_all t (map pair_of os)) n
         else append_form_opts os body = Some (Inl (err ENOSPC))"
  using assms
proof (induction os arbitrary: body t)
  case (Cons o1 os)
  let ?t = "joined t (form_pair (pair_of o1))"
  have le: "length ?t \<le> length (joined_all ?t (map pair_of os))" by (rule joined_all_length)
  have "no_nul (opt_name o1, opt_value o1)" "pair_fits (opt_name o1, opt_value o1) ?t n"
    using Cons.prems(2,3) le unfolding pair_fits_def pair_of_def [of o1, symmetric] by auto
  then have one: "if length ?t < n then \<exists>b. append_opt body (opt_name o1) (opt_value o1) = Some (Inr b) \<and> holds_text b ?t n
       else append_opt body (opt_name o1) (opt_value o1) = Some (Inl (err ENOSPC))"
    using append_opt_text [OF Cons.prems(1), of "opt_name o1" "opt_value o1"] by (simp add: pair_of_def)
  show ?case
  proof (cases "length ?t < n")
    case True
    with one obtain b where b: "append_opt body (opt_name o1) (opt_value o1) = Some (Inr b)" "holds_text b ?t n" by auto
    from Cons.IH [OF b(2)] Cons.prems(2,3) b(1) True show ?thesis by (auto split: if_splits)
  qed (use one le in simp)
qed simp


section \<open>Reading a query string\<close>

text \<open>The reference: \<open>application/x-www-form-urlencoded\<close> as HTML has it (without the plus sign for a space, which is not written).\<close>

fun url_decode :: "string \<Rightarrow> string" where
  "url_decode [] = []"
| "url_decode (c # s) =
     (if c = CHR ''%'' \<and> 2 \<le> length s then
        (case (hex_value (s ! 0), hex_value (s ! 1)) of
           (Some a, Some b) \<Rightarrow> char_of (nat (16 * a + b)) # url_decode (drop 2 s)
         | _ \<Rightarrow> c # url_decode s)
      else c # url_decode s)"

definition decode_pair :: "string \<Rightarrow> string \<times> string" where
  "decode_pair s = (url_decode (takeWhile (\<lambda>c. c \<noteq> CHR ''='') s), url_decode (tl (dropWhile (\<lambda>c. c \<noteq> CHR ''='') s)))"

definition form_decode :: "string \<Rightarrow> (string \<times> string) list" where
  "form_decode s = map decode_pair (split_on (CHR 0x26) s)"

lemma form_hex_value_digit:
  assumes "n < 16"
  shows "hex_value (form_hex_digit u n) = Some (int n)"
proof -
  have "list_all (\<lambda>n. hex_value (form_hex_digit True n) = Some (int n) \<and> hex_value (form_hex_digit False n) = Some (int n)) [0..<16]" by code_simp
  with assms show ?thesis by (cases u) (simp_all add: list_all_iff)
qed

lemma url_decode_pct:
  "hex_value a = Some x \<Longrightarrow> hex_value b = Some y \<Longrightarrow> url_decode (CHR ''%'' # a # b # s) = char_of (nat (16 * x + y)) # url_decode s"
  by simp

lemma url_decode_escape:
  assumes "(of_char c :: nat) < 128"
  shows "url_decode (form_escape u [c] @ s) = c # url_decode s"
proof (cases "isalnum c")
  case True
  then have "c \<noteq> CHR ''%''" by (auto simp: isalnum_def is_digit_def in_range_def)
  with True show ?thesis by (simp add: form_escape_def)
next
  case False
  let ?n = "of_char c :: nat"
  have d: "hex_value (form_hex_digit u (?n div 16)) = Some (int (?n div 16))" "hex_value (form_hex_digit u (?n mod 16)) = Some (int (?n mod 16))"
    using assms by (simp_all add: form_hex_value_digit less_mult_imp_div_less)
  have "nat (16 * int a + int b) = 16 * a + b" for a b by linarith
  then have n: "char_of (nat (16 * int (?n div 16) + int (?n mod 16))) = c" by (simp only: mult_div_mod_eq char_of_char)
  have "form_escape u [c] @ s = CHR ''%'' # form_hex_digit u (?n div 16) # form_hex_digit u (?n mod 16) # s"
    using False assms by (simp add: form_escape_def hex_of_char_def Let_def)
  then show ?thesis by (simp only: url_decode_pct [OF d] n)
qed

lemma url_decode_form_escape: "ascii s \<Longrightarrow> url_decode (form_escape u s) = s"
proof (induction s)
  case (Cons c s)
  then show ?case by (simp add: form_escape_Cons [of u c s] url_decode_escape ascii_def)
qed (simp add: form_escape_def)

lemma form_hex_digit_plain:
  assumes "n < 16"
  shows "isalnum (form_hex_digit u n)"
proof -
  have "list_all (\<lambda>n. isalnum (form_hex_digit True n) \<and> isalnum (form_hex_digit False n)) [0..<16]" by code_simp
  with assms show ?thesis by (cases u) (simp_all add: list_all_iff)
qed

lemma form_escape_plain:
  assumes "c \<in> set (form_escape u s)"
  shows "isalnum c \<or> c = CHR ''%''"
proof -
  have hex: "isalnum d" if d: "d \<in> set (take 2 (hex_of_char u e))" for d e
  proof -
    have "(of_char e :: nat) < 256" by (rule nat_of_char_less_256)
    then have "of_char e div 16 < (16 :: nat)" "of_char e mod 16 < (16 :: nat)" by (simp_all add: less_mult_imp_div_less)
    with d show ?thesis by (auto simp: hex_of_char_def Let_def form_hex_digit_plain dest!: in_set_takeD split: if_splits)
  qed
  from assms show ?thesis by (auto simp: form_escape_def dest: hex split: if_splits)
qed

lemma form_escape_no_sep: "CHR 0x26 \<notin> set (form_escape u s)" "CHR ''='' \<notin> set (form_escape u s)"
  by (auto dest!: form_escape_plain simp: isalnum_def is_digit_def in_range_def)

lemma split_on_none: "d \<notin> set s \<Longrightarrow> split_on d s = [s]"
  by (induction s) auto

lemma split_on_sep: "d \<notin> set s \<Longrightarrow> split_on d (s @ d # t) = s # split_on d t"
  by (induction s) auto

lemma form_pair_no_sep: "CHR 0x26 \<notin> set (form_pair p)"
  by (simp add: form_pair_def form_escape_no_sep)

lemma split_form_text: "ps \<noteq> [] \<Longrightarrow> split_on (CHR 0x26) (form_text ps) = map form_pair ps"
  by (induction ps rule: form_text.induct) (simp_all add: split_on_none split_on_sep form_pair_no_sep)

definition field_of :: "oc_form_opt \<Rightarrow> string \<times> string" where
  "field_of o1 = (opt_name o1, case opt_value o1 of None \<Rightarrow> [] | Some x \<Rightarrow> x)"

lemma decode_form_pair: "ascii_pair (pair_of o1) \<Longrightarrow> decode_pair (form_pair (pair_of o1)) = field_of o1"
  using form_escape_no_sep(2) [of False "opt_name o1"]
  by (auto simp: decode_pair_def form_pair_def pair_of_def field_of_def ascii_pair_def takeWhile_append takeWhile_eq_all_conv
    dropWhile_append url_decode_form_escape)

lemma form_decode_text:
  "os \<noteq> [] \<Longrightarrow> \<forall>o1 \<in> set os. ascii_pair (pair_of o1) \<Longrightarrow> form_decode (form_text (map pair_of os)) = map field_of os"
  by (simp add: form_decode_def split_form_text decode_form_pair comp_def)

text \<open>
  C16 (form_body_roundtrip): The query string of a form of ASCII names and values is written completely or refused with
  \<open>ENOSPC\<close>, the latter exactly when it does not fit with its null character, and never beyond the buffer; decoding it
  gives back the names and values of the form, in order, whatever characters they have.
\<close>

theorem form_body_roundtrip:
  assumes "os \<noteq> []" "\<forall>o1 \<in> set os. no_nul (pair_of o1) \<and> ascii_pair (pair_of o1)" "c_string_of body = Some []"
  shows "(if length (form_text (map pair_of os)) < length body
          then \<exists>b. append_form_opts os body = Some (Inr b) \<and> length b = length body \<and> c_string_of b = Some (form_text (map pair_of os))
          else append_form_opts os body = Some (Inl (err ENOSPC)))
    \<and> form_decode (form_text (map pair_of os)) = map field_of os"
proof -
  have h: "holds_text body [] (length body)" using assms(3) by (simp add: holds_text_def)
  have t: "joined_all [] (map pair_of os) = form_text (map pair_of os)"
    using assms(1) by (simp add: joined_all_form_text joined_def)
  from append_form_opts_joined [OF h, of os] assms(1,2) form_decode_text [of os] show ?thesis
    unfolding t by (auto simp: holds_text_def split: if_splits)
qed

definition sample_opt :: "opt_type \<Rightarrow> string \<Rightarrow> string option \<Rightarrow> oc_form_opt" where
  "sample_opt t name val = \<lparr>opt_type = t, opt_name = name, opt_label = None, opt_value = val, flag_second_auth = False, flag_ignore = False,
     choices = []\<rparr>"

lemma sample_body: "c_string_of (replicate 64 NUL) = Some []"
  by (simp add: c_string_of_def cstr_def)

theorem form_body_roundtrip_witness:
  "\<exists>b. append_form_opts [sample_opt OC_FORM_OPT_TEXT ''username'' (Some ''me&x''), sample_opt OC_FORM_OPT_PASSWORD ''password'' (Some ''a b'')]
       (replicate 64 NUL) = Some (Inr b) \<and> c_string_of b = Some (''username=me%26x'' @ AMP @ ''password=a%20b'')"
  using form_body_roundtrip [of "[sample_opt OC_FORM_OPT_TEXT ''username'' (Some ''me&x''), sample_opt OC_FORM_OPT_PASSWORD ''password'' (Some ''a b'')]"
    "replicate 64 NUL"]
  by (auto simp: sample_opt_def pair_of_def no_nul_def ascii_pair_def ascii_def sample_body form_pair_def form_escape_def
    isalnum_def is_digit_def in_range_def hex_of_char_def form_hex_digit_def Let_def simp del: append_form_opts.simps)

section \<open>Characters beyond ASCII\<close>

definition high :: "char \<Rightarrow> bool" where
  "high c \<longleftrightarrow> 128 \<le> (of_char c :: nat)"

text \<open>The same text up to the characters beyond ASCII.\<close>

definition same_shape :: "string \<Rightarrow> string \<Rightarrow> bool" where
  "same_shape x y \<longleftrightarrow> list_all2 (\<lambda>c d. c = d \<or> high c \<and> high d) x y"

lemma high_escape:
  assumes "high c"
  shows "form_escape u [c] = [CHR ''%'', form_hex_digit u 15, form_hex_digit u 15]"
proof -
  have two: "replicate 2 a = [a, a]" for a :: char by (simp add: numeral_2_eq_2)
  have "\<not> isalnum c" using assms by (auto simp: high_def isalnum_def is_digit_def in_range_def)
  then show ?thesis using assms by (simp add: high_def form_escape_def hex_of_char_def Let_def two)
qed

lemma same_shape_escape:
  assumes "same_shape x y"
  shows "form_escape u x = form_escape u y"
  using assms unfolding same_shape_def
proof (induction rule: list_all2_induct)
  case (Cons c x d y)
  then show ?case by (auto simp: form_escape_Cons [of u c x] form_escape_Cons [of u d y] high_escape)
qed (simp add: form_escape_def)

lemma write_string_append: "write_string u (a @ b) cur = then_write (write_string u a cur) (write_string u b)"
  by (induction a arbitrary: cur) (auto simp: then_write_def split: option.splits sum.splits)

text \<open>A character beyond ASCII near the end of the body is written over it.\<close>

lemma write_high_overflow:
  assumes "wrote t n cur" "high c" "length t + 3 < n" "n < length t + 10"
  shows "write_string u [c] cur = None"
proof -
  have "\<not> isalnum c" "length (hex_of_char u c) = 8"
    using assms(2) by (auto simp: high_def isalnum_def is_digit_def in_range_def hex_of_char_length)
  with assms show ?thesis by (auto simp: wrote_def write_escaped_def store_def split: prod.splits)
qed

lemma append_opt_overflow:
  assumes "holds_text body [] n" "no_nul (name, Some (x @ [c]))" "ascii name" "ascii x" "high c"
    "length (form_pair (name, Some x)) + 3 < n" "n < length (form_pair (name, Some x)) + 10"
  shows "append_opt body name (Some (x @ [c])) = None"
proof -
  have body: "c_string_of body = Some []" using assms(1) by (simp add: holds_text_def)
  have w: "wrote [] n (0, body)" using holds_text_wrote [OF assms(1)] by simp
  have nul: "NUL \<notin> set name" "NUL \<notin> set x" using assms(2) by (simp_all add: no_nul_def)
  define r where "r = then_write (then_write (write_string False name (0, body)) (write_char (CHR ''=''))) (write_string True x)"
  have "writes ((([] @ form_escape False name) @ ''='') @ form_escape True x) n r"
    unfolding r_def
    by (intro writes_then write_string_writes w nul write_char_writes) (simp_all add: fits_def assms(3,4))
  then obtain cur where r: "r = Some (Inr cur)" "wrote (form_pair (name, Some x)) n cur"
    using assms(6) by (auto simp: writes_def form_pair_def)
  have "append_opt body name (Some (x @ [c])) = do {
      r \<leftarrow> then_write r (write_string True [c]);
      case r of Inl e \<Rightarrow> Some (Inl e) | Inr (len, body) \<Rightarrow> map_option Inr (store body len [NUL]) }"
    unfolding append_opt_def r_def body
    by (simp add: write_string_append [of True x "[c]"] then_write_def del: write_string.simps split: option.split sum.split)
  then show ?thesis using write_high_overflow [OF r(2) assms(5) assms(6,7)] by (simp add: r(1) then_write_def del: write_string.simps)
qed

text \<open>
  C40 (high_characters): Characters beyond ASCII in a value: the server cannot tell one from another, because two values that
  differ only in such characters give the same query string; and a body in which the value's last such character has less than ten places left, but more than the three
  that are checked, is written beyond its end.
\<close>

theorem high_characters:
  assumes "c_string_of body = Some []" "ascii name" "NUL \<notin> set name"
  shows "(\<forall>x y. same_shape x y \<and> NUL \<notin> set (x @ y) \<and> length (form_pair (name, Some x)) + 7 \<le> length body \<longrightarrow>
      (\<exists>b d t. append_opt body name (Some x) = Some (Inr b) \<and> append_opt body name (Some y) = Some (Inr d) \<and>
         c_string_of b = Some t \<and> c_string_of d = Some t)) \<and>
    (\<forall>z c. ascii z \<and> NUL \<notin> set z \<and> high c \<and> length (form_pair (name, Some z)) + 3 < length body \<and>
      length body < length (form_pair (name, Some z)) + 10 \<longrightarrow> append_opt body name (Some (z @ [c])) = None)"
proof (intro conjI allI impI)
  have body: "holds_text body [] (length body)" using assms(1) by (simp add: holds_text_def)
  show "\<exists>b d t. append_opt body name (Some x) = Some (Inr b) \<and> append_opt body name (Some y) = Some (Inr d) \<and>
      c_string_of b = Some t \<and> c_string_of d = Some t"
    if xy: "same_shape x y \<and> NUL \<notin> set (x @ y) \<and> length (form_pair (name, Some x)) + 7 \<le> length body" for x y
  proof -
    have t: "form_pair (name, Some y) = form_pair (name, Some x)"
      using same_shape_escape [of x y True] xy by (simp add: form_pair_def)
    show ?thesis
      using append_opt_text [OF body, of name "Some x"] append_opt_text [OF body, of name "Some y"] xy assms
      unfolding t by (auto simp: no_nul_def pair_fits_def joined_def holds_text_def)
  qed
  show "append_opt body name (Some (z @ [c])) = None"
    if "ascii z \<and> NUL \<notin> set z \<and> high c \<and> length (form_pair (name, Some z)) + 3 < length body \<and>
      length body < length (form_pair (name, Some z)) + 10" for z c
    by (rule append_opt_overflow [OF body]) (use that assms in \<open>auto simp: no_nul_def high_def\<close>)
qed

theorem high_characters_witness:
  "(\<exists>b d t. append_opt (replicate 64 NUL) ''password'' (Some [CHR 0xE9]) = Some (Inr b) \<and>
      append_opt (replicate 64 NUL) ''password'' (Some [CHR 0xE8]) = Some (Inr d) \<and> c_string_of b = Some t \<and> c_string_of d = Some t) \<and>
   append_opt (replicate 64 NUL) ''password'' (Some (replicate 46 (CHR ''a'') @ [CHR 0xE9])) = None"
proof
  have all: "c_string_of (replicate 64 NUL) = Some []" "ascii ''password''" "NUL \<notin> set ''password''"
    by (simp_all add: sample_body ascii_def)
  show "\<exists>b d t. append_opt (replicate 64 NUL) ''password'' (Some [CHR 0xE9]) = Some (Inr b) \<and>
      append_opt (replicate 64 NUL) ''password'' (Some [CHR 0xE8]) = Some (Inr d) \<and> c_string_of b = Some t \<and> c_string_of d = Some t"
    by (rule high_characters [OF all, THEN conjunct1, rule_format]) (simp add: same_shape_def high_def form_pair_def form_escape_def
      isalnum_def is_digit_def in_range_def hex_of_char_def form_hex_digit_def Let_def)
  show "append_opt (replicate 64 NUL) ''password'' (Some (replicate 46 (CHR ''a'') @ [CHR 0xE9])) = None"
    by (rule high_characters [OF all, THEN conjunct2, rule_format]) (simp add: ascii_def high_def form_pair_def form_escape_def
      isalnum_def is_digit_def in_range_def hex_of_char_def form_hex_digit_def Let_def)
qed

end
