(* ===== verification/Form_Facts.thy ===== *)
theory Form_Facts
  imports Form_Post
begin

text \<open>
  Properties of the login forms: the text of a message, the options of a form in the order they are presented, what the
  user's answer leaves in the form, the XML reply, and the result of reading an answer.
\<close>

section \<open>Messages\<close>

lemma c_string_text: "NUL \<notin> set s \<Longrightarrow> c_string (map Some s @ Some NUL # r) = Some s"
  by (induction s) auto

lemma store_eq: "length a = i \<Longrightarrow> length xs = length b \<Longrightarrow> store (a @ b @ c) i xs = Some (a @ xs @ c)"
  by (simp add: store_def)

lemma takeWhile_until: "d \<notin> set a \<Longrightarrow> takeWhile (\<lambda>c. c \<noteq> d) (a @ d # b) = a"
  by (induction a) auto

lemma dropWhile_until: "d \<notin> set a \<Longrightarrow> dropWhile (\<lambda>c. c \<noteq> d) (a @ d # b) = d # b"
  by (induction a) auto

text \<open>One parameter: the rest of the text with its null character is stored, then the parameter over it.\<close>

lemma msg_params_step:
  assumes "CHR ''%'' \<notin> set a" "NUL \<notin> set (a @ t)" "p \<noteq> []"
  shows "msg_params (Some p # ps) (map Some (a @ ''%s'' @ t @ [NUL]) @ r) 0 = do {
      buf \<leftarrow> store (map Some (a @ ''%s'' @ t @ [NUL]) @ r) (length a + length p - 1) (map Some (t @ [NUL]));
      buf \<leftarrow> store buf (length a) (map Some p);
      msg_params ps buf (length a + length p) }"
proof -
  have "c_string (map Some (a @ ''%s'' @ t @ [NUL]) @ r) = Some (a @ ''%s'' @ t)"
    using c_string_text [of "a @ ''%s'' @ t" r] assms(2) by simp
  then show ?thesis using assms(1,3) by (simp add: takeWhile_until dropWhile_until Let_def)
qed

text \<open>What that leaves: the parameter has replaced the first character of the rest, too.\<close>

lemma store_both:
  assumes "p \<noteq> []" "length p \<le> length r" "xs \<noteq> []"
  shows "\<exists>r'. Option.bind (store (A @ x # y # xs @ r) (length A + length p - 1) xs) (\<lambda>buf. store buf (length A) p) =
      Some (A @ p @ tl xs @ r')"
proof -
  let ?X = "x # y # xs @ r"
  have len: "length A + length p - 1 + length xs \<le> length (A @ ?X)" using assms(2) by simp
  have start: "take (length A + length p - 1) (A @ ?X) = A @ take (length p - 1) ?X"
    using assms(1) by (cases p) simp_all
  have l: "length (take (length p - 1) ?X) = length p - 1" using assms(2) by simp
  obtain r' where r': "store (A @ ?X) (length A + length p - 1) xs = Some (A @ take (length p - 1) ?X @ xs @ r')"
    using len start by (auto simp: store_def)
  have e: "A @ take (length p - 1) ?X @ xs @ r' = A @ (take (length p - 1) ?X @ [hd xs]) @ tl xs @ r'"
    using assms(3) by simp
  have "store (A @ take (length p - 1) ?X @ xs @ r') (length A) p = Some (A @ p @ tl xs @ r')"
    unfolding e by (rule store_eq) (use l assms(1) in \<open>cases p; simp\<close>)+
  with r' show ?thesis by auto
qed

lemma msg_params_rest:
  assumes "CHR ''%'' \<notin> set b" "NUL \<notin> set b" "length A = n"
  shows "msg_params ps (A @ map Some b @ Some NUL # r) n = Some (A @ map Some b @ Some NUL # r)"
  using assms by (cases ps) (simp_all add: c_string_text)

lemma xmlnode_msg_param:
  assumes "alloc v = (True, w)" "node_content n = a @ ''%s'' @ c # b" "xmlGetProp n ''param1'' = Some p" "p \<noteq> []"
    "CHR ''%'' \<notin> set (a @ b)" "NUL \<notin> set (a @ c # b @ p)"
  shows "xmlnode_msg v n = Some (Some (a @ p @ b), w)"
proof -
  define ps where "ps = [xmlGetProp n ''param2'']"
  define r :: memory where "r = replicate (length p + param_room (xmlGetProp n ''param2'')) None"
  define xs where "xs = map Some (c # b @ [NUL])"
  have "\<exists>r'. Option.bind (store (map Some a @ Some (CHR ''%'') # Some (CHR ''s'') # xs @ r) (length (map Some a) + length (map Some p) - 1) xs)
      (\<lambda>buf. store buf (length (map Some a)) (map Some p)) = Some (map Some a @ map Some p @ tl xs @ r')"
    by (rule store_both) (simp_all add: r_def xs_def assms(4))
  then obtain r' where r': "Option.bind (store (map Some (a @ ''%s'' @ (c # b) @ [NUL]) @ r) (length a + length p - 1) (map Some ((c # b) @ [NUL])))
      (\<lambda>buf. store buf (length a) (map Some p)) = Some (map Some a @ map Some p @ map Some b @ Some NUL # r')"
    by (auto simp: xs_def)
  have "msg_params (Some p # ps) (map Some (a @ ''%s'' @ (c # b) @ [NUL]) @ r) 0 =
      Option.bind (Option.bind (store (map Some (a @ ''%s'' @ (c # b) @ [NUL]) @ r) (length a + length p - 1) (map Some ((c # b) @ [NUL])))
        (\<lambda>buf. store buf (length a) (map Some p))) (\<lambda>buf. msg_params ps buf (length a + length p))"
    by (subst msg_params_step) (use assms in \<open>simp_all add: bind_assoc del: msg_params.simps\<close>)
  also have "\<dots> = Some (map Some (a @ p @ b) @ Some NUL # r')"
    using msg_params_rest [of b "map Some a @ map Some p" "length a + length p" ps r'] assms
    unfolding r' by (simp del: msg_params.simps)
  finally show ?thesis
    using c_string_text [of "a @ p @ b" r'] assms
    by (simp add: xmlnode_msg_def ps_def r_def param_room_def del: msg_params.simps)
qed


text \<open>A parameter at the end of the text: the null character is overwritten too.\<close>

lemma xmlnode_msg_param_last:
  assumes "alloc v = (True, w)" "node_content n = a @ ''%s''" "xmlGetProp n ''param1'' = Some p" "3 \<le> length p"
    "CHR ''%'' \<notin> set a" "NUL \<notin> set (a @ p)"
  shows "xmlnode_msg v n = None"
proof -
  define k where "k = length p + param_room (xmlGetProp n ''param2'')"
  define M where "M = map Some (a @ ''%s'' @ [] @ [NUL]) @ replicate k None"
  have p: "p \<noteq> []" using assms(4) by auto
  have k: "length p \<le> k" by (simp add: k_def)
  define A where "A = map Some a @ map Some (butlast p)"
  have two: "store M (length a + length p - 1) [Some NUL] =
      Some (take (length a + length p - 1) M @ [Some NUL] @ drop (length a + length p) M)"
    using k p by (cases p) (simp_all add: store_def M_def)
  have start: "take (length a + length p - 1) M = map Some a @ take (length p - 1) (drop (length a) M)"
    using p by (cases p) (simp_all add: M_def)
  have rest: "drop (length a + length p) M = replicate (k + 3 - length p) None"
    using assms(4) p by (simp add: M_def drop_Cons' numeral_eq_Suc)
  have l: "length (take (length p - 1) (drop (length a) M) @ [Some NUL]) = length p"
    using k p by (cases p) (simp_all add: M_def)
  have "store (map Some a @ (take (length p - 1) (drop (length a) M) @ [Some NUL]) @ replicate (k + 3 - length p) None) (length a) (map Some p) =
      Some (map Some a @ map Some p @ replicate (k + 3 - length p) None)"
    by (rule store_eq) (simp_all only: l length_map)
  then have both: "Option.bind (store M (length a + length p - 1) (map Some ([] @ [NUL]))) (\<lambda>buf. store buf (length a) (map Some p)) =
      Some (map Some a @ map Some p @ replicate (k + 3 - length p) None)"
    using two start rest by simp
  have none: "c_string (replicate (k + 3 - length p) None) = None" using k by (cases "k + 3 - length p") simp_all
  have step: "msg_params [Some p, xmlGetProp n ''param2''] M 0 =
      Option.bind (Option.bind (store M (length a + length p - 1) (map Some ([] @ [NUL]))) (\<lambda>buf. store buf (length a) (map Some p)))
        (\<lambda>buf. msg_params [xmlGetProp n ''param2''] buf (length a + length p))"
    unfolding M_def by (subst msg_params_step) (use assms p in \<open>simp_all add: bind_assoc del: msg_params.simps\<close>)
  have "msg_params [Some p, xmlGetProp n ''param2''] M 0 = None"
    unfolding step both by (simp add: none)
  then show ?thesis using assms(1-3) by (simp add: xmlnode_msg_def M_def k_def param_room_def del: msg_params.simps)
qed

lemma xmlnode_msg_plain:
  assumes "CHR ''%'' \<notin> set (node_content n)" "NUL \<notin> set (node_content n)" "node_content n \<noteq> []"
  shows "\<exists>w. xmlnode_msg v n = Some (Some (node_content n), w)"
  using msg_params_rest [of "node_content n" "[]" 0] assms c_string_text [of "node_content n"]
  by (auto simp: xmlnode_msg_def Let_def simp del: msg_params.simps split: prod.split bool.split)

text \<open>
  C33 (message_text): A message without a per cent sign is shown as the server sent it. One with a parameter loses the character
  after the parameter, because the rest of the text is moved one place too far down; with a parameter of three characters or more at its
  very end, the end of the string is lost and uninitialised memory is read.
\<close>

theorem message_text:
  assumes "NUL \<notin> set (node_content n)" "alloc v = (True, w)"
  shows "(node_content n \<noteq> [] \<and> CHR ''%'' \<notin> set (node_content n) \<longrightarrow> (\<exists>w. xmlnode_msg v n = Some (Some (node_content n), w))) \<and>
    (\<forall>a c b p. node_content n = a @ ''%s'' @ c # b \<and> CHR ''%'' \<notin> set (a @ b) \<and> xmlGetProp n ''param1'' = Some p \<and> p \<noteq> [] \<and> NUL \<notin> set p
       \<longrightarrow> xmlnode_msg v n = Some (Some (a @ p @ b), w)) \<and>
    (\<forall>a p. node_content n = a @ ''%s'' \<and> CHR ''%'' \<notin> set a \<and> xmlGetProp n ''param1'' = Some p \<and> 3 \<le> length p \<and> NUL \<notin> set p
       \<longrightarrow> xmlnode_msg v n = None)"
proof (intro conjI allI impI)
  show "\<exists>w. xmlnode_msg v n = Some (Some (node_content n), w)" if "node_content n \<noteq> [] \<and> CHR ''%'' \<notin> set (node_content n)"
    using that assms by (intro xmlnode_msg_plain) auto
  show "xmlnode_msg v n = Some (Some (a @ p @ b), w)"
    if "node_content n = a @ ''%s'' @ c # b \<and> CHR ''%'' \<notin> set (a @ b) \<and> xmlGetProp n ''param1'' = Some p \<and> p \<noteq> [] \<and> NUL \<notin> set p" for a c b p
    using that assms by (intro xmlnode_msg_param) auto
  show "xmlnode_msg v n = None"
    if "node_content n = a @ ''%s'' \<and> CHR ''%'' \<notin> set a \<and> xmlGetProp n ''param1'' = Some p \<and> 3 \<le> length p \<and> NUL \<notin> set p" for a p
    using that assms by (intro xmlnode_msg_param_last [of v w n a p]) auto
qed

definition message_node :: "string \<Rightarrow> string \<Rightarrow> xml" where
  "message_node s p = Element ''message'' [(''param1'', p)] [Text s]"

theorem message_text_witness:
  "xmlnode_msg (http_sample ()) (message_node ''Hello %s, your code'' ''Ann'') = Some (Some ''Hello Ann your code'', http_sample ()) \<and>
   xmlnode_msg (http_sample ()) (message_node ''Hello %s'' ''Ann'') = None"
proof -
  have a: "alloc (http_sample ()) = (True, http_sample ())" by (simp add: alloc_def http_sample_def quiet_world_def)
  have one: "NUL \<notin> set (node_content (message_node ''Hello %s, your code'' ''Ann''))"
    "node_content (message_node ''Hello %s, your code'' ''Ann'') = ''Hello '' @ ''%s'' @ CHR '','' # '' your code''"
    and two: "NUL \<notin> set (node_content (message_node ''Hello %s'' ''Ann''))"
    "node_content (message_node ''Hello %s'' ''Ann'') = ''Hello '' @ ''%s''"
    by (simp_all add: message_node_def)
  have p: "xmlGetProp (message_node s q) ''param1'' = Some q" for s q by (simp add: message_node_def xmlGetProp_def)
  have "xmlnode_msg (http_sample ()) (message_node ''Hello %s, your code'' ''Ann'') = Some (Some (''Hello '' @ ''Ann'' @ '' your code''), http_sample ())"
    by (rule message_text [OF one(1) a, THEN conjunct2, THEN conjunct1, rule_format, of "''Hello ''" "CHR '',''" "'' your code''" "''Ann''"])
      (simp add: one(2) p)
  moreover have "xmlnode_msg (http_sample ()) (message_node ''Hello %s'' ''Ann'') = None"
    by (rule message_text [OF two(1) a, THEN conjunct2, THEN conjunct2, rule_format, of "''Hello ''" "''Ann''"]) (simp add: two(2) p)
  ultimately show ?thesis by simp
qed

section \<open>Options\<close>

definition is_select :: "xml \<Rightarrow> bool" where
  "is_select n \<longleftrightarrow> is_element n \<and> xml_name n = ''select''"

definition select_of :: "xml \<Rightarrow> oc_form_opt" where
  "select_of n = \<lparr>opt_type = OC_FORM_OPT_SELECT, opt_name = the (xmlGetProp n ''name''), opt_label = xmlGetProp n ''label'', opt_value = None,
     flag_second_auth = False, flag_ignore = False, choices = map read_choice (filter (\<lambda>n. is_element n \<and> xml_name n = ''option'') (xml_children n))\<rparr>"

text \<open>The option of an input, for the types that are known.\<close>

definition input_of :: "xml \<Rightarrow> oc_form_opt option" where
  "input_of n =
     (if \<not> is_element n \<or> xml_name n \<noteq> ''input'' then None
      else case (xmlGetProp n ''type'', xmlGetProp n ''name'') of
        (Some t, Some name) \<Rightarrow>
          if t \<in> {''hidden'', ''text'', ''password''} then
            Some \<lparr>opt_type = (if t = ''hidden'' then OC_FORM_OPT_HIDDEN else if t = ''text'' then OC_FORM_OPT_TEXT else OC_FORM_OPT_PASSWORD),
              opt_name = name, opt_label = xmlGetProp n ''label'', opt_value = (if t = ''hidden'' then xmlGetProp n ''value'' else None),
              flag_second_auth = prop_equals n ''second-auth'' ''1'', flag_ignore = False, choices = []\<rparr>
          else None
      | _ \<Rightarrow> None)"

lemma can_gen_tokencode_fails: "can_gen_tokencode m < 0"
  by (cases m) (simp_all add: can_gen_tokencode_def can_gen_stoken_code_def can_gen_totp_code_def can_gen_hotp_code_def)

lemma alloc_rich: "w_alloc (world v) = [] \<Longrightarrow> alloc v = (True, v)"
  by (simp add: alloc_def)

lemma parse_choices_rich:
  "w_alloc (world v) = [] \<Longrightarrow>
   \<exists>sel. parse_choices ns cs s v = (Some (cs @ map read_choice (filter (\<lambda>n. is_element n \<and> xml_name n = ''option'') ns), sel), v)"
proof (induction ns arbitrary: cs s)
  case (Cons n ns)
  from Cons.IH [OF Cons.prems, of "cs @ [read_choice n]"] Cons.IH [OF Cons.prems, of cs] Cons.prems show ?case
    by (simp add: alloc_rich)
qed simp

lemma parse_auth_choice_rich:
  assumes "w_alloc (world v) = []" "xmlGetProp n ''name'' \<noteq> None"
  shows "\<exists>sel. parse_auth_choice v f n = (0, f\<lparr>authgroup_selection := sel, opts := select_of n # opts f\<rparr>, v)"
proof -
  obtain sel where "parse_choices (xml_children n) [] 0 v =
      (Some (map read_choice (filter (\<lambda>n. is_element n \<and> xml_name n = ''option'') (xml_children n)), sel), v)"
    using parse_choices_rich [OF assms(1), of "xml_children n" "[]" 0] by auto
  with assms show ?thesis
    by (cases "xmlGetProp n ''name'' = Some ''group_list''")
      (auto simp: parse_auth_choice_def alloc_rich select_of_def Let_def intro: exI [of _ sel] exI [of _ "authgroup_selection f"])
qed

lemma parse_input_rich:
  assumes "w_alloc (world v) = []" "is_element n" "xml_name n = ''input''"
  shows "parse_input v f n = (0, f\<lparr>opts := opts f @ (case input_of n of None \<Rightarrow> [] | Some o1 \<Rightarrow> [o1])\<rparr>, v)"
proof -
  have "can_gen_tokencode m \<noteq> 0" for m using can_gen_tokencode_fails [of m] by simp
  then show ?thesis using assms
    by (auto simp: parse_input_def input_of_def input_kind_def alloc_rich split: option.split)
qed

text \<open>
  C25 (form_options_order): When there is memory and every selection has a name, the options of a form are its selections,
  the last one first, and then its inputs of the known types in the order of the document; nothing else of the form becomes an
  option.
\<close>

theorem form_options_order:
  assumes "w_alloc (world v) = []" "\<forall>n \<in> set ns. is_select n \<longrightarrow> xmlGetProp n ''name'' \<noteq> None"
  shows "\<exists>f'. parse_form v f ns = (0, f', v) \<and>
    opts f' = rev (map select_of (filter is_select ns)) @ opts f @ List.map_filter input_of ns"
  using assms(2)
proof (induction ns arbitrary: f)
  case (Cons n ns)
  consider "\<not> is_element n" | "is_select n" | "is_element n" "xml_name n = ''input''"
    | "is_element n" "\<not> is_select n" "xml_name n \<noteq> ''input''" by blast
  then show ?case
  proof cases
    case 2
    obtain sel where sel: "parse_auth_choice v f n = (0, f\<lparr>authgroup_selection := sel, opts := select_of n # opts f\<rparr>, v)"
      using parse_auth_choice_rich [OF assms(1), of n f] Cons.prems 2 by auto
    from Cons.IH [of "f\<lparr>authgroup_selection := sel, opts := select_of n # opts f\<rparr>"] Cons.prems sel 2 show ?thesis
      by (auto simp: is_select_def input_of_def List.map_filter_simps)
  next
    case 3
    from Cons.IH [of "f\<lparr>opts := opts f @ (case input_of n of None \<Rightarrow> [] | Some o1 \<Rightarrow> [o1])\<rparr>"] Cons.prems 3 parse_input_rich [OF assms(1) 3]
    show ?thesis by (auto simp: is_select_def List.map_filter_simps split: option.split)
  qed (use Cons.IH [of f] Cons.prems in \<open>auto simp: is_select_def input_of_def List.map_filter_simps\<close>)
qed (simp add: List.map_filter_simps)

definition sample_form_nodes :: "xml list" where
  "sample_form_nodes =
     [Element ''input'' [(''type'', ''text''), (''name'', ''username''), (''label'', ''User:'')] [],
      Element ''input'' [(''type'', ''password''), (''name'', ''password'')] [],
      Element ''select'' [(''name'', ''group_list'')] [Element ''option'' [(''value'', ''staff'')] [Text ''Staff'']],
      Element ''input'' [(''type'', ''submit''), (''name'', ''Login'')] []]"

theorem form_options_order_witness:
  "\<exists>f'. parse_form (http_sample ()) new_form sample_form_nodes = (0, f', http_sample ()) \<and>
     map opt_name (opts f') = [''group_list'', ''username'', ''password'']"
  using form_options_order [of "http_sample ()" sample_form_nodes new_form]
  by (auto simp: sample_form_nodes_def http_sample_def quiet_world_def is_select_def is_element_def xmlGetProp_def new_form_def
    select_of_def input_of_def List.map_filter_simps)

section \<open>What an answer leaves in the form\<close>

lemma nuke_opt_values_none:
  "o1 \<in> set (opts (nuke_opt_values f)) \<Longrightarrow> opt_type o1 = OC_FORM_OPT_TEXT \<or> opt_type o1 = OC_FORM_OPT_PASSWORD \<Longrightarrow> opt_value o1 = None"
  by (auto simp: nuke_opt_values_def split: if_splits)

definition form_answered :: "'c http_info \<Rightarrow> int \<times> oc_auth_form \<times> 'c http_info \<Rightarrow> bool" where
  "form_answered v r \<longleftrightarrow> (case r of (ret, f, w) \<Rightarrow>
     (ret = OC_FORM_RESULT_CANCELLED \<or> ret < 0 \<longrightarrow>
        (\<forall>o1 \<in> set (opts f). opt_type o1 = OC_FORM_OPT_TEXT \<or> opt_type o1 = OC_FORM_OPT_PASSWORD \<longrightarrow> opt_value o1 = None)) \<and>
     (ret = OC_FORM_RESULT_NEWGROUP \<and> \<not> xmlpost v \<longrightarrow> chosen_group f = None) \<and>
     (\<exists>g c. w = upd_login (\<lambda>l. l\<lparr>authgroup := g\<rparr>) (v\<lparr>conn := c\<rparr>)))"

lemma upd_login_simps [simp]:
  "xmlpost (upd_login f v) = xmlpost v" "conn (upd_login f v) = conn v" "world (upd_login f v) = world v"
  "cookies (upd_login f v) = cookies v" "urlpath (upd_login f v) = urlpath v" "login (upd_login f v) = f (login v)"
  by (simp_all add: upd_login_def)

lemma form_answered_again:
  "form_answered (upd_login (\<lambda>l. l\<lparr>authgroup := g\<rparr>) (v\<lparr>conn := c\<rparr>)) r \<Longrightarrow> form_answered v r"
  by (auto simp: form_answered_def upd_login_def)

lemma process_auth_form_answered:
  assumes "process_auth_form (Some ask) v f = Some r"
  shows "form_answered v r"
proof -
  have "Some ask = Some ask \<longrightarrow> form_answered v r"
  proof (rule process_auth_form.raw_induct [where P = "\<lambda>h v f r. h = Some ask \<longrightarrow> form_answered v r", OF _ assms], intro impI)
    fix self h f r and v :: "'a http_info"
    assume IH: "\<And>h v f r. self h v f = Some r \<Longrightarrow> h = Some ask \<longrightarrow> form_answered v r" and h: "h = Some ask"
      and eq: "(case h of None \<Rightarrow> Some (OC_FORM_RESULT_ERR, f, v)
        | Some ask \<Rightarrow> (case select_group v f of None \<Rightarrow> None
           | Some (choice, f) \<Rightarrow> (case ask (f\<lparr>opts := map (mark_opt choice) (opts f)\<rparr>) (conn v) of
              (ret, f, c) \<Rightarrow>
                let v = v\<lparr>conn := c\<rparr>;
                    new = ret = OC_FORM_RESULT_NEWGROUP \<and> chosen_group f \<noteq> None;
                    v = (if new then upd_login (\<lambda>l. l\<lparr>authgroup := chosen_group f\<rparr>) v else v) in
                if new \<and> \<not> xmlpost v then self h v f
                else Some (ret, if ret = OC_FORM_RESULT_CANCELLED \<or> ret < 0 then nuke_opt_values f else f, v)))) = Some r"
    from eq h obtain choice e where sel: "select_group v f = Some (choice, e)" by (auto split: option.splits)
    obtain ret g c where ask: "ask (e\<lparr>opts := map (mark_opt choice) (opts e)\<rparr>) (conn v) = (ret, g, c)" by (rule prod_cases3)
    define w where "w = (if ret = OC_FORM_RESULT_NEWGROUP \<and> chosen_group g \<noteq> None then upd_login (\<lambda>l. l\<lparr>authgroup := chosen_group g\<rparr>) (v\<lparr>conn := c\<rparr>) else v\<lparr>conn := c\<rparr>)"
    have same: "v\<lparr>conn := c\<rparr> = upd_login (\<lambda>l. l\<lparr>authgroup := authgroup (login v)\<rparr>) (v\<lparr>conn := c\<rparr>)" by (simp add: upd_login_def)
    have w: "\<exists>a. w = upd_login (\<lambda>l. l\<lparr>authgroup := a\<rparr>) (v\<lparr>conn := c\<rparr>)" using same by (auto simp: w_def)
    have eq: "(if ret = OC_FORM_RESULT_NEWGROUP \<and> chosen_group g \<noteq> None \<and> \<not> xmlpost w then self h w g
        else Some (ret, if ret = OC_FORM_RESULT_CANCELLED \<or> ret < 0 then nuke_opt_values g else g, w)) = Some r"
      using eq by (auto simp: h sel ask Let_def w_def split: if_splits)
    show "form_answered v r"
    proof (cases "ret = OC_FORM_RESULT_NEWGROUP \<and> chosen_group g \<noteq> None \<and> \<not> xmlpost w")
      case True
      with eq have "form_answered w r" using IH [of h w g r] h by simp
      with w show ?thesis by (auto dest: form_answered_again)
    next
      case False
      have x: "xmlpost w = xmlpost v" using w by auto
      from False eq have r: "r = (ret, if ret = OC_FORM_RESULT_CANCELLED \<or> ret < 0 then nuke_opt_values g else g, w)" by (auto split: if_splits)
      show ?thesis using False w x unfolding r form_answered_def
        by (auto dest: nuke_opt_values_none)
    qed
  qed
  then show ?thesis by simp
qed

text \<open>
  C11 (form_answer_kept): When the user cancels a form or the application fails, no text and no password is left in the form;
  without XML posts a change of the group is handled before the form is given back, and only the group is remembered of it.
\<close>

theorem form_answer_kept:
  assumes "process_auth_form (Some ask) v f = Some (ret, f', w)"
  shows "(ret = OC_FORM_RESULT_CANCELLED \<or> ret < 0 \<longrightarrow>
      (\<forall>o1 \<in> set (opts f'). opt_type o1 = OC_FORM_OPT_TEXT \<or> opt_type o1 = OC_FORM_OPT_PASSWORD \<longrightarrow> opt_value o1 = None)) \<and>
    (ret = OC_FORM_RESULT_NEWGROUP \<and> \<not> xmlpost v \<longrightarrow> chosen_group f' = None) \<and>
    (\<exists>g c. w = upd_login (\<lambda>l. l\<lparr>authgroup := g\<rparr>) (v\<lparr>conn := c\<rparr>))"
  using process_auth_form_answered [OF assms] by (simp add: form_answered_def)

definition type_and_cancel :: "unit form_handler" where
  "type_and_cancel f c = (OC_FORM_RESULT_CANCELLED, f\<lparr>opts := map (\<lambda>o1. o1\<lparr>opt_value := Some ''secret''\<rparr>) (opts f)\<rparr>, c)"

theorem form_answer_kept_witness:
  "\<exists>f w. process_auth_form (Some type_and_cancel) (http_sample ()) (new_form\<lparr>opts := [\<lparr>opt_type = OC_FORM_OPT_PASSWORD, opt_name = ''password'',
       opt_label = None, opt_value = None, flag_second_auth = False, flag_ignore = False, choices = []\<rparr>]\<rparr>) = Some (1, f, w) \<and>
     (\<forall>o1 \<in> set (opts f). opt_type o1 = OC_FORM_OPT_PASSWORD \<longrightarrow> opt_value o1 = None)"
proof -
  let ?f = "new_form\<lparr>opts := [\<lparr>opt_type = OC_FORM_OPT_PASSWORD, opt_name = ''password'',
       opt_label = None, opt_value = None, flag_second_auth = False, flag_ignore = False, choices = []\<rparr>]\<rparr>"
  have "\<exists>f w. process_auth_form (Some type_and_cancel) (http_sample ()) ?f = Some (OC_FORM_RESULT_CANCELLED, f, w)"
    by (subst process_auth_form.simps)
      (simp add: select_group_def authgroup_opt_def is_group_list_def new_form_def type_and_cancel_def Let_def)
  then obtain f w where r: "process_auth_form (Some type_and_cancel) (http_sample ()) ?f = Some (OC_FORM_RESULT_CANCELLED, f, w)" by blast
  from form_answer_kept [OF r] r show ?thesis by blast
qed

section \<open>The XML reply\<close>

text \<open>The element that carries the answer to an option below \<open>auth\<close>.\<close>

definition auth_field :: "oc_form_opt \<Rightarrow> (string \<times> string option) option" where
  "auth_field o1 =
     (if opt_name o1 \<in> {''group_list'', ''verify_pin'', ''verify_password''} then None
      else if opt_name o1 \<in> {''answer'', ''whichpin'', ''new_password''} then Some (''password'', opt_value o1)
      else Some (opt_name o1, opt_value o1))"

definition text_node :: "string \<times> string option \<Rightarrow> xml" where
  "text_node a = Element (fst a) [] (case snd a of None \<Rightarrow> [] | Some x \<Rightarrow> [Text x])"

definition field_text :: "string \<times> string option \<Rightarrow> string" where
  "field_text a = (case snd a of None \<Rightarrow> ''<'' @ fst a @ ''/>'' | Some x \<Rightarrow> ''<'' @ fst a @ ''>'' @ text_escape x @ ''</'' @ fst a @ ''>'')"

definition groups_selected :: "oc_form_opt list \<Rightarrow> (string \<times> string option) list" where
  "groups_selected os = map (\<lambda>o1. (''group-select'', opt_value o1)) (filter (\<lambda>o1. opt_name o1 = ''group_list'') os)"

definition auth_text :: "(string \<times> string option) list \<Rightarrow> string" where
  "auth_text fs = (if fs = [] then ''<auth/>'' else ''<auth>'' @ concat (map field_text fs) @ ''</auth>'')"

definition reply_start :: "'c http_info \<Rightarrow> string" where
  "reply_start v =
     ''<config-auth client='' @ [QUOTE] @ ''vpn'' @ [QUOTE] @ '' type='' @ [QUOTE] @ ''auth-reply'' @ [QUOTE] @ ''>'' @
     concat (map node_text (xml_children (xmlpost_new_query v ''auth-reply'')))"

lemma node_text_text_node: "node_text (text_node a) = field_text a"
  by (simp add: text_node_def field_text_def split: option.split)

lemma add_opt_node_eq:
  "add_opt_node o1 (after, Element ''auth'' [] kids) =
   (after @ map text_node (groups_selected [o1]), Element ''auth'' [] (kids @ map text_node (case auth_field o1 of None \<Rightarrow> [] | Some a \<Rightarrow> [a])))"
  by (auto simp: add_opt_node_def auth_field_def groups_selected_def text_node_def xmlNewTextChild_def add_child_def)

lemma fold_opt_nodes:
  "fold add_opt_node os (after, Element ''auth'' [] kids) =
   (after @ map text_node (groups_selected os), Element ''auth'' [] (kids @ map text_node (List.map_filter auth_field os)))"
proof (induction os arbitrary: after kids)
  case (Cons o1 os)
  show ?case by (cases "auth_field o1") (simp_all add: Cons.IH add_opt_node_eq groups_selected_def List.map_filter_simps)
qed (simp add: groups_selected_def List.map_filter_simps)

lemma foldl_add_child: "foldl add_child (Element name attrs kids) ns = Element name attrs (kids @ ns)"
  by (induction ns arbitrary: kids) (simp_all add: add_child_def)

lemma xmlpost_reply_text:
  "node_text (xmlpost_reply v f) =
     reply_start v @ (case opaque_srvdata (login v) of None \<Rightarrow> [] | Some n \<Rightarrow> node_text n) @
     auth_text (List.map_filter auth_field (opts f)) @ concat (map field_text (groups_selected (opts f))) @
     (case csd_token (login v) of None \<Rightarrow> [] | Some t \<Rightarrow> field_text (''host-scan-token'', Some t)) @ ''</config-auth>''"
proof -
  let ?fs = "List.map_filter auth_field (opts f)"
  have auth: "node_text (Element ''auth'' [] (map text_node ?fs)) = auth_text ?fs"
    by (simp add: auth_text_def comp_def node_text_text_node)
  have new: "xmlpost_new_query v ''auth-reply'' =
      Element ''config-auth'' [(''client'', ''vpn''), (''type'', ''auth-reply'')] (xml_children (xmlpost_new_query v ''auth-reply''))"
    by (simp add: xmlpost_new_query_def)
  have reply: "xmlpost_reply v f = Element ''config-auth'' [(''client'', ''vpn''), (''type'', ''auth-reply'')]
      (xml_children (xmlpost_new_query v ''auth-reply'') @ (case opaque_srvdata (login v) of None \<Rightarrow> [] | Some n \<Rightarrow> [n]) @
       [Element ''auth'' [] (map text_node ?fs)] @ map text_node (groups_selected (opts f)) @
       (case csd_token (login v) of None \<Rightarrow> [] | Some t \<Rightarrow> [text_node (''host-scan-token'', Some t)]))"
    unfolding xmlpost_reply_def by (subst new)
      (simp add: fold_opt_nodes [of _ "[]" "[]", simplified] Let_def foldl_add_child add_child_def xmlNewTextChild_def text_node_def split: option.split)
  have attrs: "attr_escape ''vpn'' = ''vpn''" "attr_escape ''auth-reply'' = ''auth-reply''"
    by (simp_all add: attr_escape_def escape_attr_char_def)
  have opt: "concat (map node_text (case m of None \<Rightarrow> [] | Some n \<Rightarrow> [g n])) = (case m of None \<Rightarrow> [] | Some n \<Rightarrow> node_text (g n))" for m :: "'x option" and g
    by (cases m) simp_all
  show ?thesis
    unfolding reply reply_start_def
    by (simp add: Let_def attr_text_def attrs opt comp_def node_text_text_node auth_text_def cong: option.case_cong)
qed

lemma field_text_safe: "char_data (text_escape x) = Some x \<and> CHR ''<'' \<notin> set (text_escape x)"
  by (simp add: char_data_text_escape text_escape_no_markup)


lemma store_start: "store body 0 xs = (if length xs \<le> length body then Some (xs @ drop (length xs) body) else None)"
  by (simp add: store_def)

text \<open>
  C17 (xml_reply): The XML reply to a form: its element has what the server asked to be sent back, the answers as the text of
  elements named after the options (password for the three of the new-password dialogue, nothing for the two that repeat a value), the selected
  group and the host scan's token (\<open>csd_token\<close>, where the comment before \<open>xmlpost_new_query\<close> has \<open>csd_ticket\<close>). No character of an answer is read as markup, and a reader gets the answer back.
  The document is written with its null character when it is shorter than the buffer and refused when it is longer; when it is exactly as long, the null character
  is written behind the buffer.
\<close>

theorem xml_reply:
  "node_text (xmlpost_reply v f) =
      reply_start v @ (case opaque_srvdata (login v) of None \<Rightarrow> [] | Some n \<Rightarrow> node_text n) @
      auth_text (List.map_filter auth_field (opts f)) @ concat (map field_text (groups_selected (opts f))) @
      (case csd_token (login v) of None \<Rightarrow> [] | Some t \<Rightarrow> field_text (''host-scan-token'', Some t)) @ ''</config-auth>''
    \<and> (\<forall>x. CHR ''<'' \<notin> set (text_escape x) \<and> char_data (text_escape x) = Some x)
    \<and> xmlpost_append_form_opts v f body =
      (let doc = xmlDocDumpMemoryEnc (xmlpost_reply v f) in
       if length doc < length body then Some (Inr (doc @ NUL # drop (length doc + 1) body))
       else if length doc = length body then None
       else Some (Inl (err E2BIG)))"
  by (simp add: xmlpost_reply_text char_data_text_escape text_escape_no_markup xmlpost_append_form_opts_def xmlpost_complete_def
    store_start Let_def)

section \<open>The result of reading an answer\<close>

lemma read_form_result: "read_form v f n = (r, g, w) \<Longrightarrow> r \<le> 0"
proof -
  have choice: "parse_auth_choice v f n = (r, g, w) \<Longrightarrow> r \<le> 0" for v :: "'c http_info" and f n r g w
    by (auto simp: parse_auth_choice_def Let_def split: prod.splits bool.splits option.splits)
  have input: "parse_input v f n = (r, g, w) \<Longrightarrow> r \<le> 0" for v :: "'c http_info" and f n r g w
    by (auto simp: parse_input_def split: prod.splits bool.splits option.splits if_splits)
  have form: "parse_form v f ns = (r, g, w) \<Longrightarrow> r \<le> 0" for v :: "'c http_info" and f ns r g w
    by (induction v f ns rule: parse_form.induct) (auto split: prod.splits if_splits dest: input)
  show "read_form v f n = (r, g, w) \<Longrightarrow> r \<le> 0"
    by (auto simp: read_form_def Let_def dest: form split: prod.splits option.splits if_splits)
qed

lemma parse_auth_node_result: "parse_auth_node v f ns = Some (r, g, w) \<Longrightarrow> r \<le> 0"
proof (induction ns arbitrary: v f)
  case (Cons n ns)
  from Cons.prems show ?case by (auto simp: Let_def split: if_splits prod.splits bind_splits dest: Cons.IH)
qed simp

lemma parse_node_result: "parse_node c v f q n = Some (r, g, p, w) \<Longrightarrow> r \<le> 0"
  by (auto simp: parse_node_def split: if_splits bind_splits prod.splits dest: parse_auth_node_result)

lemma parse_nodes_result: "parse_nodes c v f q ns = Some (r, g, p, w) \<Longrightarrow> r \<le> 0"
  by (induction c v f q ns rule: parse_nodes.induct) (auto split: if_splits prod.splits bind_splits dest: parse_node_result)

text \<open>
  C26 (answer_read): Reading an answer gives 0 and a form that the server has identified, or a request for a client certificate;
  or it gives a negative number and no form. An answer that is no XML, or XML without an \<open>auth\<close> element, is never taken for
  a form.
\<close>

theorem answer_read:
  assumes "parse_xml_response read_xml want_cert v response = Some (r, form, cert_rq, w)"
  shows "(r = 0 \<and> (\<exists>f. form = Some f \<and> (auth_id f = None \<longrightarrow> cert_rq))) \<or> (r < 0 \<and> form = None)"
  using assms
  by (auto simp: parse_xml_response_def split: option.splits prod.splits bool.splits bind_splits if_splits dest: parse_nodes_result)


definition sample_answer :: "xml list" where
  "sample_answer = [Element ''auth'' [(''id'', ''success'')] []]"

lemma read_sample_answer:
  "parse_xml_response (\<lambda>_. Some sample_answer) b (http_sample c) (Some page) =
   Some (0, Some (new_form\<lparr>auth_id := Some ''success''\<rparr>), False, http_sample c)"
proof -
  have a: "alloc (http_sample c) = (True, http_sample c)" by (simp add: alloc_def http_sample_def quiet_world_def)
  show ?thesis
    by (simp add: parse_xml_response_def sample_answer_def a parse_node_def is_element_def xmlnode_is_named_def xmlnode_get_prop_def xmlGetProp_def)
qed

theorem answer_read_witness:
  "\<exists>f. parse_xml_response (\<lambda>_. Some sample_answer) False (http_sample ()) (Some ''<auth/>'') = Some (0, Some f, False, http_sample ()) \<and>
     auth_id f \<noteq> None"
  using answer_read [OF read_sample_answer [of False "()" "''<auth/>''"]] read_sample_answer [of False "()" "''<auth/>''"] by auto

end
