(* ===== verification/Obtain_Cookie.thy ===== *)
theory Obtain_Cookie
  imports Form_Query
begin

text \<open>
  Getting the session cookie (\<open>openconnect_obtain_cookie\<close> of \<open>core/http.c\<close>): probing for XML posts, the host scan, the
  forms, and what the cookies say at the end. \<open>None\<close> is a call that leaves the defined behaviour of C or does not return.
\<close>

section \<open>What the login relies on\<close>

text \<open>
  What the run of the host scan comes to: the environment variable \<open>TMPDIR\<close>, \<open>mkstemp\<close> (an error or the name of the file), the error
  of a \<open>write\<close> that is not complete, whether the child can take the user's identity and home, and the fingerprints of the server's certificate and of the client's.
\<close>

record csd_answers =
  ca_tmpdir :: "string option"
  ca_mkstemp :: "string \<Rightarrow> int + string"
  ca_write :: "int option"
  ca_identity :: bool
  ca_server_md5 :: string
  ca_cert_md5 :: string

text \<open>
  The connection, \<open>openconnect_open_https\<close>, the XML parser, the application's callbacks, \<open>got_cancel_cmd\<close> as the
  connection knows it, and SHA-1.
\<close>

record 'c login_env =
  le_transport :: "'c transport"
  le_open :: "'c opener"
  le_read_xml :: "string \<Rightarrow> xml list option"
  le_ask :: "'c form_handler option"
  le_cancelled :: "'c \<Rightarrow> bool"
  le_sha1 :: "string \<Rightarrow> bytes"
  le_write_config :: "(string \<Rightarrow> int) option"
  le_csd :: csd_answers

definition https :: "'c login_env \<Rightarrow> string \<Rightarrow> (string \<times> string) option \<Rightarrow> bool \<Rightarrow> 'c http_info \<Rightarrow> (int \<times> string option \<times> 'c http_info) option" where
  "https E = do_https_request (le_transport E) (le_open E)"

definition rq_content :: "request \<Rightarrow> (string \<times> string) option" where
  "rq_content rq = map_option (\<lambda>t. (t, cstr (rq_body rq))) (rq_type rq)"

text \<open>\<open>request_body[0] = 0\<close>\<close>

definition empty_body :: "request \<Rightarrow> request" where
  "empty_body rq = rq\<lparr>rq_body := NUL # tl (rq_body rq)\<rparr>"

section \<open>The host scan\<close>

text \<open>The program that the child becomes: its arguments, the first of which it is loaded from, and the variables set for it.\<close>

record csd_program =
  csd_argv :: "string list"
  csd_env :: "(string \<times> string) list"

definition quoted :: "string \<Rightarrow> string" where
  "quoted s = [QUOTE] @ s @ [QUOTE]"

text \<open>
  The program that runs in the child: \<open>None\<close> when its identity cannot be changed or there is no token for its environment. A
  null ticket or start address is printed as the C library prints one.
\<close>

definition printed :: "string option \<Rightarrow> string" where
  "printed s = (case s of None \<Rightarrow> ''(null)'' | Some s \<Rightarrow> s)"

definition csd_child :: "csd_answers \<Rightarrow> string \<Rightarrow> 'c http_info \<Rightarrow> csd_program option" where
  "csd_child ca fname v =
     (let l = login v in
      case csd_token l of
        Some token \<Rightarrow>
          if \<not> ca_identity ca then None
          else Some \<lparr>csd_argv = (case csd_wrapper l of None \<Rightarrow> [] | Some w \<Rightarrow> [w]) @
              [fname, ''-ticket'', quoted (printed (csd_ticket l)), ''-stub'', quoted ''0'', ''-group'',
               quoted (case authgroup l of None \<Rightarrow> [] | Some g \<Rightarrow> g),
               ''-certhash'', quoted (ca_server_md5 ca @ '':'' @ ca_cert_md5 ca),
               ''-url'', quoted (''https://'' @ hostname v @ printed (csd_starturl l)), ''-langselen''],
             csd_env = [(''CSD_TOKEN'', token), (''CSD_HOSTNAME'', hostname v)]\<rparr>
      | None \<Rightarrow> None)"

text \<open>The file that the script is put in.\<close>

definition csd_file :: "csd_answers \<Rightarrow> string option \<Rightarrow> int + string" where
  "csd_file ca buf =
     (case buf of
        None \<Rightarrow> Inr []
      | Some _ \<Rightarrow>
          (case ca_mkstemp ca (take 63 ((case ca_tmpdir ca of None \<Rightarrow> ''/tmp'' | Some d \<Rightarrow> d) @ ''/csdXXXXXX'')) of
             Inl e \<Rightarrow> Inl e
           | Inr name \<Rightarrow> (case ca_write ca of Some e \<Rightarrow> Inl e | None \<Rightarrow> Inr name)))"

text \<open>
  \<open>run_csd_script\<close>: the result, what the child runs, and the client. The script is \<open>None\<close> when none was loaded. Both
  fields of the URL and the token are used without looking whether they are there.
\<close>

definition run_csd_script :: "csd_answers \<Rightarrow> 'c http_info \<Rightarrow> string option \<Rightarrow> (int \<times> csd_program option \<times> 'c http_info) option" where
  "run_csd_script ca v buf =
     (if csd_wrapper (login v) = None \<and> buf = None then Some (err EINVAL, None, v)
      else if \<not> uid_csd_given (login v) \<and> csd_wrapper (login v) = None then Some (err EPERM, None, v)
      else case csd_file ca buf of
        Inl e \<Rightarrow> Some (e, None, v)
      | Inr fname \<Rightarrow>
          (case (csd_waiturl (login v), csd_token (login v)) of
             (Some url, Some token) \<Rightarrow>
               let child = csd_child ca fname v;
                   (ok, v) = alloc v;
                   v = v\<lparr>urlpath := (if ok then Some (if has_prefix ''/'' url then tl url else url) else None)\<rparr>;
                   (ok, v) = alloc v;
                   v = upd_login (\<lambda>l. l\<lparr>csd_stuburl := None, csd_waiturl := None, csd_scriptname := (if ok then Some fname else None)\<rparr>) v in
               Some (0, child, snd (http_add_cookie v ''sdesktop'' token))
           | _ \<Rightarrow> None))"

partial_function (option) csd_wait :: "'c login_env \<Rightarrow> 'c http_info \<Rightarrow> (int \<times> 'c http_info) option" where
  "csd_wait E v =
     (case https E ''GET'' None False v of
        None \<Rightarrow> None
      | Some (result, form_buf, v) \<Rightarrow>
          if result \<le> 0 then Some (result, v)
          else (case form_buf of
                  None \<Rightarrow> None
                | Some page \<Rightarrow> if check_response_type page \<le> 0 then Some (check_response_type page, v) else csd_wait E v))"

definition csd_stub :: "'c login_env \<Rightarrow> 'c http_info \<Rightarrow> ((int + string option) \<times> 'c http_info) option" where
  "csd_stub E v =
     (case csd_stuburl (login v) of
        None \<Rightarrow> Some (Inr None, v)
      | Some url \<Rightarrow>
          (case handle_redirect (le_transport E) (upd_login (\<lambda>l. l\<lparr>csd_stuburl := None\<rparr>) (v\<lparr>redirect_url := Some url\<rparr>)) of
             None \<Rightarrow> None
           | Some (_, v) \<Rightarrow>
               (case https E ''GET'' None False v of
                  None \<Rightarrow> None
                | Some (buflen, page, v) \<Rightarrow> if buflen \<le> 0 then Some (Inl (err EINVAL), v) else Some (Inr (Some (body_text page)), v))))"

text \<open>The host scan, and reading the form again after it: the result to leave with, or the form to go on with.\<close>

definition csd_step :: "'c login_env \<Rightarrow> request \<Rightarrow> oc_auth_form option \<Rightarrow> 'c http_info \<Rightarrow> ((int + oc_auth_form option) \<times> 'c http_info) option" where
  "csd_step E rq form v =
     (if csd_starturl (login v) = None \<or> csd_waiturl (login v) = None then Some (Inr form, v)
      else case (if urlpath v = None then (True, v) else alloc v) of
        (False, v) \<Rightarrow> Some (Inl (err ENOMEM), v)
      | (True, v) \<Rightarrow>
          let form_path = urlpath v in
          (case csd_stub E v of
             None \<Rightarrow> None
           | Some (Inl e, v) \<Rightarrow> Some (Inl e, v)
           | Some (Inr buf, v) \<Rightarrow> do {
               (result, child, v) \<leftarrow> run_csd_script (le_csd E) v buf;
               if result \<noteq> 0 then Some (Inl result, v)
               else do {
                 (result, v) \<leftarrow> csd_wait E v;
                 if result < 0 then Some (Inl result, v)
                 else do {
                   (result, page, v) \<leftarrow> https E (if xmlpost v then ''POST'' else ''GET'') (rq_content rq) True (v\<lparr>urlpath := form_path\<rparr>);
                   if result < 0 then Some (Inl result, v)
                   else do {
                     (result, form, cert_rq, v) \<leftarrow> parse_xml_response (le_read_xml E) False v page;
                     Some (if result < 0 then Inl result else Inr form, v)
                   }
                 }
               }
             }))"

section \<open>Probing for XML posts\<close>

text \<open>A form's action becomes the path of the next request.\<close>

definition follow_action :: "'c login_env \<Rightarrow> oc_auth_form \<Rightarrow> 'c http_info \<Rightarrow> 'c http_info option" where
  "follow_action E f v =
     (case form_action f of
        None \<Rightarrow> Some v
      | Some a \<Rightarrow>
          (case alloc v of (ok, v) \<Rightarrow>
             map_option snd (handle_redirect (le_transport E) (v\<lparr>redirect_url := (if ok then Some a else None)\<rparr>))))"

text \<open>Giving up XML posts: a plain request, to the host and path the login began with when they are kept.\<close>

type_synonym origin = "(string \<times> string option \<times> int) option"

definition no_xmlpost :: "'c login_env \<Rightarrow> origin \<Rightarrow> request \<Rightarrow> 'c http_info \<Rightarrow> request \<times> 'c http_info" where
  "no_xmlpost E orig rq v =
     (let v = v\<lparr>xmlpost := False\<rparr>;
          v = (case orig of None \<Rightarrow> v | Some (host, path, prt) \<Rightarrow> (openconnect_set_hostname v host)\<lparr>urlpath := path, port := prt\<rparr>) in
      (\<lparr>rq_method = ''GET'', rq_type = None, rq_body = NUL # tl (rq_body rq)\<rparr>, close_https (le_transport E) v))"

datatype round_end = Round_Return int | Round_Fail | Round_Again request bool | Round_Form "oc_auth_form option"

text \<open>One request of the probe; \<open>cert_sent\<close> says that the server had the client's certificate, if there is one.\<close>

definition cert_again :: "request \<Rightarrow> bool \<Rightarrow> 'c http_info \<Rightarrow> (round_end \<times> 'c http_info) option" where
  "cert_again rq cert_sent v =
     (let try = \<not> cert_sent \<and> client_cert (login v) in
      case xmlpost_initial_req v (rq_body rq) (\<not> try) of
        (None, v) \<Rightarrow> None
      | (Some (Inl e), v) \<Rightarrow> Some (Round_Fail, v)
      | (Some (Inr body), v) \<Rightarrow> Some (Round_Again (rq\<lparr>rq_body := body\<rparr>) (cert_sent \<or> try), v))"

definition probe_round :: "'c login_env \<Rightarrow> request \<Rightarrow> bool \<Rightarrow> 'c http_info \<Rightarrow> (round_end \<times> 'c http_info) option" where
  "probe_round E rq cert_sent v =
     do {
       (buflen, page, v) \<leftarrow> https E (rq_method rq) (rq_content rq) False v;
       if le_cancelled E (conn v) then Some (Round_Return 1, v)
       else if buflen = err EINVAL then Some (Round_Fail, v)
       else if buflen < 0 then Some (Round_Return buflen, v)
       else do {
         let v = (if cert_sent then v else close_https (le_transport E) v);
         if xmlpost v \<and> redirect_type v = REDIR_TYPE_LOCAL then Some (Round_Fail, v)
         else if redirect_type v \<noteq> REDIR_TYPE_NONE then Some (Round_Again rq cert_sent, v)
         else do {
           (result, form, cert_rq, v) \<leftarrow> parse_xml_response (le_read_xml E) True v page;
           if result < 0 then Some (Round_Fail, v)
           else if cert_rq then cert_again rq cert_sent v
           else (case form of
                   None \<Rightarrow> Some (Round_Form None, v)
                 | Some f \<Rightarrow> map_option (\<lambda>v. (Round_Form (Some f), v)) (follow_action E f v))
         }
       }
     }"

text \<open>
  The loop, with \<open>tries\<close> at its head. Going to the label \<open>fail\<close> is to be at the head with three tries. The result is what the
  function returns at once, or the form, the request and \<open>cert_sent\<close>.
\<close>

partial_function (option) probe ::
  "'c login_env \<Rightarrow> nat \<Rightarrow> origin \<Rightarrow> request \<Rightarrow> bool \<Rightarrow> 'c http_info \<Rightarrow> ((int + oc_auth_form option \<times> request \<times> bool) \<times> 'c http_info) option" where
  "probe E tries orig rq cert_sent v =
     (if tries = 3 then
        (if \<not> xmlpost v then Some (Inl (err EIO), v)
         else case no_xmlpost E orig rq v of (rq, v) \<Rightarrow> probe E 0 None rq cert_sent v)
      else case probe_round E rq cert_sent v of
        None \<Rightarrow> None
      | Some (Round_Return r, v) \<Rightarrow> Some (Inl r, v)
      | Some (Round_Fail, v) \<Rightarrow> probe E 3 orig rq cert_sent v
      | Some (Round_Again rq cert_sent, v) \<Rightarrow> probe E (tries + 1) orig rq cert_sent v
      | Some (Round_Form form, v) \<Rightarrow> Some (Inr (form, rq, cert_sent), v))"

section \<open>The forms\<close>

datatype forms_end = Forms_Out int | Forms_Logged_In | Forms_New_Group request

partial_function (option) login_forms :: "'c login_env \<Rightarrow> oc_auth_form option \<Rightarrow> request \<Rightarrow> 'c http_info \<Rightarrow> (forms_end \<times> 'c http_info) option" where
  "login_forms E form rq v =
     (case form of
        None \<Rightarrow> None
      | Some f \<Rightarrow>
          (case handle_auth_form (le_ask E) v f (empty_body rq) of
             None \<Rightarrow> None
           | Some (result, f, rq, v) \<Rightarrow>
               if result < 0 \<or> result = OC_FORM_RESULT_CANCELLED then Some (Forms_Out result, v)
               else if result = OC_FORM_RESULT_LOGGEDIN then Some (Forms_Logged_In, v)
               else if result = OC_FORM_RESULT_NEWGROUP then Some (Forms_New_Group rq, v)
               else (case https E (rq_method rq) (rq_content rq) True v of
                       None \<Rightarrow> None
                     | Some (result, page, v) \<Rightarrow>
                         if result < 0 then Some (Forms_Out result, v)
                         else (case parse_xml_response (le_read_xml E) False v page of
                                 None \<Rightarrow> None
                               | Some (result, form, _, v) \<Rightarrow>
                                   if result < 0 then Some (Forms_Out result, v)
                                   else (case form of
                                           None \<Rightarrow> None
                                         | Some f \<Rightarrow>
                                             (case follow_action E f v of
                                                None \<Rightarrow> None
                                              | Some v \<Rightarrow> login_forms E (Some f) rq v))))))"

section \<open>The cookies\<close>

text \<open>
  The parts of the \<open>webvpnc\<close> cookie that are looked at: the last one of each kind.
\<close>

definition last_part :: "string \<Rightarrow> string list \<Rightarrow> string option" where
  "last_part tag toks = map_option (drop (length tag)) (find (has_prefix tag) (rev toks))"

text \<open>
  \<open>webvpnc\<close> is cut up in the cookie jar itself. Its first separator is only passed when it is not at the start: the loop
  does not end otherwise.
\<close>

definition config_cookie :: "string \<Rightarrow> 'c http_info \<Rightarrow> (bool \<times> string \<times> 'c http_info) option" where
  "config_cookie val v =
     (if has_prefix [CHR 0x26] val then None
      else let toks = split_on (CHR 0x26) val; kept = hd toks in
        case (last_part ''bu:'' toks, last_part ''fu:'' toks, last_part ''fh:'' toks) of
          (Some bu, Some fu, Some sha) \<Rightarrow>
            (case alloc v of
               (False, v) \<Rightarrow> Some (False, kept, v)
             | (True, v) \<Rightarrow>
                 (case alloc v of (ok, v) \<Rightarrow>
                    Some (True, kept, upd_login (\<lambda>l. l\<lparr>profile_url := Some (bu @ fu), profile_sha1 := (if ok then Some sha else None)\<rparr>) v)))
        | _ \<Rightarrow> Some (True, kept, v))"

text \<open>\<open>False\<close> when there is no memory; the cookies as they are left.\<close>

fun login_cookies :: "bool \<Rightarrow> jar \<Rightarrow> 'c http_info \<Rightarrow> (bool \<times> jar \<times> 'c http_info) option" where
  "login_cookies config [] v = Some (True, [], v)"
| "login_cookies config ((n, x) # jar) v =
     (if n = ''webvpn'' then
        (case alloc v of (kept, v) \<Rightarrow>
           map_option (\<lambda>(ok, jar, v). (ok, (n, x) # jar, v))
             (login_cookies config jar (upd_login (\<lambda>l. l\<lparr>cookie := (if kept then Some x else None)\<rparr>) v)))
      else if config \<and> n = ''webvpnc'' then
        (case config_cookie x v of
           None \<Rightarrow> None
         | Some (False, x, v) \<Rightarrow> Some (False, (n, x) # jar, v)
         | Some (True, x, v) \<Rightarrow> map_option (\<lambda>(ok, jar, v). (ok, (n, x) # jar, v)) (login_cookies config jar v))
      else map_option (\<lambda>(ok, jar, v). (ok, (n, x) # jar, v)) (login_cookies config jar v))"

definition login_finish :: "'c login_env \<Rightarrow> 'c http_info \<Rightarrow> (int \<times> 'c http_info) option" where
  "login_finish E v =
     do {
       (ok, jar, v) \<leftarrow> login_cookies (le_write_config E \<noteq> None) (cookies v) v;
       let v = v\<lparr>cookies := jar\<rparr>;
       if \<not> ok then Some (err ENOMEM, v)
       else map_option (\<lambda>(_, v). (0, v)) (fetch_config (le_transport E) (le_open E) (le_sha1 E) (le_write_config E) v)
     }"

section \<open>The login\<close>

text \<open>The end of the function (\<open>out\<close>): the script's file is removed.\<close>

definition login_out :: "'c http_info \<Rightarrow> 'c http_info" where
  "login_out v = upd_login (\<lambda>l. l\<lparr>csd_scriptname := None\<rparr>) v"

text \<open>
  From the label \<open>newgroup\<close>, or from \<open>no_xmlpost\<close> when \<open>newgroup\<close> is false. The errors of the probe are returned
  without passing \<open>out\<close>.
\<close>

definition login_start ::
  "'c login_env \<Rightarrow> bool \<Rightarrow> bool \<Rightarrow> request \<Rightarrow> 'c http_info \<Rightarrow> ((int + oc_auth_form option \<times> request \<times> bool) \<times> 'c http_info) option" where
  "login_start E newgroup cert_sent rq v =
     (if \<not> newgroup then (case no_xmlpost E None rq v of (rq, v) \<Rightarrow> probe E 0 None rq cert_sent v)
      else case xmlpost_initial_req v (rq_body rq) False of
          (None, v) \<Rightarrow> None
        | (Some (Inl e), v) \<Rightarrow> Some (Inl e, v)
        | (Some (Inr body), v) \<Rightarrow>
            (case alloc v of (host_kept, v) \<Rightarrow>
               case (if urlpath v = None then (True, v) else alloc v) of (path_kept, v) \<Rightarrow>
                 let orig = (if host_kept then Some (hostname v, if path_kept then urlpath v else None, port v) else None) in
                 probe E 0 orig (rq\<lparr>rq_body := body\<rparr>) cert_sent v))"

partial_function (option) login_rounds :: "'c login_env \<Rightarrow> bool \<Rightarrow> bool \<Rightarrow> request \<Rightarrow> 'c http_info \<Rightarrow> (int \<times> 'c http_info) option" where
  "login_rounds E newgroup cert_sent rq v =
     (case login_start E newgroup cert_sent rq v of
        None \<Rightarrow> None
      | Some (Inl r, v) \<Rightarrow> Some (r, v)
      | Some (Inr (form, rq, cert_sent), v) \<Rightarrow>
          (case csd_step E rq form v of
             None \<Rightarrow> None
           | Some (Inl e, v) \<Rightarrow> Some (e, login_out v)
           | Some (Inr form, v) \<Rightarrow>
               (case login_forms E form rq v of
                  None \<Rightarrow> None
                | Some (Forms_Out r, v) \<Rightarrow> Some (r, login_out v)
                | Some (Forms_New_Group rq, v) \<Rightarrow> login_rounds E True cert_sent rq v
                | Some (Forms_Logged_In, v) \<Rightarrow> map_option (\<lambda>(r, v). (r, login_out v)) (login_finish E v))))"

text \<open>\<open>request_body\<close> has 2048 bytes; what they hold before the first one is written does not matter.\<close>

definition first_request :: request where
  "first_request = \<lparr>rq_method = ''POST'', rq_type = Some ''application/x-www-form-urlencoded'', rq_body = replicate 2048 NUL\<rparr>"

definition openconnect_obtain_cookie :: "'c login_env \<Rightarrow> 'c http_info \<Rightarrow> (int \<times> 'c http_info) option" where
  "openconnect_obtain_cookie E v =
     (if mode (login v) = OC_TOKEN_MODE_STOKEN then Some (prepare_stoken, v)
      else login_rounds E (xmlpost v) (\<not> client_cert (login v)) first_request v)"

end
