(* ===== verification/Login_Facts.thy ===== *)
theory Login_Facts
  imports Obtain_Cookie Form_Facts Http_Facts
begin

text \<open>
  Properties of the login: the host scan runs nothing without consent, the probe comes to an end, and the session cookie is that of
  the cookie jar.
\<close>

section \<open>What a request leaves alone\<close>

text \<open>A property of the client that survives the answer to a request, the writing of the request and a redirect.\<close>

locale request_invariant = client_invariant I no_cb T for I :: "'c http_info \<Rightarrow> bool" and T +
  assumes write_inv: "I v \<Longrightarrow> tr_write T buf (conn v) = Some (i, c) \<Longrightarrow> I (v\<lparr>conn := c\<rparr>)"
    and type_inv: "I v \<Longrightarrow> I (v\<lparr>redirect_type := t\<rparr>)"
    and moved_inv: "I v \<Longrightarrow> handle_redirect T v = Some (r, w) \<Longrightarrow> I w"
begin

lemma send_inv:
  assumes "https_send T op buf v = Some (r, w)" "I v" "\<And>u s w. op u = Some (s, w) \<Longrightarrow> I u \<Longrightarrow> I w"
  shows "I w"
proof -
  have "T = T \<longrightarrow> op = op \<longrightarrow> I v \<longrightarrow> I (snd (r, w))"
  proof (rule https_send.raw_induct [where P = "\<lambda>U o' _ v s. U = T \<longrightarrow> o' = op \<longrightarrow> I v \<longrightarrow> I (snd s)", OF _ assms(1)], intro impI)
    fix f U o' buf v s
    assume IH: "\<And>U o' buf v s. f U o' buf v = Some s \<Longrightarrow> U = T \<longrightarrow> o' = op \<longrightarrow> I v \<longrightarrow> I (snd s)"
      and U: "U = T" "o' = op" and v: "I v"
      and eq: "(let rq_retry = tr_connected U (conn v) in
      case (if rq_retry then Some (0, v) else o' v) of None \<Rightarrow> None
      | Some (result, v) \<Rightarrow>
          if result \<noteq> 0 then Some (Inl result, v)
          else (case tr_write U buf (conn v) of None \<Rightarrow> None
                | Some (result, c) \<Rightarrow>
                    let v = v\<lparr>conn := c\<rparr> in
                    if rq_retry \<and> result < 0 then f U o' buf (close_https U v)
                    else Some (if result < 0 then Inl result else Inr (), v))) = Some s"
    obtain result u where o': "(if tr_connected T (conn v) then Some (0, v) else op v) = Some (result, u)"
      using eq U by (cases "if tr_connected T (conn v) then Some (0, v) else op v") (auto simp: Let_def)
    then have u: "I u" using assms(3) v by (auto split: if_splits)
    have c: "I (u\<lparr>conn := c\<rparr>)" "I (close_https T (u\<lparr>conn := c\<rparr>))" if "tr_write T buf (conn u) = Some (i, c)" for i c
      using write_inv [OF u that] close_inv by auto
    show "I (snd s)"
      using eq [unfolded Let_def U o' option.case prod.case] u c
      by (auto split: option.splits if_splits dest!: IH)
  qed
  then show ?thesis using assms(2) by simp
qed

lemma request_inv:
  assumes "https_request v meth body = (h, w)" "I v"
  shows "I w"
proof -
  have "w = snd (alloc v)" using assms(1) by (auto simp: https_request_def new_header_def Let_def split: prod.splits)
  then show ?thesis using alloc_inv [OF assms(2)] by simp
qed

lemma do_request_inv:
  assumes "do_https_request T op meth body fetch_redirect v = Some r" "I v" "\<And>u s w. op u = Some (s, w) \<Longrightarrow> I u \<Longrightarrow> I w"
  shows "I (snd (snd r))"
proof -
  have "T = T \<longrightarrow> op = op \<longrightarrow> I v \<longrightarrow> I (snd (snd r))"
  proof (rule do_https_request.raw_induct
      [where P = "\<lambda>U o' _ _ _ v s. U = T \<longrightarrow> o' = op \<longrightarrow> I v \<longrightarrow> I (snd (snd s))", OF _ assms(1)], intro impI)
    fix f U o' meth body fr v s
    assume IH: "\<And>U o' meth body fr v s. f U o' meth body fr v = Some s \<Longrightarrow> U = T \<longrightarrow> o' = op \<longrightarrow> I v \<longrightarrow> I (snd (snd s))"
      and U: "U = T" "o' = op" and v: "I v"
      and eq: "(case https_request (v\<lparr>redirect_type := REDIR_TYPE_NONE\<rparr>) meth body of (h, v) \<Rightarrow>
          (case h of None \<Rightarrow> None | Some buf \<Rightarrow>
               (case buf_error buf of Some e \<Rightarrow> Some (err e, None, v)
                | None \<Rightarrow>
                    (case https_send U o' (put_written h) v of None \<Rightarrow> None
                     | Some (Inl e, v) \<Rightarrow> Some (e, None, v)
                     | Some (Inr _, v) \<Rightarrow>
                         (case process_http_response U False no_cb v of None \<Rightarrow> None
                          | Some (Inl e, v) \<Rightarrow> Some (e, None, v)
                          | Some (Inr (buflen, result, form), v) \<Rightarrow>
                              if result \<noteq> 200 \<and> redirect_url v \<noteq> None then
                                (case handle_redirect U v of None \<Rightarrow> None
                                 | Some (r, v) \<Rightarrow>
                                     if r \<noteq> 0 then Some (r, None, v)
                                     else if \<not> fr then Some (0, form, v)
                                     else f U o' meth body fr v)
                              else if form = None \<or> result \<noteq> 200 then Some (err EINVAL, None, v)
                              else Some (buflen, form, v)))))) = Some s"
    obtain h u where hu: "https_request (v\<lparr>redirect_type := REDIR_TYPE_NONE\<rparr>) meth body = (h, u)" by fastforce
    have u: "I u" by (rule request_inv [OF hu]) (rule type_inv [OF v])
    have send: "I y" if "https_send T op b u = Some (x, y)" for b x y
      using send_inv [OF that u] assms(3) by blast
    have answer: "I y" if "process_http_response T False no_cb x = Some (z, y)" "I x" for x y z
      using response_inv [OF that] .
    have moved: "I y" if "https_send T op b u = Some (a, x)" "process_http_response T False no_cb x = Some (c, z)"
        "handle_redirect T z = Some (d, y)" for a b c d x y z
      using moved_inv [OF _ that(3)] answer [OF that(2)] send [OF that(1)] by blast
    show "I (snd (snd s))"
      using eq [unfolded hu prod.case U] u
      by (auto split: option.splits sum.splits prod.splits if_splits dest!: IH dest: send answer moved)
  qed
  then show ?thesis using assms(2) by simp
qed

end

definition same_login :: "bool \<Rightarrow> login_state \<Rightarrow> 'c http_info \<Rightarrow> bool" where
  "same_login b l v \<longleftrightarrow> xmlpost v = b \<and> login v = l"

lemma alloc_same_login: "same_login b l (snd (alloc v)) = same_login b l v"
  by (auto simp: same_login_def alloc_def upd_world_def split: list.split)

lemma redirect_same_login:
  assumes "handle_redirect T v = Some (r, w)" "same_login b l v"
  shows "same_login b l w"
proof -
  have a: "xmlpost (snd (alloc v)) = xmlpost v" "login (snd (alloc v)) = login v" for v :: "'c http_info"
    by (auto simp: alloc_def upd_world_def split: list.split)
  show ?thesis using assms
    by (auto simp: handle_redirect_def redirect_https_def redirect_relative_def Let_def case_prod_beta same_login_def
        openconnect_set_hostname_def clear_cookies_def close_https_def a
        split: option.splits if_splits sum.splits prod.splits bool.splits)
qed

interpretation asked_login: request_invariant "same_login b l" T for b l T
  by unfold_locales (auto simp: same_login_def no_cb_def upd_world_def close_https_def
    dest!: redirect_same_login [of T _ _ _ b l, unfolded same_login_def])


section \<open>The host scan needs consent\<close>

text \<open>
  C5 (csd_consent): A program of the server's host scan is only run when the user has agreed to it, by naming a user to run it
  as or a wrapper; with a wrapper it is the wrapper that is run. Without either, the login is refused and the client is as before.
\<close>

theorem csd_consent:
  assumes "run_csd_script ca v buf = Some (r, child, w)"
  shows "(child \<noteq> None \<longrightarrow> uid_csd_given (login v) \<or> csd_wrapper (login v) \<noteq> None) \<and>
    (\<forall>p wrapper. child = Some p \<and> csd_wrapper (login v) = Some wrapper \<longrightarrow> hd (csd_argv p) = wrapper) \<and>
    (\<not> uid_csd_given (login v) \<and> csd_wrapper (login v) = None \<longrightarrow> r < 0 \<and> w = v)"
  using assms
  by (auto simp: run_csd_script_def csd_child_def Let_def split: if_splits sum.splits option.splits prod.splits)

definition scanned :: "unit http_info" where
  "scanned = upd_login (\<lambda>l. l\<lparr>csd_token := Some ''t'', csd_ticket := Some ''k'', csd_starturl := Some ''/start'', csd_waiturl := Some ''/wait'',
     csd_wrapper := Some ''/usr/bin/wrapper''\<rparr>) (http_sample ())"

definition csd_sample :: csd_answers where
  "csd_sample = \<lparr>ca_tmpdir = None, ca_mkstemp = Inr, ca_write = None, ca_identity = True, ca_server_md5 = ''aa'', ca_cert_md5 = ''bb''\<rparr>"

theorem csd_consent_witness:
  "\<exists>r p w. run_csd_script csd_sample scanned None = Some (r, Some p, w) \<and> hd (csd_argv p) = ''/usr/bin/wrapper''"
proof -
  have "\<exists>r p w. run_csd_script csd_sample scanned None = Some (r, Some p, w)"
    by (auto simp: run_csd_script_def csd_child_def csd_file_def scanned_def csd_sample_def upd_login_def Let_def split: prod.split)
  then obtain r p w where r: "run_csd_script csd_sample scanned None = Some (r, Some p, w)" by blast
  from csd_consent [OF r] have "hd (csd_argv p) = ''/usr/bin/wrapper''"
    by (simp add: scanned_def upd_login_def)
  with r show ?thesis by blast
qed

section \<open>The probe comes to an end\<close>

text \<open>The opener of the connection does not change the login's data.\<close>

definition open_keeps :: "'c login_env \<Rightarrow> bool" where
  "open_keeps E \<longleftrightarrow> (\<forall>u s w. le_open E u = Some (s, w) \<longrightarrow> login w = login u \<and> xmlpost w = xmlpost u)"

lemma https_same_login:
  assumes "https E meth body fr v = Some (r, page, w)" "open_keeps E"
  shows "xmlpost w = xmlpost v" "login w = login v"
  using asked_login.do_request_inv [of "le_transport E" "le_open E" meth body fr v "(r, page, w)" "xmlpost v" "login v"] assms
  by (auto simp: https_def same_login_def open_keeps_def)

lemma alloc_xmlpost: "xmlpost (snd (alloc v)) = xmlpost v"
  by (auto simp: alloc_def upd_world_def split: list.split)

lemma alloc_eq_xmlpost: "alloc v = (b, w) \<Longrightarrow> xmlpost w = xmlpost v"
  using alloc_xmlpost [of v] by simp

lemma get_text_xmlpost: "xmlnode_get_text v n name var = Some (s, w) \<Longrightarrow> xmlpost w = xmlpost v"
  by (auto simp: xmlnode_get_text_def xmlnode_msg_def Let_def dest: alloc_eq_xmlpost split: if_splits option.splits prod.splits bool.splits bind_splits)

lemma parse_choices_xmlpost: "parse_choices ns cs s v = (r, w) \<Longrightarrow> xmlpost w = xmlpost v"
  by (induction ns cs s v rule: parse_choices.induct) (auto dest: alloc_eq_xmlpost split: if_splits prod.splits bool.splits)

lemma parse_auth_choice_xmlpost: "parse_auth_choice v f n = (r, g, w) \<Longrightarrow> xmlpost w = xmlpost v"
  by (auto simp: parse_auth_choice_def Let_def dest!: alloc_eq_xmlpost parse_choices_xmlpost split: prod.splits bool.splits option.splits)

lemma parse_input_xmlpost: "parse_input v f n = (r, g, w) \<Longrightarrow> xmlpost w = xmlpost v"
  by (auto simp: parse_input_def Let_def dest!: alloc_eq_xmlpost split: prod.splits bool.splits option.splits if_splits)

lemma parse_form_xmlpost: "parse_form v f ns = (r, g, w) \<Longrightarrow> xmlpost w = xmlpost v"
  by (induction v f ns rule: parse_form.induct) (auto dest: parse_auth_choice_xmlpost parse_input_xmlpost split: prod.splits if_splits)

lemma read_form_xmlpost: "read_form v f n = (r, g, w) \<Longrightarrow> xmlpost w = xmlpost v"
  by (auto simp: read_form_def Let_def dest!: alloc_eq_xmlpost parse_form_xmlpost split: prod.splits option.splits if_splits)

lemma csd_urls_xmlpost: "csd_urls n v = Some w \<Longrightarrow> xmlpost w = xmlpost v"
  by (auto simp: csd_urls_def dest: alloc_eq_xmlpost split: if_splits option.splits prod.splits)

lemma parse_auth_node_xmlpost: "parse_auth_node v f ns = Some (r, g, w) \<Longrightarrow> xmlpost w = xmlpost v"
proof (induction ns arbitrary: v f)
  case (Cons n ns)
  from Cons.prems show ?case
    by (auto simp: Let_def csd_tokens_def split: if_splits prod.splits bind_splits
      dest!: Cons.IH get_text_xmlpost read_form_xmlpost csd_urls_xmlpost)
qed simp

lemma host_scan_xmlpost: "host_scan_nodes v ns = Some w \<Longrightarrow> xmlpost w = xmlpost v"
proof (induction ns arbitrary: v)
  case (Cons n ns)
  from Cons.prems show ?case by (auto simp: Let_def split: if_splits prod.splits bind_splits dest!: Cons.IH get_text_xmlpost)
qed simp

lemma profile_xmlpost: "profile_nodes v ns = Some w \<Longrightarrow> xmlpost w = xmlpost v"
proof (induction ns arbitrary: v)
  case (Cons n ns)
  from Cons.prems show ?case by (auto simp: Let_def split: if_splits prod.splits bind_splits dest!: Cons.IH get_text_xmlpost)
qed simp

lemma parse_config_xmlpost: "parse_config_node v ns = Some w \<Longrightarrow> xmlpost w = xmlpost v"
proof (induction ns arbitrary: v)
  case (Cons n ns)
  from Cons.prems show ?case
    by (auto simp: parse_profile_node_def split: if_splits bind_splits option.splits dest!: Cons.IH profile_xmlpost)
qed simp

lemma parse_node_xmlpost: "parse_node c v f q n = Some (r, g, p, w) \<Longrightarrow> xmlpost w = xmlpost v"
  by (auto simp: parse_node_def parse_host_scan_node_def Let_def split: if_splits prod.splits bind_splits
    dest!: parse_auth_node_xmlpost host_scan_xmlpost parse_config_xmlpost get_text_xmlpost)

lemma parse_nodes_xmlpost: "parse_nodes c v f q ns = Some (r, g, p, w) \<Longrightarrow> xmlpost w = xmlpost v"
  by (induction c v f q ns rule: parse_nodes.induct) (auto split: if_splits prod.splits bind_splits dest: parse_node_xmlpost)

lemma parse_xml_response_xmlpost: "parse_xml_response rx c v response = Some (r, form, q, w) \<Longrightarrow> xmlpost w = xmlpost v"
  by (auto simp: parse_xml_response_def dest!: alloc_eq_xmlpost parse_nodes_xmlpost
    split: option.splits prod.splits bool.splits bind_splits if_splits)

lemma initial_req_xmlpost: "xmlpost_initial_req v body c = (r, w) \<Longrightarrow> xmlpost w = xmlpost v"
  by (auto simp: xmlpost_initial_req_def Let_def dest: alloc_eq_xmlpost split: prod.splits)

lemma follow_action_xmlpost:
  assumes "follow_action E f v = Some w"
  shows "xmlpost w = xmlpost v"
proof (cases "form_action f")
  case (Some a)
  obtain ok u where u: "alloc v = (ok, u)" by fastforce
  with assms Some obtain r where "handle_redirect (le_transport E) (u\<lparr>redirect_url := (if ok then Some a else None)\<rparr>) = Some (r, w)"
    by (auto simp: follow_action_def)
  from redirect_same_login [OF this, of "xmlpost v" "login u"] alloc_eq_xmlpost [OF u] show ?thesis by (simp add: same_login_def)
qed (use assms in \<open>simp add: follow_action_def\<close>)

lemma probe_round_xmlpost:
  assumes "probe_round E rq c v = Some (e, w)" "open_keeps E"
  shows "xmlpost w = xmlpost v"
proof -
  have x: "xmlpost w = xmlpost v" if "https E m b fr v = Some (r, page, w)" for m b fr v r page w
    using https_same_login [OF that assms(2)] by simp
  have close: "xmlpost (if c then u else close_https T u) = xmlpost u" "redirect_type (if c then u else close_https T u) = redirect_type u" for T u
    by (simp_all add: close_https_def)
  show ?thesis using assms(1)
    by (auto simp: probe_round_def cert_again_def Let_def close
      split: if_splits bind_splits prod.splits option.splits sum.splits
      dest!: x parse_xml_response_xmlpost initial_req_xmlpost follow_action_xmlpost)
      (simp_all add: close_https_def)
qed

lemma no_xmlpost_off: "no_xmlpost E orig rq v = (r, w) \<Longrightarrow> \<not> xmlpost w"
  by (auto simp: no_xmlpost_def close_https_def openconnect_set_hostname_def Let_def split: option.splits prod.splits)

text \<open>The loop of the probe gone through at most \<open>n\<close> times, and \<open>x\<close> when that is not enough.\<close>

fun probe_upto ::
  "((int + oc_auth_form option \<times> request \<times> bool) \<times> 'c http_info) option \<Rightarrow> nat \<Rightarrow>
   'c login_env \<Rightarrow> nat \<Rightarrow> origin \<Rightarrow> request \<Rightarrow> bool \<Rightarrow> 'c http_info \<Rightarrow> ((int + oc_auth_form option \<times> request \<times> bool) \<times> 'c http_info) option" where
  "probe_upto x 0 E tries orig rq cert_sent v = x"
| "probe_upto x (Suc n) E tries orig rq cert_sent v =
     (if tries = 3 then
        (if \<not> xmlpost v then Some (Inl (err EIO), v)
         else case no_xmlpost E orig rq v of (rq, v) \<Rightarrow> probe_upto x n E 0 None rq cert_sent v)
      else case probe_round E rq cert_sent v of
        None \<Rightarrow> None
      | Some (Round_Return r, v) \<Rightarrow> Some (Inl r, v)
      | Some (Round_Fail, v) \<Rightarrow> probe_upto x n E 3 orig rq cert_sent v
      | Some (Round_Again rq cert_sent, v) \<Rightarrow> probe_upto x n E (tries + 1) orig rq cert_sent v
      | Some (Round_Form form, v) \<Rightarrow> Some (Inr (form, rq, cert_sent), v))"

lemma probe_eq_upto:
  assumes "open_keeps E" "tries \<le> 3" "4 - tries + (if xmlpost v then 4 else 0) \<le> n"
  shows "probe E tries orig rq cert_sent v = probe_upto x n E tries orig rq cert_sent v"
  using assms(2,3)
proof (induction n arbitrary: tries orig rq cert_sent v)
  case (Suc n)
  show ?case
  proof (cases "tries = 3")
    case True
    then show ?thesis using Suc
      by (subst probe.simps) (auto split: prod.split dest!: no_xmlpost_off intro!: Suc.IH)
  next
    case False
    have keeps: "xmlpost w = xmlpost v" if "probe_round E rq cert_sent v = Some (e, w)" for e w
      using probe_round_xmlpost [OF that assms(1)] .
    show ?thesis using Suc.prems False
      by (subst probe.simps) (auto split: option.split round_end.split prod.split dest: keeps intro!: Suc.IH)
  qed
qed simp

text \<open>
  C12 (probe_bounded): Looking for a form goes through its loop at most eight times, with at most six requests to the server,
  whatever the server answers: three rounds with XML posts and three without. (The outcome does not depend on what is given for
  more rounds than that.)
\<close>

theorem probe_bounded:
  assumes "open_keeps E"
  shows "probe E 0 orig rq cert_sent v = probe_upto x 8 E 0 orig rq cert_sent v"
  by (rule probe_eq_upto [OF assms]) simp_all

text \<open>A client whose jar has a session cookie, and a connection on which a page comes.\<close>

definition jar_sample :: "'c \<Rightarrow> 'c http_info" where
  "jar_sample c = (http_sample c)\<lparr>cookies := [(''webvpn'', ''c0ffee'')]\<rparr>"

lemma jar_fields:
  "w_mem (world (jar_sample c)) = (\<lambda>_. True)" "w_alloc (world (jar_sample c)) = []" "\<not> no_http_keepalive (jar_sample c)"
  "(jar_sample c)\<lparr>conn := d\<rparr> = jar_sample d"
  by (simp_all add: jar_sample_def http_sample_def quiet_world_def)

lemma jar_get: "\<exists>h. https_request (jar_sample c) ''GET'' None = (h, jar_sample c) \<and> room (jar_sample c) h 0"
proof -
  let ?v = "jar_sample c"
  have nh: "new_header ?v = (Some (buf_alloc True), ?v)" by (simp add: new_header_def alloc_def jar_fields)
  have c: "cookies ?v = [(''webvpn'', ''c0ffee'')]" "\<not> xmlpost ?v" "mobile_platform_version ?v = None" "urlpath ?v = None"
    by (simp_all add: jar_sample_def http_sample_def)
  obtain h where h: "https_request ?v ''GET'' None = (h, ?v)" by (simp add: https_request_def nh Let_def)
  have "room ?v h 0"
    using h unfolding https_request_def nh prod.case Let_def option.case c(4) add_common_headers_def c(1,3) if_not_P [OF c(2)]
    apply simp
    apply (erule subst)
    apply (rule room_put)+
    apply (rule room_new(1) [OF nh])
    apply (simp_all add: jar_fields)
    apply (simp add: jar_sample_def http_sample_def)
    done
  with h show ?thesis by blast
qed

definition jar_net :: net where
  "jar_net = (arrives (answer_text 200 ''OK'' [] ''Transfer-Encoding: chunked'' [] (chunk_text [''abc'', ''de''] @ [])))\<lparr>net_out := [Out 4096]\<rparr>"

lemma jar_send:
  assumes "(if tr_connected T c then Some (0, jar_sample c) else op (jar_sample c)) = Some (0, jar_sample c1)"
    "tr_write T buf c1 = Some (n, d)" "0 \<le> n"
  shows "https_send T op buf (jar_sample c) = Some (Inr (), jar_sample d)"
proof -
  have c: "conn (jar_sample x) = x" for x by (simp add: jar_sample_def http_sample_def)
  show ?thesis by (subst https_send.simps) (use assms in \<open>simp only: Let_def c, simp add: c jar_fields\<close>)
qed

lemma jar_page:
  assumes "(if tr_connected ssl_transport c then Some (0, jar_sample c) else op (jar_sample c)) = Some (0, jar_sample jar_net)"
  shows "\<exists>e. do_https_request ssl_transport op ''GET'' None fetch_redirect (jar_sample c) = Some (5, Some ''abcde'', jar_sample e)"
proof -
  obtain a where a: "a = answer_text 200 ''OK'' [] ''Transfer-Encoding: chunked'' [] (chunk_text [''abc'', ''de''] @ [])" by blast
  let ?c = "(arrives a)\<lparr>net_out := [Out 4096]\<rparr>"
  have op: "(if tr_connected ssl_transport c then Some (0, jar_sample c) else op (jar_sample c)) = Some (0, jar_sample ?c)"
    using assms by (simp add: jar_net_def a)
  obtain h where h: "https_request (jar_sample c) ''GET'' None = (h, jar_sample c)" "room (jar_sample c) h 0"
    using jar_get [of c] by (elim exE conjE) (rule that)
  then obtain b where b: "h = Some (Some b)" "tb_error b = None" "tb_pos b < 4096" by (auto simp: room_def)
  let ?d = "(arrives a)\<lparr>net_out := (if tb_data b = [] then [Out 4096] else []), net_sent := tb_data b\<rparr>"
  have "openconnect_openssl_write (tb_data b) ?c = Some (int (tb_pos b), ?d)"
    using b(3) by (simp add: openconnect_openssl_write_def ssl_write_loop.simps [of _ _ "Out 4096 # _"] ssl_write_loop.simps [of _ 0] arrives_def Let_def)
  moreover have "tr_write ssl_transport = openconnect_openssl_write" by (simp add: ssl_transport_def)
  ultimately have send: "https_send ssl_transport op (tb_data b) (jar_sample c) = Some (Inr (), jar_sample ?d)"
    by (intro jar_send [of ssl_transport c op ?c _ "int (tb_pos b)"] op) simp_all
  have holds: "net_holds (conn (jar_sample ?d)) a" using arrives_holds [of a] by (simp add: jar_sample_def http_sample_def net_holds_def arrives_def)
  have "answer_ok 200 ''OK'' [] []"
    by (simp add: answer_ok_def plain_line_def status_line_def dec_nat.simps char_of_def bit_0)
  from tls.response_chunked [OF holds [unfolded a] this] obtain e where
    e: "process_http_response ssl_transport False no_cb (jar_sample ?d) = Some (Inr (5, 200, Some ''abcde''), jar_sample e)"
    by (auto simp: jar_fields a)
  have "redirect_url (jar_sample e) = None" "(jar_sample c)\<lparr>redirect_type := REDIR_TYPE_NONE\<rparr> = jar_sample c"
    by (simp_all add: jar_sample_def http_sample_def)
  then have "do_https_request ssl_transport op ''GET'' None fetch_redirect (jar_sample c) = Some (5, Some ''abcde'', jar_sample e)"
    using h(1) send b(1,2) e by (subst do_https_request.simps) (simp add: buf_error_def put_written_def buf_written_def)
  then show ?thesis by blast
qed

definition sample_env :: "net login_env" where
  "sample_env = \<lparr>le_transport = ssl_transport, le_open = (\<lambda>u. Some (0, u\<lparr>conn := jar_net\<rparr>)), le_read_xml = (\<lambda>_. Some sample_answer), le_ask = None,
     le_cancelled = (\<lambda>_. False), le_sha1 = (\<lambda>_. []), le_write_config = None, le_csd = csd_sample\<rparr>"

lemma sample_env_keeps: "open_keeps sample_env"
  by (simp add: open_keeps_def sample_env_def)

theorem probe_bounded_witness:
  "probe sample_env 0 None first_request True (jar_sample jar_net) = probe_upto None 8 sample_env 0 None first_request True (jar_sample jar_net)"
  by (rule probe_bounded [OF sample_env_keeps])

section \<open>The session cookie\<close>

lemma login_alloc: "alloc v = (ok, w) \<Longrightarrow> login w = login v"
  by (auto simp: alloc_def upd_world_def split: list.splits)

lemma fetch_config_none: "fetch_config T op sha None v = Some (err ENOENT, v)"
  by (simp add: fetch_config_def split: option.split)

lemma alloc_fails: "alloc v = (ok, w) \<Longrightarrow> (ok \<or> False \<in> set (w_alloc (world v))) \<and> set (w_alloc (world w)) \<subseteq> set (w_alloc (world v))"
  by (auto simp: alloc_def upd_world_def split: list.splits)

lemma alloc_steps: "alloc v = (ok, w) \<Longrightarrow> login w = login v \<and> set (w_alloc (world w)) \<subseteq> set (w_alloc (world v))"
  using login_alloc alloc_fails by blast

lemma config_cookie_login:
  "config_cookie x v = Some (ok, y, w) \<Longrightarrow> cookie (login w) = cookie (login v) \<and> csd_scriptname (login w) = csd_scriptname (login v) \<and>
     set (w_alloc (world w)) \<subseteq> set (w_alloc (world v))"
  by (auto simp: config_cookie_def Let_def upd_login_def dest!: alloc_steps split: if_splits option.splits prod.splits bool.splits)

text \<open>The session cookie that the cookies of a jar leave: the last one, or nothing when there is no memory for its copy.\<close>

definition session_of :: "jar \<Rightarrow> 'c http_info \<Rightarrow> string option \<Rightarrow> bool" where
  "session_of jar v c \<longleftrightarrow>
     (case map_of (rev jar) ''webvpn'' of None \<Rightarrow> c = cookie (login v)
      | Some x \<Rightarrow> c = Some x \<or> c = None \<and> False \<in> set (w_alloc (world v)))"

lemma session_of_Cons:
  "n \<noteq> ''webvpn'' \<Longrightarrow> session_of jar w c \<Longrightarrow> cookie (login w) = cookie (login v) \<Longrightarrow>
     set (w_alloc (world w)) \<subseteq> set (w_alloc (world v)) \<Longrightarrow> session_of ((n, x) # jar) v c"
  by (auto simp: session_of_def map_of_append map_add_def split: option.splits)

lemma login_cookies_session:
  "login_cookies config jar v = Some (True, jar', w) \<Longrightarrow> session_of jar v (cookie (login w))"
proof (induction jar arbitrary: v jar' w)
  case Nil
  then show ?case by (simp add: session_of_def)
next
  case (Cons a jar)
  obtain n x where a: "a = (n, x)" by (cases a)
  show ?case
  proof (cases "n = ''webvpn''")
    case True
    obtain kept u where u: "alloc v = (kept, u)" by fastforce
    let ?u = "upd_login (\<lambda>l. l\<lparr>cookie := (if kept then Some x else None)\<rparr>) u"
    obtain k where "login_cookies config jar ?u = Some (True, k, w)" using Cons.prems True u by (auto simp: a)
    from Cons.IH [OF this] alloc_fails [OF u] show ?thesis
      by (auto simp: a True session_of_def map_of_append map_add_def upd_login_def split: option.splits)
  next
    case False
    show ?thesis
    proof (cases "config \<and> n = ''webvpnc''")
      case True
      then obtain y u k where c: "config_cookie x v = Some (True, y, u)" "login_cookies config jar u = Some (True, k, w)"
        using Cons.prems False by (auto simp: a split: option.splits bool.splits)
      show ?thesis unfolding a
        by (rule session_of_Cons [OF False Cons.IH [OF c(2)]]) (use config_cookie_login [OF c(1)] in simp_all)
    next
      case no: False
      then obtain k where "login_cookies config jar v = Some (True, k, w)" using Cons.prems False by (auto simp: a)
      from session_of_Cons [OF False Cons.IH [OF this] refl subset_refl] show ?thesis by (simp add: a)
    qed
  qed
qed

lemma new_header_login: "new_header v = (h, w) \<Longrightarrow> login w = login v"
  by (auto simp: new_header_def dest: login_alloc split: prod.splits)

lemma response_login: "process_http_response T False no_cb v = Some (r, w) \<Longrightarrow> login w = login v"
  using asked_login.response_inv [where b = "xmlpost v" and l = "login v" and v = v and w = w] by (auto simp: same_login_def)

lemma fetch_config_login:
  assumes "fetch_config T op sha wr v = Some (r, w)" "\<And>u s w. op u = Some (s, w) \<Longrightarrow> login w = login u"
  shows "login w = login v"
  using assms(1)
  by (auto simp: fetch_config_def Let_def split: option.splits if_splits prod.splits sum.splits
      dest!: assms(2) new_header_login response_login)

lemma login_finish_session:
  assumes "login_finish E v = Some (0, w)" "open_keeps E"
  shows "session_of (cookies v) v (cookie (login w))"
proof -
  obtain jar u where c: "login_cookies (le_write_config E \<noteq> None) (cookies v) v = Some (True, jar, u)"
    and f: "map_option (\<lambda>(_, v). (0 :: int, v)) (fetch_config (le_transport E) (le_open E) (le_sha1 E) (le_write_config E) (u\<lparr>cookies := jar\<rparr>)) = Some (0, w)"
    using assms(1) by (auto simp: login_finish_def Let_def split: bind_splits if_splits)
  from f have "login w = login u"
    using assms(2) by (auto dest!: fetch_config_login simp: open_keeps_def)
  with login_cookies_session [OF c] show ?thesis by simp
qed

text \<open>The state in which a login has succeeded, after the rounds that a change of the group begins anew.\<close>

inductive logged_in :: "'c login_env \<Rightarrow> bool \<Rightarrow> bool \<Rightarrow> request \<Rightarrow> 'c http_info \<Rightarrow> 'c http_info \<Rightarrow> bool" for E where
  in_now: "logged_in E newgroup c rq v u"
    if "login_start E newgroup c rq v = Some (Inr (form, rq1, c1), v1)" "csd_step E rq1 form v1 = Some (Inr form1, v2)"
      "login_forms E form1 rq1 v2 = Some (Forms_Logged_In, u)"
| in_later: "logged_in E newgroup c rq v u"
    if "login_start E newgroup c rq v = Some (Inr (form, rq1, c1), v1)" "csd_step E rq1 form v1 = Some (Inr form1, v2)"
      "login_forms E form1 rq1 v2 = Some (Forms_New_Group rq2, v3)" "logged_in E True c1 rq2 v3 u"

lemma probe_round_return: "probe_round E rq c v = Some (Round_Return r, w) \<Longrightarrow> r \<noteq> 0"
  by (auto simp: probe_round_def cert_again_def Let_def split: if_splits bind_splits prod.splits option.splits sum.splits)

lemma probe_upto_nonzero: "probe_upto None n E tries orig rq c v = Some (Inl 0, w) \<Longrightarrow> False"
proof (induction n arbitrary: tries orig rq c v)
  case (Suc n)
  from Suc.prems show ?case
    by (auto split: if_splits option.splits prod.splits round_end.splits dest: Suc.IH probe_round_return)
qed simp

lemma complete_nonzero: "xmlpost_complete root body = Some (Inl e) \<Longrightarrow> e \<noteq> 0"
  by (auto simp: xmlpost_complete_def Let_def split: if_splits)

lemma login_start_nonzero:
  assumes "login_start E newgroup c rq v = Some (Inl r, w)" "open_keeps E"
  shows "r \<noteq> 0"
proof -
  have p: "probe E 0 orig rq c u = Some (Inl 0, w) \<Longrightarrow> False" for orig rq c u
    using probe_upto_nonzero [of 8 E 0 orig rq c u w] probe_eq_upto [OF assms(2), of 0 u 8 orig rq c None] by simp
  show ?thesis using assms(1)
    by (auto simp: login_start_def xmlpost_initial_req_def Let_def split: if_splits prod.splits option.splits sum.splits
      dest: p complete_nonzero)
qed

lemma csd_step_nonzero: "csd_step E rq form v = Some (Inl e, w) \<Longrightarrow> e \<noteq> 0"
  by (auto simp: csd_step_def csd_stub_def Let_def split: if_splits prod.splits bool.splits option.splits sum.splits bind_splits)

lemma login_forms_out:
  assumes "login_forms E form rq v = Some (Forms_Out r, w)"
  shows "r \<noteq> 0"
proof -
  have "(\<lambda>s. case s of (Forms_Out r, _) \<Rightarrow> r \<noteq> 0 | _ \<Rightarrow> True) (Forms_Out r, w)"
  proof (rule login_forms.raw_induct [where P = "\<lambda>_ _ _ _ s. case s of (Forms_Out r, _) \<Rightarrow> r \<noteq> 0 | _ \<Rightarrow> True", OF _ assms], goal_cases)
    case (1 self E form rq v s)
    from 1(2) show ?case
      by (auto split: option.splits prod.splits if_splits forms_end.splits dest!: 1(1))
  qed
  then show ?thesis by simp
qed

lemma login_rounds_logged_in:
  assumes "login_rounds E newgroup c rq v = Some (0, w)" "open_keeps E"
  shows "\<exists>u z. logged_in E newgroup c rq v u \<and> login_finish E u = Some (0, z) \<and> w = login_out z"
proof -
  let ?P = "\<lambda>newgroup c rq v w. \<exists>u z. logged_in E newgroup c rq v u \<and> login_finish E u = Some (0, z) \<and> w = login_out z"
  have "fst (0 :: int, w) = 0 \<longrightarrow> ?P newgroup c rq v (snd (0 :: int, w))"
  proof (rule login_rounds.raw_induct [where P = "\<lambda>F newgroup c rq v s. F = E \<longrightarrow> fst s = 0 \<longrightarrow> ?P newgroup c rq v (snd s)",
        OF _ assms(1), THEN mp, OF _ refl], goal_cases)
    case (1 self F newgroup c rq v s)
    show ?case
    proof (intro impI)
      assume F: "F = E" and s: "fst s = 0"
      obtain form rq1 c1 v1 where l: "login_start E newgroup c rq v = Some (Inr (form, rq1, c1), v1)"
        using 1(2) s login_start_nonzero [OF _ assms(2)] by (auto simp: F split: option.splits sum.splits)
      obtain form1 v2 where k: "csd_step E rq1 form v1 = Some (Inr form1, v2)"
        using 1(2) s l by (auto simp: F split: option.splits sum.splits dest!: csd_step_nonzero)
      obtain x v3 where m: "login_forms E form1 rq1 v2 = Some (x, v3)"
        using 1(2) l k by (auto simp: F split: option.splits)
      show "?P newgroup c rq v (snd s)"
      proof (cases x)
        case (Forms_Out r)
        with 1(2) s l k m login_forms_out [OF m [unfolded Forms_Out]] show ?thesis by (auto simp: F)
      next
        case Forms_Logged_In
        with 1(2) s l k m show ?thesis by (fastforce simp: F intro: in_now)
      next
        case (Forms_New_Group rq2)
        with 1(2) l k m have "self E True c1 rq2 v3 = Some s" by (simp add: F)
        from 1(1) [OF this] s have "?P True c1 rq2 v3 (snd s)" by simp
        with in_later [OF l k m [unfolded Forms_New_Group]] show ?thesis by blast
      qed
    qed
  qed
  then show ?thesis by simp
qed

lemma read_jar_answer:
  "parse_xml_response (\<lambda>_. Some sample_answer) b (jar_sample c) (Some page) =
   Some (0, Some (new_form\<lparr>auth_id := Some ''success''\<rparr>), False, jar_sample c)"
proof -
  have a: "alloc (jar_sample c) = (True, jar_sample c)" by (simp add: alloc_def jar_fields)
  show ?thesis
    by (simp add: parse_xml_response_def sample_answer_def a parse_node_def is_element_def xmlnode_is_named_def xmlnode_get_prop_def xmlGetProp_def)
qed

text \<open>
  C6 (session_cookie): When getting the cookie succeeds, the session cookie is the \<open>webvpn\<close> cookie that the jar has when the server
  (or the application) says that the user is logged in (the last one, if there were several); without one it is what it was then. It is null instead only when an allocation fails from then on. And no
  script of the host scan is left. The connection opener is one that does not touch the login's data.
\<close>

theorem session_cookie:
  assumes "openconnect_obtain_cookie E v = Some (0, w)" "open_keeps E"
  shows "\<exists>u. logged_in E (xmlpost v) (\<not> client_cert (login v)) first_request v u \<and> csd_scriptname (login w) = None \<and>
    (case map_of (rev (cookies u)) ''webvpn'' of
       None \<Rightarrow> cookie (login w) = cookie (login u)
     | Some c \<Rightarrow> cookie (login w) = Some c \<or> cookie (login w) = None \<and> False \<in> set (w_alloc (world u)))"
proof -
  have "login_rounds E (xmlpost v) (\<not> client_cert (login v)) first_request v = Some (0, w)"
    using assms(1) by (auto simp: openconnect_obtain_cookie_def prepare_stoken_def split: if_splits)
  from login_rounds_logged_in [OF this assms(2)] obtain u z where
    u: "logged_in E (xmlpost v) (\<not> client_cert (login v)) first_request v u" "login_finish E u = Some (0, z)" "w = login_out z" by blast
  have "cookie (login w) = cookie (login z)" "csd_scriptname (login w) = None"
    using u(3) by (simp_all add: login_out_def upd_login_def)
  with u(1) login_finish_session [OF u(2) assms(2)] show ?thesis
    by (intro exI [of _ u]) (simp add: session_of_def split: option.splits)
qed

theorem session_cookie_witness:
  "\<exists>w. openconnect_obtain_cookie sample_env (jar_sample jar_net) = Some (0, w) \<and> cookie (login w) = Some ''c0ffee''"
proof -
  let ?f = "new_form\<lparr>auth_id := Some ''success''\<rparr>"
  let ?c = "tr_close ssl_transport jar_net"
  define rq where "rq = \<lparr>rq_method = ''GET'', rq_type = None, rq_body = NUL # tl (rq_body first_request)\<rparr>"
  have fields: "login (jar_sample c) = no_login" "\<not> xmlpost (jar_sample c)" "cookies (jar_sample c) = [(''webvpn'', ''c0ffee'')]" "conn (jar_sample c) = c"
    "redirect_type (jar_sample c) = REDIR_TYPE_NONE" "(jar_sample c)\<lparr>xmlpost := False\<rparr> = jar_sample c" for c :: net
    by (simp_all add: jar_sample_def http_sample_def)
  have no: "no_xmlpost sample_env None first_request (jar_sample jar_net) = (rq, jar_sample ?c)"
    by (simp add: no_xmlpost_def fields Let_def close_https_def rq_def sample_env_def jar_fields)
  have "\<not> tr_connected ssl_transport ?c" by (simp add: ssl_transport_def)
  then obtain e where e: "https sample_env ''GET'' None False (jar_sample ?c) = Some (5, Some ''abcde'', jar_sample e)"
    using jar_page [of ?c "\<lambda>u. Some (0, u\<lparr>conn := jar_net\<rparr>)" False]
    by (auto simp: https_def sample_env_def jar_fields)
  have "probe_round sample_env rq True (jar_sample ?c) = Some (Round_Form (Some ?f), jar_sample e)"
    using e read_jar_answer [of True e "''abcde''"]
    by (simp add: probe_round_def rq_def rq_content_def Let_def fields follow_action_def new_form_def)
      (simp add: sample_env_def follow_action_def)
  then have probe: "probe sample_env 0 None rq True (jar_sample ?c) = Some (Inr (Some ?f, rq, True), jar_sample e)"
    by (subst probe.simps) simp
  have forms: "login_forms sample_env (Some ?f) rq (jar_sample e) = Some (Forms_Logged_In, jar_sample e)"
    by (subst login_forms.simps) (simp add: handle_auth_form_def)
  let ?w = "upd_login (\<lambda>l. l\<lparr>cookie := Some ''c0ffee''\<rparr>) (jar_sample e)"
  have finish: "login_finish sample_env (jar_sample e) = Some (0, ?w\<lparr>cookies := [(''webvpn'', ''c0ffee'')]\<rparr>)"
    by (simp add: login_finish_def fields sample_env_def fetch_config_none alloc_def jar_fields)
  have start: "login_start sample_env False True first_request (jar_sample jar_net) = Some (Inr (Some ?f, rq, True), jar_sample e)"
    by (simp add: login_start_def no probe)
  have step: "csd_step sample_env rq (Some ?f) (jar_sample e) = Some (Inr (Some ?f), jar_sample e)"
    by (simp add: csd_step_def fields no_login_def)
  have only: "u = jar_sample e" if "logged_in sample_env False True first_request (jar_sample jar_net) u" for u
    using that by (cases rule: logged_in.cases) (auto simp: start step forms)
  have "login_rounds sample_env False True first_request (jar_sample jar_net) = Some (0, login_out (?w\<lparr>cookies := [(''webvpn'', ''c0ffee'')]\<rparr>))"
    by (subst login_rounds.simps) (simp add: start step forms finish del: probe_upto.simps)
  then have r: "openconnect_obtain_cookie sample_env (jar_sample jar_net) = Some (0, login_out (?w\<lparr>cookies := [(''webvpn'', ''c0ffee'')]\<rparr>))"
    by (simp add: openconnect_obtain_cookie_def fields no_login_def)
  from session_cookie [OF r sample_env_keeps] obtain u where
    u: "logged_in sample_env False True first_request (jar_sample jar_net) u"
    "case map_of (rev (cookies u)) ''webvpn'' of
       None \<Rightarrow> cookie (login (login_out (?w\<lparr>cookies := [(''webvpn'', ''c0ffee'')]\<rparr>))) = cookie (login u)
     | Some c \<Rightarrow> cookie (login (login_out (?w\<lparr>cookies := [(''webvpn'', ''c0ffee'')]\<rparr>))) = Some c \<or>
         cookie (login (login_out (?w\<lparr>cookies := [(''webvpn'', ''c0ffee'')]\<rparr>))) = None \<and> False \<in> set (w_alloc (world u))"
    by (auto simp: fields no_login_def)
  from u(2) have "cookie (login (login_out (?w\<lparr>cookies := [(''webvpn'', ''c0ffee'')]\<rparr>))) = Some ''c0ffee''"
    unfolding only [OF u(1)] by (simp add: fields jar_fields)
  with r show ?thesis by blast
qed

end
