(* ===== verification/Settings.thy ===== *)
theory Settings
  imports Http Keepalive
begin

text \<open>
  The settings of the client (\<open>core/library.c\<close>) and the list of servers in the XML configuration file (\<open>core/xml.c\<close>).
  The host name is null until one is set; where a function may leave it so, it gives the host name beside the client.
\<close>

section \<open>Settings\<close>

text \<open>The system reported to the server; \<open>None\<close> is the default, that of a Macintosh in this build.\<close>

definition openconnect_set_reported_os :: "'c http_info \<Rightarrow> string option \<Rightarrow> int \<times> 'c http_info" where
  "openconnect_set_reported_os v name =
     (let os = (case name of None \<Rightarrow> ''mac-intel'' | Some s \<Rightarrow> s); done = (\<lambda>v. (0, v\<lparr>platname := os\<rparr>)) in
      if os = ''mac-intel'' then done (upd_login (\<lambda>l. l\<lparr>csd_xmltag := ''csdMac''\<rparr>) v)
      else if os = ''linux'' \<or> os = ''linux-64'' then done (upd_login (\<lambda>l. l\<lparr>csd_xmltag := ''csdLinux''\<rparr>) v)
      else if os = ''android'' \<or> os = ''apple-ios'' then
        done (upd_login (\<lambda>l. l\<lparr>csd_xmltag := ''csdLinux'', csd_nostub := True\<rparr>) v)
      else if os = ''win'' then done (upd_login (\<lambda>l. l\<lparr>csd_xmltag := ''csd''\<rparr>) v)
      else (err EINVAL, v))"

definition openconnect_set_mobile_info :: "'c http_info \<Rightarrow> string option \<Rightarrow> string \<Rightarrow> string \<Rightarrow> 'c http_info" where
  "openconnect_set_mobile_info v version device unique =
     v\<lparr>mobile_platform_version := version, mobile_device_type := device, mobile_device_uniqueid := unique\<rparr>"

definition openconnect_get_hostname :: "'c http_info \<Rightarrow> string" where
  "openconnect_get_hostname v = (case unique_hostname v of Some h \<Rightarrow> h | None \<Rightarrow> hostname v)"

definition openconnect_set_urlpath :: "'c http_info \<Rightarrow> string option \<Rightarrow> 'c http_info" where
  "openconnect_set_urlpath v path = v\<lparr>urlpath := path\<rparr>"

text \<open>\<open>xmlsha1\<close> is an array of 41 characters.\<close>

definition openconnect_set_xmlsha1 :: "'c http_info \<Rightarrow> string \<Rightarrow> int \<Rightarrow> 'c http_info" where
  "openconnect_set_xmlsha1 v sha len = (if len \<noteq> 41 then v else upd_login (\<lambda>l. l\<lparr>xmlsha1 := cstr sha\<rparr>) v)"

text \<open>The timers of the TLS and of the DTLS connection.\<close>

definition openconnect_set_dpd :: "int \<Rightarrow> keepalive_info \<times> keepalive_info \<Rightarrow> keepalive_info \<times> keepalive_info" where
  "openconnect_set_dpd min_seconds tms =
     (let both = (\<lambda>n. (fst tms\<lparr>ka_dpd := n\<rparr>, snd tms\<lparr>ka_dpd := n\<rparr>)) in
      if min_seconds = 0 \<or> min_seconds \<ge> 2 then both min_seconds
      else if min_seconds = 1 then both 2
      else tms)"

definition openconnect_setup_csd :: "'c http_info \<Rightarrow> string option \<Rightarrow> 'c http_info" where
  "openconnect_setup_csd v wrapper = upd_login (\<lambda>l. l\<lparr>uid_csd_given := True, csd_wrapper := wrapper\<rparr>) v"

definition openconnect_set_xmlpost :: "'c http_info \<Rightarrow> bool \<Rightarrow> 'c http_info" where
  "openconnect_set_xmlpost v on = v\<lparr>xmlpost := on\<rparr>"

definition openconnect_set_client_cert :: "'c http_info \<Rightarrow> string option \<Rightarrow> 'c http_info" where
  "openconnect_set_client_cert v cert = upd_login (\<lambda>l. l\<lparr>client_cert := (cert \<noteq> None)\<rparr>) v"

text \<open>Every character of the session cookie becomes null, so it is the empty string afterwards.\<close>

definition openconnect_clear_cookie :: "'c http_info \<Rightarrow> 'c http_info" where
  "openconnect_clear_cookie v = upd_login (\<lambda>l. l\<lparr>cookie := map_option (\<lambda>_. []) (cookie l)\<rparr>) v"

text \<open>\<open>got_cancel_cmd\<close> belongs to the connection: \<open>forget\<close> clears it.\<close>

definition openconnect_reset_ssl :: "'c transport \<Rightarrow> ('c \<Rightarrow> 'c) \<Rightarrow> 'c http_info \<Rightarrow> 'c http_info" where
  "openconnect_reset_ssl T forget v = (close_https T (v\<lparr>conn := forget (conn v)\<rparr>))\<lparr>peer_addr := None\<rparr>"

text \<open>
  \<open>openconnect_parse_url\<close>: the result, the new host name if there is one, and the client without its old one. The scheme is compared with case.
\<close>

definition openconnect_parse_url :: "'c http_info \<Rightarrow> string \<Rightarrow> int \<times> string option \<times> 'c http_info" where
  "openconnect_parse_url v url =
     (let v = v\<lparr>unique_hostname := None, peer_addr := None, urlpath := None\<rparr> in
      case internal_parse_url url 443 of
        Inl e \<Rightarrow> (err e, None, v)
      | Inr (scheme, host, prt, path) \<Rightarrow>
          (if scheme \<noteq> None \<and> scheme \<noteq> Some ''https'' then err EINVAL else 0,
           Some host, v\<lparr>hostname := host, port := prt, urlpath := path\<rparr>))"

text \<open>The build has neither libstoken nor liboath.\<close>

definition set_libstoken_mode :: int where
  "set_libstoken_mode = err EOPNOTSUPP"

definition set_totp_mode :: int where
  "set_totp_mode = err EOPNOTSUPP"

definition set_hotp_mode :: int where
  "set_hotp_mode = err EOPNOTSUPP"

definition openconnect_set_token_mode :: "'c http_info \<Rightarrow> token_mode \<Rightarrow> int \<times> 'c http_info" where
  "openconnect_set_token_mode v m =
     (case m of
        OC_TOKEN_MODE_NONE \<Rightarrow> 0
      | OC_TOKEN_MODE_STOKEN \<Rightarrow> set_libstoken_mode
      | OC_TOKEN_MODE_TOTP \<Rightarrow> set_totp_mode
      | OC_TOKEN_MODE_HOTP \<Rightarrow> set_hotp_mode,
      upd_login (\<lambda>l. l\<lparr>mode := OC_TOKEN_MODE_NONE\<rparr>) v)"

definition openconnect_set_stoken_mode :: "'c http_info \<Rightarrow> bool \<Rightarrow> int \<times> 'c http_info" where
  "openconnect_set_stoken_mode v use_stoken =
     openconnect_set_token_mode v (if use_stoken then OC_TOKEN_MODE_STOKEN else OC_TOKEN_MODE_NONE)"

section \<open>The configuration file\<close>

text \<open>
  What the system answers: whether the file can be opened, its size by \<open>fstat\<close>, whether there is memory for it, and what
  \<open>read\<close> gets. The result is 0, -1, or 1 with the content.
\<close>

record conf_file =
  cf_opens :: bool
  cf_size :: "nat option"
  cf_memory :: bool
  cf_read :: "string option"

definition load_xml_conf_file :: "conf_file \<Rightarrow> int \<times> string" where
  "load_xml_conf_file cf =
     (if \<not> cf_opens cf then (0, [])
      else case (cf_size cf, cf_read cf) of
        (Some n, Some s) \<Rightarrow> if cf_memory cf \<and> length s = n then (1, s) else (- 1, [])
      | _ \<Rightarrow> (- 1, []))"

text \<open>
  One server: \<open>state\<close> is \<open>match\<close>, with -1 for another host; the host name and the path are those of the client.
\<close>

fun host_entry :: "string \<Rightarrow> xml list \<Rightarrow> int \<Rightarrow> string option \<Rightarrow> string option \<Rightarrow> string option \<times> string option" where
  "host_entry host [] state address path = (address, path)"
| "host_entry host (n # ns) state address path =
     (if state < 0 then (address, path)
      else if \<not> is_element n then host_entry host ns state address path
      else if state = 0 \<and> xml_name n = ''HostName'' then
        host_entry host ns (if node_content n = host then 1 else - 1) address path
      else if state \<noteq> 0 \<and> xml_name n = ''HostAddress'' then host_entry host ns state (Some (node_content n)) path
      else if state \<noteq> 0 \<and> xml_name n = ''UserGroup'' then host_entry host ns state address (Some (node_content n))
      else host_entry host ns state address path)"

fun server_list :: "string \<Rightarrow> xml list \<Rightarrow> string option \<Rightarrow> string option \<Rightarrow> string option \<times> string option" where
  "server_list host [] address path = (address, path)"
| "server_list host (n # ns) address path =
     (if address \<noteq> None then (address, path)
      else if is_element n \<and> xml_name n = ''HostEntry'' then
        (case host_entry host (xml_children n) 0 address path of (address, path) \<Rightarrow> server_list host ns address path)
      else server_list host ns address path)"

definition is_server_list :: "xml \<Rightarrow> bool" where
  "is_server_list n \<longleftrightarrow> is_element n \<and> xml_name n = ''ServerList''"

text \<open>
  \<open>config_lookup_host\<close>: the result, the host name, the path and \<open>xmlsha1\<close>. \<open>conf\<close> is \<open>None\<close> without a
  configuration file, \<open>sha1\<close> is \<open>openconnect_sha1\<close>, and \<open>read_xml\<close> gives the root element.
\<close>

record lookup =
  lk_result :: int
  lk_hostname :: "string option"
  lk_urlpath :: "string option"
  lk_xmlsha1 :: string

definition config_lookup_host ::
  "conf_file option \<Rightarrow> (string \<Rightarrow> bytes option) \<Rightarrow> (string \<Rightarrow> xml option) \<Rightarrow> string \<Rightarrow> string option \<Rightarrow> string option \<Rightarrow> string \<Rightarrow> lookup" where
  "config_lookup_host conf sha1 read_xml host address path sha =
     (case conf of
        None \<Rightarrow> \<lparr>lk_result = 0, lk_hostname = address, lk_urlpath = path, lk_xmlsha1 = sha\<rparr>
      | Some cf \<Rightarrow>
          (case load_xml_conf_file cf of (ret, text) \<Rightarrow>
             if ret \<le> 0 then \<lparr>lk_result = ret, lk_hostname = address, lk_urlpath = path, lk_xmlsha1 = sha\<rparr>
             else case sha1 text of
               None \<Rightarrow> \<lparr>lk_result = - 1, lk_hostname = address, lk_urlpath = path, lk_xmlsha1 = sha\<rparr>
             | Some digest \<Rightarrow>
                 let sha = concat (map lower_hex2 (take 20 digest)) in
                 case read_xml text of
                   None \<Rightarrow> \<lparr>lk_result = 0, lk_hostname = address, lk_urlpath = path, lk_xmlsha1 = sha\<rparr>
                 | Some root \<Rightarrow>
                     (case find is_server_list (xml_children root) of
                        None \<Rightarrow> \<lparr>lk_result = 0, lk_hostname = address, lk_urlpath = path, lk_xmlsha1 = sha\<rparr>
                      | Some servers \<Rightarrow>
                          (case server_list host (xml_children servers) address path of (address, path) \<Rightarrow>
                             \<lparr>lk_result = 0, lk_hostname = address, lk_urlpath = path, lk_xmlsha1 = sha\<rparr>))))"

section \<open>The server that is found\<close>

text \<open>
  The reference: the address of a server entry is the last one after the first host name in it, when that is the host's; the
  address of the host is that of the first entry that has one.
\<close>

definition entry_address :: "string \<Rightarrow> xml \<Rightarrow> string option" where
  "entry_address host e =
     (case dropWhile (\<lambda>n. xml_name n \<noteq> ''HostName'') (filter is_element (xml_children e)) of
        [] \<Rightarrow> None
      | n # ns \<Rightarrow>
          if node_content n \<noteq> host then None
          else map_option node_content (find (\<lambda>n. xml_name n = ''HostAddress'') (rev ns)))"

definition host_address :: "string \<Rightarrow> xml list \<Rightarrow> string option" where
  "host_address host ns =
     (case List.map_filter (entry_address host) (filter (\<lambda>n. is_element n \<and> xml_name n = ''HostEntry'') ns) of
        [] \<Rightarrow> None
      | a # _ \<Rightarrow> Some a)"

lemma find_append: "find p (xs @ ys) = (case find p xs of None \<Rightarrow> find p ys | Some x \<Rightarrow> Some x)"
  by (induction xs) auto

lemma host_entry_stopped: "state < 0 \<Longrightarrow> host_entry host ns state address path = (address, path)"
  by (cases ns) auto

lemma host_entry_matched:
  "fst (host_entry host ns 1 address path) =
     (case find (\<lambda>n. xml_name n = ''HostAddress'') (rev (filter is_element ns)) of None \<Rightarrow> address | Some n \<Rightarrow> Some (node_content n))"
  by (induction ns arbitrary: address path) (auto simp: find_append split: option.split)

lemma host_entry_address:
  "fst (host_entry host (xml_children e) 0 None path) = entry_address host e"
proof -
  have "fst (host_entry host ns 0 None path) =
      (case dropWhile (\<lambda>n. xml_name n \<noteq> ''HostName'') (filter is_element ns) of
        [] \<Rightarrow> None
      | n # ns \<Rightarrow> if node_content n \<noteq> host then None else map_option node_content (find (\<lambda>n. xml_name n = ''HostAddress'') (rev ns)))" for ns
    by (induction ns) (auto simp: host_entry_stopped host_entry_matched split: option.split)
  then show ?thesis by (simp add: entry_address_def)
qed

lemma server_list_done: "address \<noteq> None \<Longrightarrow> server_list host ns address path = (address, path)"
  by (cases ns) auto

lemma server_list_address: "fst (server_list host ns None path) = host_address host ns"
proof (induction ns arbitrary: path)
  case (Cons n ns)
  show ?case
  proof (cases "is_element n \<and> xml_name n = ''HostEntry''")
    case True
    obtain address p where e: "host_entry host (xml_children n) 0 None path = (address, p)" by fastforce
    then have "entry_address host n = address" using host_entry_address [of host n path] by simp
    then show ?thesis using True e Cons.IH [of p]
      by (cases address) (auto simp: server_list_done host_address_def List.map_filter_simps)
  qed (use Cons.IH in \<open>auto simp: host_address_def List.map_filter_simps\<close>)
qed (simp add: host_address_def List.map_filter_simps)

text \<open>
  C34 (host_lookup): Looking up a host in a configuration that can be read and parsed gives the address of the first of its
  server entries that has one, by the reference; without such an entry the host name stays unset.
\<close>

theorem host_lookup:
  assumes "cf_opens cf" "cf_memory cf" "cf_read cf = Some text" "cf_size cf = Some (length text)"
    "sha1 text = Some digest" "read_xml text = Some root" "find is_server_list (xml_children root) = Some servers"
  shows "lk_result (config_lookup_host (Some cf) sha1 read_xml host None path sha) = 0 \<and>
    lk_hostname (config_lookup_host (Some cf) sha1 read_xml host None path sha) = host_address host (xml_children servers)"
  using server_list_address [of host "xml_children servers" path] assms
  by (auto simp: config_lookup_host_def load_xml_conf_file_def Let_def split: prod.splits)

definition sample_servers :: xml where
  "sample_servers = Element ''AnyConnectProfile'' [] [Element ''ServerList'' [] [
     Element ''HostEntry'' [] [Element ''HostName'' [] [Text ''home''], Element ''HostAddress'' [] [Text ''vpn.home.net'']],
     Element ''HostEntry'' [] [Element ''HostName'' [] [Text ''work''], Element ''HostAddress'' [] [Text ''vpn.work.net'']]]]"

theorem host_lookup_witness:
  "lk_hostname (config_lookup_host (Some \<lparr>cf_opens = True, cf_size = Some 0, cf_memory = True, cf_read = Some []\<rparr>)
     (\<lambda>_. Some []) (\<lambda>_. Some sample_servers) ''work'' None None []) = Some ''vpn.work.net''"
  using host_lookup [of "\<lparr>cf_opens = True, cf_size = Some 0, cf_memory = True, cf_read = Some []\<rparr>" "[]" "\<lambda>_. Some []" "[]"
    "\<lambda>_. Some sample_servers" sample_servers "hd (xml_children sample_servers)" "''work''" None "[]"]
  by (simp add: sample_servers_def is_server_list_def is_element_def host_address_def entry_address_def List.map_filter_simps)

text \<open>A detection period of a second, whose half would be none, is never set.\<close>

lemma dpd_setting:
  assumes "ka_dpd (fst tms) \<noteq> 1" "ka_dpd (snd tms) \<noteq> 1"
  shows "ka_dpd (fst (openconnect_set_dpd n tms)) \<noteq> 1" "ka_dpd (snd (openconnect_set_dpd n tms)) \<noteq> 1"
  using assms by (auto simp: openconnect_set_dpd_def)

end
