(* ===== verification/Script_Env.thy ===== *)
theory Script_Env
  imports Vpn_State Cstp_Connect Http
begin

text \<open>
  The environment of the network script (\<open>core/script.c\<close>): addresses and masks, the routes of the split tunnel, the banner and the
  options of the connection. The environment is a map; \<open>setenv\<close> always succeeds. \<open>None\<close> is undefined behaviour.
\<close>

section \<open>The environment\<close>

type_synonym environment = "string \<Rightarrow> string option"

definition setenv :: "string \<Rightarrow> string \<Rightarrow> environment \<Rightarrow> environment" where
  "setenv name val e = e(name \<mapsto> cstr val)"

definition unsetenv :: "string \<Rightarrow> environment \<Rightarrow> environment" where
  "unsetenv name e = e(name := None)"

definition setenv_int :: "string \<Rightarrow> int \<Rightarrow> environment \<Rightarrow> environment" where
  "setenv_int name n e = setenv name (dec_int n) e"

text \<open>The new value has at most 1022 characters.\<close>

definition appendenv :: "string \<Rightarrow> string \<Rightarrow> environment \<Rightarrow> environment" where
  "appendenv name new e =
     setenv name (take 1022 (case e name of Some old \<Rightarrow> old @ '' '' @ new | None \<Rightarrow> new)) e"

section \<open>Addresses\<close>

text \<open>
  \<open>strtoul(s, &end, 0)\<close> as \<open>inet_aton\<close> of the system uses it: the number, cut to 32 bits, and the rest of the string; \<open>None\<close>
  without digits and for \<open>ULONG_MAX\<close>.
\<close>

fun number_digits :: "int \<Rightarrow> int \<Rightarrow> string \<Rightarrow> int \<times> string" where
  "number_digits base n [] = (n, [])"
| "number_digits base n (c # s) =
     (case hex_value c of
        Some d \<Rightarrow> if d < base then number_digits base (base * n + d) s else (n, c # s)
      | None \<Rightarrow> (n, c # s))"

definition starts_digit :: "int \<Rightarrow> string \<Rightarrow> bool" where
  "starts_digit base s = (case s of [] \<Rightarrow> False | c # _ \<Rightarrow> (case hex_value c of None \<Rightarrow> False | Some d \<Rightarrow> d < base))"

definition strtoul_any :: "string \<Rightarrow> (u32 \<times> string) option" where
  "strtoul_any s =
     (let t = dropWhile is_space s;
          neg = has_prefix ''-'' t;
          t = (if neg \<or> has_prefix ''+'' t then tl t else t);
          hex = (has_prefix ''0x'' t \<or> has_prefix ''0X'' t) \<and> starts_digit 16 (drop 2 t);
          base = (if hex then 16 else if has_prefix ''0'' t then 8 else 10);
          t = (if hex then drop 2 t else t) in
      if \<not> starts_digit base t then None
      else case number_digits base 0 t of (n, rest) \<Rightarrow>
        let k = (if neg then (2 ^ 64 - n) mod 2 ^ 64 else n) in
        if n \<ge> 2 ^ 64 \<or> k = 2 ^ 64 - 1 then None else Some (word_of_int k, rest))"

text \<open>Up to four parts; the last one has the bits that are left.\<close>

fun address_parts :: "nat \<Rightarrow> string \<Rightarrow> u32 list option" where
  "address_parts 0 s = None"
| "address_parts (Suc n) s =
     (case strtoul_any s of
        None \<Rightarrow> None
      | Some (p, rest) \<Rightarrow>
          (case rest of
             [] \<Rightarrow> Some [p]
           | c # cs \<Rightarrow>
               if c = CHR ''.'' then map_option (\<lambda>ps. p # ps) (address_parts n cs)
               else if is_space c then Some [p] else None))"

definition inet_aton :: "string \<Rightarrow> u32 option" where
  "inet_aton s =
     (case address_parts 4 s of
        Some [a] \<Rightarrow> Some a
      | Some [a, b] \<Rightarrow> if a \<le> 0xFF \<and> b \<le> 0xFFFFFF then Some (push_bit 24 a OR b) else None
      | Some [a, b, c] \<Rightarrow> if a \<le> 0xFF \<and> b \<le> 0xFF \<and> c \<le> 0xFFFF then Some (push_bit 24 a OR push_bit 16 b OR c) else None
      | Some [a, b, c, d] \<Rightarrow>
          if a \<le> 0xFF \<and> b \<le> 0xFF \<and> c \<le> 0xFF \<and> d \<le> 0xFF
          then Some (push_bit 24 a OR push_bit 16 b OR push_bit 8 c OR d) else None
      | _ \<Rightarrow> None)"

definition address_byte :: "nat \<Rightarrow> u32 \<Rightarrow> string" where
  "address_byte i a = dec_nat (unat (drop_bit (8 * i) a) mod 256)"

definition inet_ntoa :: "u32 \<Rightarrow> string" where
  "inet_ntoa a = address_byte 3 a @ ''.'' @ address_byte 2 a @ ''.'' @ address_byte 1 a @ ''.'' @ address_byte 0 a"

text \<open>The address is in host order.\<close>

fun mask_zeros :: "nat \<Rightarrow> u32 \<Rightarrow> nat \<Rightarrow> nat" where
  "mask_zeros 0 a masklen = masklen"
| "mask_zeros (Suc k) a masklen = (if a \<ge> push_bit masklen 0xFFFFFFFF then masklen else mask_zeros k a (masklen + 1))"

definition netmasklen :: "u32 \<Rightarrow> int" where
  "netmasklen a = 32 - int (mask_zeros 32 a 0)"

section \<open>Routes\<close>

definition route_var :: "string \<Rightarrow> bool \<Rightarrow> nat \<Rightarrow> string \<Rightarrow> string" where
  "route_var family incl n suffix = ''CISCO_'' @ family @ ''SPLIT_'' @ (if incl then ''IN'' else ''EX'') @ ''C_'' @ dec_nat n @ suffix"

text \<open>
  One route: the result, the route as it is left, the counters and the environment. The slash of an IPv6 route is overwritten and not put back.
\<close>

type_synonym routes_state = "nat \<times> nat \<times> environment"

definition process_split_xxclude :: "bool \<Rightarrow> string \<Rightarrow> routes_state \<Rightarrow> int \<times> string \<times> routes_state" where
  "process_split_xxclude incl route st =
     (case st of (v4, v6, e) \<Rightarrow>
        if CHR ''/'' \<notin> set route then (err EINVAL, route, st)
        else let addr = takeWhile (\<lambda>c. c \<noteq> CHR ''/'') route; bits = tl (dropWhile (\<lambda>c. c \<noteq> CHR ''/'') route) in
          if CHR '':'' \<in> set addr then
            (0, addr, v4, v6 + 1,
             setenv (route_var ''IPV6_'' incl v6 ''_MASKLEN'') bits (setenv (route_var ''IPV6_'' incl v6 ''_ADDR'') addr e))
          else if inet_aton addr = None then (err EINVAL, route, st)
          else let e = setenv (route_var [] incl v4 ''_ADDR'') addr e in
            case inet_aton bits of
              None \<Rightarrow> (err EINVAL, route, v4, v6, e)
            | Some m \<Rightarrow>
                (0, route, v4 + 1, v6,
                 setenv_int (route_var [] incl v4 ''_MASKLEN'') (netmasklen m) (setenv (route_var [] incl v4 ''_MASK'') bits e)))"

fun process_routes :: "bool \<Rightarrow> string list \<Rightarrow> routes_state \<Rightarrow> string list \<times> routes_state" where
  "process_routes incl [] st = ([], st)"
| "process_routes incl (r # rs) st =
     (case process_split_xxclude incl r st of (_, r, st) \<Rightarrow>
        case process_routes incl rs st of (rs, st) \<Rightarrow> (r # rs, st))"

definition split_routes :: "bool \<Rightarrow> string list \<Rightarrow> environment \<Rightarrow> string list \<times> environment" where
  "split_routes incl rs e =
     (case process_routes incl rs (0, 0, e) of (rs, v4, v6, e) \<Rightarrow>
        let var = (if incl then ''SPLIT_INC'' else ''SPLIT_EXC'');
            e = (if v4 = 0 then e else setenv_int (''CISCO_'' @ var) (int v4) e) in
        (rs, if v6 = 0 then e else setenv_int (''CISCO_IPV6_'' @ var) (int v6) e))"

section \<open>The script's environment\<close>

text \<open>The banner has its per cent escapes undone; a null character ends it.\<close>

function banner_text :: "string \<Rightarrow> string" where
  "banner_text [] = []"
| "banner_text (c # s) =
     (if c = CHR ''%'' \<and> 2 \<le> length s \<and> hex_value (s ! 0) \<noteq> None \<and> hex_value (s ! 1) \<noteq> None
      then char_of (unat (unhex (s ! 0) (s ! 1))) # banner_text (drop 2 s)
      else c # banner_text s)"
  by pat_completeness auto
termination
  by (relation "measure length") auto

definition set_banner :: "string option \<Rightarrow> bool \<Rightarrow> environment \<Rightarrow> environment" where
  "set_banner text mem e =
     (case text of
        Some s \<Rightarrow> if mem then setenv ''CISCO_BANNER'' (banner_text s) e else unsetenv ''CISCO_BANNER'' e
      | None \<Rightarrow> unsetenv ''CISCO_BANNER'' e)"

text \<open>The last of the lines loses its newline, for which there is no room beside the null character.\<close>

definition setenv_cstp_opts :: "(string \<times> string) list \<Rightarrow> bool \<Rightarrow> environment \<Rightarrow> environment" where
  "setenv_cstp_opts options mem e =
     (if mem then setenv ''CISCO_CSTP_OPTIONS'' (butlast (concat (map (\<lambda>(n, x). n @ ''='' @ x @ [CHR 0x0A]) options))) e else e)"

definition set_servers :: "string \<Rightarrow> string option list \<Rightarrow> environment \<Rightarrow> environment" where
  "set_servers name servers e =
     (let add = (\<lambda>s e. case s of None \<Rightarrow> e | Some x \<Rightarrow> appendenv name x e) in
      add (servers ! 2) (add (servers ! 1) (case servers ! 0 of None \<Rightarrow> unsetenv name e | Some x \<Rightarrow> setenv name x e)))"

definition set_ip4 :: "oc_ip_info \<Rightarrow> environment \<Rightarrow> environment" where
  "set_ip4 ip e =
     (case ip_addr ip of
        None \<Rightarrow> e
      | Some a \<Rightarrow>
          let e = setenv ''INTERNAL_IP4_ADDRESS'' a e in
          case ip_netmask ip of
            None \<Rightarrow> e
          | Some m \<Rightarrow>
              (case (inet_aton a, inet_aton m) of
                 (Some addr, Some bits) \<Rightarrow>
                   setenv_int ''INTERNAL_IP4_NETMASKLEN'' (netmasklen bits)
                     (setenv ''INTERNAL_IP4_NETMASK'' m (setenv ''INTERNAL_IP4_NETADDR'' (inet_ntoa (addr AND bits)) e))
               | _ \<Rightarrow> e))"

text \<open>An IPv6 address without a netmask is a null pointer given to \<open>setenv\<close>.\<close>

definition set_ip6 :: "oc_ip_info \<Rightarrow> environment \<Rightarrow> environment option" where
  "set_ip6 ip e =
     (case (ip_addr6 ip, ip_netmask6 ip) of
        (Some a, Some m) \<Rightarrow> Some (setenv ''INTERNAL_IP6_NETMASK'' m (setenv ''INTERNAL_IP6_ADDRESS'' a e))
      | (Some a, None) \<Rightarrow> None
      | (None, Some m) \<Rightarrow>
          let e = setenv ''INTERNAL_IP6_NETMASK'' m e in
          Some (if CHR ''/'' \<in> set m then setenv ''INTERNAL_IP6_ADDRESS'' (takeWhile (\<lambda>c. c \<noteq> CHR ''/'') m) e else e)
      | (None, None) \<Rightarrow> Some e)"

text \<open>\<open>getnameinfo\<close> of the gateway, and the three allocations.\<close>

record script_answers =
  sa_gateway :: "string option"
  sa_banner_mem :: bool
  sa_dns_mem :: bool
  sa_options_mem :: bool

fun comma_text :: "string list \<Rightarrow> string" where
  "comma_text [] = []"
| "comma_text [x] = x"
| "comma_text (x # xs) = x @ '','' @ comma_text xs"

definition set_optional :: "string \<Rightarrow> string option \<Rightarrow> environment \<Rightarrow> environment" where
  "set_optional name val e = (case val of None \<Rightarrow> e | Some x \<Rightarrow> setenv name x e)"

definition set_script_env ::
  "script_answers \<Rightarrow> string option \<Rightarrow> oc_ip_info \<Rightarrow> (string \<times> string) list \<Rightarrow> environment \<Rightarrow> (oc_ip_info \<times> environment) option" where
  "set_script_env sa banner_msg ip options e =
     (let e = set_optional ''VPNGATEWAY'' (sa_gateway sa) e;
          e = set_banner banner_msg (sa_banner_mem sa) e;
          e = unsetenv ''CISCO_SPLIT_EXC'' (unsetenv ''CISCO_SPLIT_INC'' e);
          e = setenv_int ''INTERNAL_IP4_MTU'' (ip_mtu ip) e in
      case set_ip6 ip (set_ip4 ip e) of
        None \<Rightarrow> None
      | Some e \<Rightarrow>
          let e = set_servers ''INTERNAL_IP4_NBNS'' (ip_nbns ip) (set_servers ''INTERNAL_IP4_DNS'' (ip_dns ip) e);
              e = (case ip_domain ip of None \<Rightarrow> unsetenv ''CISCO_DEF_DOMAIN'' e | Some d \<Rightarrow> setenv ''CISCO_DEF_DOMAIN'' d e);
              e = set_optional ''CISCO_PROXY_PAC'' (ip_proxy_pac ip) e;
              e = (if ip_split_dns ip \<noteq> [] \<and> sa_dns_mem sa then setenv ''CISCO_SPLIT_DNS'' (comma_text (ip_split_dns ip)) e else e);
              (incs, e) = split_routes True (ip_split_includes ip) e;
              (excs, e) = split_routes False (ip_split_excludes ip) e in
          Some (ip\<lparr>ip_split_includes := incs, ip_split_excludes := excs\<rparr>, setenv_cstp_opts options (sa_options_mem sa) e))"

lemma mask_value: "r \<le> 32 \<Longrightarrow> unat (push_bit r (0xFFFFFFFF :: u32)) = 2 ^ 32 - 2 ^ r"
proof -
  assume r: "r \<le> 32"
  have le: "(2 :: nat) ^ r \<le> 2 ^ 32" "1 \<le> (2 :: nat) ^ r" by (rule power_increasing [OF r]) simp_all
  have e: "4294967295 * 2 ^ r = (2 ^ 32 - 2 ^ r) + (2 ^ r - 1) * (2 :: nat) ^ 32"
    using le by (simp add: diff_mult_distrib)
  have "unat (push_bit r (0xFFFFFFFF :: u32)) = take_bit 32 (push_bit r (unat (0xFFFFFFFF :: u32)))"
    using unsigned_push_bit_eq [of r "0xFFFFFFFF :: u32", where 'a = nat] by (simp only: len_num0 len_bit0 len_num1) simp
  also have "\<dots> = take_bit 32 (4294967295 * 2 ^ r)" by (simp add: push_bit_eq_mult)
  also have "\<dots> = (2 ^ 32 - 2 ^ r + (2 ^ r - 1) * (2 :: nat) ^ 32) mod 2 ^ 32" unfolding e by (rule take_bit_eq_mod)
  also have "\<dots> = 2 ^ 32 - 2 ^ r" using le by (subst mod_mult_self1) (simp add: mod_less)
  finally show ?thesis .
qed

lemma mask_reached:
  assumes "r \<le> 32"
  shows "push_bit r (0xFFFFFFFF :: u32) \<le> a \<longleftrightarrow> (\<forall>i. r \<le> i \<and> i < 32 \<longrightarrow> bit a i)"
proof -
  let ?n = "unat a"
  have lt: "?n < 2 ^ 32" using unsigned_less [of a] by simp
  have p: "(2 :: nat) ^ 32 = 2 ^ r * 2 ^ (32 - r)" using assms by (simp flip: power_add)
  have "push_bit r (0xFFFFFFFF :: u32) \<le> a \<longleftrightarrow> 2 ^ 32 - 2 ^ r \<le> ?n"
    by (simp only: word_le_nat_alt mask_value [OF assms])
  also have "\<dots> \<longleftrightarrow> 2 ^ (32 - r) - 1 \<le> ?n div 2 ^ r"
  proof -
    have "(2 :: nat) ^ 32 - 2 ^ r = (2 ^ (32 - r) - 1) * 2 ^ r" unfolding p by (simp add: diff_mult_distrib2 mult.commute)
    then show ?thesis by (simp add: less_eq_div_iff_mult_less_eq)
  qed
  also have "\<dots> \<longleftrightarrow> drop_bit r ?n = mask (32 - r)"
  proof -
    have "?n div 2 ^ r < 2 ^ (32 - r)" using lt p by (simp add: less_mult_imp_div_less mult.commute)
    then show ?thesis by (auto simp: drop_bit_eq_div mask_eq_exp_minus_1)
  qed
  also have "\<dots> \<longleftrightarrow> (\<forall>j. j < 32 - r \<longrightarrow> bit a (r + j))"
  proof -
    have "bit ?n k \<longleftrightarrow> bit a k" for k by (simp add: bit_unsigned_iff)
    moreover have "\<not> bit a (r + j)" if "\<not> j < 32 - r" for j
      using that assms by (auto dest: bit_imp_le_length)
    ultimately show ?thesis by (auto simp: bit_eq_iff bit_drop_bit_eq bit_mask_iff)
  qed
  also have "\<dots> \<longleftrightarrow> (\<forall>i. r \<le> i \<and> i < 32 \<longrightarrow> bit a i)"
  proof (rule iffI; intro allI impI)
    fix i
    assume all: "\<forall>j. j < 32 - r \<longrightarrow> bit a (r + j)" and i: "r \<le> i \<and> i < 32"
    have "i - r < 32 - r" using i by (intro diff_less_mono) simp_all
    with all have "bit a (r + (i - r))" by blast
    then show "bit a i" using i by simp
  next
    fix j
    assume "\<forall>i. r \<le> i \<and> i < 32 \<longrightarrow> bit a i" "j < 32 - r"
    then show "bit a (r + j)" by simp
  qed
  finally show ?thesis .
qed


lemma mask_zeros_least:
  assumes "m + k = 32"
  shows "m \<le> mask_zeros k a m \<and> mask_zeros k a m \<le> 32 \<and> (\<forall>i. mask_zeros k a m \<le> i \<and> i < 32 \<longrightarrow> bit a i) \<and>
    (m < mask_zeros k a m \<longrightarrow> \<not> bit a (mask_zeros k a m - 1))"
  using assms
proof (induction k arbitrary: m)
  case (Suc k)
  show ?case
  proof (cases "push_bit m (0xFFFFFFFF :: u32) \<le> a")
    case True
    then show ?thesis using mask_reached [of m a] Suc.prems by auto
  next
    case False
    then have no: "\<not> (\<forall>i. m \<le> i \<and> i < 32 \<longrightarrow> bit a i)" using mask_reached [of m a] Suc.prems by simp
    let ?r = "mask_zeros k a (m + 1)"
    have IH: "m + 1 \<le> ?r" "?r \<le> 32" "\<forall>i. ?r \<le> i \<and> i < 32 \<longrightarrow> bit a i" "m + 1 < ?r \<longrightarrow> \<not> bit a (?r - 1)"
      using Suc.IH [of "m + 1"] Suc.prems by auto
    have "\<not> bit a (?r - 1)"
    proof (cases "?r = m + 1")
      case True
      have "bit a i" if "bit a m" "m \<le> i" "i < 32" for i
        using IH(3) that unfolding True by (cases "i = m") (simp_all add: Suc_le_eq)
      with no have "\<not> bit a m" by blast
      then show ?thesis unfolding True by simp
    qed (use IH in simp)
    moreover have "mask_zeros (Suc k) a m = ?r" using False by simp
    ultimately show ?thesis using IH(1-3) by (auto simp del: mask_zeros.simps)
  qed
qed (use assms in auto)

text \<open>
  C35 (netmask_length): The length of a netmask is the number of ones it begins with: 32 for all ones, and otherwise the number of
  those before the first zero, whatever follows that.
\<close>

theorem netmask_length:
  "netmasklen a = int n \<longleftrightarrow> n \<le> 32 \<and> (\<forall>i < n. bit a (31 - i)) \<and> (n = 32 \<or> \<not> bit a (31 - n))"
proof -
  define r where "r = mask_zeros 32 a 0"
  have r: "r \<le> 32" "\<And>i. r \<le> i \<Longrightarrow> i < 32 \<Longrightarrow> bit a i" "0 < r \<Longrightarrow> \<not> bit a (r - 1)"
    using mask_zeros_least [of 0 32 a] by (auto simp: r_def)
  have len: "netmasklen a = int n \<longleftrightarrow> n = 32 - r" using r(1) by (auto simp: netmasklen_def r_def [symmetric])
  have ones: "bit a (31 - i)" if "i < 32 - r" for i using r(2) [of "31 - i"] that by simp
  have zero: "\<not> bit a (31 - (32 - r))" if "r \<noteq> 0"
  proof -
    have "31 - (32 - r) = r - 1" using r(1) that by simp
    then show ?thesis using r(3) that by simp
  qed
  have "n = 32 - r" if n: "n \<le> 32" "\<forall>i < n. bit a (31 - i)" "n = 32 \<or> \<not> bit a (31 - n)"
  proof (rule linorder_cases [of n "32 - r"])
    assume "n < 32 - r"
    then show ?thesis using ones [of n] n(3) by auto
  next
    assume "32 - r < n"
    then show ?thesis using n(1,2) zero r(1) by (metis diff_zero not_less)
  qed
  then show ?thesis unfolding len using r(1) ones zero by auto
qed

theorem netmask_length_witness:
  "inet_aton ''255.255.240.0'' = Some 0xFFFFF000 \<and> netmasklen 0xFFFFF000 = int 20"
  unfolding netmask_length by (rule conjI, code_simp, code_simp)

end
