(* ===== verification/Spec2Isabelle.thy ===== *)
theory Spec2Isabelle
  imports Pkt_Queue Keepalive Text_Buf Base64 Vpn_State Tun_Loop Cmd_Fd Cstp_Connect Cstp_Reconnect Dtls Cstp_Loop
    Tunnel_Flow Mainloop Forwarding Md4 Des Utf16 Http_State Ntlm
    Digest Net_Io Http Http_Facts Proxy Proxy_Auth Proxy_Facts
    Xml_Tree Auth_Form Form_Post Form_Query Form_Facts Obtain_Cookie Login_Facts Settings Script_Env
begin

text \<open>
  OpenConnect for iOS: a model of the VPN client library under \<open>src/core/\<close> (OpenConnect 7.07 as the app builds it: OpenSSL, zlib and
  libxml2, without GSSAPI, libstoken and liboath, on an Apple system), and what makes it correct. The files of
  the same names under \<open>src/openvpn/\<close> are copies.

  \<^bold>\<open>The program.\<close> A session has two phases. \<open>openconnect_obtain_cookie\<close> (\<open>http.c\<close>) talks HTTPS to the server, possibly through a
  proxy: it probes for the kind of form the server wants, runs the server's host scan, lets the application fill in forms
  (\<open>auth.c\<close>) and ends with a session cookie. Then \<open>openconnect_make_cstp_connection\<close> (\<open>cstp.c\<close>) asks for a tunnel with that
  cookie, \<open>openconnect_setup_dtls\<close> (\<open>dtls.c\<close>) prepares a second one over DTLS, and \<open>openconnect_mainloop\<close> (\<open>mainloop.c\<close>) moves
  packets between the tun device (\<open>tun.c\<close>) and the two tunnels, keeps them alive, reconnects, and obeys the command pipe (\<open>ssl.c\<close>) until
  the session is paused or ends. All of it works on one structure, \<open>struct openconnect_info\<close>.

  \<^bold>\<open>The two views of the structure.\<close> The tunnel's is \<open>vpninfo\<close> (\<open>Vpn_State\<close>), the HTTP side's \<open>http_info\<close> with the login's fields in
  \<open>login_state\<close> (\<open>Http_State\<close>). Each has the fields that its operations read and write, and beside them the world: answers in
  the order in which the calls that leave the program take them (clock, \<open>malloc\<close>, sockets, \<open>SSL_read\<close>, \<open>SSL_write\<close>, the tun
  device, random bytes, commands), and a log of what the program sends or does. A theorem that holds for every
  state of the model holds for every such list. When a list is used up, a call finds nothing to read, a full socket or a success, as \<open>Vpn_State\<close> and
  \<open>Net_Io\<close> say for each. The connection of the HTTP side is a \<open>transport\<close>, a record of operations, of which TLS and the plain socket to a
  proxy are the two instances.

  \<^bold>\<open>Conventions.\<close> An operation returns the new state, and an error as the code does, as a negative number. \<open>None\<close> is a run that
  leaves the defined behaviour of C (a null pointer, memory beyond a buffer) or does not return. A loop
  whose end is not evident is a \<open>partial_function\<close> over \<open>option\<close>, never cut off by a number of steps, so that a theorem
  that gives a \<open>Some\<close> shows that it ends; no fuel is used. Loops over the answers of the world end when these do; where it matters that the
  code would end anyway, a theorem bounds the answers that are used (\<open>Cstp_Loop\<close>, \<open>Proxy_Facts\<close>, \<open>Login_Facts\<close>). \<open>int\<close> is
  HOL's \<open>int\<close> with \<open>to_int\<close> where the code converts to 32 bits or a product may overflow (which is taken to wrap); words
  are \<open>u8\<close>, \<open>u16\<close>, \<open>u32\<close>, \<open>u64\<close>. Copies by \<open>strdup\<close> that the code does not check are taken to succeed unless the
  definition asks for memory. Log messages are left out.

  \<^bold>\<open>The tunnel.\<close>
  \<^item> \<open>Pkt_Queue\<close>: \<open>queue_packet\<close> on a heap of cells and on lists, with a refinement lemma; the locale \<open>fifo\<close> is what the
    loops need of a queue.
  \<^item> \<open>Keepalive\<close>: the timers of \<open>mainloop.c\<close>, against the list of their deadlines.
  \<^item> \<open>Vpn_State\<close>: the tunnel's state and world; \<open>script_config_tun\<close> of \<open>script.c\<close>.
  \<^item> \<open>Tun_Loop\<close>: \<open>os_read_tun\<close>, \<open>os_write_tun\<close>, \<open>os_shutdown_tun\<close> of \<open>tun.c\<close> and \<open>tun_mainloop\<close>. Its lemmas: the
    outgoing queue stays within its limit, and the device gets exactly the frames of the incoming packets that it accepts.
  \<^item> \<open>Cmd_Fd\<close>: the command pipe (\<open>ssl.c\<close>) and \<open>openconnect_close_https\<close>.
  \<^item> \<open>Cstp_Connect\<close>, \<open>Cstp_Reconnect\<close>: the CONNECT request, the response header by header, compression, the retries.
  \<^item> \<open>Cstp_Loop\<close>: \<open>cstp_mainloop\<close>, its labels the values of \<open>cstp_goto\<close>. Its lemmas: conservation of outgoing packets, framing and
    compression read back, the bound on the records written in one moment.
  \<^item> \<open>Dtls\<close>: the DTLS session, its set-up from the server's options, \<open>dtls_mainloop\<close>; conservation and the invariant of the session.
  \<^item> \<open>Tunnel_Flow\<close>, \<open>Mainloop\<close>, \<open>Forwarding\<close>: the main loop over all of these. \<open>turns\<close> is its step relation, the locale
    \<open>turn_invariant\<close> what a turn has to keep for an invariant of the loop; it is interpreted on the limit of the queue and on the
    packets that wait for the tun device. The list of changes given to \<open>main_loop\<close> is what happens to the world in each \<open>select\<close>.

  \<^bold>\<open>The HTTP side.\<close>
  \<^item> \<open>Text_Buf\<close>, \<open>Base64\<close>: \<open>struct oc_text_buf\<close> and base64 of \<open>http.c\<close>; the locale \<open>sink\<close> is the contract of a buffer (errors stick,
    without one the contents are the pieces), interpreted on both ways of appending.
  \<^item> \<open>Md4\<close>, \<open>Des\<close>, \<open>Utf16\<close>, \<open>Ntlm\<close>: \<open>ntlm.c\<close>, against RFC 1320, the Feistel structure (locale \<open>feistel\<close>), RFC 3629 and a reader of the
    message.
  \<^item> \<open>Digest\<close>: \<open>digest.c\<close> against RFC 2617. \<open>Net_Io\<close>: reading and writing below HTTP, the locale \<open>byte_source\<close> interpreted on TLS and on the
    plain socket.
  \<^item> \<open>Http\<close>, \<open>Http_Facts\<close>: cookies, responses, requests, URLs and redirects of \<open>http.c\<close>; the locale \<open>client_invariant\<close> is what a
    response has to keep for an invariant of the client. \<open>Proxy\<close>, \<open>Proxy_Auth\<close>, \<open>Proxy_Facts\<close>: SOCKS and HTTP proxies and the
    socket (\<open>ssl.c\<close>).
  \<^item> \<open>Xml_Tree\<close>, \<open>Auth_Form\<close>, \<open>Form_Post\<close>, \<open>Form_Query\<close>, \<open>Form_Facts\<close>: the part of libxml2 that is called, and \<open>auth.c\<close>:
    reading a form, asking for it, writing it as a query string or as XML.
  \<^item> \<open>Obtain_Cookie\<close>, \<open>Login_Facts\<close>: the login as a whole; the locale \<open>request_invariant\<close> extends \<open>client_invariant\<close> to requests.
  \<^item> \<open>Settings\<close>, \<open>Script_Env\<close>: settings of \<open>library.c\<close>, the server list of \<open>xml.c\<close>, the script's environment of \<open>script.c\<close>.
  \<^item> \<open>Prelude\<close>: strings, C conversions, error numbers, generic lemmas.

  \<^bold>\<open>Properties.\<close> They are numbered C1 to C40 in the texts before them: conservation, order and bounds of the packets in each loop and
  in the main loop (C1 to C4, C8, C13, C27, C36); what a session's start, end and reconnection leave (C19, C20, C24, C28), the timers (C18); what the server
  can make the client do (C5, C6, C11, C12, C15, C26); what is written and read on the wire (C14, C16, C17, C22, C29 to C33, C37, C38, C40);
  the cryptographic routines and messages against their standards (C7, C21, C23, C39); proxies (C9, C10, C32); options, hosts, masks
  (C25, C34, C35). Where the code is wrong, the theorem says exactly what it does, or under which conditions it is right. Theorems without a number are of use in later proofs, or
  show a fault.

  \<^bold>\<open>Parameters.\<close> zlib (\<open>zlib\<close>, with what is documented of a pair of streams as \<open>in_step\<close>), MD5 and SHA-1, the XML parser, the application that
  fills in a form, the opener of TLS connections, \<open>inet_aton\<close> and the file system are arguments of the definitions that use them.

  \<^bold>\<open>Not modelled.\<close> Opening a TLS connection and checking the peer's certificate (\<open>openssl.c\<close>, calls of OpenSSL nearly throughout), opening the tun
  device and the script's tunnel (ioctls, fork), the creation and freeing of the structure, \<open>gssapi.c\<close> and \<open>sspi.c\<close> (not built),
  \<open>compat.c\<close>, the command line \<open>main.c\<close>, the Objective-C app, and the vendored libraries. Freeing of memory is left out, but where
  a freed pointer is used later.
\<close>

end
